(* ===== verification/Prelude.thy ===== *)
theory Prelude
  imports Complex_Main "HOL-Library.Word"
begin

text \<open>
  Shared vocabulary of the development: the byte strings that the benchmark
  clients exchange, the little- and big-endian integer codecs of Python's
  \<^verbatim>\<open>struct\<close> module, the rounding of Python's \<^verbatim>\<open>round\<close>, and the list facts that
  several components need.  The collections declared here are filled by the
  component theories.
\<close>

named_theorems wire_simps \<open>unfolding rules for the wire constants\<close>
named_theorems io_step \<open>execution rules of the effect primitives\<close>

type_synonym byte = "8 word"
type_synonym bytes = "8 word list"

section \<open>Integers as byte strings\<close>

text \<open>\<^verbatim>\<open>struct.pack("<I", n)\<close> and \<^verbatim>\<open>struct.pack("<Q", n)\<close> are the first argument at 4
  and 8; \<^verbatim>\<open>struct.pack(">H", n)\<close> is the reversed list at 2.\<close>

fun pack_le :: "nat \<Rightarrow> nat \<Rightarrow> bytes" where
  "pack_le 0 n = []"
| "pack_le (Suc k) n = word_of_nat n # pack_le k (n div 256)"

fun unpack_le :: "bytes \<Rightarrow> nat" where
  "unpack_le [] = 0"
| "unpack_le (b # bs) = unat b + 256 * unpack_le bs"

definition pack_be :: "nat \<Rightarrow> nat \<Rightarrow> bytes" where
  "pack_be k n = rev (pack_le k n)"

definition unpack_be :: "bytes \<Rightarrow> nat" where
  "unpack_be bs = unpack_le (rev bs)"

section \<open>Rounding\<close>

text \<open>Python's \<^verbatim>\<open>round\<close> rounds half to even; the second argument of \<^verbatim>\<open>round_digits\<close> is
  the number of decimals.\<close>

definition round_half_even :: "real \<Rightarrow> int" where
  "round_half_even x =
     (let f = \<lfloor>x\<rfloor>; d = x - of_int f in
      if d < 1 / 2 then f
      else if 1 / 2 < d then f + 1
      else if even f then f else f + 1)"

definition round_digits :: "nat \<Rightarrow> real \<Rightarrow> real" where
  "round_digits k x = of_int (round_half_even (x * 10 ^ k)) / 10 ^ k"

section \<open>Codec lemmas\<close>

lemma pack_le_numeral:
  "pack_le (numeral k) n = word_of_nat n # pack_le (pred_numeral k) (n div 256)"
  by (simp only: numeral_eq_Suc [of k] pack_le.simps)

lemma length_pack_le [simp]: "length (pack_le k n) = k"
  by (induction k arbitrary: n) auto

lemma length_pack_be [simp]: "length (pack_be k n) = k"
  by (simp add: pack_be_def)

lemma unat_byte_of_nat [simp]: "unat (word_of_nat n :: byte) = n mod 256"
  by (simp add: unat_of_nat)

lemma unat_byte_less [simp]: "unat (b :: byte) < 256"
  using unsigned_less [of b, where 'a = nat] by simp

lemma unpack_pack_mod: "unpack_le (pack_le k n) = n mod 256 ^ k"
  by (induction k arbitrary: n) (simp_all add: mod_mult2_eq)

lemma unpack_pack_le [simp]: "n < 256 ^ k \<Longrightarrow> unpack_le (pack_le k n) = n"
  by (simp add: unpack_pack_mod)

lemma unpack_pack_be: "n < 256 ^ k \<Longrightarrow> unpack_be (pack_be k n) = n"
  by (simp add: unpack_be_def pack_be_def)

lemma unpack_le_bound: "unpack_le bs < 256 ^ length bs"
proof (induction bs)
  case (Cons b bs)
  have "unat b + 256 * unpack_le bs < 256 + 256 * unpack_le bs" by simp
  also have "\<dots> = 256 * Suc (unpack_le bs)" by simp
  also have "\<dots> \<le> 256 * 256 ^ length bs"
    using Cons.IH by (intro mult_le_mono2) simp
  finally show ?case by simp
qed simp

lemma pack_unpack_le [simp]: "pack_le (length bs) (unpack_le bs) = bs"
proof (induction bs)
  case (Cons b bs)
  have "unat (word_of_nat (unat b + 256 * unpack_le bs) :: byte) = unat b"
    by (simp only: unat_byte_of_nat) simp
  then have "word_of_nat (unat b + 256 * unpack_le bs) = b"
    by (simp only: unsigned_word_eqI)
  moreover have "(unat b + 256 * unpack_le bs) div 256 = unpack_le bs"
    by simp
  ultimately show ?case using Cons.IH by simp
qed simp

lemma pack_le_inj:
  assumes "m < 256 ^ k" "n < 256 ^ k" "pack_le k m = pack_le k n"
  shows "m = n"
proof -
  have "unpack_le (pack_le k m) = unpack_le (pack_le k n)" using assms(3) by (rule arg_cong)
  then show ?thesis by (simp only: unpack_pack_le [OF assms(1)] unpack_pack_le [OF assms(2)])
qed

section \<open>Rounding lemmas\<close>

lemma round_half_even_of_int [simp]: "round_half_even (of_int n) = n"
  by (simp add: round_half_even_def)

lemma round_half_even_error: "\<bar>of_int (round_half_even x) - x\<bar> \<le> 1 / 2"
proof -
  define f where "f = \<lfloor>x\<rfloor>"
  have f: "of_int f \<le> x" "x < of_int f + 1"
    unfolding f_def by (rule of_int_floor_le, rule real_of_int_floor_add_one_gt)
  consider "x - of_int f < 1 / 2" | "1 / 2 < x - of_int f" | "x - of_int f = 1 / 2"
    by linarith
  then show ?thesis
    by cases (use f in \<open>simp_all add: round_half_even_def f_def [symmetric] abs_le_iff\<close>)
qed

lemma round_digits_error: "\<bar>round_digits k x - x\<bar> \<le> 1 / (2 * 10 ^ k)"
proof -
  have "round_digits k x - x = (of_int (round_half_even (x * 10 ^ k)) - x * 10 ^ k) / 10 ^ k"
    by (simp add: round_digits_def diff_divide_distrib)
  then have "\<bar>round_digits k x - x\<bar> = \<bar>of_int (round_half_even (x * 10 ^ k)) - x * 10 ^ k\<bar> / 10 ^ k"
    by (simp add: abs_divide)
  also have "\<dots> \<le> (1 / 2) / 10 ^ k"
    by (intro divide_right_mono round_half_even_error) simp
  finally show ?thesis by simp
qed

section \<open>List lemmas\<close>

lemma card_set_length_distinct: "card (set xs) = length xs \<longleftrightarrow> distinct xs"
  by (auto intro: card_distinct distinct_card)

end
