(* ===== verification/PyIO.thy ===== *)
theory PyIO
  imports Prelude
begin

text \<open>
  Effects of the Python sources.  A statement is a function from the state of
  the world to an outcome and a new state; the outcome is a value, a raised
  exception or \<^verbatim>\<open>Diverge\<close> (the statement does not return).  The combinators
  are those of the language: sequencing, \<^verbatim>\<open>try ... except\<close>, \<^verbatim>\<open>try ... finally\<close>
  and \<^verbatim>\<open>for\<close>.  The second half gives the two program logics used in the
  development: Hoare triples with an exceptional postcondition, and relations
  between the first and the last state that every statement respects.
\<close>

named_theorems hoare \<open>rules of the triples, one per combinator or operation\<close>

section \<open>Exceptions\<close>

text \<open>The built-in classes the sources raise or catch, the modules' own classes, and the
  exceptions of the standard library that reach a handler.\<close>

datatype exn_class =
    KeyboardInterrupt | SystemExit int
  | Exception | RuntimeError | ValueError | KeyError | IndexError | TypeError
  | AttributeError | StructError | UnicodeError
  | OSError | FileNotFoundError | TimeoutError | BlockingIOError
  | ConnectionError | BrokenPipeError | ConnectionResetError
  | ConnectionAbortedError | ConnectionRefusedError
  | CalledProcessError | TimeoutExpired | PexpectTimeout | PexpectEof
  | TestError | TestProtocolError | TestSocksError
  | LoadGenError | LoadProtocolError | LoadSocksError
  | BenchmarkError | Bt06Error

text \<open>The method resolution order of each class, itself first.\<close>

fun supers :: "exn_class \<Rightarrow> exn_class list" where
  "supers KeyboardInterrupt = [KeyboardInterrupt]"
| "supers (SystemExit n) = [SystemExit n]"
| "supers Exception = [Exception]"
| "supers RuntimeError = [RuntimeError, Exception]"
| "supers ValueError = [ValueError, Exception]"
| "supers KeyError = [KeyError, Exception]"
| "supers IndexError = [IndexError, Exception]"
| "supers TypeError = [TypeError, Exception]"
| "supers AttributeError = [AttributeError, Exception]"
| "supers StructError = [StructError, Exception]"
| "supers UnicodeError = [UnicodeError, ValueError, Exception]"
| "supers OSError = [OSError, Exception]"
| "supers FileNotFoundError = [FileNotFoundError, OSError, Exception]"
| "supers TimeoutError = [TimeoutError, OSError, Exception]"
| "supers BlockingIOError = [BlockingIOError, OSError, Exception]"
| "supers ConnectionError = [ConnectionError, OSError, Exception]"
| "supers BrokenPipeError = [BrokenPipeError, ConnectionError, OSError, Exception]"
| "supers ConnectionResetError = [ConnectionResetError, ConnectionError, OSError, Exception]"
| "supers ConnectionAbortedError = [ConnectionAbortedError, ConnectionError, OSError, Exception]"
| "supers ConnectionRefusedError = [ConnectionRefusedError, ConnectionError, OSError, Exception]"
| "supers CalledProcessError = [CalledProcessError, Exception]"
| "supers TimeoutExpired = [TimeoutExpired, Exception]"
| "supers PexpectTimeout = [PexpectTimeout, Exception]"
| "supers PexpectEof = [PexpectEof, Exception]"
| "supers TestError = [TestError, RuntimeError, Exception]"
| "supers TestProtocolError = [TestProtocolError, TestError, RuntimeError, Exception]"
| "supers TestSocksError = [TestSocksError, TestError, RuntimeError, Exception]"
| "supers LoadGenError = [LoadGenError, RuntimeError, Exception]"
| "supers LoadProtocolError = [LoadProtocolError, LoadGenError, RuntimeError, Exception]"
| "supers LoadSocksError = [LoadSocksError, LoadGenError, RuntimeError, Exception]"
| "supers BenchmarkError = [BenchmarkError, RuntimeError, Exception]"
| "supers Bt06Error = [Bt06Error, RuntimeError, Exception]"

datatype exn = Exn (exn_cls: exn_class) (exn_msg: string)

definition instance_of :: "exn \<Rightarrow> exn_class \<Rightarrow> bool" where
  "instance_of e c = (c \<in> set (supers (exn_cls e)))"

definition instance_any :: "exn \<Rightarrow> exn_class list \<Rightarrow> bool" where
  "instance_any e cs = list_ex (instance_of e) cs"

section \<open>Statements\<close>

datatype 'a result = Ok 'a | Raise exn | Diverge

type_synonym ('w, 'a) io = "'w \<Rightarrow> 'a result \<times> 'w"

definition ret :: "'a \<Rightarrow> ('w, 'a) io" where
  "ret x w = (Ok x, w)"

definition throw :: "exn_class \<Rightarrow> string \<Rightarrow> ('w, 'a) io" where
  "throw c m w = (Raise (Exn c m), w)"

definition rethrow :: "exn \<Rightarrow> ('w, 'a) io" where
  "rethrow e w = (Raise e, w)"

definition diverge :: "('w, 'a) io" where
  "diverge w = (Diverge, w)"

definition bindE :: "('w, 'a) io \<Rightarrow> ('a \<Rightarrow> ('w, 'b) io) \<Rightarrow> ('w, 'b) io" where
  "bindE m f w =
     (case m w of
        (Ok x, w') \<Rightarrow> f x w'
      | (Raise e, w') \<Rightarrow> (Raise e, w')
      | (Diverge, w') \<Rightarrow> (Diverge, w'))"

definition seqE :: "('w, 'a) io \<Rightarrow> ('w, 'b) io \<Rightarrow> ('w, 'b) io" where
  "seqE m n = bindE m (\<lambda>_. n)"

definition gets :: "('w \<Rightarrow> 'a) \<Rightarrow> ('w, 'a) io" where
  "gets f w = (Ok (f w), w)"

definition modify :: "('w \<Rightarrow> 'w) \<Rightarrow> ('w, unit) io" where
  "modify f w = (Ok (), f w)"

definition whenE :: "bool \<Rightarrow> ('w, unit) io \<Rightarrow> ('w, unit) io" where
  "whenE b m = (if b then m else ret ())"

text \<open>\<^verbatim>\<open>try_except m h\<close>: the handler answers the exceptions it catches.\<close>

definition try_except :: "('w, 'a) io \<Rightarrow> (exn \<Rightarrow> ('w, 'a) io option) \<Rightarrow> ('w, 'a) io" where
  "try_except m h w =
     (case m w of
        (Ok x, w') \<Rightarrow> (Ok x, w')
      | (Raise e, w') \<Rightarrow> (case h e of Some k \<Rightarrow> k w' | None \<Rightarrow> (Raise e, w'))
      | (Diverge, w') \<Rightarrow> (Diverge, w'))"

definition catches :: "exn_class list \<Rightarrow> (exn \<Rightarrow> ('w, 'a) io) \<Rightarrow> exn \<Rightarrow> ('w, 'a) io option" where
  "catches cs k e = (if instance_any e cs then Some (k e) else None)"

text \<open>An exception raised by the finalizer replaces the pending outcome.\<close>

definition try_finally :: "('w, 'a) io \<Rightarrow> ('w, unit) io \<Rightarrow> ('w, 'a) io" where
  "try_finally m f w =
     (case m w of
        (Diverge, w') \<Rightarrow> (Diverge, w')
      | (r, w') \<Rightarrow>
          (case f w' of
             (Ok _, w'') \<Rightarrow> (r, w'')
           | (Raise e, w'') \<Rightarrow> (Raise e, w'')
           | (Diverge, w'') \<Rightarrow> (Diverge, w'')))"

text \<open>The outcome of a statement as a value, for \<^verbatim>\<open>except Exception as exc\<close> followed by
  code that goes on.\<close>

definition attempt :: "('w, 'a) io \<Rightarrow> ('w, exn + 'a) io" where
  "attempt m = try_except (bindE m (\<lambda>x. ret (Inr x))) (catches [Exception] (\<lambda>e. ret (Inl e)))"

primrec for_each :: "'a list \<Rightarrow> ('a \<Rightarrow> ('w, unit) io) \<Rightarrow> ('w, unit) io" where
  "for_each [] f = ret ()"
| "for_each (x # xs) f = seqE (f x) (for_each xs f)"

primrec map_each :: "'a list \<Rightarrow> ('a \<Rightarrow> ('w, 'b) io) \<Rightarrow> ('w, 'b list) io" where
  "map_each [] f = ret []"
| "map_each (x # xs) f = bindE (f x) (\<lambda>y. bindE (map_each xs f) (\<lambda>ys. ret (y # ys)))"

text \<open>\<^verbatim>\<open>seqs\<close> runs a block of statements.\<close>

definition seqs :: "('w, unit) io list \<Rightarrow> ('w, unit) io" where
  "seqs ms = for_each ms (\<lambda>m. m)"

section \<open>Execution rules\<close>

lemmas io_defs = ret_def throw_def rethrow_def diverge_def gets_def modify_def whenE_def

declare ret_def [io_step] throw_def [io_step] rethrow_def [io_step] gets_def [io_step]
  modify_def [io_step] whenE_def [io_step] diverge_def [io_step]

lemma bindE_Ok [io_step]: "m w = (Ok x, w') \<Longrightarrow> bindE m f w = f x w'"
  by (simp add: bindE_def)

lemma bindE_Raise [io_step]: "m w = (Raise e, w') \<Longrightarrow> bindE m f w = (Raise e, w')"
  by (simp add: bindE_def)

lemma bindE_Diverge [io_step]: "m w = (Diverge, w') \<Longrightarrow> bindE m f w = (Diverge, w')"
  by (simp add: bindE_def)

lemma seqE_Ok [io_step]: "m w = (Ok x, w') \<Longrightarrow> seqE m n w = n w'"
  by (simp add: seqE_def bindE_def)

lemma seqE_Raise [io_step]: "m w = (Raise e, w') \<Longrightarrow> seqE m n w = (Raise e, w')"
  by (simp add: seqE_def bindE_def)

lemma seqE_Diverge [io_step]: "m w = (Diverge, w') \<Longrightarrow> seqE m n w = (Diverge, w')"
  by (simp add: seqE_def bindE_def)

lemma bindE_ret [simp]: "bindE (ret x) f = f x"
  by (simp add: bindE_def ret_def fun_eq_iff)

lemma bindE_assoc: "bindE (bindE m f) g = bindE m (\<lambda>x. bindE (f x) g)"
  by (auto simp: bindE_def fun_eq_iff split: result.splits prod.splits)

lemma bindE_ret_right [simp]: "bindE m ret = m"
  by (auto simp: bindE_def ret_def fun_eq_iff split: result.splits prod.splits)

lemma bindE_OkE:
  assumes "bindE m f w = (Ok y, w'')"
  obtains x w' where "m w = (Ok x, w')" "f x w' = (Ok y, w'')"
  using assms by (auto simp: bindE_def split: result.splits prod.splits)

lemma seqE_OkE:
  assumes "seqE m n w = (Ok y, w'')"
  obtains x w' where "m w = (Ok x, w')" "n w' = (Ok y, w'')"
  using assms by (auto simp: seqE_def elim: bindE_OkE)

lemma bindE_RaiseE:
  assumes "bindE m f w = (Raise e, w'')"
  obtains "m w = (Raise e, w'')"
    | x w' where "m w = (Ok x, w')" "f x w' = (Raise e, w'')"
  using assms by (auto simp: bindE_def split: result.splits prod.splits)

lemma try_finally_Ok:
  "m w = (Ok x, w') \<Longrightarrow> f w' = (Ok (), w'') \<Longrightarrow> try_finally m f w = (Ok x, w'')"
  by (simp add: try_finally_def)

lemma try_finally_Raise:
  "m w = (Raise e, w') \<Longrightarrow> f w' = (Ok (), w'') \<Longrightarrow> try_finally m f w = (Raise e, w'')"
  by (simp add: try_finally_def)

lemma try_finally_OkE:
  assumes "try_finally m f w = (Ok x, w'')"
  obtains w' u where "m w = (Ok x, w')" "f w' = (Ok u, w'')"
  using assms by (auto simp: try_finally_def split: result.splits prod.splits)

lemma try_finally_returns:
  assumes "fst (m w) \<noteq> Diverge" and "\<And>v. fst (f v) \<noteq> Diverge"
  shows "fst (try_finally m f w) \<noteq> Diverge"
proof -
  obtain r v where m: "m w = (r, v)" by fastforce
  obtain q u where f: "f v = (q, u)" by fastforce
  have "q \<noteq> Diverge" using assms(2) [of v] f by simp
  then show ?thesis using assms(1) m f by (cases r; cases q) (simp_all add: try_finally_def)
qed

lemma try_except_Ok [io_step]: "m w = (Ok x, w') \<Longrightarrow> try_except m h w = (Ok x, w')"
  by (simp add: try_except_def)

lemma try_except_caught:
  "m w = (Raise e, w') \<Longrightarrow> h e = Some k \<Longrightarrow> try_except m h w = k w'"
  by (simp add: try_except_def)

lemma try_except_uncaught:
  "m w = (Raise e, w') \<Longrightarrow> h e = None \<Longrightarrow> try_except m h w = (Raise e, w')"
  by (simp add: try_except_def)

lemma attempt_cases:
  "attempt m w =
     (case m w of
        (Ok x, w') \<Rightarrow> (Ok (Inr x), w')
      | (Raise e, w') \<Rightarrow>
          (if instance_of e Exception then (Ok (Inl e), w') else (Raise e, w'))
      | (Diverge, w') \<Rightarrow> (Diverge, w'))"
  by (auto simp: attempt_def try_except_def bindE_def ret_def catches_def instance_any_def
      split: result.splits prod.splits)

section \<open>Hoare triples\<close>

text \<open>\<^verbatim>\<open>triple P m Q E\<close>: from a state with \<^verbatim>\<open>P\<close>, a value leaves \<^verbatim>\<open>Q\<close> and an exception leaves
  \<^verbatim>\<open>E\<close>.\<close>

definition triple ::
  "('w \<Rightarrow> bool) \<Rightarrow> ('w, 'a) io \<Rightarrow> ('a \<Rightarrow> 'w \<Rightarrow> bool) \<Rightarrow> (exn \<Rightarrow> 'w \<Rightarrow> bool) \<Rightarrow> bool" where
  "triple P m Q E \<longleftrightarrow>
     (\<forall>w. P w \<longrightarrow>
        (case m w of
           (Ok x, w') \<Rightarrow> Q x w'
         | (Raise e, w') \<Rightarrow> E e w'
         | (Diverge, _) \<Rightarrow> True))"

lemma triple_conseq:
  assumes "triple P' m Q' E'"
    and "\<And>w. P w \<Longrightarrow> P' w" and "\<And>x w. Q' x w \<Longrightarrow> Q x w" and "\<And>e w. E' e w \<Longrightarrow> E e w"
  shows "triple P m Q E"
  using assms by (fastforce simp: triple_def split: result.splits prod.splits)

lemma triple_pre: "triple P' m Q E \<Longrightarrow> (\<And>w. P w \<Longrightarrow> P' w) \<Longrightarrow> triple P m Q E"
  by (auto intro: triple_conseq)

lemma triple_exc: "triple P m Q E' \<Longrightarrow> (\<And>e w. E' e w \<Longrightarrow> E e w) \<Longrightarrow> triple P m Q E"
  by (auto intro: triple_conseq)

lemma triple_OkD: "triple P m Q E \<Longrightarrow> P w \<Longrightarrow> m w = (Ok x, w') \<Longrightarrow> Q x w'"
  by (fastforce simp: triple_def)

lemma triple_RaiseD: "triple P m Q E \<Longrightarrow> P w \<Longrightarrow> m w = (Raise e, w') \<Longrightarrow> E e w'"
  by (fastforce simp: triple_def)

lemma triple_ret [hoare]: "triple (Q x) (ret x) Q E"
  by (simp add: triple_def ret_def)

lemma triple_throw [hoare]: "triple (E (Exn c m)) (throw c m) Q E"
  by (simp add: triple_def throw_def)

lemma triple_rethrow [hoare]: "triple (E e) (rethrow e) Q E"
  by (simp add: triple_def rethrow_def)

lemma triple_diverge [hoare]: "triple P diverge Q E"
  by (simp add: triple_def diverge_def)

lemma triple_gets [hoare]: "triple (\<lambda>w. Q (f w) w) (gets f) Q E"
  by (simp add: triple_def gets_def)

lemma triple_modify [hoare]: "triple (\<lambda>w. Q () (f w)) (modify f) Q E"
  by (simp add: triple_def modify_def)

lemma triple_bind [hoare]:
  assumes "triple P m R E" and "\<And>x. triple (R x) (f x) Q E"
  shows "triple P (bindE m f) Q E"
  using assms by (fastforce simp: triple_def bindE_def split: result.splits prod.splits)

lemma triple_seq [hoare]:
  assumes "triple P m R E" and "\<And>x. triple (R x) n Q E"
  shows "triple P (seqE m n) Q E"
  unfolding seqE_def using assms by (rule triple_bind)

lemma triple_when [hoare]:
  assumes "triple P m (\<lambda>_. Q ()) E"
  shows "triple (\<lambda>w. if b then P w else Q () w) (whenE b m) Q E"
  using assms by (auto simp: triple_def whenE_def ret_def)

lemma triple_try_except:
  assumes "triple P m Q F"
    and "\<And>e k. h e = Some k \<Longrightarrow> triple (F e) k Q E"
    and "\<And>e w. h e = None \<Longrightarrow> F e w \<Longrightarrow> E e w"
  shows "triple P (try_except m h) Q E"
  unfolding triple_def
proof (intro allI impI)
  fix w
  assume P: "P w"
  show "case try_except m h w of (Ok x, w') \<Rightarrow> Q x w' | (Raise e, w') \<Rightarrow> E e w' | (Diverge, _) \<Rightarrow> True"
  proof (cases "m w")
    case (Pair r w')
    show ?thesis
    proof (cases r)
      case (Raise e)
      with Pair P assms(1) have F: "F e w'" by (auto dest: triple_RaiseD)
      show ?thesis
      proof (cases "h e")
        case (Some k)
        with assms(2) have "triple (F e) k Q E" by blast
        with F Pair Raise Some show ?thesis by (simp add: try_except_def triple_def)
      qed (use F Pair Raise assms(3) in \<open>simp add: try_except_def\<close>)
    qed (use Pair P assms(1) in \<open>auto simp: try_except_def triple_def\<close>)
  qed
qed

lemma triple_attempt:
  assumes "triple P m Q E"
  shows "triple P (attempt m) (\<lambda>r w. case r of Inr x \<Rightarrow> Q x w | Inl e \<Rightarrow> instance_of e Exception \<and> E e w)
    (\<lambda>e w. \<not> instance_of e Exception \<and> E e w)"
  using assms by (fastforce simp: triple_def attempt_cases split: result.splits prod.splits)

lemma triple_try_finally:
  assumes "triple P m Q' E'"
    and "\<And>x. triple (Q' x) f (\<lambda>_. Q x) E" and "\<And>e. triple (E' e) f (\<lambda>_. E e) E"
  shows "triple P (try_finally m f) Q E"
  using assms by (fastforce simp: triple_def try_finally_def split: result.splits prod.splits)

lemma triple_for_each:
  assumes "\<And>x. x \<in> set xs \<Longrightarrow> triple I (f x) (\<lambda>_. I) E"
  shows "triple I (for_each xs f) (\<lambda>_. I) E"
  using assms by (induction xs) (auto intro!: hoare)

section \<open>Total correctness\<close>

text \<open>\<^verbatim>\<open>yields P m Q\<close>: from a state with \<^verbatim>\<open>P\<close> the statement returns a value, with \<^verbatim>\<open>Q\<close>.\<close>

definition yields :: "('w \<Rightarrow> bool) \<Rightarrow> ('w, 'a) io \<Rightarrow> ('a \<Rightarrow> 'w \<Rightarrow> bool) \<Rightarrow> bool" where
  "yields P m Q \<longleftrightarrow> (\<forall>w. P w \<longrightarrow> (\<exists>x w'. m w = (Ok x, w') \<and> Q x w'))"

lemma yieldsD: "yields P m Q \<Longrightarrow> P w \<Longrightarrow> \<exists>x w'. m w = (Ok x, w') \<and> Q x w'"
  by (simp add: yields_def)

lemma yields_conseq:
  "yields P' m Q' \<Longrightarrow> (\<And>w. P w \<Longrightarrow> P' w) \<Longrightarrow> (\<And>x w. Q' x w \<Longrightarrow> Q x w) \<Longrightarrow> yields P m Q"
  unfolding yields_def by blast

lemma yields_pre: "yields P' m Q \<Longrightarrow> (\<And>w. P w \<Longrightarrow> P' w) \<Longrightarrow> yields P m Q"
  unfolding yields_def by blast

lemma yields_fact: "(b \<Longrightarrow> yields P m Q) \<Longrightarrow> yields (\<lambda>w. b \<and> P w) m Q"
  unfolding yields_def by blast

lemma yields_ret: "(\<And>w. P w \<Longrightarrow> Q x w) \<Longrightarrow> yields P (ret x) Q"
  by (simp add: yields_def ret_def)

lemma yields_bind:
  assumes "yields P m R" and "\<And>x. yields (R x) (f x) Q"
  shows "yields P (bindE m f) Q"
  using assms unfolding yields_def bindE_def by fastforce

lemma yields_seq:
  assumes "yields P m R" and "\<And>x. yields (R x) n Q"
  shows "yields P (seqE m n) Q"
  unfolding seqE_def using assms by (rule yields_bind)

lemma yields_try_except: "yields P m Q \<Longrightarrow> yields P (try_except m h) Q"
  unfolding yields_def try_except_def by fastforce

lemma yields_try_finally:
  assumes "yields P m R" and "\<And>x. yields (R x) f (\<lambda>_. Q x)"
  shows "yields P (try_finally m f) Q"
  unfolding yields_def
proof (intro allI impI)
  fix w
  assume "P w"
  then obtain x w1 where 1: "m w = (Ok x, w1)" "R x w1" using assms(1) by (auto simp: yields_def)
  then obtain u w2 where "f w1 = (Ok u, w2)" "Q x w2" using assms(2) by (fastforce simp: yields_def)
  with 1 show "\<exists>x w'. try_finally m f w = (Ok x, w') \<and> Q x w'" by (auto simp: try_finally_def)
qed

section \<open>Relations every statement respects\<close>

definition evolves :: "('w \<Rightarrow> 'w \<Rightarrow> bool) \<Rightarrow> ('w, 'a) io \<Rightarrow> bool" where
  "evolves R m \<longleftrightarrow> (\<forall>w. R w (snd (m w)))"

lemma evolvesD: "evolves R m \<Longrightarrow> m w = (r, w') \<Longrightarrow> R w w'"
  unfolding evolves_def by (metis snd_conv)

text \<open>The interface of a state relation: a preorder is kept by every combinator.\<close>

locale state_order =
  fixes R :: "'w \<Rightarrow> 'w \<Rightarrow> bool"
  assumes refl: "R w w"
    and trans: "R w w' \<Longrightarrow> R w' w'' \<Longrightarrow> R w w''"
begin

lemma ev_pure:
  "evolves R (ret x)" "evolves R (throw c s)" "evolves R (rethrow e)"
  "evolves R diverge" "evolves R (gets f)"
  by (simp_all add: evolves_def io_defs refl)

lemma ev_modify: "(\<And>w. R w (f w)) \<Longrightarrow> evolves R (modify f)"
  by (simp add: evolves_def io_defs)

lemma ev_bind:
  assumes "evolves R m" and "\<And>x. evolves R (f x)"
  shows "evolves R (bindE m f)"
  unfolding evolves_def
proof
  fix w
  show "R w (snd (bindE m f w))"
  proof (cases "m w")
    case (Pair r w')
    then have "R w w'" by (rule evolvesD [OF assms(1)])
    then show ?thesis using Pair assms(2)
      by (cases r) (auto simp: bindE_def evolves_def intro: trans)
  qed
qed

lemma ev_seq: "evolves R m \<Longrightarrow> evolves R n \<Longrightarrow> evolves R (seqE m n)"
  unfolding seqE_def by (rule ev_bind)

lemma ev_when: "evolves R m \<Longrightarrow> evolves R (whenE b m)"
  by (simp add: whenE_def ev_pure)

lemma ev_try_except:
  assumes "evolves R m" and "\<And>e k. h e = Some k \<Longrightarrow> evolves R k"
  shows "evolves R (try_except m h)"
  unfolding evolves_def
proof
  fix w
  show "R w (snd (try_except m h w))"
  proof (cases "m w")
    case (Pair r w')
    then have R: "R w w'" by (rule evolvesD [OF assms(1)])
    show ?thesis
    proof (cases r)
      case (Raise e)
      with Pair R show ?thesis
        by (cases "h e") (auto simp: try_except_def dest!: assms(2) intro: trans simp: evolves_def)
    qed (use Pair R in \<open>simp_all add: try_except_def\<close>)
  qed
qed

lemma ev_catches: "(\<And>e. evolves R (k e)) \<Longrightarrow> catches cs k e = Some n \<Longrightarrow> evolves R n"
  by (auto simp: catches_def split: if_splits)

lemma ev_attempt: "evolves R m \<Longrightarrow> evolves R (attempt m)"
  unfolding attempt_def
  by (intro ev_try_except ev_bind ev_pure) (auto intro: ev_catches ev_pure)

lemma ev_try_finally:
  assumes "evolves R m" and "evolves R f"
  shows "evolves R (try_finally m f)"
  unfolding evolves_def
proof
  fix w
  show "R w (snd (try_finally m f w))"
  proof (cases "m w")
    case (Pair r w')
    then have 1: "R w w'" by (rule evolvesD [OF assms(1)])
    show ?thesis
    proof (cases "f w'")
      case (Pair q w'')
      then have "R w' w''" by (rule evolvesD [OF assms(2)])
      with 1 have "R w w''" by (rule trans)
      with 1 Pair \<open>m w = (r, w')\<close> show ?thesis
        by (cases r; cases q) (simp_all add: try_finally_def)
    qed
  qed
qed

lemma ev_for_each: "(\<And>x. evolves R (f x)) \<Longrightarrow> evolves R (for_each xs f)"
  by (induction xs) (auto intro: ev_seq ev_pure)

lemma ev_map_each: "(\<And>x. evolves R (f x)) \<Longrightarrow> evolves R (map_each xs f)"
  by (induction xs) (auto intro!: ev_bind ev_pure)

lemmas ev_rules = ev_pure ev_bind ev_seq ev_when ev_attempt ev_try_finally

end

end
