(* ===== verification/PyStr.thy ===== *)
theory PyStr
  imports Prelude "HOL-Library.Sublist"
begin

text \<open>
  The string operations of Python that the sources use, on character lists:
  decimal and hexadecimal formatting, fixed-point formatting, \<^verbatim>\<open>in\<close>, \<^verbatim>\<open>count\<close>,
  \<^verbatim>\<open>replace(old, new, 1)\<close>, \<^verbatim>\<open>find\<close>, \<^verbatim>\<open>strip\<close>, \<^verbatim>\<open>split\<close>, \<^verbatim>\<open>splitlines\<close> and \<^verbatim>\<open>join\<close>, with
  the round trips and the facts about occurrences that the components rely on.
\<close>

section \<open>Numbers as text\<close>

definition digit_char :: "nat \<Rightarrow> char" where
  "digit_char d = char_of (if d < 10 then 48 + d else 87 + d)"

definition is_digit :: "char \<Rightarrow> bool" where
  "is_digit c = (48 \<le> (of_char c :: nat) \<and> (of_char c :: nat) \<le> 57)"

definition digit_val :: "char \<Rightarrow> nat" where
  "digit_val c = (of_char c :: nat) - 48"

fun show_nat :: "nat \<Rightarrow> string" where
  "show_nat n = (if n < 10 then [digit_char n] else show_nat (n div 10) @ [digit_char (n mod 10)])"

declare show_nat.simps [simp del]

definition show_int :: "int \<Rightarrow> string" where
  "show_int i = (if i < 0 then CHR ''-'' # show_nat (nat (- i)) else show_nat (nat i))"

definition read_digits :: "string \<Rightarrow> nat" where
  "read_digits s = foldl (\<lambda>n c. 10 * n + digit_val c) 0 s"

text \<open>A nonempty run of decimal digits (\<^verbatim>\<open>int(text)\<close> on what \<^verbatim>\<open>\d+\<close> matches).\<close>

definition read_nat :: "string \<Rightarrow> nat option" where
  "read_nat s = (if s \<noteq> [] \<and> list_all is_digit s then Some (read_digits s) else None)"

text \<open>\<^verbatim>\<open>f"{n:0kd}"\<close> and \<^verbatim>\<open>f"{b:02x}"\<close>.\<close>

definition zero_pad :: "nat \<Rightarrow> string \<Rightarrow> string" where
  "zero_pad k s = replicate (k - length s) CHR ''0'' @ s"

definition hex2 :: "nat \<Rightarrow> string" where
  "hex2 n = [digit_char (n div 16 mod 16), digit_char (n mod 16)]"

text \<open>\<^verbatim>\<open>bytes.hex()\<close>.\<close>

definition hex :: "bytes \<Rightarrow> string" where
  "hex bs = concat (map (\<lambda>b. hex2 (unat b)) bs)"

text \<open>\<^verbatim>\<open>f"{x:.kf}"\<close>.\<close>

definition fmt_fixed :: "nat \<Rightarrow> real \<Rightarrow> string" where
  "fmt_fixed k x =
     (let n = round_half_even (\<bar>x\<bar> * 10 ^ k);
          q = nat n div 10 ^ k; r = nat n mod 10 ^ k in
      (if x < 0 then ''-'' else '''') @ show_nat q @
      (if k = 0 then '''' else CHR ''.'' # zero_pad k (show_nat r)))"

section \<open>Searching and replacing\<close>

text \<open>\<^verbatim>\<open>sub in s\<close>, the position \<^verbatim>\<open>s.find(sub)\<close>, the number of non-overlapping occurrences
  \<^verbatim>\<open>s.count(sub)\<close> and \<^verbatim>\<open>s.replace(old, new, 1)\<close>.\<close>

fun occurs :: "string \<Rightarrow> string \<Rightarrow> bool" where
  "occurs sub [] = (sub = [])"
| "occurs sub (c # s) = (prefix sub (c # s) \<or> occurs sub s)"

fun str_find :: "string \<Rightarrow> string \<Rightarrow> nat option" where
  "str_find sub [] = (if sub = [] then Some 0 else None)"
| "str_find sub (c # s) =
     (if prefix sub (c # s) then Some 0 else map_option Suc (str_find sub s))"

function count_nonempty :: "string \<Rightarrow> string \<Rightarrow> nat" where
  "count_nonempty sub [] = 0"
| "count_nonempty sub (c # s) =
     (if prefix sub (c # s) then Suc (count_nonempty sub (drop (length sub - 1) s))
      else count_nonempty sub s)"
  by pat_completeness auto
termination by (relation "measure (\<lambda>(_, s). length s)") auto

definition str_count :: "string \<Rightarrow> string \<Rightarrow> nat" where
  "str_count sub s = (if sub = [] then Suc (length s) else count_nonempty sub s)"

fun replace_first :: "string \<Rightarrow> string \<Rightarrow> string \<Rightarrow> string" where
  "replace_first old new [] = (if old = [] then new else [])"
| "replace_first old new (c # s) =
     (if prefix old (c # s) then new @ drop (length old) (c # s)
      else c # replace_first old new s)"

section \<open>Splitting and joining\<close>

definition is_space :: "char \<Rightarrow> bool" where
  "is_space c = (let n = (of_char c :: nat) in n = 32 \<or> (9 \<le> n \<and> n \<le> 13) \<or> (28 \<le> n \<and> n \<le> 31))"

definition lstrip :: "string \<Rightarrow> string" where
  "lstrip s = dropWhile is_space s"

definition rstrip :: "string \<Rightarrow> string" where
  "rstrip s = rev (dropWhile is_space (rev s))"

definition strip :: "string \<Rightarrow> string" where
  "strip s = rstrip (lstrip s)"

text \<open>\<^verbatim>\<open>s.strip(chars)\<close>.\<close>

definition strip_chars :: "string \<Rightarrow> string \<Rightarrow> string" where
  "strip_chars cs s =
     rev (dropWhile (\<lambda>c. c \<in> set cs) (rev (dropWhile (\<lambda>c. c \<in> set cs) s)))"

text \<open>\<^verbatim>\<open>s.split(sep, 1)\<close> on a one-character separator: the text before the first separator and
  the text after it.\<close>

fun split_once :: "char \<Rightarrow> string \<Rightarrow> (string \<times> string) option" where
  "split_once c [] = None"
| "split_once c (d # s) =
     (if d = c then Some ([], s)
      else map_option (\<lambda>(a, b). (d # a, b)) (split_once c s))"

text \<open>\<^verbatim>\<open>s.split()\<close>: the maximal runs without white space.\<close>

fun words_acc :: "string \<Rightarrow> string \<Rightarrow> string list" where
  "words_acc acc [] = (if acc = [] then [] else [rev acc])"
| "words_acc acc (c # s) =
     (if is_space c then (if acc = [] then words_acc [] s else rev acc # words_acc [] s)
      else words_acc (c # acc) s)"

definition words :: "string \<Rightarrow> string list" where
  "words s = words_acc [] s"

text \<open>\<^verbatim>\<open>s.splitlines()\<close>: carriage return, line feed, both together, and the ASCII separators
  11, 12, 28, 29 and 30 end a line; a terminator at the end opens no further line.\<close>

definition is_eol :: "char \<Rightarrow> bool" where
  "is_eol c = (let n = (of_char c :: nat) in (10 \<le> n \<and> n \<le> 13) \<or> (28 \<le> n \<and> n \<le> 30))"

fun lines_acc :: "string \<Rightarrow> string \<Rightarrow> string list" where
  "lines_acc acc [] = (if acc = [] then [] else [rev acc])"
| "lines_acc acc (c # s) =
     (if c = CHR 0x0D \<and> s \<noteq> [] \<and> hd s = CHR 0x0A then rev acc # lines_acc [] (tl s)
      else if is_eol c then rev acc # lines_acc [] s
      else lines_acc (c # acc) s)"

definition splitlines :: "string \<Rightarrow> string list" where
  "splitlines s = lines_acc [] s"

fun join :: "string \<Rightarrow> string list \<Rightarrow> string" where
  "join sep [] = []"
| "join sep [s] = s"
| "join sep (s # t # ts) = s @ sep @ join sep (t # ts)"

abbreviation newline :: string where
  "newline \<equiv> [CHR 0x0A]"

section \<open>Lemmas on numbers\<close>

lemma is_digit_digit_char [simp]: "d < 10 \<Longrightarrow> is_digit (digit_char d)"
  by (simp add: is_digit_def digit_char_def)

lemma digit_val_digit_char [simp]: "d < 10 \<Longrightarrow> digit_val (digit_char d) = d"
  by (simp add: digit_val_def digit_char_def)

lemma show_nat_nonempty [simp]: "show_nat n \<noteq> []"
  by (subst show_nat.simps) simp

lemma show_nat_digits [simp]: "list_all is_digit (show_nat n)"
proof (induction n rule: show_nat.induct)
  case (1 n)
  then show ?case by (subst show_nat.simps) simp
qed

lemma read_digits_snoc: "read_digits (s @ [c]) = 10 * read_digits s + digit_val c"
  by (simp add: read_digits_def)

lemma read_digits_show_nat [simp]: "read_digits (show_nat n) = n"
proof (induction n rule: show_nat.induct)
  case (1 n)
  show ?case
  proof (cases "n < 10")
    case True
    then show ?thesis by (subst show_nat.simps) (simp add: read_digits_def)
  next
    case False
    then have "read_digits (show_nat n) = 10 * (n div 10) + n mod 10"
      using 1 by (subst show_nat.simps) (simp add: read_digits_snoc)
    then show ?thesis by simp
  qed
qed

lemma read_show_nat [simp]: "read_nat (show_nat n) = Some n"
  by (simp add: read_nat_def)

lemma show_nat_inject [simp]: "show_nat m = show_nat n \<longleftrightarrow> m = n"
  by (metis read_digits_show_nat)

lemma digit_not_space: "is_digit c \<Longrightarrow> \<not> is_space c"
  by (simp add: is_digit_def is_space_def Let_def)

lemma read_digits_zeros: "read_digits (replicate k CHR ''0'' @ s) = read_digits s"
  by (induction k) (simp_all add: read_digits_def digit_val_def)

lemma list_all_digit_zeros: "list_all is_digit (replicate k CHR ''0'')"
  by (induction k) (simp_all add: is_digit_def)

lemma read_zero_pad [simp]: "read_nat (zero_pad k (show_nat n)) = Some n"
  by (simp add: read_nat_def zero_pad_def read_digits_zeros list_all_digit_zeros)

lemma zero_pad_inject: "zero_pad k (show_nat m) = zero_pad k (show_nat n) \<longleftrightarrow> m = n"
  by (metis option.inject read_zero_pad)

lemma show_nat_length_le: "0 < k \<Longrightarrow> n < 10 ^ k \<Longrightarrow> length (show_nat n) \<le> k"
proof (induction k arbitrary: n)
  case (Suc k)
  show ?case
  proof (cases "n < 10")
    case True
    then show ?thesis by (subst show_nat.simps) simp
  next
    case False
    then have "0 < k" using Suc.prems by (cases k) auto
    moreover have "n div 10 < 10 ^ k" using Suc.prems(2)
      by (simp add: less_mult_imp_div_less mult.commute)
    ultimately show ?thesis using Suc.IH False by (subst show_nat.simps) simp
  qed
qed simp

lemma length_zero_pad: "0 < k \<Longrightarrow> n < 10 ^ k \<Longrightarrow> length (zero_pad k (show_nat n)) = k"
  using show_nat_length_le [of k n] by (simp add: zero_pad_def)

section \<open>Lemmas on occurrences\<close>

lemma occurs_iff: "occurs sub s \<longleftrightarrow> (\<exists>pre post. s = pre @ sub @ post)"
proof (induction s)
  case (Cons c s)
  show ?case
  proof
    assume "occurs sub (c # s)"
    then consider "prefix sub (c # s)" | "occurs sub s" by auto
    then show "\<exists>pre post. c # s = pre @ sub @ post"
    proof cases
      case 1
      then show ?thesis by (metis append_Nil prefix_def)
    next
      case 2
      then show ?thesis using Cons.IH by (metis append_Cons)
    qed
  next
    assume "\<exists>pre post. c # s = pre @ sub @ post"
    then obtain pre post where eq: "c # s = pre @ sub @ post" by blast
    show "occurs sub (c # s)"
    proof (cases pre)
      case Nil
      then have "prefix sub (c # s)" using eq by (auto simp: prefix_def)
      then show ?thesis by simp
    next
      case (Cons d pre')
      then show ?thesis using eq Cons.IH by auto
    qed
  qed
qed auto

lemma occurs_append [simp]: "occurs sub s \<Longrightarrow> occurs sub (s @ t)" "occurs sub t \<Longrightarrow> occurs sub (s @ t)"
  unfolding occurs_iff by (metis append.assoc)+

lemma occurs_self [simp]: "occurs s s"
  unfolding occurs_iff by (metis append_Nil append_Nil2)

lemma occurs_count: "occurs sub s \<longleftrightarrow> 0 < str_count sub s"
proof (cases "sub = []")
  case False
  have "occurs sub s \<longleftrightarrow> 0 < count_nonempty sub s"
    using False by (induction sub s rule: count_nonempty.induct) auto
  then show ?thesis using False by (simp add: str_count_def)
qed (auto simp: str_count_def occurs_iff)

lemma str_find_iff: "(\<exists>i. str_find sub s = Some i) \<longleftrightarrow> occurs sub s"
  by (induction s) auto

lemma str_find_split: "str_find sub s = Some i \<Longrightarrow> s = take i s @ sub @ drop (i + length sub) s"
proof (induction s arbitrary: i)
  case (Cons c s)
  then show ?case
    by (auto simp: prefix_def split: if_splits)
qed (auto split: if_splits)

text \<open>Replacing the first occurrence: what stands before and after it is kept.\<close>

lemma replace_first_at:
  assumes "old \<noteq> []" and "str_find old s = Some i"
  shows "replace_first old new s = take i s @ new @ drop (i + length old) s"
  using assms(2)
proof (induction s arbitrary: i)
  case (Cons c s)
  then show ?case by (auto split: if_splits)
qed (use assms(1) in simp)

lemma replace_first_absent: "\<not> occurs old s \<Longrightarrow> replace_first old new s = s"
  by (induction s) auto

lemma replace_first_occurs:
  assumes "old \<noteq> []" "occurs old s"
  shows "occurs new (replace_first old new s)"
proof -
  obtain i where "str_find old s = Some i" using assms(2) by (auto simp: str_find_iff [symmetric])
  then have "replace_first old new s = take i s @ new @ drop (i + length old) s"
    using assms(1) by (rule replace_first_at [rotated])
  then show ?thesis by simp
qed

end
