(* ===== verification/Net.thy ===== *)
theory Net
  imports PyIO PyStr
begin

text \<open>
  The part of the outside world the network clients see: TCP sockets, the
  monotonic clock, \<^verbatim>\<open>time.sleep\<close> and \<^verbatim>\<open>os.urandom\<close>.  A socket carries the events
  its peer will cause (bytes in segments of any size, an orderly close, a
  fault), the outcomes of its \<^verbatim>\<open>sendall\<close> calls, and what was sent.  The theory
  also holds \<^verbatim>\<open>recv_exact\<close>, which every benchmark module repeats, and the loop
  \<^verbatim>\<open>while time.monotonic() < deadline\<close>, with their total-correctness lemmas.
\<close>

section \<open>Sockets\<close>

text \<open>\<^verbatim>\<open>Data b bs\<close> is a segment, never empty; a socket with no event left is silent.\<close>

datatype rx_event = Data byte bytes | Fin | Fault exn

record sock =
  sk_rx :: "rx_event list"
  sk_tx :: "exn option list"
  sk_sent :: bytes
  sk_timeout :: "real option"
  sk_shut :: "string option"
  sk_closed :: bool

text \<open>\<^verbatim>\<open>sk_tx\<close> lists the outcomes of the coming \<^verbatim>\<open>sendall\<close> calls (no entry: success), \<^verbatim>\<open>sk_shut\<close> the
  text of the error \<^verbatim>\<open>shutdown\<close> raises, if it does.  \<^verbatim>\<open>dials\<close> lists the outcomes of the coming \<^verbatim>\<open>socket.create_connection\<close> calls,
  \<^verbatim>\<open>clock i\<close> is the i-th reading of \<^verbatim>\<open>time.monotonic()\<close>, \<^verbatim>\<open>entropy i\<close> the i-th answer of
  \<^verbatim>\<open>os.urandom\<close>.  A socket handle is an index into \<^verbatim>\<open>socks\<close>.\<close>

record net =
  dials :: "(exn + sock) list"
  dialled :: "(string \<times> int) list"
  socks :: "sock list"
  entropy :: "nat \<Rightarrow> nat \<Rightarrow> byte"
  n_entropy :: nat
  clock :: "nat \<Rightarrow> real"
  n_clock :: nat
  slept :: "real list"

text \<open>Bytes that arrive before the next close or fault, and what follows them.\<close>

fun avail :: "rx_event list \<Rightarrow> bytes" where
  "avail (Data b bs # r) = b # bs @ avail r"
| "avail _ = []"

fun after :: "rx_event list \<Rightarrow> rx_event list" where
  "after (Data b bs # r) = after r"
| "after r = r"

text \<open>One \<^verbatim>\<open>recv(n)\<close> on the event queue: at most \<^verbatim>\<open>n\<close> bytes of the first segment.\<close>

definition rest_event :: "bytes \<Rightarrow> rx_event list \<Rightarrow> rx_event list" where
  "rest_event bs r = (case bs of [] \<Rightarrow> r | c # cs \<Rightarrow> Data c cs # r)"

fun rx_recv :: "real option \<Rightarrow> nat \<Rightarrow> rx_event list \<Rightarrow> bytes result \<times> rx_event list" where
  "rx_recv t n (Data b bs # r) = (Ok (take n (b # bs)), rest_event (drop n (b # bs)) r)"
| "rx_recv t n (Fin # r) = (Ok [], Fin # r)"
| "rx_recv t n (Fault e # r) = (Raise e, r)"
| "rx_recv t n [] =
     (case t of
        None \<Rightarrow> Diverge
      | Some d \<Rightarrow>
          if d = 0 then Raise (Exn BlockingIOError ''Resource temporarily unavailable'')
          else Raise (Exn TimeoutError ''timed out''), [])"

abbreviation sock_at :: "('z net_scheme) \<Rightarrow> nat \<Rightarrow> sock" where
  "sock_at w s \<equiv> socks w ! s"

definition live :: "nat \<Rightarrow> ('z net_scheme) \<Rightarrow> bool" where
  "live s w \<longleftrightarrow> s < length (socks w) \<and> \<not> sk_closed (sock_at w s)"

definition upd_sock :: "nat \<Rightarrow> (sock \<Rightarrow> sock) \<Rightarrow> 'z net_scheme \<Rightarrow> 'z net_scheme" where
  "upd_sock s f w = w\<lparr>socks := (socks w)[s := f (sock_at w s)]\<rparr>"

definition set_rx :: "nat \<Rightarrow> rx_event list \<Rightarrow> 'z net_scheme \<Rightarrow> 'z net_scheme" where
  "set_rx s r = upd_sock s (\<lambda>k. k\<lparr>sk_rx := r\<rparr>)"

definition bad_fd :: "('w, 'a) io" where
  "bad_fd = throw OSError ''[Errno 9] Bad file descriptor''"

definition sock_recv :: "nat \<Rightarrow> nat \<Rightarrow> ('z net_scheme, bytes) io" where
  "sock_recv s n w =
     (if live s w then
        (case rx_recv (sk_timeout (sock_at w s)) n (sk_rx (sock_at w s)) of
           (r, q) \<Rightarrow> (r, set_rx s q w))
      else bad_fd w)"

text \<open>\<^verbatim>\<open>sk_sent\<close> collects the data of the \<^verbatim>\<open>sendall\<close> calls that returned.\<close>

definition sock_sendall :: "nat \<Rightarrow> bytes \<Rightarrow> ('z net_scheme, unit) io" where
  "sock_sendall s bs w =
     (if live s w then
        (case sk_tx (sock_at w s) of
           Some e # q \<Rightarrow> (Raise e, upd_sock s (\<lambda>k. k\<lparr>sk_tx := q\<rparr>) w)
         | q \<Rightarrow> (Ok (), upd_sock s (\<lambda>k. k\<lparr>sk_tx := tl q, sk_sent := sk_sent k @ bs\<rparr>) w))
      else bad_fd w)"

definition sock_settimeout :: "nat \<Rightarrow> real option \<Rightarrow> ('z net_scheme, unit) io" where
  "sock_settimeout s t w =
     (case t of
        Some d \<Rightarrow> if d < 0 then throw ValueError ''Timeout value out of range'' w
                  else if live s w then (Ok (), upd_sock s (\<lambda>k. k\<lparr>sk_timeout := t\<rparr>) w)
                  else bad_fd w
      | None \<Rightarrow> if live s w then (Ok (), upd_sock s (\<lambda>k. k\<lparr>sk_timeout := t\<rparr>) w)
                  else bad_fd w)"

definition sock_gettimeout :: "nat \<Rightarrow> ('z net_scheme, real option) io" where
  "sock_gettimeout s = gets (\<lambda>w. sk_timeout (sock_at w s))"

definition sock_shutdown :: "nat \<Rightarrow> ('z net_scheme, unit) io" where
  "sock_shutdown s w =
     (if live s w then
        (case sk_shut (sock_at w s) of Some m \<Rightarrow> throw OSError m w | None \<Rightarrow> (Ok (), w))
      else bad_fd w)"

definition sock_close :: "nat \<Rightarrow> ('z net_scheme, unit) io" where
  "sock_close s = modify (upd_sock s (\<lambda>k. k\<lparr>sk_closed := True\<rparr>))"

definition create_connection :: "string \<Rightarrow> int \<Rightarrow> real \<Rightarrow> ('z net_scheme, nat) io" where
  "create_connection host port timeout w =
     (let w1 = w\<lparr>dialled := dialled w @ [(host, port)], dials := tl (dials w)\<rparr> in
      if timeout < 0 then throw ValueError ''Timeout value out of range'' w1
      else case dials w of
        [] \<Rightarrow> throw ConnectionRefusedError ''[Errno 111] Connection refused'' w1
      | Inl e # _ \<Rightarrow> (Raise e, w1)
      | Inr k # _ \<Rightarrow>
          (Ok (length (socks w)),
           w1\<lparr>socks := socks w @
              [k\<lparr>sk_sent := [], sk_timeout := Some timeout, sk_closed := False\<rparr>]\<rparr>))"

section \<open>Clock and randomness\<close>

definition monotonic :: "('z net_scheme, real) io" where
  "monotonic w = (Ok (clock w (n_clock w)), w\<lparr>n_clock := Suc (n_clock w)\<rparr>)"

definition sleep :: "real \<Rightarrow> ('z net_scheme, unit) io" where
  "sleep t w =
     (if t < 0 then throw ValueError ''sleep length must be non-negative'' w
      else (Ok (), w\<lparr>slept := slept w @ [t]\<rparr>))"

definition urandom :: "nat \<Rightarrow> ('z net_scheme, bytes) io" where
  "urandom n w =
     (Ok (map (entropy w (n_entropy w)) [0..<n]), w\<lparr>n_entropy := Suc (n_entropy w)\<rparr>)"

text \<open>\<^verbatim>\<open>while time.monotonic() < deadline: body\<close> followed by \<^verbatim>\<open>late\<close>; a body that answers a value
  leaves the loop.  The first argument bounds the number of iterations.\<close>

fun poll_until ::
  "nat \<Rightarrow> real \<Rightarrow> ('z net_scheme, 'a option) io \<Rightarrow> ('z net_scheme, 'a) io \<Rightarrow> ('z net_scheme, 'a) io" where
  "poll_until 0 deadline body late = diverge"
| "poll_until (Suc fuel) deadline body late =
     bindE monotonic (\<lambda>t.
       if t < deadline then
         bindE body (\<lambda>r.
           case r of Some x \<Rightarrow> ret x | None \<Rightarrow> poll_until fuel deadline body late)
       else late)"

section \<open>Receiving an exact number of bytes\<close>

definition closed_early :: "nat \<Rightarrow> nat \<Rightarrow> string" where
  "closed_early sz got =
     ''connection closed while receiving '' @ show_nat sz @ '' bytes ('' @ show_nat got @
     '' bytes received)''"

text \<open>The loop of \<^verbatim>\<open>recv_exact\<close> with the bytes read so far; \<^verbatim>\<open>recv\<close> is the method of the socket
  passed in, \<^verbatim>\<open>eof\<close> the text of the error.  Every round reads at least one byte or ends, so
  the loop terminates for every \<^verbatim>\<open>recv\<close>.\<close>

function recv_loop ::
  "(nat \<Rightarrow> nat \<Rightarrow> string) \<Rightarrow> (nat \<Rightarrow> ('w, bytes) io) \<Rightarrow> nat \<Rightarrow> bytes \<Rightarrow> ('w, bytes) io" where
  "recv_loop eof recv sz data w =
     (if length data < sz then
        (case recv (sz - length data) w of
           (Ok chunk, w') \<Rightarrow>
             if chunk = [] then throw ConnectionError (eof sz (length data)) w'
             else recv_loop eof recv sz (data @ chunk) w'
         | (Raise e, w') \<Rightarrow> (Raise e, w')
         | (Diverge, w') \<Rightarrow> (Diverge, w'))
      else (Ok data, w))"
  by pat_completeness auto
termination
  by (relation "measure (\<lambda>(eof, recv, sz, data, w). sz - length data)")
    (auto simp: length_greater_0_conv [symmetric] simp del: length_greater_0_conv)

declare recv_loop.simps [simp del]

definition recv_exact ::
  "(nat \<Rightarrow> nat \<Rightarrow> string) \<Rightarrow> (nat \<Rightarrow> ('w, bytes) io) \<Rightarrow> nat \<Rightarrow> ('w, bytes) io" where
  "recv_exact eof recv sz = recv_loop eof recv sz []"

text \<open>The orchestrators' copies give a shorter text.\<close>

definition orch_recv_exact :: "(nat \<Rightarrow> ('w, bytes) io) \<Rightarrow> nat \<Rightarrow> ('w, bytes) io" where
  "orch_recv_exact = recv_exact (\<lambda>_ _. ''connection closed'')"

section \<open>Byte sources\<close>

text \<open>What \<^verbatim>\<open>recv_exact\<close> needs of its socket: a nonempty stream yields some of its bytes, in
  order; an exhausted one yields none.\<close>

locale byte_source =
  fixes recv :: "nat \<Rightarrow> ('w, bytes) io"
    and stream :: "'w \<Rightarrow> bytes"
    and usable :: "'w \<Rightarrow> bool"
    and same :: "'w \<Rightarrow> 'w \<Rightarrow> bool"
  assumes recv_some:
      "usable w \<Longrightarrow> 0 < n \<Longrightarrow> stream w \<noteq> [] \<Longrightarrow>
       \<exists>k w'. 0 < k \<and> k \<le> n \<and> k \<le> length (stream w) \<and>
         recv n w = (Ok (take k (stream w)), w') \<and>
         stream w' = drop k (stream w) \<and> usable w' \<and> same w w'"
    and recv_none:
      "usable w \<Longrightarrow> stream w = [] \<Longrightarrow> recv n w = (Ok c, w') \<Longrightarrow> c = []"
    and same_refl: "same w w"
    and same_trans: "same w w' \<Longrightarrow> same w' w'' \<Longrightarrow> same w w''"
begin

lemma recv_loop_enough:
  assumes "usable w" and "length data + length (stream w) \<ge> sz"
  shows "\<exists>w'. recv_loop eof recv sz data w = (Ok (data @ take (sz - length data) (stream w)), w') \<and>
    stream w' = drop (sz - length data) (stream w) \<and> usable w' \<and> same w w'"
  using assms
proof (induction "sz - length data" arbitrary: data w rule: less_induct)
  case less
  show ?case
  proof (cases "length data < sz")
    case False
    then show ?thesis
      using less.prems by (subst recv_loop.simps) (simp add: same_refl)
  next
    case True
    then have "stream w \<noteq> []" using less.prems by auto
    then obtain k w1 where k: "0 < k" "k \<le> sz - length data" "k \<le> length (stream w)"
      and r: "recv (sz - length data) w = (Ok (take k (stream w)), w1)"
      and s: "stream w1 = drop k (stream w)" "usable w1" "same w w1"
      using recv_some [of w "sz - length data"] less.prems True by auto
    let ?d = "data @ take k (stream w)"
    have "sz - length ?d < sz - length data" using k True by simp
    moreover have "length ?d + length (stream w1) \<ge> sz" using k s less.prems by simp
    ultimately obtain w2 where w2:
      "recv_loop eof recv sz ?d w1 = (Ok (?d @ take (sz - length ?d) (stream w1)), w2)"
      "stream w2 = drop (sz - length ?d) (stream w1)" "usable w2" "same w1 w2"
      using less.hyps [of ?d w1] s by blast
    define m where "m = sz - length ?d"
    have n: "sz - length data = k + m" using k by (simp add: m_def)
    have "recv_loop eof recv sz data w = recv_loop eof recv sz ?d w1"
      using True r k by (subst recv_loop.simps) auto
    moreover have "?d @ take m (stream w1) = data @ take (k + m) (stream w)"
      unfolding s by (simp add: take_add)
    moreover have "drop m (stream w1) = drop (k + m) (stream w)"
      unfolding s by (simp add: add.commute)
    moreover have "same w w2" using s(3) w2(4) by (rule same_trans)
    ultimately show ?thesis using w2(1-3) unfolding n m_def [symmetric] by auto
  qed
qed

lemma recv_exact_enough:
  assumes "usable w" and "sz \<le> length (stream w)"
  shows "\<exists>w'. recv_exact eof recv sz w = (Ok (take sz (stream w)), w') \<and>
    stream w' = drop sz (stream w) \<and> usable w' \<and> same w w'"
  using recv_loop_enough [of w sz "[]" eof] assms by (simp add: recv_exact_def)

lemma recv_loop_short:
  assumes "usable w" and "length data + length (stream w) < sz"
  shows "recv_loop eof recv sz data w \<noteq> (Ok x, w')"
  using assms
proof (induction "sz - length data" arbitrary: data w rule: less_induct)
  case less
  then have lt: "length data < sz" by simp
  show ?case
  proof (cases "stream w = []")
    case True
    with recv_none [of w "sz - length data"] less.prems lt show ?thesis
      by (subst recv_loop.simps) (auto simp: throw_def split: result.splits prod.splits)
  next
    case False
    then obtain k w1 where k: "0 < k" "k \<le> sz - length data" "k \<le> length (stream w)"
      and r: "recv (sz - length data) w = (Ok (take k (stream w)), w1)"
      and s: "stream w1 = drop k (stream w)" "usable w1"
      using recv_some [of w "sz - length data"] less.prems lt by auto
    have "recv_loop eof recv sz (data @ take k (stream w)) w1 \<noteq> (Ok x, w')"
      using less.hyps [of "data @ take k (stream w)" w1] k s lt less.prems by simp
    then show ?thesis using lt r k False by (subst recv_loop.simps) auto
  qed
qed

text \<open>The result is fixed by the stream alone, however it is cut into segments.\<close>

lemma recv_exact_iff:
  assumes "usable w"
  shows "(\<exists>w'. recv_exact eof recv sz w = (Ok x, w')) \<longleftrightarrow>
    sz \<le> length (stream w) \<and> x = take sz (stream w)"
proof
  assume "\<exists>w'. recv_exact eof recv sz w = (Ok x, w')"
  then obtain w' where e: "recv_exact eof recv sz w = (Ok x, w')" by blast
  have "\<not> length (stream w) < sz"
    using recv_loop_short [of w "[]" sz eof x w'] e assms by (auto simp: recv_exact_def)
  then show "sz \<le> length (stream w) \<and> x = take sz (stream w)"
    using recv_exact_enough [of w sz eof] assms e by auto
next
  assume "sz \<le> length (stream w) \<and> x = take sz (stream w)"
  then show "\<exists>w'. recv_exact eof recv sz w = (Ok x, w')"
    using recv_exact_enough [of w sz eof] assms by auto
qed

end

section \<open>Sockets are byte sources\<close>

text \<open>The states that differ from \<^verbatim>\<open>w\<close> in the unread segments of socket \<^verbatim>\<open>s\<close> only.\<close>

definition rx_only :: "nat \<Rightarrow> 'z net_scheme \<Rightarrow> 'z net_scheme \<Rightarrow> bool" where
  "rx_only s w w' \<longleftrightarrow>
     (\<exists>r. w' = set_rx s r w \<and> after r = after (sk_rx (sock_at w s))) \<or> w' = w"

lemma avail_rest_event [simp]: "avail (rest_event bs r) = bs @ avail r"
  by (cases bs) (simp_all add: rest_event_def)

lemma after_rest_event [simp]: "after (rest_event bs r) = after r"
  by (cases bs) (simp_all add: rest_event_def)

lemma upd_sock_simps [simp]:
  "dials (upd_sock s f w) = dials w" "dialled (upd_sock s f w) = dialled w"
  "entropy (upd_sock s f w) = entropy w" "n_entropy (upd_sock s f w) = n_entropy w"
  "clock (upd_sock s f w) = clock w" "n_clock (upd_sock s f w) = n_clock w"
  "slept (upd_sock s f w) = slept w" "length (socks (upd_sock s f w)) = length (socks w)"
  by (simp_all add: upd_sock_def)

lemma sock_at_upd [simp]:
  "s < length (socks w) \<Longrightarrow> sock_at (upd_sock s f w) s = f (sock_at w s)"
  "i \<noteq> s \<Longrightarrow> sock_at (upd_sock s f w) i = sock_at w i"
  by (simp_all add: upd_sock_def)

lemma live_upd [simp]:
  "live s w \<Longrightarrow> \<not> sk_closed (f (sock_at w s)) \<Longrightarrow> live s (upd_sock s f w)"
  by (simp add: live_def)

lemma upd_sock_upd [simp]: "upd_sock s f (upd_sock s g w) = upd_sock s (\<lambda>k. f (g k)) w"
  by (cases "s < length (socks w)") (simp_all add: upd_sock_def list_update_beyond)

lemma set_rx_set_rx [simp]: "set_rx s q (set_rx s r w) = set_rx s q w"
  by (simp add: set_rx_def)

lemma set_rx_simps [simp]:
  "live s (set_rx s r w) = live s w"
  "live s w \<Longrightarrow> sk_rx (sock_at (set_rx s r w) s) = r"
  "live s w \<Longrightarrow> sk_timeout (sock_at (set_rx s r w) s) = sk_timeout (sock_at w s)"
  "live s w \<Longrightarrow> sk_sent (sock_at (set_rx s r w) s) = sk_sent (sock_at w s)"
  by (auto simp: set_rx_def live_def upd_sock_def)

lemma rx_recv_data:
  assumes "avail q \<noteq> []" and "0 < n"
  shows "\<exists>k r. 0 < k \<and> k \<le> n \<and> k \<le> length (avail q) \<and> rx_recv t n q = (Ok (take k (avail q)), r) \<and>
    avail r = drop k (avail q) \<and> after r = after q"
proof -
  obtain b bs q' where q: "q = Data b bs # q'"
    using assms(1) by (cases q rule: avail.cases) auto
  show ?thesis
    by (intro exI [of _ "min n (length (b # bs))"])
      (use assms(2) in \<open>auto simp: q min_def take_Cons' drop_Cons'\<close>)
qed

lemma rx_recv_nodata: "avail q = [] \<Longrightarrow> rx_recv t n q = (Ok c, r) \<Longrightarrow> c = []"
  by (cases "(t, n, q)" rule: rx_recv.cases) (auto split: option.splits if_splits)

interpretation sk: byte_source
    "sock_recv s :: nat \<Rightarrow> ('z net_scheme, bytes) io" "\<lambda>w. avail (sk_rx (sock_at w s))" "live s" "rx_only s"
  for s :: nat
proof
  fix w :: "'z net_scheme" and n :: nat
  let ?q = "sk_rx (sock_at w s)"
  assume live: "live s w" and "0 < n" and "avail ?q \<noteq> []"
  then obtain k r where k: "0 < k" "k \<le> n" "k \<le> length (avail ?q)"
    and r: "rx_recv (sk_timeout (sock_at w s)) n ?q = (Ok (take k (avail ?q)), r)"
      "avail r = drop k (avail ?q)" "after r = after ?q"
    using rx_recv_data by metis
  show "\<exists>k w'. 0 < k \<and> k \<le> n \<and> k \<le> length (avail ?q) \<and>
      sock_recv s n w = (Ok (take k (avail ?q)), w') \<and>
      avail (sk_rx (sock_at w' s)) = drop k (avail ?q) \<and> live s w' \<and> rx_only s w w'"
    using live k r by (intro exI [of _ k] exI [of _ "set_rx s r w"]) (auto simp: sock_recv_def rx_only_def)
next
  fix w w' :: "'z net_scheme" and n :: nat and c
  assume "live s w" "avail (sk_rx (sock_at w s)) = []" "sock_recv s n w = (Ok c, w')"
  then show "c = []" by (auto simp: sock_recv_def split: prod.splits intro: rx_recv_nodata)
next
  fix w w' w'' :: "'z net_scheme"
  show "rx_only s w w" by (simp add: rx_only_def)
  assume a: "rx_only s w w'" "rx_only s w' w''"
  show "rx_only s w w''"
  proof (cases "s < length (socks w)")
    case True
    then show ?thesis using a by (auto simp: rx_only_def set_rx_def)
  next
    case False
    then have "set_rx s r w = w" for r
      by (simp add: set_rx_def upd_sock_def list_update_beyond)
    then show ?thesis using a by (auto simp: rx_only_def)
  qed
qed

lemmas sock_recv_exact = sk.recv_exact_enough

end
