(* ===== verification/NetLogic.thy ===== *)
theory NetLogic
  imports Net
begin

text \<open>
  Reasoning about programs over the socket world.  \<^verbatim>\<open>net_le\<close> is what no statement
  can undo: sockets are never forgotten, a closed socket stays closed, sent
  bytes stay sent, the clock readings advance.  \<^verbatim>\<open>quiet\<close> adds that no socket is
  opened.  \<^verbatim>\<open>open_only S w0\<close> says which of the sockets opened since \<^verbatim>\<open>w0\<close> may still
  be open, the property behind every \<^verbatim>\<open>finally: sock.close()\<close> of the sources.
\<close>

definition net_le :: "'z net_scheme \<Rightarrow> 'z net_scheme \<Rightarrow> bool" where
  "net_le w w' \<longleftrightarrow>
     length (socks w) \<le> length (socks w') \<and>
     (\<forall>i < length (socks w). sk_closed (sock_at w i) \<longrightarrow> sk_closed (sock_at w' i)) \<and>
     (\<forall>i < length (socks w). prefix (sk_sent (sock_at w i)) (sk_sent (sock_at w' i))) \<and>
     clock w' = clock w \<and> entropy w' = entropy w \<and> n_clock w \<le> n_clock w'"

definition quiet :: "'z net_scheme \<Rightarrow> 'z net_scheme \<Rightarrow> bool" where
  "quiet w w' \<longleftrightarrow> net_le w w' \<and> length (socks w') = length (socks w)"

definition open_only :: "nat set \<Rightarrow> 'z net_scheme \<Rightarrow> 'z net_scheme \<Rightarrow> bool" where
  "open_only S w0 w \<longleftrightarrow>
     net_le w0 w \<and>
     (\<forall>i. length (socks w0) \<le> i \<longrightarrow> i < length (socks w) \<longrightarrow> i \<in> S \<or> sk_closed (sock_at w i))"

lemma net_le_refl: "net_le w w"
  by (simp add: net_le_def)

lemma net_le_trans:
  assumes a: "net_le w w'" and b: "net_le w' w''"
  shows "net_le w w''"
proof -
  have i: "i < length (socks w')" if "i < length (socks w)" for i
    using a that by (simp add: net_le_def)
  show ?thesis
    using a b i unfolding net_le_def by (auto intro: prefix_order.trans)
qed

section \<open>The contract of a relation kept by the network operations\<close>

locale sock_order = state_order R for R :: "'z net_scheme \<Rightarrow> 'z net_scheme \<Rightarrow> bool" +
  assumes prims:
    "evolves R (sock_recv s n)" "evolves R (sock_sendall s bs)"
    "evolves R (sock_settimeout s t)" "evolves R (sock_gettimeout s)"
    "evolves R (sock_shutdown s)" "evolves R (sock_close s)"
    "evolves R monotonic" "evolves R (sleep d)" "evolves R (urandom n)"

locale net_order = sock_order +
  assumes dial: "evolves R (create_connection h p d)"

section \<open>The primitives\<close>

lemma sock_at_upd_if:
  "i < length (socks w) \<Longrightarrow> sock_at (upd_sock s f w) i = (if i = s then f (sock_at w s) else sock_at w i)"
  by auto

lemma quiet_upd_sock:
  assumes "\<And>k. sk_closed k \<Longrightarrow> sk_closed (f k)" and "\<And>k. prefix (sk_sent k) (sk_sent (f k))"
  shows "quiet w (upd_sock s f w)"
  using assms by (auto simp: quiet_def net_le_def sock_at_upd_if)

lemma quiet_set_rx: "quiet w (set_rx s r w)"
  unfolding set_rx_def by (rule quiet_upd_sock) auto

lemma quiet_fields:
  "quiet w (w\<lparr>n_clock := Suc (n_clock w)\<rparr>)" "quiet w (w\<lparr>slept := x\<rparr>)"
  "quiet w (w\<lparr>n_entropy := m\<rparr>)"
  by (auto simp: quiet_def net_le_def)

lemma quiet_refl: "quiet w w"
  by (simp add: quiet_def net_le_refl)

lemma ev_quiet_prims:
  "evolves quiet (sock_recv s n)" "evolves quiet (sock_sendall s bs)"
  "evolves quiet (sock_settimeout s t)" "evolves quiet (sock_gettimeout s)"
  "evolves quiet (sock_shutdown s)" "evolves quiet (sock_close s)"
  "evolves quiet monotonic" "evolves quiet (sleep d)" "evolves quiet (urandom n)"
  unfolding sock_gettimeout_def sock_close_def
  by (auto simp: evolves_def sock_recv_def sock_sendall_def sock_settimeout_def sock_shutdown_def
      monotonic_def sleep_def urandom_def bad_fd_def io_defs quiet_refl
      split: prod.splits list.splits option.splits
      intro: quiet_set_rx quiet_upd_sock quiet_fields)

lemma net_le_create_connection: "evolves net_le (create_connection h p t)"
  by (auto simp: evolves_def create_connection_def net_le_def throw_def Let_def nth_append
      split: list.splits sum.splits if_splits)

lemma quiet_net_le: "quiet w w' \<Longrightarrow> net_le w w'"
  by (simp add: quiet_def)

lemma ev_quiet_net_le: "evolves quiet m \<Longrightarrow> evolves net_le m"
  by (simp add: evolves_def quiet_def)

interpretation qt: sock_order "quiet :: 'z net_scheme \<Rightarrow> 'z net_scheme \<Rightarrow> bool"
  by unfold_locales (auto simp: quiet_def net_le_refl intro: net_le_trans ev_quiet_prims)

interpretation nl: net_order "net_le :: 'z net_scheme \<Rightarrow> 'z net_scheme \<Rightarrow> bool"
  by unfold_locales
    (auto intro: net_le_refl net_le_trans ev_quiet_net_le ev_quiet_prims net_le_create_connection)

section \<open>Fields the network code never touches\<close>

definition same_more :: "'z net_scheme \<Rightarrow> 'z net_scheme \<Rightarrow> bool" where
  "same_more w w' \<longleftrightarrow> net.more w' = net.more w"

lemma same_more_refl: "same_more w w"
  by (simp add: same_more_def)

lemma same_more_upd_sock [simp]: "same_more w (upd_sock s f w)" "same_more w (set_rx s r w)"
  by (simp_all add: same_more_def upd_sock_def set_rx_def)

lemma ev_same_more_prims:
  "evolves same_more (sock_recv s n)" "evolves same_more (sock_sendall s bs)"
  "evolves same_more (sock_settimeout s t)" "evolves same_more (sock_gettimeout s)"
  "evolves same_more (sock_shutdown s)" "evolves same_more (sock_close s)"
  "evolves same_more monotonic" "evolves same_more (sleep d)" "evolves same_more (urandom n)"
  "evolves same_more (create_connection h p d)"
  unfolding sock_gettimeout_def sock_close_def
  by (auto simp: evolves_def sock_recv_def sock_sendall_def sock_settimeout_def sock_shutdown_def
      monotonic_def sleep_def urandom_def bad_fd_def io_defs same_more_refl create_connection_def Let_def
      same_more_def [of w "w\<lparr>n_clock := x\<rparr>" for w x] same_more_def [of w "w\<lparr>slept := x\<rparr>" for w x]
      same_more_def [of w "w\<lparr>n_entropy := x\<rparr>" for w x]
      same_more_def [of w "w\<lparr>dialled := x, dials := y\<rparr>" for w x y]
      same_more_def [of w "w\<lparr>dialled := x, dials := y, socks := z\<rparr>" for w x y z]
      split: prod.splits list.splits option.splits sum.splits)

interpretation sm: net_order "same_more :: 'z net_scheme \<Rightarrow> 'z net_scheme \<Rightarrow> bool"
  by unfold_locales (auto intro: ev_same_more_prims, simp_all add: same_more_def)

context state_order
begin

lemma ev_recv_loop:
  assumes ev: "\<And>n. evolves R (recv n)"
  shows "R w (snd (recv_loop eof recv sz data w))"
proof (induction "sz - length data" arbitrary: data w rule: less_induct)
  case less
  show ?case
  proof (cases "length data < sz")
    case True
    obtain r w1 where r: "recv (sz - length data) w = (r, w1)" by fastforce
    then have R: "R w w1" by (rule evolvesD [OF ev])
    show ?thesis
    proof (cases "\<exists>c. r = Ok c \<and> c \<noteq> []")
      case True
      then obtain c where c: "r = Ok c" "c \<noteq> []" by blast
      with less(1) [of "data @ c" w1] \<open>length data < sz\<close>
      have "R w1 (snd (recv_loop eof recv sz (data @ c) w1))" by (simp add: diff_less_mono2)
      then show ?thesis using R r c \<open>length data < sz\<close>
        by (subst recv_loop.simps) (auto intro: trans)
    next
      case False
      then show ?thesis using R r \<open>length data < sz\<close>
        by (subst recv_loop.simps) (auto simp: throw_def split: result.splits)
    qed
  qed (subst recv_loop.simps, simp add: refl)
qed

lemma ev_recv_exact: "(\<And>n. evolves R (recv n)) \<Longrightarrow> evolves R (recv_exact eof recv sz)"
  by (simp add: evolves_def recv_exact_def ev_recv_loop)

end

context sock_order
begin

lemma ev_poll_until:
  "evolves R body \<Longrightarrow> evolves R late \<Longrightarrow> evolves R (poll_until fuel deadline body late)"
proof (induction fuel)
  case (Suc fuel)
  then show ?case
    by (auto intro!: ev_bind ev_pure prims split: option.splits)
qed (simp add: ev_pure)

end

section \<open>Which sockets are open\<close>

lemma open_only_self: "open_only S w w"
  by (simp add: open_only_def nl.refl)

lemma open_only_mono: "open_only S w0 w \<Longrightarrow> S \<subseteq> T \<Longrightarrow> open_only T w0 w"
  by (auto simp: open_only_def)

lemma open_only_quiet:
  assumes "open_only S w0 w" and "quiet w w'"
  shows "open_only S w0 w'"
proof -
  have "net_le w0 w'"
    using assms by (auto simp: open_only_def quiet_def intro: nl.trans)
  then show ?thesis using assms by (auto simp: open_only_def quiet_def net_le_def)
qed

lemma triple_evolves:
  assumes "evolves R m" and "\<And>w w'. P w \<Longrightarrow> R w w' \<Longrightarrow> Q w'"
  shows "triple P m (\<lambda>_. Q) (\<lambda>_. Q)"
  unfolding triple_def
proof (intro allI impI)
  fix w
  assume P: "P w"
  obtain r w' where m: "m w = (r, w')" by fastforce
  then have "Q w'" using assms P evolvesD by metis
  then show "case m w of (Ok x, w') \<Rightarrow> Q w' | (Raise e, w') \<Rightarrow> Q w' | (Diverge, _) \<Rightarrow> True"
    by (simp add: m split: result.splits)
qed

lemma triple_quiet:
  "evolves quiet m \<Longrightarrow> triple (open_only S w0) m (\<lambda>_. open_only S w0) (\<lambda>_. open_only S w0)"
  by (erule triple_evolves) (rule open_only_quiet)

lemma triple_create_connection:
  "triple (open_only S w0) (create_connection h p t)
     (\<lambda>s w. open_only (insert s S) w0 w \<and> live s w \<and> 0 \<le> t) (\<lambda>_. open_only S w0)"
proof -
  have "live s w' \<and> 0 \<le> t" if "create_connection h p t w = (Ok s, w')" for w w' :: "'z net_scheme" and s
    using that by (auto simp: live_def create_connection_def throw_def nth_append Let_def
        split: list.splits sum.splits if_splits)
  moreover have "open_only (insert s S) w0 w'" if "open_only S w0 w"
    and "create_connection h p t w = (Ok s, w')" for w w' s
  proof -
    have "net_le w w'" using net_le_create_connection that(2) by (rule evolvesD)
    with that(1) have "net_le w0 w'" by (auto simp: open_only_def intro: nl.trans)
    then show ?thesis using that
      by (auto simp: open_only_def create_connection_def throw_def nth_append Let_def
          split: list.splits sum.splits if_splits)
  qed
  moreover have "open_only S w0 w'" if "open_only S w0 w"
    and "create_connection h p t w = (Raise e, w')" for w w' e
    using that by (auto simp: open_only_def net_le_def create_connection_def throw_def Let_def
        split: list.splits sum.splits if_splits)
  ultimately show ?thesis
    unfolding triple_def by (auto split: prod.splits result.splits)
qed

lemma triple_sock_close:
  "triple (open_only (insert s S) w0) (sock_close s) (\<lambda>_. open_only S w0) (\<lambda>_. open_only S w0)"
proof -
  have "open_only S w0 (upd_sock s (\<lambda>k. k\<lparr>sk_closed := True\<rparr>) w)"
    if "open_only (insert s S) w0 w" for w
  proof -
    have "quiet w (upd_sock s (\<lambda>k. k\<lparr>sk_closed := True\<rparr>) w)" by (rule quiet_upd_sock) auto
    with that have "open_only (insert s S) w0 (upd_sock s (\<lambda>k. k\<lparr>sk_closed := True\<rparr>) w)"
      by (rule open_only_quiet)
    then show ?thesis by (auto simp: open_only_def sock_at_upd_if)
  qed
  then show ?thesis by (simp add: triple_def sock_close_def modify_def)
qed

section \<open>A healthy connection\<close>

text \<open>\<^verbatim>\<open>conn s st snt rnd\<close>: socket \<^verbatim>\<open>s\<close> is open and sends succeed, the bytes \<^verbatim>\<open>st\<close> are still to be
  read, \<^verbatim>\<open>snt\<close> has been sent, and \<^verbatim>\<open>rnd\<close> is the state of the entropy source.\<close>

definition conn :: "nat \<Rightarrow> bytes \<Rightarrow> bytes \<Rightarrow> (nat \<Rightarrow> nat \<Rightarrow> byte) \<times> nat \<Rightarrow> 'z net_scheme \<Rightarrow> bool" where
  "conn s st snt rnd w \<longleftrightarrow>
     live s w \<and> avail (sk_rx (sock_at w s)) = st \<and> sk_sent (sock_at w s) = snt \<and>
     list_all (\<lambda>r. r = None) (sk_tx (sock_at w s)) \<and> rnd = (entropy w, n_entropy w)"

lemma conn_rx_only:
  assumes "conn s st snt rnd w" and "rx_only s w w'" and "avail (sk_rx (sock_at w' s)) = st'"
  shows "conn s st' snt rnd w'"
  using assms by (auto simp: conn_def rx_only_def set_rx_def live_def)

lemma yields_recv_exact:
  assumes "n \<le> length st"
  shows "yields (conn s st snt rnd) (recv_exact eof (sock_recv s) n)
    (\<lambda>x w. x = take n st \<and> conn s (drop n st) snt rnd w)"
  unfolding yields_def
proof (intro allI impI)
  fix w :: "'z net_scheme"
  assume c: "conn s st snt rnd w"
  then have "live s w" and st: "avail (sk_rx (sock_at w s)) = st" by (simp_all add: conn_def)
  then obtain w' where w': "recv_exact eof (sock_recv s) n w = (Ok (take n st), w')"
      "avail (sk_rx (sock_at w' s)) = drop n st" "rx_only s w w'"
    using sock_recv_exact [of s w n eof] assms by auto
  then show "\<exists>x w'. recv_exact eof (sock_recv s) n w = (Ok x, w') \<and>
      x = take n st \<and> conn s (drop n st) snt rnd w'"
    using conn_rx_only [OF c w'(3,2)] by blast
qed

lemma yields_sendall:
  "yields (conn s st snt rnd) (sock_sendall s bs) (\<lambda>_. conn s st (snt @ bs) rnd)"
  unfolding yields_def
proof (intro allI impI)
  fix w :: "'z net_scheme"
  assume c: "conn s st snt rnd w"
  let ?w = "upd_sock s (\<lambda>k. k\<lparr>sk_tx := tl (sk_tx k), sk_sent := sk_sent k @ bs\<rparr>) w"
  have "conn s st (snt @ bs) rnd ?w"
    using c by (cases "sk_tx (sock_at w s)") (auto simp: conn_def live_def)
  moreover have "sock_sendall s bs w = (Ok (), ?w)"
    using c by (cases "sk_tx (sock_at w s)") (auto simp: conn_def sock_sendall_def upd_sock_def)
  ultimately show "\<exists>x w'. sock_sendall s bs w = (Ok x, w') \<and> conn s st (snt @ bs) rnd w'" by blast
qed

lemma yields_settimeout:
  "(\<And>d. t = Some d \<Longrightarrow> 0 \<le> d) \<Longrightarrow> yields (conn s st snt rnd) (sock_settimeout s t) (\<lambda>_. conn s st snt rnd)"
  by (auto simp: yields_def sock_settimeout_def conn_def live_def split: option.splits)

lemma yields_urandom:
  "yields (conn s st snt rnd) (urandom n)
     (\<lambda>x w. x = map (fst rnd (snd rnd)) [0..<n] \<and> conn s st snt (fst rnd, Suc (snd rnd)) w)"
  by (auto simp: yields_def urandom_def conn_def live_def)

section \<open>Deadline loops\<close>

lemma triple_poll_until:
  assumes clk: "\<And>w. I w \<Longrightarrow> I (w\<lparr>n_clock := Suc (n_clock w)\<rparr>)"
    and body: "triple I body (\<lambda>r w. case r of Some x \<Rightarrow> Q x w | None \<Rightarrow> I w) E"
    and late: "triple I late Q E"
  shows "triple I (poll_until fuel deadline body late) Q E"
proof (induction fuel)
  case (Suc fuel)
  have "triple I monotonic (\<lambda>_. I) E"
    using clk by (simp add: triple_def monotonic_def)
  moreover have "triple (\<lambda>w. case r of Some x \<Rightarrow> Q x w | None \<Rightarrow> I w)
      (case r of Some x \<Rightarrow> ret x | None \<Rightarrow> poll_until fuel deadline body late) Q E" for r
    using Suc by (cases r) (simp_all add: triple_ret)
  ultimately show ?case
    using late body by (auto intro!: triple_bind)
qed (simp add: triple_diverge)


text \<open>A loop that polls until a deadline returns when the clock reaches the deadline: the
  number of readings left before it bounds the number of iterations.\<close>

lemma poll_until_returns:
  assumes mono: "\<And>i j. i \<le> j \<Longrightarrow> clock w i \<le> clock w j"
    and reach: "deadline \<le> clock w (n_clock w + k)" and fuel: "k < fuel"
    and body: "evolves net_le body" "\<And>w. fst (body w) \<noteq> Diverge"
    and late: "\<And>w. fst (late w) \<noteq> Diverge"
  shows "fst (poll_until fuel deadline body late w) \<noteq> Diverge"
  using mono reach fuel
proof (induction fuel arbitrary: w k)
  case (Suc fuel)
  let ?w1 = "w\<lparr>n_clock := Suc (n_clock w)\<rparr>"
  show ?case
  proof (cases "clock w (n_clock w) < deadline")
    case True
    then have k: "0 < k" using Suc.prems(2) by (cases k) auto
    obtain r w2 where b: "body ?w1 = (r, w2)" by fastforce
    then have le: "net_le ?w1 w2" by (rule evolvesD [OF body(1)])
    have c: "clock w2 = clock w" and n: "Suc (n_clock w) \<le> n_clock w2"
      using le by (simp_all add: net_le_def)
    have "n_clock w + k \<le> n_clock w2 + (k - 1)" using n k by linarith
    then have "deadline \<le> clock w2 (n_clock w2 + (k - 1))"
      using Suc.prems(1,2) c by (metis order.trans)
    moreover have "k - 1 < fuel" using k Suc.prems(3) by linarith
    ultimately have "fst (poll_until fuel deadline body late w2) \<noteq> Diverge"
      using Suc.IH [of w2 "k - 1"] Suc.prems(1) c by simp
    moreover have "r \<noteq> Diverge" using body(2) [of ?w1] b by simp
    ultimately show ?thesis using True b
      by (auto simp: bindE_def monotonic_def ret_def split: result.splits option.splits)
  next
    case False
    then show ?thesis using late by (simp add: bindE_def monotonic_def)
  qed
qed simp

end
