(* ===== verification/Frame.thy ===== *)
theory Frame
  imports NetLogic
begin

text \<open>
  The framed protocol between the clients and the relay
  (\<^verbatim>\<open>benchmarks/BT-01/auth_test.py\<close>, \<^verbatim>\<open>benchmarks/BT-03/loadgen.py\<close>): a frame is an
  action byte, a 16-byte mailbox identifier, the payload length as a
  little-endian 32-bit integer and the payload; control payloads are padded so
  that the frame fills one Tor cell.  The two modules repeat the same code with
  their own error classes; it is modelled once, with the differing text as an
  argument, and instantiated per module.
\<close>

section \<open>Constants\<close>

definition ACTION_PUSH :: byte where [wire_simps]: "ACTION_PUSH = 1"
definition ACTION_POLL :: byte where [wire_simps]: "ACTION_POLL = 2"
definition ACTION_AUTH_CHALLENGE :: byte where [wire_simps]: "ACTION_AUTH_CHALLENGE = 4"
definition ACTION_AUTH_RESPONSE :: byte where [wire_simps]: "ACTION_AUTH_RESPONSE = 5"
definition MAILBOX_SIZE :: nat where [wire_simps]: "MAILBOX_SIZE = 16"
definition FRAME_HEADER_SIZE :: nat where [wire_simps]: "FRAME_HEADER_SIZE = 21"
definition TOR_CELL_PAYLOAD_SIZE :: nat where [wire_simps]: "TOR_CELL_PAYLOAD_SIZE = 498"
definition CONTROL_PAYLOAD_SIZE :: nat where
  [wire_simps]: "CONTROL_PAYLOAD_SIZE = TOR_CELL_PAYLOAD_SIZE - FRAME_HEADER_SIZE"
definition CHALLENGE_SIZE :: nat where [wire_simps]: "CHALLENGE_SIZE = 32"
definition MAX_PAYLOAD_SIZE :: nat where [wire_simps]: "MAX_PAYLOAD_SIZE = 1024 * 1024"
definition ZERO_MAILBOX :: bytes where [wire_simps]: "ZERO_MAILBOX = replicate MAILBOX_SIZE 0"

section \<open>Building and sending\<close>

definition build_frame :: "byte \<Rightarrow> bytes \<Rightarrow> bytes \<Rightarrow> exn + bytes" where
  "build_frame action mailbox_id payload =
     (if length mailbox_id \<noteq> MAILBOX_SIZE then Inl (Exn ValueError ''bad mailbox size'')
      else if length payload > MAX_PAYLOAD_SIZE then Inl (Exn ValueError ''payload too large'')
      else Inr ([action] @ mailbox_id @ pack_le 4 (length payload) @ payload))"

definition pad_control_payload :: "bytes \<Rightarrow> exn + bytes" where
  "pad_control_payload payload =
     (if length payload > CONTROL_PAYLOAD_SIZE
      then Inl (Exn ValueError ''control payload too large'')
      else Inr (payload @ replicate (CONTROL_PAYLOAD_SIZE - length payload) 0))"

text \<open>The value of a pure function that may raise.\<close>

definition lift_exn :: "exn + 'a \<Rightarrow> ('w, 'a) io" where
  "lift_exn r = (case r of Inl e \<Rightarrow> rethrow e | Inr x \<Rightarrow> ret x)"

definition send_frame :: "nat \<Rightarrow> byte \<Rightarrow> bytes \<Rightarrow> bytes \<Rightarrow> ('z net_scheme, unit) io" where
  "send_frame s action mailbox_id payload =
     bindE (lift_exn (build_frame action mailbox_id payload)) (sock_sendall s)"

definition send_control :: "nat \<Rightarrow> byte \<Rightarrow> bytes \<Rightarrow> bytes \<Rightarrow> ('z net_scheme, unit) io" where
  "send_control s action mailbox_id body =
     bindE (lift_exn (pad_control_payload body)) (send_frame s action mailbox_id)"

section \<open>Receiving\<close>

text \<open>\<^verbatim>\<open>oversized n\<close> is the exception the module raises for a length field \<^verbatim>\<open>n\<close> above the limit.\<close>

definition recv_frame_core ::
  "(nat \<Rightarrow> exn) \<Rightarrow> (nat \<Rightarrow> ('w, bytes) io) \<Rightarrow> ('w, byte \<times> bytes \<times> bytes) io" where
  "recv_frame_core oversized recv =
     bindE (recv_exact closed_early recv FRAME_HEADER_SIZE) (\<lambda>header.
       let action = header ! 0;
           mailbox = take 16 (drop 1 header);
           payload_length = unpack_le (take 4 (drop 17 header)) in
       if payload_length > MAX_PAYLOAD_SIZE then rethrow (oversized payload_length)
       else bindE (if payload_length \<noteq> 0 then recv_exact closed_early recv payload_length else ret [])
              (\<lambda>payload. ret (action, mailbox, payload)))"

definition recv_frame :: "nat \<Rightarrow> ('z net_scheme, byte \<times> bytes \<times> bytes) io" where
  "recv_frame s =
     recv_frame_core (\<lambda>n. Exn TestProtocolError (''oversized payload: '' @ show_nat n)) (sock_recv s)"

definition lg_recv_frame :: "nat \<Rightarrow> ('z net_scheme, byte \<times> bytes \<times> bytes) io" where
  "lg_recv_frame s =
     recv_frame_core (\<lambda>_. Exn LoadProtocolError ''oversized payload'') (sock_recv s)"

section \<open>Layout lemmas\<close>

lemma build_frame_InrD:
  assumes "build_frame a m p = Inr f"
  shows "f = a # m @ pack_le 4 (length p) @ p" "length m = MAILBOX_SIZE"
    "length p \<le> MAX_PAYLOAD_SIZE" "length f = FRAME_HEADER_SIZE + length p"
  using assms by (auto simp: build_frame_def wire_simps split: if_splits)

lemma build_frame_Inr:
  "length m = MAILBOX_SIZE \<Longrightarrow> length p \<le> MAX_PAYLOAD_SIZE \<Longrightarrow>
   build_frame a m p = Inr (a # m @ pack_le 4 (length p) @ p)"
  by (simp add: build_frame_def)

lemma pad_control_payload_InrD:
  assumes "pad_control_payload b = Inr p"
  shows "length p = CONTROL_PAYLOAD_SIZE" "prefix b p" "p = b @ replicate (CONTROL_PAYLOAD_SIZE - length b) 0"
  using assms by (auto simp: pad_control_payload_def split: if_splits)

lemma frame_header_fields:
  fixes a :: byte
  assumes "length m = MAILBOX_SIZE" and "length p \<le> MAX_PAYLOAD_SIZE"
  defines "h \<equiv> a # m @ pack_le 4 (length p)"
  shows "length h = FRAME_HEADER_SIZE" "h ! 0 = a" "take 16 (drop 1 h) = m"
    "unpack_le (take 4 (drop 17 h)) = length p"
proof -
  have "length p < 256 ^ 4" using assms(2) by (simp add: wire_simps)
  moreover have "drop 17 h = pack_le 4 (length p)"
    using assms(1) by (simp add: h_def wire_simps)
  ultimately show "unpack_le (take 4 (drop 17 h)) = length p" by simp
qed (use assms(1) in \<open>simp_all add: h_def wire_simps\<close>)

section \<open>Frames over any byte source\<close>

context byte_source
begin

text \<open>A frame at the head of the stream is received as it was built, and exactly its bytes are
  consumed.\<close>

lemma recv_frame_built:
  assumes "usable w" and b: "build_frame a m p = Inr f" and st: "stream w = f @ rest"
  shows "\<exists>w'. recv_frame_core ov recv w = (Ok (a, m, p), w') \<and>
    stream w' = rest \<and> usable w' \<and> same w w'"
proof -
  define h where "h = a # m @ pack_le 4 (length p)"
  note f = build_frame_InrD [OF b]
  note hf = frame_header_fields [OF f(2,3), of a, folded h_def]
  have sw: "stream w = h @ p @ rest" using st f(1) by (simp add: h_def)
  have "FRAME_HEADER_SIZE \<le> length (stream w)" using sw hf(1) by simp
  then obtain w1 where w1: "recv_exact closed_early recv FRAME_HEADER_SIZE w = (Ok h, w1)"
      "stream w1 = p @ rest" "usable w1" "same w w1"
    using recv_exact_enough [OF assms(1), of FRAME_HEADER_SIZE closed_early] sw hf(1) by auto
  have "\<exists>w2. (if length p \<noteq> 0 then recv_exact closed_early recv (length p) else ret []) w1 = (Ok p, w2) \<and>
      stream w2 = rest \<and> usable w2 \<and> same w1 w2"
  proof (cases "p = []")
    case True
    then show ?thesis using w1 by (simp add: ret_def same_refl)
  next
    case False
    then show ?thesis using recv_exact_enough [OF w1(3), of "length p" closed_early] w1(2) by auto
  qed
  then obtain w2 where w2:
      "(if length p \<noteq> 0 then recv_exact closed_early recv (length p) else ret []) w1 = (Ok p, w2)"
      "stream w2 = rest" "usable w2" "same w1 w2" by blast
  have "recv_frame_core ov recv w = (Ok (a, m, p), w2)"
    unfolding recv_frame_core_def Let_def bindE_def w1(1) prod.case result.case hf(2-4)
    using f(3) w2(1) by (simp add: bindE_def ret_def not_less)
  then show ?thesis using w2 same_trans [OF w1(4) w2(4)] by blast
qed

text \<open>Conversely, whatever is received is the frame its fields build, taken off the stream.\<close>

lemma recv_frame_sound:
  assumes u: "usable w" and r: "recv_frame_core ov recv w = (Ok (a, m, p), w')"
  shows "\<exists>f. build_frame a m p = Inr f \<and> stream w = f @ stream w' \<and> usable w' \<and> same w w'"
proof -
  obtain h w1 where h: "recv_exact closed_early recv FRAME_HEADER_SIZE w = (Ok h, w1)"
    and r1: "(let action = h ! 0; mailbox = take 16 (drop 1 h); n = unpack_le (take 4 (drop 17 h)) in
       if n > MAX_PAYLOAD_SIZE then rethrow (ov n)
       else bindE (if n \<noteq> 0 then recv_exact closed_early recv n else ret [])
         (\<lambda>payload. ret (action, mailbox, payload))) w1 = (Ok (a, m, p), w')"
    using r unfolding recv_frame_core_def by (rule bindE_OkE) blast
  define n where "n = unpack_le (take 4 (drop 17 h))"
  have enough: "FRAME_HEADER_SIZE \<le> length (stream w)" and hd: "h = take FRAME_HEADER_SIZE (stream w)"
    using recv_exact_iff [OF u, of closed_early FRAME_HEADER_SIZE h] h by auto
  have w1: "stream w1 = drop FRAME_HEADER_SIZE (stream w)" "usable w1" "same w w1"
    using recv_exact_enough [OF u enough, of closed_early] h by auto
  have lh: "length h = 21" using enough hd by (simp add: wire_simps)
  have le: "n \<le> MAX_PAYLOAD_SIZE"
    using r1 by (auto simp: Let_def n_def [symmetric] rethrow_def split: if_splits)
  then have am: "a = h ! 0" "m = take 16 (drop 1 h)"
    and p: "(if n \<noteq> 0 then recv_exact closed_early recv n else ret []) w1 = (Ok p, w')"
    using r1 by (auto simp: Let_def n_def [symmetric] ret_def elim!: bindE_OkE split: if_splits)
  have pay: "p = take n (stream w1) \<and> n \<le> length (stream w1) \<and> stream w' = drop n (stream w1) \<and>
      usable w' \<and> same w1 w'"
  proof (cases "n = 0")
    case True
    then show ?thesis using p w1 by (simp add: ret_def same_refl)
  next
    case False
    then have e: "recv_exact closed_early recv n w1 = (Ok p, w')" using p by simp
    then have "n \<le> length (stream w1)" "p = take n (stream w1)"
      using recv_exact_iff [OF w1(2), of closed_early n p] by auto
    then show ?thesis using recv_exact_enough [OF w1(2), of n closed_early] e by auto
  qed
  have "h = a # m @ take 4 (drop 17 h)"
  proof -
    have "h = take 1 h @ take 16 (drop 1 h) @ take 4 (drop 17 h)"
      using lh by (simp add: take_add [symmetric] flip: append_assoc)
    moreover have "take 1 h = [h ! 0]" using lh by (cases h) auto
    ultimately show ?thesis using am by simp
  qed
  moreover have "take 4 (drop 17 h) = pack_le 4 n"
    using pack_unpack_le [of "take 4 (drop 17 h)"] lh by (simp add: n_def)
  moreover have "length p = n" using pay by simp
  moreover have "length m = MAILBOX_SIZE" using am lh by (simp add: wire_simps)
  ultimately have "build_frame a m p = Inr (h @ p)"
    using le build_frame_Inr [of m p a] by simp
  moreover have "stream w = (h @ p) @ stream w'"
    using hd pay w1(1) by (metis append.assoc append_take_drop_id)
  ultimately show ?thesis using pay same_trans [OF w1(3)] by blast
qed

end

context state_order
begin

lemma ev_recv_frame_core: "(\<And>n. evolves R (recv n)) \<Longrightarrow> evolves R (recv_frame_core ov recv)"
  unfolding recv_frame_core_def Let_def
  by (auto intro!: ev_bind ev_recv_exact ev_pure)

lemma ev_lift_exn: "evolves R (lift_exn r)"
  by (simp add: lift_exn_def ev_pure split: sum.splits)

end

section \<open>Frames over a healthy connection\<close>

lemma yields_recv_frame_core:
  assumes "build_frame a m p = Inr f"
  shows "yields (conn s (f @ rest) snt rnd) (recv_frame_core ov (sock_recv s))
    (\<lambda>x w. x = (a, m, p) \<and> conn s rest snt rnd w)"
  unfolding yields_def
proof (intro allI impI)
  fix w :: "'z net_scheme"
  assume c: "conn s (f @ rest) snt rnd w"
  then have "live s w" "avail (sk_rx (sock_at w s)) = f @ rest" by (simp_all add: conn_def)
  then obtain w' where w': "recv_frame_core ov (sock_recv s) w = (Ok (a, m, p), w')"
      "avail (sk_rx (sock_at w' s)) = rest" "rx_only s w w'"
    using sk.recv_frame_built [of s w a m p f rest ov] assms by auto
  then show "\<exists>x w'. recv_frame_core ov (sock_recv s) w = (Ok x, w') \<and>
      x = (a, m, p) \<and> conn s rest snt rnd w'"
    using conn_rx_only [OF c w'(3,2)] by blast
qed

lemma yields_send_frame:
  assumes "build_frame a m p = Inr f"
  shows "yields (conn s st snt rnd) (send_frame s a m p) (\<lambda>_. conn s st (snt @ f) rnd)"
  unfolding send_frame_def assms lift_exn_def sum.case bindE_ret by (rule yields_sendall)

lemma yields_send_control:
  assumes "pad_control_payload body = Inr p" and "build_frame a m p = Inr f"
  shows "yields (conn s st snt rnd) (send_control s a m body) (\<lambda>_. conn s st (snt @ f) rnd)"
  unfolding send_control_def assms(1) lift_exn_def sum.case bindE_ret
  by (rule yields_send_frame [OF assms(2)])

context sock_order
begin

lemma ev_frames:
  "evolves R (send_frame s a m p)" "evolves R (send_control s a m p)"
  "evolves R (recv_frame_core ov (sock_recv s))"
  "evolves R (recv_frame s)" "evolves R (lg_recv_frame s)"
  unfolding send_control_def send_frame_def recv_frame_def lg_recv_frame_def
  by (auto intro!: ev_bind ev_lift_exn ev_recv_frame_core prims)

end

end
