(* ===== verification/Socks.thy ===== *)
theory Socks
  imports Frame
begin

text \<open>
  The SOCKS5 client used to reach the onion service through Tor
  (\<^verbatim>\<open>socks5_connect\<close> of \<^verbatim>\<open>auth_test.py\<close>, \<^verbatim>\<open>loadgen.py\<close> and the orchestrators of BT-02, BT-04
  and BT-05).  The five copies differ in their error classes and texts and in the
  checks on the CONNECT reply; the differences are the fields of a dialect.
\<close>

record socks_dialect =
  d_eof :: "nat \<Rightarrow> nat \<Rightarrow> string"
  d_noauth :: exn
  d_reply :: "byte \<Rightarrow> byte \<Rightarrow> byte \<Rightarrow> exn option"
  d_atyp :: "byte \<Rightarrow> exn"

text \<open>\<^verbatim>\<open>str.encode("ascii")\<close>.\<close>

definition encode_ascii :: "string \<Rightarrow> exn + bytes" where
  "encode_ascii s =
     (if list_all (\<lambda>c. (of_char c :: nat) < 128) s then Inr (map of_char s)
      else Inl (Exn UnicodeError ''ordinal not in range(128)''))"

text \<open>\<^verbatim>\<open>bytes([n])\<close> and \<^verbatim>\<open>struct.pack(">H", n)\<close> refuse values out of range.\<close>

definition connect_request :: "bytes \<Rightarrow> int \<Rightarrow> exn + bytes" where
  "connect_request domain port =
     (if 255 < length domain then Inl (Exn ValueError ''bytes must be in range(0, 256)'')
      else if port < 0 \<or> 65535 < port then Inl (Exn StructError ''ushort format requires 0 <= number <= 65535'')
      else Inr ([5, 1, 0, 3] @ [word_of_nat (length domain)] @ domain @ pack_be 2 (nat port)))"

text \<open>The bound address of the reply, by its type.\<close>

definition recv_address :: "socks_dialect \<Rightarrow> nat \<Rightarrow> byte \<Rightarrow> ('z net_scheme, bytes) io" where
  "recv_address d s atyp =
     (let recv = recv_exact (d_eof d) (sock_recv s) in
      if atyp = 1 then recv 4
      else if atyp = 3 then bindE (recv 1) (\<lambda>l. recv (unat (l ! 0)))
      else if atyp = 4 then recv 16
      else rethrow (d_atyp d atyp))"

definition socks5_handshake ::
  "socks_dialect \<Rightarrow> nat \<Rightarrow> bytes \<Rightarrow> int \<Rightarrow> ('z net_scheme, unit) io" where
  "socks5_handshake d s domain target_port =
     (let recv = recv_exact (d_eof d) (sock_recv s) in
      seqE (sock_sendall s [5, 1, 0])
      (bindE (recv 2) (\<lambda>answer.
       if answer \<noteq> [5, 0] then rethrow (d_noauth d)
       else
         bindE (lift_exn (connect_request domain target_port)) (\<lambda>request.
         seqE (sock_sendall s request)
         (bindE (recv 4) (\<lambda>h.
            case d_reply d (h ! 0) (h ! 1) (h ! 2) of
              Some e \<Rightarrow> rethrow e
            | None \<Rightarrow> seqE (recv_address d s (h ! 3)) (seqE (recv 2) (ret ()))))))))"

definition socks5_open ::
  "socks_dialect \<Rightarrow> string \<Rightarrow> int \<Rightarrow> bytes \<Rightarrow> int \<Rightarrow> real \<Rightarrow> ('z net_scheme, nat) io" where
  "socks5_open d host port domain target_port timeout =
     bindE (create_connection host port timeout) (\<lambda>s.
     seqE (sock_settimeout s (Some timeout))
     (try_except (seqE (socks5_handshake d s domain target_port) (ret s))
        (catches [Exception] (\<lambda>e. seqE (sock_close s) (rethrow e)))))"

section \<open>The five dialects\<close>

definition test_dialect :: socks_dialect where
  "test_dialect =
     \<lparr>d_eof = closed_early,
      d_noauth = Exn TestSocksError ''SOCKS5 NoAuth method rejected'',
      d_reply = (\<lambda>version reply reserved.
        if version \<noteq> 5 \<or> reserved \<noteq> 0 then Some (Exn TestSocksError ''invalid SOCKS5 response'')
        else if reply \<noteq> 0
        then Some (Exn TestSocksError (''SOCKS5 CONNECT failed with code 0x'' @ hex2 (unat reply)))
        else None),
      d_atyp = (\<lambda>t. Exn TestSocksError (''unsupported SOCKS5 address type: '' @ show_nat (unat t)))\<rparr>"

definition load_dialect :: socks_dialect where
  "load_dialect =
     \<lparr>d_eof = closed_early,
      d_noauth = Exn LoadSocksError ''no-auth rejected'',
      d_reply = (\<lambda>version reply reserved.
        if version \<noteq> 5 \<or> reserved \<noteq> 0 then Some (Exn LoadSocksError ''invalid response'')
        else if reply \<noteq> 0 then Some (Exn LoadSocksError (''CONNECT failed 0x'' @ hex2 (unat reply)))
        else None),
      d_atyp = (\<lambda>_. Exn LoadSocksError ''unsupported ATYP'')\<rparr>"

text \<open>The orchestrators of BT-02 and BT-04 raise \<^verbatim>\<open>Bt02Error\<close> and \<^verbatim>\<open>Bt04Error\<close>, both a
  \<^verbatim>\<open>RuntimeError\<close> of their module, here \<^verbatim>\<open>BenchmarkError\<close>.\<close>

definition orch_dialect :: socks_dialect where
  "orch_dialect =
     \<lparr>d_eof = (\<lambda>_ _. ''connection closed''),
      d_noauth = Exn BenchmarkError ''SOCKS5 NoAuth rejected'',
      d_reply = (\<lambda>version reply reserved.
        if version \<noteq> 5 \<or> reserved \<noteq> 0 \<or> reply \<noteq> 0
        then Some (Exn BenchmarkError (''SOCKS5 CONNECT failed: 0x'' @ hex2 (unat reply)))
        else None),
      d_atyp = (\<lambda>_. Exn BenchmarkError ''Unsupported SOCKS5 ATYP'')\<rparr>"

definition bt05_dialect :: socks_dialect where
  "bt05_dialect =
     \<lparr>d_eof = (\<lambda>_ _. ''connection closed''),
      d_noauth = Exn ConnectionError ''SOCKS no-auth rejected'',
      d_reply = (\<lambda>version reply reserved.
        if reply \<noteq> 0
        then Some (Exn ConnectionError (''SOCKS CONNECT failed with REP=0x'' @ hex2 (unat reply)))
        else None),
      d_atyp = (\<lambda>_. Exn ConnectionError ''Unsupported SOCKS ATYP'')\<rparr>"

section \<open>The connect functions\<close>

text \<open>\<^verbatim>\<open>auth_test.py\<close> and \<^verbatim>\<open>loadgen.py\<close> check the length of the host name first.\<close>

definition socks5_connect :: "string \<Rightarrow> int \<Rightarrow> string \<Rightarrow> int \<Rightarrow> real \<Rightarrow> ('z net_scheme, nat) io" where
  "socks5_connect socks_host socks_port onion target_port timeout =
     bindE (lift_exn (encode_ascii onion)) (\<lambda>onion_bytes.
       if onion_bytes = [] \<or> 255 < length onion_bytes
       then throw TestSocksError ''invalid onion hostname length''
       else socks5_open test_dialect socks_host socks_port onion_bytes target_port timeout)"

definition lg_socks5_connect :: "string \<Rightarrow> int \<Rightarrow> string \<Rightarrow> int \<Rightarrow> real \<Rightarrow> ('z net_scheme, nat) io" where
  "lg_socks5_connect socks_host socks_port onion target_port timeout =
     bindE (lift_exn (encode_ascii onion)) (\<lambda>onion_bytes.
       if onion_bytes = [] \<or> 255 < length onion_bytes
       then throw LoadSocksError ''bad domain length''
       else socks5_open load_dialect socks_host socks_port onion_bytes target_port timeout)"

definition TOR_SOCKS_HOST :: string where "TOR_SOCKS_HOST = ''127.0.0.1''"
definition TOR_SOCKS_PORT :: int where "TOR_SOCKS_PORT = 9050"

definition bt02_socks5_connect :: "string \<Rightarrow> int \<Rightarrow> real \<Rightarrow> ('z net_scheme, nat) io" where
  "bt02_socks5_connect onion target_port timeout =
     bindE (lift_exn (encode_ascii onion)) (\<lambda>domain.
       socks5_open orch_dialect TOR_SOCKS_HOST TOR_SOCKS_PORT domain target_port timeout)"

definition bt05_socks5_connect :: "string \<Rightarrow> int \<Rightarrow> int \<Rightarrow> real \<Rightarrow> ('z net_scheme, nat) io" where
  "bt05_socks5_connect onion socks_port target_port timeout =
     bindE (lift_exn (encode_ascii onion)) (\<lambda>domain.
       socks5_open bt05_dialect ''127.0.0.1'' socks_port domain target_port timeout)"

section \<open>What stays open\<close>

text \<open>A connect that fails leaves no socket behind, unless it was interrupted.\<close>

abbreviation closed_unless_interrupt :: "nat set \<Rightarrow> 'z net_scheme \<Rightarrow> exn \<Rightarrow> 'z net_scheme \<Rightarrow> bool" where
  "closed_unless_interrupt S w0 e w \<equiv> instance_of e Exception \<longrightarrow> open_only S w0 w"

context sock_order
begin

lemma ev_handshake: "evolves R (socks5_handshake d s domain port)"
  unfolding socks5_handshake_def recv_address_def Let_def
  by (auto intro!: ev_seq ev_bind ev_pure ev_lift_exn ev_recv_exact prims split: option.splits)

end

context net_order
begin

lemma ev_socks5_open: "evolves R (socks5_open d h p dn tp t)"
  unfolding socks5_open_def
  by (auto intro!: ev_seq ev_bind ev_pure ev_try_except ev_handshake dial prims
      simp: catches_def split: if_splits)

lemma ev_connects:
  "evolves R (socks5_connect h p onion tp t)" "evolves R (lg_socks5_connect h p onion tp t)"
  "evolves R (bt02_socks5_connect onion tp t)" "evolves R (bt05_socks5_connect onion p tp t)"
  unfolding socks5_connect_def lg_socks5_connect_def bt02_socks5_connect_def bt05_socks5_connect_def
  by (auto intro!: ev_bind ev_pure ev_lift_exn ev_socks5_open)

end

lemma triple_socks5_open:
  "triple (open_only S w0) (socks5_open d h p dn tp t)
     (\<lambda>s. open_only (insert s S) w0) (closed_unless_interrupt S w0)"
  unfolding socks5_open_def
proof (rule triple_bind)
  show "triple (open_only S w0) (create_connection h p t)
      (\<lambda>s w. open_only (insert s S) w0 w \<and> live s w \<and> 0 \<le> t) (closed_unless_interrupt S w0)"
    by (rule triple_conseq [OF triple_create_connection]) auto
next
  fix s
  show "triple (\<lambda>w. open_only (insert s S) w0 w \<and> live s w \<and> 0 \<le> t)
      (seqE (sock_settimeout s (Some t))
        (try_except (seqE (socks5_handshake d s dn tp) (ret s))
          (catches [Exception] (\<lambda>e. seqE (sock_close s) (rethrow e)))))
      (\<lambda>s. open_only (insert s S) w0) (closed_unless_interrupt S w0)"
  proof (rule triple_seq)
    show "triple (\<lambda>w. open_only (insert s S) w0 w \<and> live s w \<and> 0 \<le> t) (sock_settimeout s (Some t))
        (\<lambda>_. open_only (insert s S) w0) (closed_unless_interrupt S w0)"
      by (auto simp: triple_def sock_settimeout_def intro!: open_only_quiet [OF _ quiet_upd_sock])
    show "triple (open_only (insert s S) w0)
        (try_except (seqE (socks5_handshake d s dn tp) (ret s))
          (catches [Exception] (\<lambda>e. seqE (sock_close s) (rethrow e))))
        (\<lambda>s. open_only (insert s S) w0) (closed_unless_interrupt S w0)"
    proof (rule triple_try_except)
      show "triple (open_only (insert s S) w0) (seqE (socks5_handshake d s dn tp) (ret s))
          (\<lambda>s. open_only (insert s S) w0) (\<lambda>_. open_only (insert s S) w0)"
        by (rule triple_seq [OF triple_quiet [OF qt.ev_handshake] triple_ret])
      show "triple (open_only (insert s S) w0) k (\<lambda>s. open_only (insert s S) w0)
          (closed_unless_interrupt S w0)"
        if "catches [Exception] (\<lambda>e. seqE (sock_close s) (rethrow e)) e = Some k" for e k
      proof -
        have k: "k = seqE (sock_close s) (rethrow e)"
          using that by (auto simp: catches_def split: if_splits)
        show ?thesis unfolding k
          by (rule triple_seq [where R = "\<lambda>_. open_only S w0"], rule triple_conseq [OF triple_sock_close])
            (auto simp: triple_def rethrow_def)
      qed
    qed (auto simp: catches_def instance_any_def split: if_splits)
  qed
qed

section \<open>A proxy that agrees\<close>

text \<open>The reply of a SOCKS5 proxy that accepts: the address is of one of the three kinds.\<close>

definition good_address :: "byte \<Rightarrow> bytes \<Rightarrow> bool" where
  "good_address atyp addr \<longleftrightarrow>
     (atyp = 1 \<and> length addr = 4) \<or> (atyp = 4 \<and> length addr = 16) \<or>
     (atyp = 3 \<and> (\<exists>host. addr = word_of_nat (length host) # host \<and> length host < 256))"

definition good_proxy_reply :: "byte \<Rightarrow> bytes \<Rightarrow> bytes \<Rightarrow> bytes" where
  "good_proxy_reply atyp addr port = [5, 0] @ [5, 0, 0, atyp] @ addr @ port"

lemma yields_address:
  assumes "good_address atyp addr"
  shows "yields (conn s (addr @ rest) snt rnd) (recv_address d s atyp) (\<lambda>_. conn s rest snt rnd)"
proof -
  define eof where "eof = d_eof d"
  consider "atyp = 1" "length addr = 4" | "atyp = 4" "length addr = 16"
    | host where "atyp = 3" "addr = word_of_nat (length host) # host" "length host < 256"
    using assms by (auto simp: good_address_def)
  then show ?thesis
  proof cases
    case 1
    then show ?thesis
      by (auto simp: recv_address_def intro!: yields_conseq [OF yields_recv_exact [of 4 "addr @ rest"]])
  next
    case 2
    then show ?thesis
      by (auto simp: recv_address_def intro!: yields_conseq [OF yields_recv_exact [of 16 "addr @ rest"]])
  next
    case 3
    have "yields (\<lambda>w. l = [word_of_nat (length host)] \<and> conn s (host @ rest) snt rnd w)
        (recv_exact eof (sock_recv s) (unat (l ! 0))) (\<lambda>_. conn s rest snt rnd)" for l :: bytes
    proof (rule yields_fact)
      assume "l = [word_of_nat (length host)]"
      then have "unat (l ! 0) = length host" using 3(3) by simp
      then show "yields (conn s (host @ rest) snt rnd) (recv_exact eof (sock_recv s) (unat (l ! 0)))
          (\<lambda>_. conn s rest snt rnd)"
        by (auto intro!: yields_conseq [OF yields_recv_exact [of "length host" "host @ rest"]])
    qed
    then have "yields (conn s (addr @ rest) snt rnd)
        (bindE (recv_exact eof (sock_recv s) 1) (\<lambda>l. recv_exact eof (sock_recv s) (unat (l ! 0))))
        (\<lambda>_. conn s rest snt rnd)"
      by (intro yields_bind [where R = "\<lambda>l w. l = [word_of_nat (length host)] \<and> conn s (host @ rest) snt rnd w"]
          yields_conseq [OF yields_recv_exact [of 1 "addr @ rest"]]) (use 3 in auto)
    then show ?thesis using 3(1) by (simp add: recv_address_def eof_def Let_def)
  qed
qed

lemma yields_handshake:
  assumes reply: "good_address atyp addr" "length pt = 2" "d_reply d 5 0 0 = None"
    and req: "connect_request domain port = Inr request"
  shows "yields (conn s (good_proxy_reply atyp addr pt @ rest) [] rnd)
    (socks5_handshake d s domain port) (\<lambda>_. conn s rest ([5, 1, 0] @ request) rnd)"
proof -
  let ?r = "recv_exact (d_eof d) (sock_recv s)"
  let ?st4 = "addr @ pt @ rest" and ?req = "[5, 1, 0] @ request"
  let ?last = "\<lambda>h. case d_reply d (h ! 0) (h ! 1) (h ! 2) of Some e \<Rightarrow> rethrow e
    | None \<Rightarrow> seqE (recv_address d s (h ! 3)) (seqE (?r 2) (ret ()))"
  have "yields (conn s ?st4 ?req rnd) (seqE (recv_address d s atyp) (seqE (?r 2) (ret ())))
      (\<lambda>_. conn s rest ?req rnd)"
    by (rule yields_seq [OF yields_address [OF reply(1)]],
        rule yields_seq [OF yields_recv_exact], use reply(2) in simp, rule yields_ret)
      (use reply(2) in simp)
  then have r4: "yields (conn s ([5, 0, 0, atyp] @ ?st4) ?req rnd) (bindE (?r 4) ?last)
      (\<lambda>_. conn s rest ?req rnd)"
    by (intro yields_bind [OF yields_recv_exact], simp, intro yields_fact) (simp add: reply(3))
  then have ask: "yields (conn s ([5, 0, 0, atyp] @ ?st4) [5, 1, 0] rnd)
      (seqE (sock_sendall s request) (bindE (?r 4) ?last)) (\<lambda>_. conn s rest ?req rnd)"
    by (rule yields_seq [OF yields_sendall])
  show ?thesis
    unfolding socks5_handshake_def Let_def good_proxy_reply_def req lift_exn_def sum.case bindE_ret
    by (rule yields_seq [OF yields_sendall], rule yields_bind [OF yields_recv_exact], simp,
        rule yields_fact) (use ask in simp)
qed

text \<open>The whole connect: the peer \<^verbatim>\<open>k\<close> the dial reaches, the fresh handle, the bytes sent.\<close>

lemma socks5_open_accepted:
  assumes dial: "dials w = Inr k # ds" and t: "0 \<le> timeout"
    and tx: "list_all (\<lambda>r. r = None) (sk_tx k)"
    and rx: "avail (sk_rx k) = good_proxy_reply atyp addr pt @ rest"
    and reply: "good_address atyp addr" "length pt = 2" "d_reply d 5 0 0 = None"
    and req: "connect_request domain port = Inr request"
  shows "\<exists>w'. socks5_open d host p domain port timeout w = (Ok (length (socks w)), w') \<and>
    conn (length (socks w)) rest ([5, 1, 0] @ request) (entropy w, n_entropy w) w'"
proof -
  let ?s = "length (socks w)" and ?rnd = "(entropy w, n_entropy w)"
  let ?st = "good_proxy_reply atyp addr pt @ rest"
  obtain w1 where w1: "create_connection host p timeout w = (Ok ?s, w1)" "conn ?s ?st [] ?rnd w1"
    using dial t tx rx by (auto simp: create_connection_def Let_def conn_def live_def)
  have "yields (conn ?s ?st [] ?rnd)
      (seqE (sock_settimeout ?s (Some timeout))
        (try_except (seqE (socks5_handshake d ?s domain port) (ret ?s))
          (catches [Exception] (\<lambda>e. seqE (sock_close ?s) (rethrow e)))))
      (\<lambda>r w'. r = ?s \<and> conn ?s rest ([5, 1, 0] @ request) ?rnd w')"
    by (intro yields_seq [OF yields_settimeout] yields_try_except
        yields_seq [OF yields_handshake [OF reply req]] yields_ret) (use t in auto)
  then show ?thesis
    using w1 by (auto simp: socks5_open_def bindE_def dest!: yieldsD)
qed

lemma encode_ascii_InrD: "encode_ascii s = Inr bs \<Longrightarrow> length bs = length s \<and> bs = map of_char s"
  by (auto simp: encode_ascii_def split: if_splits)

end
