(* ===== verification/Pow.thy ===== *)
theory Pow
  imports Frame
begin

text \<open>
  The proof of work of the challenge-response handshake: \<^verbatim>\<open>pow_is_valid\<close>, \<^verbatim>\<open>solve_pow\<close>
  and \<^verbatim>\<open>find_invalid_nonce\<close> of \<^verbatim>\<open>auth_test.py\<close> and \<^verbatim>\<open>solve_pow\<close> of \<^verbatim>\<open>loadgen.py\<close>.  The hash
  \<^verbatim>\<open>hashlib.blake2b(data, digest_size=16).digest()\<close> is the parameter \<^verbatim>\<open>H\<close>.
\<close>

definition meets_target :: "(bytes \<Rightarrow> bytes) \<Rightarrow> bytes \<Rightarrow> bytes \<Rightarrow> bool" where
  "meets_target H challenge nonce =
     (let digest = H (challenge @ nonce) in digest ! 0 = 0 \<and> unat (digest ! 1) < 0x10)"

definition pow_is_valid :: "(bytes \<Rightarrow> bytes) \<Rightarrow> bytes \<Rightarrow> bytes \<Rightarrow> exn + bool" where
  "pow_is_valid H challenge nonce =
     (if length challenge \<noteq> CHALLENGE_SIZE then Inl (Exn ValueError ''bad challenge size'')
      else if length nonce \<noteq> 8 then Inl (Exn ValueError ''bad nonce size'')
      else Inr (meets_target H challenge nonce))"

text \<open>\<^verbatim>\<open>for nonce in range(n, hi)\<close>: the first nonce whose eight bytes pass the test.\<close>

function nonce_loop :: "(bytes \<Rightarrow> exn + bool) \<Rightarrow> nat \<Rightarrow> nat \<Rightarrow> exn + bytes option" where
  "nonce_loop test hi n =
     (if n < hi then
        (case test (pack_le 8 n) of
           Inl e \<Rightarrow> Inl e
         | Inr True \<Rightarrow> Inr (Some (pack_le 8 n))
         | Inr False \<Rightarrow> nonce_loop test hi (Suc n))
      else Inr None)"
  by pat_completeness auto
termination by (relation "measure (\<lambda>(test, hi, n). hi - n)") auto

declare nonce_loop.simps [simp del]

definition found_or :: "exn \<Rightarrow> exn + bytes option \<Rightarrow> exn + bytes" where
  "found_or e r = (case r of Inl x \<Rightarrow> Inl x | Inr None \<Rightarrow> Inl e | Inr (Some b) \<Rightarrow> Inr b)"

definition solve_pow :: "(bytes \<Rightarrow> bytes) \<Rightarrow> bytes \<Rightarrow> exn + bytes" where
  "solve_pow H challenge =
     found_or (Exn TestError ''unable to solve PoW'')
       (nonce_loop (pow_is_valid H challenge) (2 ^ 64) 1)"

definition find_invalid_nonce :: "(bytes \<Rightarrow> bytes) \<Rightarrow> bytes \<Rightarrow> exn + bytes" where
  "find_invalid_nonce H challenge =
     found_or (Exn TestError ''unable to find invalid PoW nonce'')
       (nonce_loop (\<lambda>b. map_sum id Not (pow_is_valid H challenge b)) (2 ^ 64) 0)"

definition lg_solve_pow :: "(bytes \<Rightarrow> bytes) \<Rightarrow> bytes \<Rightarrow> exn + bytes" where
  "lg_solve_pow H challenge =
     (if length challenge \<noteq> CHALLENGE_SIZE then Inl (Exn LoadProtocolError ''bad challenge size'')
      else found_or (Exn LoadGenError ''no nonce found'')
             (nonce_loop (\<lambda>b. Inr (meets_target H challenge b)) (2 ^ 64) 0))"

section \<open>The search returns the first nonce that passes\<close>

lemma nonce_loop_found:
  assumes "\<And>n. test (pack_le 8 n) = Inr (P n)"
  shows "nonce_loop test hi lo = Inr (Some b) \<longleftrightarrow>
    (\<exists>n. lo \<le> n \<and> n < hi \<and> P n \<and> b = pack_le 8 n \<and> (\<forall>m. lo \<le> m \<and> m < n \<longrightarrow> \<not> P m))"
proof (induction "hi - lo" arbitrary: lo rule: less_induct)
  case less
  show ?case
  proof (cases "lo < hi")
    case False
    then show ?thesis by (subst nonce_loop.simps) auto
  next
    case True
    show ?thesis
    proof (cases "P lo")
      case True
      then have "nonce_loop test hi lo = Inr (Some (pack_le 8 lo))"
        using \<open>lo < hi\<close> assms by (subst nonce_loop.simps) simp
      then show ?thesis using True \<open>lo < hi\<close> by (auto simp: le_less)
    next
      case False
      then have "nonce_loop test hi lo = nonce_loop test hi (Suc lo)"
        using \<open>lo < hi\<close> assms by (subst nonce_loop.simps) simp
      moreover have "(\<exists>n. lo \<le> n \<and> n < hi \<and> P n \<and> b = pack_le 8 n \<and> (\<forall>m. lo \<le> m \<and> m < n \<longrightarrow> \<not> P m)) \<longleftrightarrow>
          (\<exists>n. Suc lo \<le> n \<and> n < hi \<and> P n \<and> b = pack_le 8 n \<and> (\<forall>m. Suc lo \<le> m \<and> m < n \<longrightarrow> \<not> P m))"
        using False by (metis Suc_leD Suc_leI le_neq_implies_less)
      ultimately show ?thesis using less [of "Suc lo"] \<open>lo < hi\<close> by simp
    qed
  qed
qed

lemma nonce_loop_none:
  assumes "\<And>n. test (pack_le 8 n) = Inr (P n)"
  shows "nonce_loop test hi lo = Inr None \<longleftrightarrow> (\<forall>n. lo \<le> n \<and> n < hi \<longrightarrow> \<not> P n)"
proof (induction "hi - lo" arbitrary: lo rule: less_induct)
  case less
  show ?case
  proof (cases "lo < hi \<and> \<not> P lo")
    case True
    then have "nonce_loop test hi lo = nonce_loop test hi (Suc lo)"
      using assms by (subst nonce_loop.simps) simp
    then show ?thesis using less [of "Suc lo"] True
      by (metis Suc_leD Suc_leI diff_less_mono2 le_neq_implies_less lessI)
  next
    case False
    then show ?thesis using assms by (subst nonce_loop.simps) auto
  qed
qed

lemma nonce_loop_ok:
  assumes "\<And>n. test (pack_le 8 n) = Inr (P n)"
  shows "\<exists>r. nonce_loop test hi lo = Inr r"
proof (induction "hi - lo" arbitrary: lo rule: less_induct)
  case less
  show ?case
  proof (cases "lo < hi \<and> \<not> P lo")
    case True
    then show ?thesis using less [of "Suc lo"] assms
      by (subst nonce_loop.simps) auto
  next
    case False
    then show ?thesis using assms by (subst nonce_loop.simps) (auto split: bool.splits)
  qed
qed

lemma found_or_Inr: "found_or e r = Inr b \<longleftrightarrow> r = Inr (Some b)"
  by (auto simp: found_or_def split: sum.splits option.splits)

lemma pow_is_valid_nonce:
  "length challenge = CHALLENGE_SIZE \<Longrightarrow>
   pow_is_valid H challenge (pack_le 8 n) = Inr (meets_target H challenge (pack_le 8 n))"
  by (simp add: pow_is_valid_def)

lemmas valid_nonce_found =
  nonce_loop_found [of "pow_is_valid H c" "\<lambda>n. meets_target H c (pack_le 8 n)" for H c,
    OF pow_is_valid_nonce]

lemma solve_pow_valid:
  assumes c: "length challenge = CHALLENGE_SIZE" and "solve_pow H challenge = Inr b"
  shows "length b = 8 \<and> meets_target H challenge b"
proof -
  from assms(2) obtain n where "meets_target H challenge (pack_le 8 n)" "b = pack_le 8 n"
    unfolding solve_pow_def found_or_Inr valid_nonce_found [OF c] by blast
  then show ?thesis by simp
qed

lemma lg_solve_pow_valid:
  assumes "lg_solve_pow H challenge = Inr b"
  shows "length b = 8 \<and> meets_target H challenge b"
proof -
  let ?t = "\<lambda>b. Inr (meets_target H challenge b) :: exn + bool"
  have "nonce_loop ?t (2 ^ 64) 0 = Inr (Some b)"
    using assms by (simp only: lg_solve_pow_def found_or_Inr split: if_splits) simp
  then obtain n where "meets_target H challenge (pack_le 8 n)" "b = pack_le 8 n"
    using nonce_loop_found [of ?t "\<lambda>n. meets_target H challenge (pack_le 8 n)"] by blast
  then show ?thesis by simp
qed

lemma find_invalid_nonce_invalid:
  assumes c: "length challenge = CHALLENGE_SIZE" and "find_invalid_nonce H challenge = Inr b"
  shows "length b = 8 \<and> \<not> meets_target H challenge b"
proof -
  let ?t = "\<lambda>b. map_sum id Not (pow_is_valid H challenge b)"
  have t: "?t (pack_le 8 n) = Inr (\<not> meets_target H challenge (pack_le 8 n))" for n
    by (simp add: pow_is_valid_nonce [OF c])
  have "nonce_loop ?t (2 ^ 64) 0 = Inr (Some b)"
    using assms(2) by (simp only: find_invalid_nonce_def found_or_Inr)
  then obtain n where "\<not> meets_target H challenge (pack_le 8 n)" "b = pack_le 8 n"
    using nonce_loop_found [of ?t "\<lambda>n. \<not> meets_target H challenge (pack_le 8 n)", OF t] by blast
  then show ?thesis by simp
qed

section \<open>Properties\<close>

text \<open>For a challenge of the right size, \<^verbatim>\<open>solve_pow\<close> of the authentication test returns the
  eight little-endian bytes of the least nonce from 1 on that meets the target, and it returns
  whenever such a nonce exists below \<^verbatim>\<open>2 ** 64\<close>.\<close>

lemma solve_pow_least:
  assumes "length challenge = CHALLENGE_SIZE"
  shows "solve_pow H challenge = Inr b \<longleftrightarrow>
    (\<exists>n. 1 \<le> n \<and> n < 2 ^ 64 \<and> meets_target H challenge (pack_le 8 n) \<and> b = pack_le 8 n \<and>
       (\<forall>m. 1 \<le> m \<and> m < n \<longrightarrow> \<not> meets_target H challenge (pack_le 8 m)))"
  unfolding solve_pow_def found_or_Inr by (rule valid_nonce_found [OF assms])

definition demo_hash :: "bytes \<Rightarrow> bytes" where
  "demo_hash x = (if x ! 32 = 3 then replicate 16 0 else replicate 16 1)"

lemma demo_hash_target: "meets_target demo_hash (replicate 32 0) (b # bs) \<longleftrightarrow> b = 3"
  by (simp add: meets_target_def demo_hash_def nth_append Let_def)

lemma demo_target:
  "\<not> meets_target demo_hash (replicate 32 0) (pack_le 8 1)"
  "\<not> meets_target demo_hash (replicate 32 0) (pack_le 8 2)"
  "meets_target demo_hash (replicate 32 0) (pack_le 8 3)"
  by (simp_all add: pack_le_numeral demo_hash_target)

lemma demo_solve: "solve_pow demo_hash (replicate 32 0) = Inr (pack_le 8 3)"
proof -
  have l: "length (replicate 32 (0 :: byte)) = CHALLENGE_SIZE" by (simp add: wire_simps)
  have "nonce_loop (pow_is_valid demo_hash (replicate 32 0)) (2 ^ 64) 1 = Inr (Some (pack_le 8 3))"
    by (subst nonce_loop.simps, subst nonce_loop.simps, subst nonce_loop.simps)
      (use demo_target in \<open>simp add: pow_is_valid_nonce [OF l] numeral_2_eq_2 [symmetric] numeral_3_eq_3 [symmetric]\<close>)
  then show ?thesis by (simp add: solve_pow_def found_or_def)
qed

end
