(* ===== verification/AuthTest.thy ===== *)
theory AuthTest
  imports Socks Pow
begin

text \<open>
  \<^verbatim>\<open>benchmarks/BT-01/auth_test.py\<close>: the protocol-level test of the relay's
  challenge-response authentication.  Each test dials the onion service,
  receives the challenge and then behaves well (valid proof of work) or badly
  (invalid proof of work, POLL or PUSH before authentication); \<^verbatim>\<open>main\<close> runs the
  four, records five checks and turns them into the exit status.  Printing is
  left out; the JSON file is the summary record it is made of.
\<close>

section \<open>Records\<close>

record CheckResult =
  cr_name :: string
  cr_passed :: bool
  cr_detail :: string

record Summary =
  sm_onion :: string
  sm_passed :: bool
  sm_duration_seconds :: real
  sm_checks :: "CheckResult list"

record args =
  a_onion :: string
  a_socks_host :: string
  a_socks_port :: int
  a_target_port :: int
  a_timeout :: real
  a_connect_retries :: int
  a_retry_delay :: real
  a_summary_json :: "string option"
  a_probe_only :: bool

text \<open>The mutable summary of \<^verbatim>\<open>main\<close> and the files written; \<^verbatim>\<open>write_fault\<close> is the error a write to
  a path raises, if any.\<close>

record at_world = net +
  summary :: Summary
  written :: "(string \<times> Summary) list"
  write_fault :: "string \<Rightarrow> exn option"

section \<open>Protocol steps\<close>

definition receive_challenge :: "nat \<Rightarrow> ('z net_scheme, bytes) io" where
  "receive_challenge s =
     bindE (recv_frame s) (\<lambda>(action, mailbox, payload).
       if action \<noteq> ACTION_AUTH_CHALLENGE
       then throw TestProtocolError (''expected AUTH_CHALLENGE, received action=0x'' @ hex2 (unat action))
       else if mailbox \<noteq> ZERO_MAILBOX
       then throw TestProtocolError ''AUTH_CHALLENGE used non-zero mailbox ID''
       else if length payload \<noteq> CONTROL_PAYLOAD_SIZE
       then throw TestProtocolError (''AUTH_CHALLENGE payload has '' @ show_nat (length payload) @
              '' bytes, expected '' @ show_nat CONTROL_PAYLOAD_SIZE)
       else ret (take CHALLENGE_SIZE payload))"

definition close_quietly :: "nat option \<Rightarrow> ('z net_scheme, unit) io" where
  "close_quietly so =
     (case so of
        None \<Rightarrow> ret ()
      | Some s \<Rightarrow>
          seqE (try_except (sock_shutdown s) (catches [OSError] (\<lambda>_. ret ())))
            (sock_close s))"

text \<open>What one \<^verbatim>\<open>recv\<close> of the rejection loop means: \<^verbatim>\<open>None\<close> goes round again.\<close>

definition classify_rejection :: "nat \<Rightarrow> ('z net_scheme, string option) io" where
  "classify_rejection s =
     bindE
       (try_except (bindE (sock_recv s 4096) (\<lambda>data. ret (Inr data)))
          (\<lambda>e. if instance_of e TimeoutError then Some (ret (Inl None))
               else if instance_any e [ConnectionResetError, ConnectionAbortedError, BrokenPipeError]
               then Some (ret (Inl (Some (''connection reset/aborted: '' @ exn_msg e))))
               else if instance_of e OSError
               then Some (throw TestError (''unexpected socket error while waiting for rejection: '' @ exn_msg e))
               else None))
       (\<lambda>r. case r of
          Inl verdict \<Rightarrow> ret verdict
        | Inr data \<Rightarrow>
            if data = [] then ret (Some ''connection closed by server'')
            else throw TestError (''server returned '' @ show_nat (length data) @
                   '' unexpected bytes instead of rejecting connection''))"

definition wait_for_rejection :: "nat \<Rightarrow> nat \<Rightarrow> real \<Rightarrow> ('z net_scheme, string) io" where
  "wait_for_rejection fuel s timeout =
     bindE monotonic (\<lambda>t0.
     let deadline = t0 + timeout in
     bindE (sock_gettimeout s) (\<lambda>old_timeout.
     try_finally
       (poll_until fuel deadline
          (bindE monotonic (\<lambda>t.
           let remaining = deadline - t in
           seqE (sock_settimeout s (Some (min 0.5 (max remaining 0.05))))
             (classify_rejection s)))
          (throw TestError (''connection remained open for '' @ fmt_fixed 1 timeout @
             ''s after rejected operation'')))
       (try_except (sock_settimeout s old_timeout) (catches [OSError] (\<lambda>_. ret ())))))"

section \<open>Connecting\<close>

text \<open>One round of the retry loop; the left alternative is the exception it swallowed.\<close>

definition connect_once :: "args \<Rightarrow> ('z net_scheme, exn + nat \<times> bytes) io" where
  "connect_once a =
     bindE (attempt (socks5_connect (a_socks_host a) (a_socks_port a) (a_onion a) (a_target_port a)
              (a_timeout a)))
       (\<lambda>r. case r of
          Inl e \<Rightarrow> seqE (close_quietly None) (ret (Inl e))
        | Inr s \<Rightarrow>
            bindE (attempt (receive_challenge s))
              (\<lambda>c. case c of
                 Inl e \<Rightarrow> seqE (close_quietly (Some s)) (ret (Inl e))
               | Inr challenge \<Rightarrow> ret (Inr (s, challenge))))"

text \<open>\<^verbatim>\<open>connect_loop a k last\<close>: \<^verbatim>\<open>k\<close> attempts are left, \<^verbatim>\<open>last\<close> is the text of the last error.\<close>

fun connect_loop :: "args \<Rightarrow> nat \<Rightarrow> string \<Rightarrow> ('z net_scheme, nat \<times> bytes) io" where
  "connect_loop a 0 last_error =
     throw TestError (''could not establish test connection after '' @ show_int (a_connect_retries a) @
       '' attempts: '' @ last_error)"
| "connect_loop a (Suc k) last_error =
     bindE (connect_once a) (\<lambda>r.
       case r of
         Inr sc \<Rightarrow> ret sc
       | Inl e \<Rightarrow> seqE (whenE (0 < k) (sleep (a_retry_delay a))) (connect_loop a k (exn_msg e)))"

definition connect_and_receive_challenge :: "args \<Rightarrow> ('z net_scheme, nat \<times> bytes) io" where
  "connect_and_receive_challenge a = connect_loop a (nat (a_connect_retries a)) ''None''"

section \<open>The four tests\<close>

text \<open>\<^verbatim>\<open>H\<close> is the hash of the proof of work, \<^verbatim>\<open>fuel\<close> bounds the rejection loop.  The socket is
  assigned inside the \<^verbatim>\<open>try\<close>, so a failed connect has nothing to close.\<close>

definition valid_pow_text :: string where
  "valid_pow_text = ''valid PoW accepted and authenticated POLL returned expected empty response''"

definition valid_pow_session :: "(bytes \<Rightarrow> bytes) \<Rightarrow> nat \<Rightarrow> bytes \<Rightarrow> ('z net_scheme, string) io" where
  "valid_pow_session H s challenge =
     bindE (lift_exn (solve_pow H challenge)) (\<lambda>nonce.
     seqE (send_control s ACTION_AUTH_RESPONSE ZERO_MAILBOX nonce)
     (bindE (urandom MAILBOX_SIZE) (\<lambda>mailbox.
     seqE (send_control s ACTION_POLL mailbox [])
     (bindE (recv_frame s) (\<lambda>(action, response_mailbox, payload).
      if action \<noteq> ACTION_POLL
      then throw TestError (''authenticated POLL returned action=0x'' @ hex2 (unat action) @
             '', expected POLL'')
      else if response_mailbox \<noteq> mailbox
      then throw TestError ''authenticated POLL returned a different mailbox ID''
      else bindE (lift_exn (pad_control_payload [])) (\<lambda>padding.
        if payload \<noteq> padding
        then throw TestError (''authenticated empty POLL returned unexpected payload of '' @
               show_nat (length payload) @ '' bytes'')
        else ret valid_pow_text))))))"

definition test_valid_pow :: "(bytes \<Rightarrow> bytes) \<Rightarrow> args \<Rightarrow> ('z net_scheme, string) io" where
  "test_valid_pow H a =
     bindE (connect_and_receive_challenge a) (\<lambda>(s, challenge).
       try_finally (valid_pow_session H s challenge) (close_quietly (Some s)))"

definition reset_classes :: "exn_class list" where
  "reset_classes = [BrokenPipeError, ConnectionResetError, ConnectionAbortedError]"

text \<open>\<^verbatim>\<open>try: send except (BrokenPipeError, ...): return text\<close>, else wait for the rejection.\<close>

definition send_then_reject ::
  "nat \<Rightarrow> args \<Rightarrow> nat \<Rightarrow> string \<Rightarrow> ('z net_scheme, unit) io \<Rightarrow> ('z net_scheme, string) io" where
  "send_then_reject fuel a s early send =
     bindE (try_except (seqE send (ret None))
              (catches reset_classes (\<lambda>e. ret (Some (early @ exn_msg e)))))
       (\<lambda>r. case r of
          Some text \<Rightarrow> ret text
        | None \<Rightarrow> wait_for_rejection fuel s (a_timeout a))"

definition invalid_pow_session ::
  "(bytes \<Rightarrow> bytes) \<Rightarrow> nat \<Rightarrow> args \<Rightarrow> nat \<Rightarrow> bytes \<Rightarrow> ('z net_scheme, string) io" where
  "invalid_pow_session H fuel a s challenge =
     bindE (lift_exn (find_invalid_nonce H challenge)) (\<lambda>nonce.
     bindE (lift_exn (pow_is_valid H challenge nonce)) (\<lambda>valid.
     if valid
     then throw TestError ''internal error: generated nonce unexpectedly satisfies PoW''
     else
       seqE (send_control s ACTION_AUTH_RESPONSE ZERO_MAILBOX nonce)
       (bindE (urandom MAILBOX_SIZE) (\<lambda>mailbox.
        send_then_reject fuel a s ''invalid PoW rejected before POLL could be sent: ''
          (send_control s ACTION_POLL mailbox [])))))"

definition test_invalid_pow :: "(bytes \<Rightarrow> bytes) \<Rightarrow> nat \<Rightarrow> args \<Rightarrow> ('z net_scheme, string) io" where
  "test_invalid_pow H fuel a =
     bindE (connect_and_receive_challenge a) (\<lambda>(s, challenge).
       try_finally (invalid_pow_session H fuel a s challenge) (close_quietly (Some s)))"

definition test_pre_auth_poll :: "nat \<Rightarrow> args \<Rightarrow> ('z net_scheme, string) io" where
  "test_pre_auth_poll fuel a =
     bindE (connect_and_receive_challenge a) (\<lambda>(s, _).
     try_finally
       (bindE (urandom MAILBOX_SIZE) (\<lambda>mailbox.
        send_then_reject fuel a s ''pre-auth POLL rejected during send: ''
          (send_control s ACTION_POLL mailbox [])))
       (close_quietly (Some s)))"

definition preauth_push_payload :: bytes where
  "preauth_push_payload = map of_char ''BT01_PREAUTH_PUSH''"

definition test_pre_auth_push :: "nat \<Rightarrow> args \<Rightarrow> ('z net_scheme, string) io" where
  "test_pre_auth_push fuel a =
     bindE (connect_and_receive_challenge a) (\<lambda>(s, _).
     try_finally
       (bindE (urandom MAILBOX_SIZE) (\<lambda>mailbox.
        send_then_reject fuel a s ''pre-auth PUSH rejected during send: ''
          (send_frame s ACTION_PUSH mailbox preauth_push_payload)))
       (close_quietly (Some s)))"

section \<open>Summary and entry point\<close>

definition add_check :: "string \<Rightarrow> bool \<Rightarrow> string \<Rightarrow> ('z at_world_scheme, unit) io" where
  "add_check name passed detail =
     modify (\<lambda>w. w\<lparr>summary := (summary w)\<lparr>sm_checks := sm_checks (summary w) @
       [\<lparr>cr_name = name, cr_passed = passed, cr_detail = detail\<rparr>]\<rparr>\<rparr>)"

definition write_summary :: "string option \<Rightarrow> Summary \<Rightarrow> ('z at_world_scheme, unit) io" where
  "write_summary path sm w =
     (case path of
        None \<Rightarrow> (Ok (), w)
      | Some p \<Rightarrow>
          if p = [] then (Ok (), w)
          else (case write_fault w p of
                  Some e \<Rightarrow> (Raise e, w)
                | None \<Rightarrow> (Ok (), w\<lparr>written := written w @ [(p, sm)]\<rparr>)))"

text \<open>\<^verbatim>\<open>parse_args\<close> after \<^verbatim>\<open>argparse\<close> has read the command line: \<^verbatim>\<open>parser.error\<close> exits with status 2.\<close>

definition parse_args :: "args \<Rightarrow> exn + args" where
  "parse_args a =
     (if a_timeout a \<le> 0 then Inl (Exn (SystemExit 2) ''--timeout must be > 0'')
      else if a_connect_retries a \<le> 0 then Inl (Exn (SystemExit 2) ''--connect-retries must be > 0'')
      else if a_retry_delay a < 0 then Inl (Exn (SystemExit 2) ''--retry-delay must be >= 0'')
      else if occurs ''://'' (a_onion a)
      then Inl (Exn (SystemExit 2) ''--onion must be a hostname, not a URL'')
      else Inr a)"

definition run_probe_only :: "args \<Rightarrow> ('z net_scheme, int) io" where
  "run_probe_only a =
     bindE (attempt (connect_and_receive_challenge a)) (\<lambda>r.
       case r of
         Inr (s, _) \<Rightarrow> seqE (close_quietly (Some s)) (ret 0)
       | Inl _ \<Rightarrow> seqE (close_quietly None) (ret 1))"

text \<open>\<^verbatim>\<open>try: detail = test(); add_check(..., True, detail) except Exception as exc: add_check(..., False,
  str(exc))\<close> for each of the check names.\<close>

definition run_check :: "string list \<Rightarrow> ('z at_world_scheme, string) io \<Rightarrow> ('z at_world_scheme, unit) io" where
  "run_check names test =
     bindE (attempt test) (\<lambda>r.
       case r of
         Inr detail \<Rightarrow> for_each names (\<lambda>n. add_check n True detail)
       | Inl e \<Rightarrow> for_each names (\<lambda>n. add_check n False (exn_msg e)))"

definition run_checks :: "(bytes \<Rightarrow> bytes) \<Rightarrow> nat \<Rightarrow> args \<Rightarrow> ('z at_world_scheme, int) io" where
  "run_checks H fuel a =
     seqE (run_check [''valid PoW accepted'', ''authenticated POLL accepted''] (test_valid_pow H a))
     (seqE (run_check [''invalid PoW rejected''] (test_invalid_pow H fuel a))
     (seqE (run_check [''pre-auth POLL rejected''] (test_pre_auth_poll fuel a))
     (seqE (run_check [''pre-auth PUSH rejected''] (test_pre_auth_push fuel a))
     (seqE (modify (\<lambda>w. w\<lparr>summary := (summary w)\<lparr>sm_passed := list_all cr_passed (sm_checks (summary w))\<rparr>\<rparr>))
     (gets (\<lambda>w. if sm_passed (summary w) then 0 else 1))))))"

definition auth_main :: "(bytes \<Rightarrow> bytes) \<Rightarrow> nat \<Rightarrow> args \<Rightarrow> ('z at_world_scheme, int) io" where
  "auth_main H fuel raw =
     bindE (lift_exn (parse_args raw)) (\<lambda>a.
     if a_probe_only a then run_probe_only a
     else
       seqE (modify (\<lambda>w. w\<lparr>summary := \<lparr>sm_onion = a_onion a, sm_passed = False,
               sm_duration_seconds = 0, sm_checks = []\<rparr>\<rparr>))
       (bindE monotonic (\<lambda>started.
        try_finally
          (try_except (run_checks H fuel a) (catches [KeyboardInterrupt] (\<lambda>_. ret 130)))
          (bindE monotonic (\<lambda>t.
           seqE (modify (\<lambda>w. w\<lparr>summary := (summary w)\<lparr>sm_duration_seconds := round_digits 3 (t - started)\<rparr>\<rparr>))
           (bindE (gets summary) (write_summary (a_summary_json a))))))))"

section \<open>What the operations leave alone\<close>

context sock_order
begin

lemma ev_auth_steps:
  "evolves R (receive_challenge s)" "evolves R (close_quietly so)"
  "evolves R (classify_rejection s)" "evolves R (wait_for_rejection fuel s t)"
proof -
  show 1: "evolves R (receive_challenge s)"
    unfolding receive_challenge_def by (auto intro!: ev_bind ev_pure ev_frames)
  show "evolves R (close_quietly so)"
    unfolding close_quietly_def
    by (auto intro!: ev_seq ev_pure ev_try_except prims elim: ev_catches [rotated] split: option.splits)
  show c: "evolves R (classify_rejection s)" for s
    unfolding classify_rejection_def
    by (auto intro!: ev_bind ev_pure ev_try_except prims split: sum.splits if_splits)
  show "evolves R (wait_for_rejection fuel s t)"
    unfolding wait_for_rejection_def Let_def
    by (intro ev_bind ev_try_finally ev_poll_until ev_seq ev_pure ev_try_except prims c)
      (auto intro: ev_catches ev_pure)
qed

lemma ev_send_then_reject: "evolves R send \<Longrightarrow> evolves R (send_then_reject fuel a s early send)"
  unfolding send_then_reject_def
  by (auto intro!: ev_bind ev_seq ev_pure ev_try_except ev_auth_steps elim: ev_catches [rotated]
      split: option.splits)

end

context sock_order
begin

lemma ev_pow_sessions:
  "evolves R (valid_pow_session H s c)" "evolves R (invalid_pow_session H fuel a s c)"
  unfolding valid_pow_session_def invalid_pow_session_def
  by (auto intro!: ev_bind ev_seq ev_pure ev_lift_exn ev_frames ev_send_then_reject prims)

end

context net_order
begin

lemma ev_connect_once: "evolves R (connect_once a)"
  unfolding connect_once_def
  by (auto intro!: ev_bind ev_seq ev_pure ev_attempt ev_connects ev_auth_steps split: sum.splits)

lemma ev_connect_loop: "evolves R (connect_loop a k e)"
  by (induction k arbitrary: e)
    (auto intro!: ev_bind ev_seq ev_pure ev_when ev_connect_once prims split: sum.splits)

lemma ev_tests:
  "evolves R (test_valid_pow H a)" "evolves R (test_invalid_pow H fuel a)"
  "evolves R (test_pre_auth_poll fuel a)" "evolves R (test_pre_auth_push fuel a)"
  unfolding test_valid_pow_def test_invalid_pow_def test_pre_auth_poll_def test_pre_auth_push_def
    connect_and_receive_challenge_def
  by (auto intro!: ev_bind ev_try_finally ev_connect_loop ev_frames ev_auth_steps ev_pow_sessions
      ev_send_then_reject prims)

end

section \<open>Sockets are closed\<close>

lemma triple_close_quietly:
  "triple (open_only (insert s S) w0) (close_quietly (Some s)) (\<lambda>_. open_only S w0) (\<lambda>_ _. False)"
proof -
  have sh: "try_except (sock_shutdown s) (catches [OSError] (\<lambda>_. ret ())) w = (Ok (), w)"
    for w :: "'z net_scheme"
    by (auto simp: try_except_def sock_shutdown_def bad_fd_def throw_def catches_def instance_any_def
        instance_of_def ret_def split: option.splits)
  show ?thesis
    using triple_sock_close [of s S w0]
    by (simp add: triple_def close_quietly_def seqE_def bindE_def sh sock_close_def modify_def)
qed

lemma triple_socks5_connect:
  "triple (open_only S w0) (socks5_connect h p onion tp t)
     (\<lambda>s. open_only (insert s S) w0) (closed_unless_interrupt S w0)"
proof (cases "encode_ascii onion")
  case (Inl e)
  then show ?thesis
    by (simp add: socks5_connect_def lift_exn_def triple_def rethrow_def bindE_def)
next
  case (Inr bs)
  then show ?thesis
    using triple_socks5_open [of S w0 test_dialect h p bs tp t]
    by (simp add: socks5_connect_def lift_exn_def) (simp add: triple_def throw_def)
qed

lemma triple_connect_once:
  "triple (open_only S w0) (connect_once a)
     (\<lambda>r w. case r of Inr (s, _) \<Rightarrow> open_only (insert s S) w0 w | Inl e \<Rightarrow> open_only S w0 w)
     (closed_unless_interrupt S w0)"
  unfolding connect_once_def
proof (rule triple_bind)
  show "triple (open_only S w0)
      (attempt (socks5_connect (a_socks_host a) (a_socks_port a) (a_onion a) (a_target_port a) (a_timeout a)))
      (\<lambda>r w. case r of Inr s \<Rightarrow> open_only (insert s S) w0 w | Inl e \<Rightarrow> open_only S w0 w)
      (closed_unless_interrupt S w0)"
    by (rule triple_conseq [OF triple_attempt [OF triple_socks5_connect]]) (auto split: sum.splits)
next
  fix r :: "exn + nat"
  have rc: "triple (open_only (insert s S) w0) (receive_challenge s)
      (\<lambda>_. open_only (insert s S) w0) (\<lambda>_. open_only (insert s S) w0)" for s
    by (rule triple_quiet) (rule qt.ev_auth_steps)
  show "triple (\<lambda>w. case r of Inr s \<Rightarrow> open_only (insert s S) w0 w | Inl e \<Rightarrow> open_only S w0 w)
     (case r of Inl e \<Rightarrow> seqE (close_quietly None) (ret (Inl e))
      | Inr s \<Rightarrow> bindE (attempt (receive_challenge s)) (\<lambda>c. case c of
            Inl e \<Rightarrow> seqE (close_quietly (Some s)) (ret (Inl e))
          | Inr challenge \<Rightarrow> ret (Inr (s, challenge))))
     (\<lambda>r w. case r of Inr (s, _) \<Rightarrow> open_only (insert s S) w0 w | Inl e \<Rightarrow> open_only S w0 w)
     (closed_unless_interrupt S w0)"
  proof (cases r)
    case (Inl e)
    then show ?thesis
      by (simp add: close_quietly_def seqE_def) (simp add: triple_def ret_def)
  next
    case (Inr s)
    have "triple (\<lambda>w. case c of Inr x \<Rightarrow> open_only (insert s S) w0 w
          | Inl e \<Rightarrow> instance_of e Exception \<and> open_only (insert s S) w0 w)
        (case c of Inl e \<Rightarrow> seqE (close_quietly (Some s)) (ret (Inl e)) | Inr ch \<Rightarrow> ret (Inr (s, ch)))
        (\<lambda>r w. case r of Inr (s, _) \<Rightarrow> open_only (insert s S) w0 w | Inl e \<Rightarrow> open_only S w0 w)
        (closed_unless_interrupt S w0)" for c :: "exn + bytes"
    proof (cases c)
      case (Inl e)
      then show ?thesis
        by simp (rule triple_seq [where R = "\<lambda>_. open_only S w0",
              OF triple_conseq [OF triple_close_quietly [of s S w0]]], auto simp: triple_def ret_def)
    qed (simp add: triple_def ret_def)
    then show ?thesis unfolding Inr sum.case
      by (intro triple_bind [OF triple_exc [OF triple_attempt [OF rc]]]) auto
  qed
qed

lemma triple_connect_loop:
  "triple (open_only S w0) (connect_loop a k e)
     (\<lambda>(s, _). open_only (insert s S) w0) (closed_unless_interrupt S w0)"
proof (induction k arbitrary: e)
  case 0
  then show ?case by (simp add: triple_def throw_def)
next
  case (Suc k)
  have sl: "triple (open_only S w0) (whenE (0 < k) (sleep (a_retry_delay a)))
      (\<lambda>_. open_only S w0) (\<lambda>_. open_only S w0)"
    by (rule triple_quiet) (intro qt.ev_when qt.prims)
  have "triple (\<lambda>w. case r of Inr (s, _) \<Rightarrow> open_only (insert s S) w0 w | Inl e \<Rightarrow> open_only S w0 w)
      (case r of Inr sc \<Rightarrow> ret sc
       | Inl e \<Rightarrow> seqE (whenE (0 < k) (sleep (a_retry_delay a))) (connect_loop a k (exn_msg e)))
      (\<lambda>(s, _). open_only (insert s S) w0) (closed_unless_interrupt S w0)" for r
  proof (cases r)
    case (Inl e)
    then show ?thesis using triple_seq [OF triple_conseq [OF sl] Suc] by simp
  qed (auto simp: triple_def ret_def)
  then show ?case unfolding connect_loop.simps by (rule triple_bind [OF triple_connect_once])
qed

text \<open>A body that only uses the socket it was given, between connect and \<^verbatim>\<open>close_quietly\<close>.\<close>

lemma triple_with_socket:
  assumes "\<And>s c. evolves quiet (body s c)"
  shows "triple (open_only S w0)
    (bindE (connect_and_receive_challenge a)
      (\<lambda>(s, c). try_finally (body s c) (close_quietly (Some s))))
    (\<lambda>_. open_only S w0) (closed_unless_interrupt S w0)"
  unfolding connect_and_receive_challenge_def
proof (rule triple_bind [OF triple_connect_loop], clarsimp)
  fix s c
  show "triple (open_only (insert s S) w0) (try_finally (body s c) (close_quietly (Some s)))
      (\<lambda>_. open_only S w0) (closed_unless_interrupt S w0)"
    by (rule triple_try_finally [OF triple_quiet [OF assms]])
      (rule triple_conseq [OF triple_close_quietly], auto)+
qed

lemma triple_tests:
  "triple (open_only S w0) (test_valid_pow H a) (\<lambda>_. open_only S w0) (closed_unless_interrupt S w0)"
  "triple (open_only S w0) (test_invalid_pow H fuel a) (\<lambda>_. open_only S w0) (closed_unless_interrupt S w0)"
  "triple (open_only S w0) (test_pre_auth_poll fuel a) (\<lambda>_. open_only S w0) (closed_unless_interrupt S w0)"
  "triple (open_only S w0) (test_pre_auth_push fuel a) (\<lambda>_. open_only S w0) (closed_unless_interrupt S w0)"
  unfolding test_valid_pow_def test_invalid_pow_def test_pre_auth_poll_def test_pre_auth_push_def
  by (rule triple_with_socket, auto intro!: qt.ev_bind qt.ev_frames qt.ev_pow_sessions
      qt.ev_send_then_reject qt.prims)+

section \<open>A relay that behaves\<close>

definition closed_after :: "nat \<Rightarrow> bytes \<Rightarrow> 'z net_scheme \<Rightarrow> bool" where
  "closed_after s snt w \<longleftrightarrow>
     s < length (socks w) \<and> sk_closed (sock_at w s) \<and> sk_sent (sock_at w s) = snt"

lemma yields_close_quietly:
  "yields (conn s st snt rnd) (close_quietly (Some s)) (\<lambda>_. closed_after s snt)"
proof -
  have sh: "try_except (sock_shutdown s) (catches [OSError] (\<lambda>_. ret ())) w = (Ok (), w)"
    for w :: "'z net_scheme"
    by (auto simp: try_except_def sock_shutdown_def bad_fd_def throw_def catches_def instance_any_def
        instance_of_def ret_def split: option.splits)
  show ?thesis
    by (auto simp: yields_def close_quietly_def seqE_def bindE_def sh sock_close_def modify_def
        closed_after_def conn_def live_def)
qed

lemma yields_receive_challenge:
  assumes "build_frame ACTION_AUTH_CHALLENGE ZERO_MAILBOX payload = Inr f"
    and "length payload = CONTROL_PAYLOAD_SIZE"
  shows "yields (conn s (f @ rest) snt rnd) (receive_challenge s)
    (\<lambda>c w. c = take CHALLENGE_SIZE payload \<and> conn s rest snt rnd w)"
  unfolding receive_challenge_def recv_frame_def
  by (rule yields_bind [OF yields_recv_frame_core [OF assms(1)]], clarify, rule yields_fact)
    (simp add: assms(2), rule yields_ret, simp)

text \<open>What the onion host name and port must satisfy for a CONNECT request to exist.\<close>

definition connect_bytes :: "args \<Rightarrow> bytes \<Rightarrow> bool" where
  "connect_bytes a request \<longleftrightarrow>
     (\<exists>host. encode_ascii (a_onion a) = Inr host \<and> host \<noteq> [] \<and> length host \<le> 255 \<and>
        connect_request host (a_target_port a) = Inr request)"

lemma connect_accepted:
  assumes dial: "dials w = Inr k # ds" and a: "0 \<le> a_timeout a" "0 < a_connect_retries a"
    and tx: "list_all (\<lambda>r. r = None) (sk_tx k)"
    and rx: "avail (sk_rx k) = good_proxy_reply atyp addr pt @ f @ rest"
    and reply: "good_address atyp addr" "length pt = 2"
    and req: "connect_bytes a request"
    and ch: "build_frame ACTION_AUTH_CHALLENGE ZERO_MAILBOX payload = Inr f"
      "length payload = CONTROL_PAYLOAD_SIZE"
  shows "\<exists>w'. connect_and_receive_challenge a w =
      (Ok (length (socks w), take CHALLENGE_SIZE payload), w') \<and>
    conn (length (socks w)) rest ([5, 1, 0] @ request) (entropy w, n_entropy w) w'"
proof -
  let ?s = "length (socks w)" and ?rnd = "(entropy w, n_entropy w)"
  obtain host where host: "encode_ascii (a_onion a) = Inr host" "host \<noteq> []" "length host \<le> 255"
      "connect_request host (a_target_port a) = Inr request"
    using req by (auto simp: connect_bytes_def)
  have d: "d_reply test_dialect 5 0 0 = None" by (simp add: test_dialect_def)
  obtain w1 where w1: "socks5_open test_dialect (a_socks_host a) (a_socks_port a) host
        (a_target_port a) (a_timeout a) w = (Ok ?s, w1)"
      "conn ?s (f @ rest) ([5, 1, 0] @ request) ?rnd w1"
    using socks5_open_accepted [OF dial a(1) tx rx reply d host(4)] by blast
  then have c: "socks5_connect (a_socks_host a) (a_socks_port a) (a_onion a) (a_target_port a)
      (a_timeout a) w = (Ok ?s, w1)"
    using host by (simp add: socks5_connect_def lift_exn_def)
  obtain w2 where w2: "receive_challenge ?s w1 = (Ok (take CHALLENGE_SIZE payload), w2)"
      "conn ?s rest ([5, 1, 0] @ request) ?rnd w2"
    using yieldsD [OF yields_receive_challenge [OF ch] w1(2)] by blast
  obtain j where j: "nat (a_connect_retries a) = Suc j"
    using a(2) by (cases "nat (a_connect_retries a)") auto
  have "connect_once a w = (Ok (Inr (?s, take CHALLENGE_SIZE payload)), w2)"
    by (simp add: connect_once_def bindE_def attempt_cases c w2(1) ret_def)
  then show ?thesis
    using w2(2) by (simp add: connect_and_receive_challenge_def j bindE_def ret_def)
qed

lemma yields_valid_pow_session:
  assumes "length challenge = CHALLENGE_SIZE" and "solve_pow H challenge = Inr nonce"
    and "build_frame ACTION_AUTH_RESPONSE ZERO_MAILBOX
           (nonce @ replicate (CONTROL_PAYLOAD_SIZE - 8) 0) = Inr response"
    and poll: "build_frame ACTION_POLL (map (fst rnd (snd rnd)) [0..<MAILBOX_SIZE])
           (replicate CONTROL_PAYLOAD_SIZE 0) = Inr poll"
  shows "yields (conn s (poll @ rest) snt rnd) (valid_pow_session H s challenge)
    (\<lambda>r w'. r = valid_pow_text \<and> conn s rest (snt @ response @ poll) (fst rnd, Suc (snd rnd)) w')"
proof -
  have pad: "pad_control_payload [] = Inr (replicate CONTROL_PAYLOAD_SIZE 0)"
    by (simp add: pad_control_payload_def)
  have "length nonce = 8" using solve_pow_valid [OF assms(1,2)] by blast
  then have padn: "pad_control_payload nonce = Inr (nonce @ replicate (CONTROL_PAYLOAD_SIZE - 8) 0)"
    by (simp add: pad_control_payload_def wire_simps)
  show ?thesis
    unfolding valid_pow_session_def recv_frame_def assms(2) lift_exn_def sum.case bindE_ret pad
    by (intro yields_seq [OF yields_send_control [OF padn assms(3)]] yields_bind [OF yields_urandom]
        yields_fact, clarify, intro yields_seq [OF yields_send_control [OF pad poll]]
        yields_bind [OF yields_recv_frame_core [OF poll]], clarify, intro yields_fact)
      (simp, rule yields_ret, simp)
qed

section \<open>A rejection is a close or a reset\<close>

text \<open>Event queues on which, timeouts apart, the next thing the peer does is to close or to
  reset the connection.\<close>

fun rejects_next :: "rx_event list \<Rightarrow> bool" where
  "rejects_next (Fin # r) = True"
| "rejects_next (Fault e # r) =
     (if instance_of e TimeoutError then rejects_next r else instance_any e reset_classes)"
| "rejects_next _ = False"

lemma classify_rejection_sound:
  "triple (\<lambda>w. live s w \<and> (rejects_next (sk_rx (sock_at w s)) \<longrightarrow> B)) (classify_rejection s)
     (\<lambda>r w. case r of Some d \<Rightarrow> B
        | None \<Rightarrow> live s w \<and> (rejects_next (sk_rx (sock_at w s)) \<longrightarrow> B)) (\<lambda>_ _. True)"
  unfolding triple_def
proof (intro allI impI)
  fix w :: "'z net_scheme"
  assume a: "live s w \<and> (rejects_next (sk_rx (sock_at w s)) \<longrightarrow> B)"
  show "case classify_rejection s w of
      (Ok r, w') \<Rightarrow> (case r of Some d \<Rightarrow> B
         | None \<Rightarrow> live s w' \<and> (rejects_next (sk_rx (sock_at w' s)) \<longrightarrow> B))
    | (Raise e, w') \<Rightarrow> True | (Diverge, _) \<Rightarrow> True"
  proof (cases "sk_rx (sock_at w s)")
    case Nil
    then show ?thesis using a
      by (auto simp: classify_rejection_def sock_recv_def bindE_def try_except_def ret_def throw_def
          instance_any_def instance_of_def split: option.splits if_splits)
  next
    case (Cons ev r)
    then show ?thesis using a
      by (cases ev) (auto simp: classify_rejection_def sock_recv_def bindE_def try_except_def ret_def
          throw_def instance_any_def reset_classes_def split: if_splits)
  qed
qed

lemma wait_for_rejection_sound:
  assumes "live s w" and "wait_for_rejection fuel s timeout w = (Ok d, w')"
  shows "rejects_next (sk_rx (sock_at w s))"
proof -
  define B where "B = rejects_next (sk_rx (sock_at w s))"
  let ?I = "\<lambda>v :: 'a net_scheme. live s v \<and> (rejects_next (sk_rx (sock_at v s)) \<longrightarrow> B)"
  have st: "triple ?I (sock_settimeout s t) (\<lambda>_. ?I) (\<lambda>_ _. True)" for t
    by (auto simp: triple_def sock_settimeout_def throw_def live_def split: option.splits)
  have mono: "triple ?I monotonic (\<lambda>_. ?I) (\<lambda>_ _. True)"
    by (simp add: triple_def monotonic_def live_def)
  have body: "triple ?I (bindE monotonic (\<lambda>t.
       seqE (sock_settimeout s (Some (min 0.5 (max (dl - t) 0.05)))) (classify_rejection s)))
     (\<lambda>r v. case r of Some x \<Rightarrow> B | None \<Rightarrow> ?I v) (\<lambda>_ _. True)" for dl
    by (rule triple_bind [OF mono], rule triple_seq [OF st], rule classify_rejection_sound)
  have loop: "triple ?I (poll_until fuel dl (bindE monotonic (\<lambda>t.
       seqE (sock_settimeout s (Some (min 0.5 (max (dl - t) 0.05)))) (classify_rejection s)))
       (throw TestError m)) (\<lambda>_ _. B) (\<lambda>_ _. True)" for dl m
    by (rule triple_poll_until [OF _ body]) (simp_all add: live_def triple_def throw_def)
  have "triple ?I (wait_for_rejection fuel s timeout) (\<lambda>_ _. B) (\<lambda>_ _. True)"
    unfolding wait_for_rejection_def Let_def
    by (rule triple_bind [OF mono], rule triple_bind [where R = "\<lambda>_. ?I"],
        simp add: sock_gettimeout_def triple_def gets_def, rule triple_try_finally [OF loop])
      (auto simp: triple_def split: prod.splits result.splits)
  moreover have "?I w" using assms(1) by (simp add: B_def)
  ultimately show ?thesis using assms(2) unfolding B_def by (rule triple_OkD)
qed

text \<open>The loop sets a timeout before every \<^verbatim>\<open>recv\<close>, so no round blocks for ever.\<close>

lemma rejection_round_returns:
  "fst (bindE monotonic (\<lambda>t. seqE (sock_settimeout s (Some (min 0.5 (max (dl - t) 0.05))))
     (classify_rejection s)) w) \<noteq> Diverge"
proof -
  have "fst (classify_rejection s v) \<noteq> Diverge" if "live s v \<Longrightarrow> sk_timeout (sock_at v s) \<noteq> None"
    for v :: "'a net_scheme"
    using that
    by (cases "(sk_timeout (sock_at v s), 4096 :: nat, sk_rx (sock_at v s))" rule: rx_recv.cases)
      (auto simp: classify_rejection_def sock_recv_def bindE_def try_except_def ret_def throw_def
        bad_fd_def split: if_splits)
  then show ?thesis
    by (auto simp: bindE_def seqE_def monotonic_def sock_settimeout_def throw_def bad_fd_def live_def)
qed

lemma wait_for_rejection_ends:
  assumes "\<And>i j. i \<le> j \<Longrightarrow> clock w i \<le> clock w j"
    and "clock w (n_clock w) + timeout \<le> clock w (n_clock w + Suc k)" and "k < fuel"
  shows "fst (wait_for_rejection fuel s timeout w) \<noteq> Diverge"
proof -
  let ?dl = "clock w (n_clock w) + timeout" and ?w1 = "w\<lparr>n_clock := Suc (n_clock w)\<rparr>"
  let ?b = "bindE monotonic (\<lambda>t. seqE (sock_settimeout s (Some (min 0.5 (max (?dl - t) 0.05))))
      (classify_rejection s))"
  have "fst (poll_until fuel ?dl ?b (throw TestError m) ?w1) \<noteq> Diverge" for m
  proof (rule poll_until_returns [where k = k])
    show "evolves net_le ?b" by (intro nl.ev_bind nl.ev_seq nl.prims nl.ev_auth_steps)
    show "fst (?b v) \<noteq> Diverge" for v by (rule rejection_round_returns)
  qed (use assms in \<open>auto simp: throw_def\<close>)
  moreover have "fst (try_except (sock_settimeout s t) (catches [OSError] (\<lambda>_. ret ())) v) \<noteq> Diverge" for t v
    by (auto simp: try_except_def sock_settimeout_def throw_def bad_fd_def catches_def ret_def
        split: option.splits)
  ultimately show ?thesis
    unfolding wait_for_rejection_def Let_def sock_gettimeout_def bindE_def monotonic_def gets_def
      prod.case result.case
    by (rule try_finally_returns)
qed

section \<open>The checks of the summary\<close>

lemma same_more_at_world:
  fixes w w' :: "'z at_world_scheme"
  assumes "same_more w w'"
  shows "summary w' = summary w" "written w' = written w" "write_fault w' = write_fault w"
  using assms by (cases w; cases w'; simp add: same_more_def)+

definition check_named :: "bool \<Rightarrow> string \<Rightarrow> string \<Rightarrow> CheckResult" where
  "check_named b d n = \<lparr>cr_name = n, cr_passed = b, cr_detail = d\<rparr>"

lemma for_each_add_check:
  "for_each names (\<lambda>n. add_check n b d) w =
     (Ok (), w\<lparr>summary := (summary w)\<lparr>sm_checks := sm_checks (summary w) @ map (check_named b d) names\<rparr>\<rparr>)"
  by (induction names arbitrary: w)
    (simp_all add: ret_def seqE_def bindE_def add_check_def modify_def check_named_def)

lemma run_check_Ok:
  assumes "evolves same_more test" and "run_check names test w = (Ok u, w')"
  shows "\<exists>b d. summary w' = (summary w)\<lparr>sm_checks := sm_checks (summary w) @ map (check_named b d) names\<rparr> \<and>
      (b \<longleftrightarrow> (\<exists>x. fst (test w) = Ok x))"
proof -
  obtain r w1 where t: "test w = (r, w1)" by fastforce
  then have "same_more w w1" by (rule evolvesD [OF assms(1)])
  note sw = same_more_at_world [OF this]
  show ?thesis
    using assms(2) t sw
    by (auto simp: run_check_def bindE_def attempt_cases for_each_add_check
        split: result.splits if_splits intro!: exI)
qed

definition main_checks :: "string list" where
  "main_checks = [''valid PoW accepted'', ''authenticated POLL accepted'', ''invalid PoW rejected'',
     ''pre-auth POLL rejected'', ''pre-auth PUSH rejected'']"

text \<open>The verdict and the exit status agree with the five recorded checks.\<close>

definition verdict_ok :: "int \<Rightarrow> Summary \<Rightarrow> bool" where
  "verdict_ok rc sm \<longleftrightarrow>
     map cr_name (sm_checks sm) = main_checks \<and>
     (sm_passed sm \<longleftrightarrow> list_all cr_passed (sm_checks sm)) \<and>
     rc = (if sm_passed sm then 0 else 1)"

lemma run_checks_Ok:
  assumes "sm_checks (summary w) = []" and "run_checks H fuel a w = (Ok rc, w')"
  shows "verdict_ok rc (summary w') \<and> sm_onion (summary w') = sm_onion (summary w)"
proof -
  let ?t1 = "run_check [''valid PoW accepted'', ''authenticated POLL accepted''] (test_valid_pow H a)"
  let ?t2 = "run_check [''invalid PoW rejected''] (test_invalid_pow H fuel a)"
  let ?t3 = "run_check [''pre-auth POLL rejected''] (test_pre_auth_poll fuel a)"
  let ?t4 = "run_check [''pre-auth PUSH rejected''] (test_pre_auth_push fuel a)"
  obtain w1 w2 w3 w4 where
      c1: "?t1 w = (Ok (), w1)" and c2: "?t2 w1 = (Ok (), w2)" and
      c3: "?t3 w2 = (Ok (), w3)" and c4: "?t4 w3 = (Ok (), w4)" and
      w': "w' = w4\<lparr>summary := (summary w4)\<lparr>sm_passed := list_all cr_passed (sm_checks (summary w4))\<rparr>\<rparr>" and
      rc: "rc = (if list_all cr_passed (sm_checks (summary w4)) then 0 else 1)"
    using assms(2) unfolding run_checks_def
    by (auto elim!: seqE_OkE simp: modify_def gets_def)
  note t = sm.ev_tests
  from run_check_Ok [OF t(1) c1] run_check_Ok [OF t(2) c2] run_check_Ok [OF t(3) c3]
    run_check_Ok [OF t(4) c4]
  show ?thesis
    using assms(1)
    by (auto simp: verdict_ok_def w' rc main_checks_def check_named_def)
qed

lemma quiet_summary: "quiet w (w\<lparr>summary := x\<rparr>)" "quiet w (w\<lparr>written := y\<rparr>)"
  by (auto simp: quiet_def net_le_def)

lemma ev_quiet_summary: "evolves quiet (add_check n b d)" "evolves quiet (write_summary p sm)"
  unfolding add_check_def
  by (auto simp: evolves_def modify_def write_summary_def quiet_refl quiet_summary
      split: option.splits)

lemma triple_run_check:
  fixes test :: "('z at_world_scheme, string) io"
  assumes "triple (open_only S w0) test (\<lambda>_. open_only S w0) (closed_unless_interrupt S w0)"
  shows "triple (open_only S w0) (run_check names test) (\<lambda>_. open_only S w0) (closed_unless_interrupt S w0)"
proof -
  have adds: "triple (open_only S w0) (for_each names (\<lambda>n. add_check n b d :: ('z at_world_scheme, unit) io))
      (\<lambda>_. open_only S w0) (closed_unless_interrupt S w0)" for b d
    by (rule triple_conseq [OF triple_quiet], rule qt.ev_for_each) (auto intro: ev_quiet_summary)
  have "triple (\<lambda>w. case r of Inr x \<Rightarrow> open_only S w0 w
        | Inl e \<Rightarrow> instance_of e Exception \<and> closed_unless_interrupt S w0 e w)
      (case r of Inr detail \<Rightarrow> for_each names (\<lambda>n. add_check n True detail)
       | Inl e \<Rightarrow> for_each names (\<lambda>n. add_check n False (exn_msg e)))
      (\<lambda>_. open_only S w0) (closed_unless_interrupt S w0)" for r :: "exn + string"
    by (cases r) (auto intro: triple_pre [OF adds])
  then show ?thesis unfolding run_check_def
    by (intro triple_bind [OF triple_exc [OF triple_attempt [OF assms]]]) auto
qed

lemma triple_run_checks:
  "triple (open_only S w0) (run_checks H fuel a) (\<lambda>_. open_only S w0) (closed_unless_interrupt S w0)"
  unfolding run_checks_def
  by (intro triple_seq [where R = "\<lambda>_. open_only S w0"] triple_run_check triple_tests)
    (auto simp: triple_def modify_def gets_def intro: open_only_quiet quiet_summary)

lemma auth_main_OkE:
  assumes "auth_main H fuel raw w = (Ok rc, w')" and "\<not> a_probe_only raw"
  obtains w0 w1 w2 started t where "parse_args raw = Inr raw"
    "w0 = w\<lparr>summary := \<lparr>sm_onion = a_onion raw, sm_passed = False, sm_duration_seconds = 0, sm_checks = []\<rparr>,
        n_clock := Suc (n_clock w)\<rparr>"
    "try_except (run_checks H fuel raw) (catches [KeyboardInterrupt] (\<lambda>_. ret 130)) w0 = (Ok rc, w1)"
    "w2 = w1\<lparr>n_clock := Suc (n_clock w1), summary := (summary w1)\<lparr>sm_duration_seconds := round_digits 3 (t - started)\<rparr>\<rparr>"
    "write_summary (a_summary_json raw) (summary w2) w2 = (Ok (), w')"
proof -
  have p: "parse_args raw = Inr raw"
    using assms(1) by (auto simp: auth_main_def lift_exn_def parse_args_def bindE_def rethrow_def split: if_splits)
  show thesis
    using assms
    by (auto simp: auth_main_def p lift_exn_def seqE_def bindE_def modify_def monotonic_def gets_def
        elim!: try_finally_OkE split: result.splits prod.splits intro: that [OF p])
qed

lemma interrupt_or_Ok:
  "try_except m (catches [KeyboardInterrupt] (\<lambda>_. ret x)) w = (Ok r, w') \<Longrightarrow> r = x \<or> m w = (Ok r, w')"
  by (auto simp: try_except_def catches_def ret_def split: result.splits prod.splits if_splits option.splits)

lemma triple_run_probe_only:
  "triple (open_only S w0) (run_probe_only a) (\<lambda>_. open_only S w0) (\<lambda>_ _. True)"
proof -
  have "triple (\<lambda>w. case r of Inr (s, _) \<Rightarrow> open_only (insert s S) w0 w | Inl e \<Rightarrow> open_only S w0 w)
      (case r of Inr (s, _) \<Rightarrow> seqE (close_quietly (Some s)) (ret 0) | Inl _ \<Rightarrow> seqE (close_quietly None) (ret 1))
      (\<lambda>_. open_only S w0) (\<lambda>_ _. True)" for r :: "exn + nat \<times> bytes"
  proof (cases r)
    case (Inl e)
    then show ?thesis by (simp add: close_quietly_def seqE_def) (simp add: triple_def ret_def)
  next
    case (Inr sc)
    obtain s c where sc: "sc = (s, c)" by fastforce
    show ?thesis unfolding Inr sc sum.case prod.case
      by (rule triple_seq [OF triple_exc [OF triple_close_quietly]]) (auto simp: triple_def ret_def)
  qed
  moreover have "triple (open_only S w0) (attempt (connect_and_receive_challenge a))
      (\<lambda>r w. case r of Inr (s, _) \<Rightarrow> open_only (insert s S) w0 w | Inl e \<Rightarrow> open_only S w0 w) (\<lambda>_ _. True)"
    unfolding connect_and_receive_challenge_def
    by (rule triple_conseq [OF triple_attempt [OF triple_connect_loop]]) (auto split: sum.splits)
  ultimately show ?thesis unfolding run_probe_only_def by (intro triple_bind)
qed

lemma test_valid_pow_run:
  assumes "dials w = Inr k # ds" and "0 \<le> a_timeout a" "0 < a_connect_retries a"
    and "list_all (\<lambda>r. r = None) (sk_tx k)"
    and "avail (sk_rx k) = good_proxy_reply atyp addr pt @ challenge_frame @ poll @ rest"
    and "good_address atyp addr" "length pt = 2" and "connect_bytes a request"
    and "build_frame ACTION_AUTH_CHALLENGE ZERO_MAILBOX payload = Inr challenge_frame"
      "length payload = CONTROL_PAYLOAD_SIZE"
    and "solve_pow H (take CHALLENGE_SIZE payload) = Inr nonce"
    and "build_frame ACTION_AUTH_RESPONSE ZERO_MAILBOX
           (nonce @ replicate (CONTROL_PAYLOAD_SIZE - 8) 0) = Inr response"
    and "build_frame ACTION_POLL (map (entropy w (n_entropy w)) [0..<MAILBOX_SIZE])
           (replicate CONTROL_PAYLOAD_SIZE 0) = Inr poll"
  shows "\<exists>w'. test_valid_pow H a w = (Ok valid_pow_text, w') \<and>
    closed_after (length (socks w)) ([5, 1, 0] @ request @ response @ poll) w'"
proof -
  let ?s = "length (socks w)" and ?rnd = "(entropy w, n_entropy w)"
  let ?c = "take CHALLENGE_SIZE payload" and ?sent = "[5, 1, 0] @ request"
  obtain w1 where w1: "connect_and_receive_challenge a w = (Ok (?s, ?c), w1)"
      "conn ?s (poll @ rest) ?sent ?rnd w1"
    using connect_accepted [OF assms(1-4) _ assms(6-10), of "poll @ rest"] assms(5) by auto
  have "length ?c = CHALLENGE_SIZE" using assms(10) by (simp add: wire_simps)
  then obtain w2 rnd where w2: "valid_pow_session H ?s ?c w1 = (Ok valid_pow_text, w2)"
      "conn ?s rest (?sent @ response @ poll) rnd w2"
    using yieldsD [OF yields_valid_pow_session [of ?c H nonce response ?rnd poll] w1(2)] assms(11-13)
    by auto
  obtain u w3 where "close_quietly (Some ?s) w2 = (Ok u, w3)"
      "closed_after ?s (?sent @ response @ poll) w3"
    using yieldsD [OF yields_close_quietly w2(2)] by blast
  then show ?thesis
    using w1 w2 by (simp add: test_valid_pow_def bindE_def try_finally_def)
qed

section \<open>Properties\<close>

text \<open>C21: against a proxy that accepts and a relay that sends a well-formed challenge and answers
  the POLL with an empty frame for the same mailbox, in whatever segments the bytes arrive, the
  valid-PoW test passes at the first attempt; it has sent exactly the SOCKS5 greeting and request,
  the padded nonce frame and the padded POLL frame, and has closed its socket.\<close>

theorem test_valid_pow_accepts:
  assumes "dials w = Inr k # ds" and "0 \<le> a_timeout a" "0 < a_connect_retries a"
    and "list_all (\<lambda>r. r = None) (sk_tx k)"
    and "avail (sk_rx k) = good_proxy_reply atyp addr pt @ challenge_frame @ poll @ rest"
    and "good_address atyp addr" "length pt = 2" and "connect_bytes a request"
    and "build_frame ACTION_AUTH_CHALLENGE ZERO_MAILBOX payload = Inr challenge_frame"
      "length payload = CONTROL_PAYLOAD_SIZE"
    and "solve_pow H (take CHALLENGE_SIZE payload) = Inr nonce"
    and "build_frame ACTION_AUTH_RESPONSE ZERO_MAILBOX
           (nonce @ replicate (CONTROL_PAYLOAD_SIZE - 8) 0) = Inr response"
    and "build_frame ACTION_POLL (map (entropy w (n_entropy w)) [0..<MAILBOX_SIZE])
           (replicate CONTROL_PAYLOAD_SIZE 0) = Inr poll"
  shows "\<exists>w'. test_valid_pow H a w = (Ok valid_pow_text, w') \<and>
    closed_after (length (socks w)) ([5, 1, 0] @ request @ response @ poll) w'"
  using assms by (rule test_valid_pow_run)

text \<open>A proxy and a relay that send one byte per segment.\<close>

definition demo_args :: args where
  "demo_args = \<lparr>a_onion = ''x.onion'', a_socks_host = ''127.0.0.1'', a_socks_port = 9050,
     a_target_port = 80, a_timeout = 15, a_connect_retries = 1, a_retry_delay = 0,
     a_summary_json = Some ''out.json'', a_probe_only = False\<rparr>"

definition demo_peer :: "rx_event list \<Rightarrow> sock" where
  "demo_peer rx = \<lparr>sk_rx = rx, sk_tx = [], sk_sent = [], sk_timeout = None, sk_shut = None, sk_closed = False\<rparr>"

definition demo_world :: "(exn + sock) list \<Rightarrow> at_world" where
  "demo_world ds = \<lparr>dials = ds, dialled = [], socks = [], entropy = (\<lambda>_ _. 7), n_entropy = 0,
     clock = real, n_clock = 0, slept = [],
     summary = \<lparr>sm_onion = [], sm_passed = False, sm_duration_seconds = 0, sm_checks = []\<rparr>,
     written = [], write_fault = (\<lambda>_. None)\<rparr>"

definition demo_frame :: "byte \<Rightarrow> byte \<Rightarrow> bytes \<Rightarrow> bytes" where
  "demo_frame action mb body =
     [action] @ replicate 16 mb @ pack_le 4 477 @ body @ replicate (477 - length body) 0"

definition demo_request :: bytes where
  "demo_request = [5, 1, 0, 3, 7] @ map of_char ''x.onion'' @ [0, 80]"

definition demo_relay :: sock where
  "demo_relay = demo_peer (map (\<lambda>b. Data b [])
     (good_proxy_reply 1 [0, 0, 0, 0] [0, 0] @ demo_frame 4 0 [] @ demo_frame 2 7 []))"

lemma avail_bytewise [simp]: "avail (map (\<lambda>b. Data b []) bs) = bs"
  by (induction bs) auto

lemma demo_frame_built:
  "length body \<le> 477 \<Longrightarrow>
   build_frame a (replicate 16 mb) (body @ replicate (477 - length body) 0) = Inr (demo_frame a mb body)"
  by (simp add: build_frame_def demo_frame_def wire_simps)

lemma demo_connect_bytes: "connect_bytes demo_args demo_request"
  unfolding connect_bytes_def
  by (intro exI [of _ "map of_char ''x.onion''"])
    (simp add: demo_args_def demo_request_def encode_ascii_def connect_request_def pack_be_def pack_le_numeral)

theorem test_valid_pow_accepts_witness:
  "\<exists>w'. test_valid_pow demo_hash demo_args (demo_world [Inr demo_relay]) = (Ok valid_pow_text, w') \<and>
    closed_after 0 ([5, 1, 0] @ demo_request @ demo_frame 5 0 (pack_le 8 3) @ demo_frame 2 7 []) w'"
proof -
  let ?w = "demo_world [Inr demo_relay]"
  have "\<exists>w'. test_valid_pow demo_hash demo_args ?w = (Ok valid_pow_text, w') \<and>
    closed_after (length (socks ?w)) ([5, 1, 0] @ demo_request @ demo_frame 5 0 (pack_le 8 3) @ demo_frame 2 7 []) w'"
  proof (rule test_valid_pow_accepts)
    show "dials ?w = Inr demo_relay # []" by (simp add: demo_world_def)
    show "avail (sk_rx demo_relay) = good_proxy_reply 1 [0, 0, 0, 0] [0, 0] @ demo_frame 4 0 [] @ demo_frame 2 7 [] @ []"
      by (simp add: demo_relay_def demo_peer_def del: map_append)
    show "build_frame ACTION_AUTH_CHALLENGE ZERO_MAILBOX (replicate 477 0) = Inr (demo_frame 4 0 [])"
      using demo_frame_built [of "[]" 4 0] by (simp add: wire_simps)
    show "solve_pow demo_hash (take CHALLENGE_SIZE (replicate 477 0)) = Inr (pack_le 8 3)"
      using demo_solve by (simp add: wire_simps)
    show "build_frame ACTION_AUTH_RESPONSE ZERO_MAILBOX
        (pack_le 8 3 @ replicate (CONTROL_PAYLOAD_SIZE - 8) 0) = Inr (demo_frame 5 0 (pack_le 8 3))"
      using demo_frame_built [of "pack_le 8 3" 5 0] by (simp add: wire_simps)
    have "map (entropy ?w (n_entropy ?w)) [0..<MAILBOX_SIZE] = replicate 16 7"
      by (simp add: demo_world_def wire_simps map_replicate_const)
    then show "build_frame ACTION_POLL (map (entropy ?w (n_entropy ?w)) [0..<MAILBOX_SIZE])
        (replicate CONTROL_PAYLOAD_SIZE 0) = Inr (demo_frame 2 7 [])"
      using demo_frame_built [of "[]" 2 7] by (simp add: wire_simps)
  qed (auto simp: demo_args_def demo_relay_def demo_peer_def good_address_def wire_simps
      intro: demo_connect_bytes [unfolded demo_args_def])
  then show ?thesis by (simp add: demo_world_def)
qed

text \<open>\<^verbatim>\<open>wait_for_rejection\<close> reports a rejection only if the peer's next action, timeouts apart, is
  an orderly close or a reset: bytes from the server never count as a rejection.\<close>

lemma rejection_is_real:
  assumes "live s w" and "wait_for_rejection fuel s timeout w = (Ok d, w')"
  shows "rejects_next (sk_rx (sock_at w s))"
  using assms by (rule wait_for_rejection_sound)

text \<open>C38: the exit status of the test is 0 exactly when the five checks were recorded in order and
  all passed, 1 when they were recorded and one failed, 130 on an interrupt, and the summary file
  holds the summary with that verdict.\<close>

theorem auth_main_verdict:
  assumes "\<not> a_probe_only raw" and "auth_main H fuel raw w = (Ok rc, w')"
  shows "(verdict_ok rc (summary w') \<or> rc = 130) \<and>
    (\<forall>p. a_summary_json raw = Some p \<and> p \<noteq> [] \<longrightarrow> last (written w') = (p, summary w'))"
proof -
  obtain w0 w1 w2 started t where m:
    "w0 = w\<lparr>summary := \<lparr>sm_onion = a_onion raw, sm_passed = False, sm_duration_seconds = 0, sm_checks = []\<rparr>,
        n_clock := Suc (n_clock w)\<rparr>"
    "try_except (run_checks H fuel raw) (catches [KeyboardInterrupt] (\<lambda>_. ret 130)) w0 = (Ok rc, w1)"
    "w2 = w1\<lparr>n_clock := Suc (n_clock w1), summary := (summary w1)\<lparr>sm_duration_seconds := round_digits 3 (t - started)\<rparr>\<rparr>"
    "write_summary (a_summary_json raw) (summary w2) w2 = (Ok (), w')"
    using auth_main_OkE [OF assms(2,1)] by metis
  have s: "summary w' = summary w2"
    using m(4) by (auto simp: write_summary_def split: option.splits if_splits)
  have "rc = 130 \<or> run_checks H fuel raw w0 = (Ok rc, w1)"
    using m(2) by (rule interrupt_or_Ok)
  then have "verdict_ok rc (summary w') \<or> rc = 130"
    using run_checks_Ok [of w0 H fuel raw rc w1] m(1) unfolding s m(3) by (auto simp: verdict_ok_def)
  moreover have "last (written w') = (p, summary w')" if "a_summary_json raw = Some p" "p \<noteq> []" for p
    using m(4) that s by (auto simp: write_summary_def split: option.splits)
  ultimately show ?thesis by blast
qed

text \<open>Unless it was interrupted, the test program leaves no socket it opened open.\<close>

lemma auth_main_closes_sockets:
  assumes "auth_main H fuel raw w = (Ok rc, w')" and "rc \<noteq> 130"
    and "length (socks w) \<le> i" "i < length (socks w')"
  shows "sk_closed (sock_at w' i)"
proof -
  have "open_only {} w w'"
  proof (cases "a_probe_only raw")
    case True
    then have "run_probe_only raw w = (Ok rc, w')"
      using assms(1) by (auto simp: auth_main_def parse_args_def lift_exn_def rethrow_def ret_def bindE_def split: if_splits)
    then show ?thesis by (rule triple_OkD [OF triple_run_probe_only open_only_self])
  next
    case False
    obtain w0 w1 w2 started t where m:
      "w0 = w\<lparr>summary := \<lparr>sm_onion = a_onion raw, sm_passed = False, sm_duration_seconds = 0, sm_checks = []\<rparr>,
          n_clock := Suc (n_clock w)\<rparr>"
      "try_except (run_checks H fuel raw) (catches [KeyboardInterrupt] (\<lambda>_. ret 130)) w0 = (Ok rc, w1)"
      "w2 = w1\<lparr>n_clock := Suc (n_clock w1), summary := (summary w1)\<lparr>sm_duration_seconds := round_digits 3 (t - started)\<rparr>\<rparr>"
      "write_summary (a_summary_json raw) (summary w2) w2 = (Ok (), w')"
      using auth_main_OkE [OF assms(1) False] by metis
    have "run_checks H fuel raw w0 = (Ok rc, w1)"
      using interrupt_or_Ok [OF m(2)] assms(2) by blast
    moreover have "open_only {} w w0"
      unfolding m(1) by (simp add: open_only_def net_le_def)
    ultimately have "open_only {} w w1" by (blast intro: triple_OkD [OF triple_run_checks])
    then have "open_only {} w w2" unfolding m(3) by (simp add: open_only_def net_le_def)
    then show ?thesis
      using evolvesD [OF ev_quiet_summary(2) m(4)] by (rule open_only_quiet)
  qed
  then show ?thesis using assms(3,4) by (simp add: open_only_def)
qed

definition demo_refused :: at_world where
  "demo_refused = demo_world [Inr (demo_peer [Fin])]"

lemma demo_host: "encode_ascii ''x.onion'' = Inr (map of_char ''x.onion'')"
  by (simp add: encode_ascii_def)

lemmas demo_eval =
  connect_and_receive_challenge_def demo_args_def connect_once_def bindE_def attempt_cases
  socks5_connect_def demo_host lift_exn_def socks5_open_def create_connection_def demo_refused_def
  demo_world_def Let_def demo_peer_def seqE_def sock_settimeout_def live_def upd_sock_def try_except_def
  socks5_handshake_def sock_sendall_def recv_exact_def recv_loop.simps sock_recv_def set_rx_def throw_def
  catches_def instance_any_def instance_of_def sock_close_def modify_def rethrow_def close_quietly_def
  ret_def whenE_def try_finally_def monotonic_def gets_def write_summary_def

lemma demo_run:
  "\<exists>w'. auth_main demo_hash 1 demo_args demo_refused = (Ok 1, w') \<and> length (socks w') = 1"
  by (simp add: auth_main_def parse_args_def run_checks_def run_check_def test_valid_pow_def
      test_invalid_pow_def test_pre_auth_poll_def test_pre_auth_push_def add_check_def demo_eval)

theorem auth_main_verdict_witness:
  "\<exists>w'. auth_main demo_hash 1 demo_args demo_refused = (Ok 1, w') \<and> verdict_ok 1 (summary w') \<and>
    last (written w') = (''out.json'', summary w')"
proof -
  obtain w' where w': "auth_main demo_hash 1 demo_args demo_refused = (Ok 1, w')"
    using demo_run by blast
  have "\<not> a_probe_only demo_args" "a_summary_json demo_args = Some ''out.json''"
    by (simp_all add: demo_args_def)
  then show ?thesis using auth_main_verdict [OF _ w'] w' by auto
qed

definition demo_waiting :: at_world where
  "demo_waiting = (demo_world [])\<lparr>socks := [demo_peer [Fault (Exn TimeoutError ''timed out''), Fin]]\<rparr>"

end
