(* ===== verification/Returns.thy ===== *)
theory Returns
  imports Socks Pow
begin

text \<open>
  Statements that always return.  A \<^verbatim>\<open>recv\<close> on a silent socket with no timeout
  never comes back; on a socket with a timeout it raises.  \<^verbatim>\<open>timed\<close> says that every
  socket of the process has a timeout, and \<^verbatim>\<open>returns P I m\<close> that from a state with
  \<^verbatim>\<open>P\<close> the statement \<^verbatim>\<open>m\<close> ends, with a value or an exception, in a state with \<^verbatim>\<open>I\<close>.
\<close>

definition returns :: "('w \<Rightarrow> bool) \<Rightarrow> ('w \<Rightarrow> bool) \<Rightarrow> ('w, 'a) io \<Rightarrow> bool" where
  "returns P I m \<longleftrightarrow> (\<forall>w. P w \<longrightarrow> fst (m w) \<noteq> Diverge \<and> I (snd (m w)))"

section \<open>Rules for the combinators\<close>

lemma returns_pre: "returns P I m \<Longrightarrow> (\<And>w. P' w \<Longrightarrow> P w) \<Longrightarrow> returns P' I m"
  by (simp add: returns_def)

lemma returnsD: "returns P I m \<Longrightarrow> P w \<Longrightarrow> fst (m w) \<noteq> Diverge \<and> I (snd (m w))"
  by (simp add: returns_def)

lemma returns_pure:
  "returns I I (ret x)" "returns I I (throw c s)" "returns I I (rethrow e)" "returns I I (gets f)"
  by (simp_all add: returns_def io_defs)

lemma returns_modify: "(\<And>w. P w \<Longrightarrow> I (f w)) \<Longrightarrow> returns P I (modify f)"
  by (simp add: returns_def io_defs)

text \<open>A bind whose continuation needs what a triple says of the first statement.\<close>

lemma returns_bind_triple:
  assumes "returns P I m" and "triple P m Q E" and "\<And>x. returns (\<lambda>w. I w \<and> Q x w) I (f x)"
  shows "returns P I (bindE m f)"
  unfolding returns_def
proof (intro allI impI)
  fix w
  assume P: "P w"
  obtain r v where m: "m w = (r, v)" by fastforce
  then have r: "r \<noteq> Diverge" "I v" using assms(1) P by (auto simp: returns_def)
  show "fst (bindE m f w) \<noteq> Diverge \<and> I (snd (bindE m f w))"
  proof (cases r)
    case (Ok x)
    then have "Q x v" using assms(2) P m by (auto simp: triple_def)
    with r(2) have "fst (f x v) \<noteq> Diverge \<and> I (snd (f x v))"
      using assms(3) [of x] by (simp add: returns_def)
    then show ?thesis by (simp add: bindE_def m Ok)
  qed (use r m in \<open>simp_all add: bindE_def\<close>)
qed

lemma returns_bind:
  assumes "returns P I m" and "\<And>x. returns I I (f x)"
  shows "returns P I (bindE m f)"
proof (rule returns_bind_triple [OF assms(1)])
  show "triple P m (\<lambda>_ _. True) (\<lambda>_ _. True)"
    by (auto simp: triple_def split: result.splits prod.splits)
qed (use assms(2) in simp)

lemma returns_seq: "returns P I m \<Longrightarrow> returns I I n \<Longrightarrow> returns P I (seqE m n)"
  unfolding seqE_def by (rule returns_bind)

lemma returns_when: "returns I I m \<Longrightarrow> returns I I (whenE b m)"
  by (simp add: whenE_def returns_pure)

lemma returns_try_except:
  assumes "returns P I m" and "\<And>e k. h e = Some k \<Longrightarrow> returns I I k"
  shows "returns P I (try_except m h)"
  unfolding returns_def
proof (intro allI impI)
  fix w
  assume "P w"
  obtain r v where m: "m w = (r, v)" by fastforce
  then have r: "r \<noteq> Diverge" "I v" using assms(1) \<open>P w\<close> by (auto simp: returns_def)
  show "fst (try_except m h w) \<noteq> Diverge \<and> I (snd (try_except m h w))"
  proof (cases r)
    case (Raise e)
    with r m show ?thesis
      by (cases "h e") (auto simp: try_except_def dest!: assms(2) simp: returns_def)
  qed (use r m in \<open>simp_all add: try_except_def\<close>)
qed

lemma returns_catches:
  "catches cs k e = Some n \<Longrightarrow> (\<And>e. returns I I (k e)) \<Longrightarrow> returns I I n"
  by (auto simp: catches_def split: if_splits)

lemma returns_try_finally_via:
  assumes "returns P J m" and "returns J I f"
  shows "returns P I (try_finally m f)"
  unfolding returns_def
proof (intro allI impI)
  fix w
  assume "P w"
  obtain r v where m: "m w = (r, v)" by fastforce
  obtain q u where f: "f v = (q, u)" by fastforce
  have "r \<noteq> Diverge" "J v" using assms(1) \<open>P w\<close> m by (auto simp: returns_def)
  moreover from this have "q \<noteq> Diverge" "I u" using assms(2) f by (auto simp: returns_def)
  ultimately show "fst (try_finally m f w) \<noteq> Diverge \<and> I (snd (try_finally m f w))"
    using m f by (cases r; cases q) (simp_all add: try_finally_def)
qed

lemma returns_try_finally: "returns P I m \<Longrightarrow> returns I I f \<Longrightarrow> returns P I (try_finally m f)"
  by (rule returns_try_finally_via)

lemma returns_for_each: "(\<And>x. returns I I (f x)) \<Longrightarrow> returns I I (for_each xs f)"
  by (induction xs) (auto intro: returns_seq returns_pure)

lemma returns_map_each: "(\<And>x. returns I I (f x)) \<Longrightarrow> returns I I (map_each xs f)"
  by (induction xs) (auto intro!: returns_bind returns_pure)

lemma returns_lift_exn: "returns I I (lift_exn r)"
  by (cases r) (simp_all add: lift_exn_def returns_pure)

lemmas returns_rules =
  returns_pure returns_bind returns_seq returns_when returns_try_finally returns_lift_exn
  returns_for_each returns_map_each

section \<open>Sockets with a timeout\<close>

definition timed :: "'z net_scheme \<Rightarrow> bool" where
  "timed w \<longleftrightarrow> (\<forall>k \<in> set (socks w). sk_timeout k \<noteq> None)"

lemma timed_upd_sock:
  "timed w \<Longrightarrow> (\<And>k. sk_timeout k \<noteq> None \<Longrightarrow> sk_timeout (f k) \<noteq> None) \<Longrightarrow> timed (upd_sock s f w)"
  unfolding timed_def upd_sock_def
  by (cases "s < length (socks w)") (auto simp: list_update_beyond dest!: set_update_subset_insert [THEN subsetD])

lemma returns_quiet:
  fixes m :: "('z net_scheme, 'a) io"
  assumes "returns timed timed m" and "evolves quiet m"
  shows "returns (\<lambda>w. timed w \<and> length (socks w) \<le> s) (\<lambda>w. timed w \<and> length (socks w) \<le> s) m"
  unfolding returns_def
proof (intro allI impI)
  fix w :: "'z net_scheme"
  assume w: "timed w \<and> length (socks w) \<le> s"
  have "quiet w (snd (m w))" using assms(2) by (simp add: evolves_def)
  then show "fst (m w) \<noteq> Diverge \<and> timed (snd (m w)) \<and> length (socks (snd (m w))) \<le> s"
    using returnsD [OF assms(1), of w] w by (simp add: quiet_def)
qed

lemma timed_set_rx: "timed w \<Longrightarrow> timed (set_rx s r w)"
  unfolding set_rx_def by (rule timed_upd_sock) auto

lemma timed_fields [simp]:
  "timed (w\<lparr>n_clock := a\<rparr>) = timed w" "timed (w\<lparr>slept := b\<rparr>) = timed w"
  "timed (w\<lparr>n_entropy := c\<rparr>) = timed w" "timed (w\<lparr>dialled := d, dials := e\<rparr>) = timed w"
  by (simp_all add: timed_def)

lemma rx_recv_returns: "t \<noteq> None \<Longrightarrow> fst (rx_recv t n q) \<noteq> Diverge"
  by (cases "(t, n, q)" rule: rx_recv.cases) (auto split: if_splits)

lemma returns_prims:
  "returns timed timed (sock_recv s n)" "returns timed timed (sock_sendall s bs)"
  "returns timed timed (sock_settimeout s (Some d))" "returns timed timed (sock_gettimeout s)"
  "returns timed timed (sock_shutdown s)" "returns timed timed (sock_close s)"
  "returns timed timed monotonic" "returns timed timed (sleep d)" "returns timed timed (urandom n)"
  "returns timed timed (create_connection h p d)"
proof -
  show "returns timed timed (sock_recv s n)"
    unfolding returns_def
  proof (intro allI impI)
    fix w
    assume t: "timed w"
    have "fst (rx_recv (sk_timeout (sock_at w s)) n q) \<noteq> Diverge" if "live s w" for q
      using t that by (intro rx_recv_returns) (simp add: timed_def live_def)
    then show "fst (sock_recv s n w) \<noteq> Diverge \<and> timed (snd (sock_recv s n w))"
      using t by (auto simp: sock_recv_def bad_fd_def throw_def timed_set_rx split: prod.splits)
        (metis fst_conv)
  qed
  show "returns timed timed (create_connection h p d)"
    by (auto simp: returns_def create_connection_def throw_def Let_def timed_def
        split: list.splits sum.splits)
qed (unfold sock_gettimeout_def sock_close_def,
    auto simp: returns_def sock_sendall_def sock_settimeout_def sock_shutdown_def monotonic_def
      sleep_def urandom_def bad_fd_def io_defs split: list.splits option.splits
      intro!: timed_upd_sock)

text \<open>Reading an exact number of bytes ends, whatever the segments are.\<close>

lemma returns_recv_exact:
  assumes "\<And>n. returns I I (recv n)"
  shows "returns I I (recv_exact eof recv sz)"
proof -
  have "fst (recv_loop eof recv sz data w) \<noteq> Diverge \<and> I (snd (recv_loop eof recv sz data w))"
    if "I w" for data w
    using that
  proof (induction "sz - length data" arbitrary: data w rule: less_induct)
    case less
    obtain r v where r: "recv (sz - length data) w = (r, v)" by fastforce
    then have ok: "r \<noteq> Diverge" "I v"
      using assms [of "sz - length data"] less.prems by (auto simp: returns_def dest!: spec [of _ w])
    show ?case
    proof (cases "length data < sz")
      case True
      show ?thesis
      proof (cases r)
        case (Ok c)
        have "fst (recv_loop eof recv sz (data @ c) v) \<noteq> Diverge \<and>
            I (snd (recv_loop eof recv sz (data @ c) v))" if "c \<noteq> []"
          using less.hyps [of "data @ c" v] ok(2) that True by (simp add: diff_less_mono2)
        then show ?thesis using True r Ok ok by (subst recv_loop.simps) (auto simp: throw_def
            recv_loop.simps [of eof recv sz data w])
      qed (use True r ok in \<open>simp_all add: recv_loop.simps [of eof recv sz data w]\<close>)
    qed (use less.prems in \<open>simp add: recv_loop.simps [of eof recv sz data w]\<close>)
  qed
  then show ?thesis by (simp add: returns_def recv_exact_def)
qed

lemmas returns_recv = returns_recv_exact [OF returns_prims(1)]

lemma returns_frames:
  "returns timed timed (lg_recv_frame s)" "returns timed timed (send_control s a m p)"
proof -
  show "returns timed timed (lg_recv_frame s)"
    unfolding lg_recv_frame_def recv_frame_core_def Let_def
    by (auto intro!: returns_rules returns_recv)
  show "returns timed timed (send_control s a m p)"
    unfolding send_control_def send_frame_def by (intro returns_rules returns_prims)
qed

lemma returns_connect: "returns timed timed (lg_socks5_connect h p onion tp t)"
proof -
  have addr: "returns timed timed (recv_address d s a)" for d s a
    unfolding recv_address_def Let_def by (auto intro!: returns_rules returns_recv)
  have hs: "returns timed timed (socks5_handshake d s dom tp)" for d s dom
    unfolding socks5_handshake_def Let_def
    by (auto intro!: returns_rules returns_prims returns_recv addr split: option.splits)
  show ?thesis
    unfolding lg_socks5_connect_def socks5_open_def
    by (auto intro!: returns_rules returns_try_except returns_prims hs elim!: returns_catches)
qed

end
