(* ===== verification/LoadGen.thy ===== *)
theory LoadGen
  imports Returns
begin

text \<open>
  \<^verbatim>\<open>benchmarks/BT-03/loadgen.py\<close>: the quota stress test.  It authenticates a number
  of clients, pushes maximal frames from all of them in rounds until the relay
  starts to refuse new connections (confirmed by consecutive probes) or a
  safety limit is reached, and finally checks that an existing session still
  answers.  The thread pool of a round is a list of the clients in the order
  their sends complete; printing is left out.
\<close>

section \<open>Records\<close>

datatype ProbeStatus = Accepted | Rejected | Indeterminate

record ProbeRecord =
  pr_round :: int
  pr_status :: ProbeStatus
  pr_detail :: string

record LgSummary =
  ls_onion :: string
  ls_clients_requested :: int
  ls_clients_connected :: int
  ls_payload_size :: int
  ls_rounds_completed :: int
  ls_messages_sent :: int
  ls_payload_bytes_sent :: int
  ls_wire_bytes_sent :: int
  ls_rejection_detected :: bool
  ls_liveness_ok :: bool
  ls_sink_mailbox_hex :: string
  ls_duration_seconds :: real
  ls_probes :: "ProbeRecord list"

record lg_args =
  g_onion :: string
  g_socks_host :: string
  g_socks_port :: int
  g_target_port :: int
  g_clients :: int
  g_payload_size :: int
  g_max_sent_mib :: int
  g_monitor_delay :: real
  g_rejection_confirmations :: int
  g_post_rejection_hold :: real
  g_timeout :: real
  g_probe_timeout :: real
  g_send_timeout :: real
  g_connect_retries :: int
  g_retry_delay :: real
  g_summary_json :: "string option"
  g_setup_only :: bool

text \<open>\<^verbatim>\<open>lg_clients\<close> is the local variable \<^verbatim>\<open>clients\<close> of \<^verbatim>\<open>main\<close>, read by its \<^verbatim>\<open>finally\<close> block.\<close>

record lg_world = net +
  lsum :: LgSummary
  lg_clients :: "nat list"
  lg_written :: "(string \<times> LgSummary) list"
  lg_write_fault :: "string \<Rightarrow> exn option"

definition upd_sum :: "(LgSummary \<Rightarrow> LgSummary) \<Rightarrow> ('z lg_world_scheme, unit) io" where
  "upd_sum f = modify (\<lambda>w. w\<lparr>lsum := f (lsum w)\<rparr>)"

section \<open>Sessions\<close>

definition lg_authenticate :: "(bytes \<Rightarrow> bytes) \<Rightarrow> nat \<Rightarrow> ('z net_scheme, unit) io" where
  "lg_authenticate H s =
     bindE (lg_recv_frame s) (\<lambda>(action, _, challenge_payload).
     if action \<noteq> ACTION_AUTH_CHALLENGE then throw LoadProtocolError ''expected challenge''
     else if length challenge_payload \<noteq> CONTROL_PAYLOAD_SIZE
     then throw LoadProtocolError (''bad AUTH_CHALLENGE payload size: '' @ show_nat (length challenge_payload))
     else
       bindE (lift_exn (lg_solve_pow H (take CHALLENGE_SIZE challenge_payload))) (\<lambda>nonce.
       seqE (send_control s ACTION_AUTH_RESPONSE ZERO_MAILBOX nonce)
       (bindE (urandom MAILBOX_SIZE) (\<lambda>mailbox.
       seqE (send_control s ACTION_POLL mailbox [])
       (bindE (lg_recv_frame s) (\<lambda>(a, m, p).
        if a \<noteq> ACTION_POLL \<or> m \<noteq> mailbox then throw LoadProtocolError ''auth validation failed''
        else bindE (lift_exn (pad_control_payload [])) (\<lambda>padding.
          if p \<noteq> padding then throw LoadProtocolError ''auth validation failed'' else ret ())))))))"

definition create_authenticated_client :: "(bytes \<Rightarrow> bytes) \<Rightarrow> lg_args \<Rightarrow> ('z net_scheme, nat) io" where
  "create_authenticated_client H a =
     bindE (lg_socks5_connect (g_socks_host a) (g_socks_port a) (g_onion a) (g_target_port a) (g_timeout a))
       (\<lambda>s. try_except
          (seqE (lg_authenticate H s) (seqE (sock_settimeout s (Some (g_send_timeout a))) (ret s)))
          (catches [Exception] (\<lambda>e. seqE (sock_close s) (rethrow e))))"

text \<open>The handlers of the second \<^verbatim>\<open>try\<close> of \<^verbatim>\<open>probe_connection\<close>, in their order.\<close>

definition probe_handlers :: "exn \<Rightarrow> ('z net_scheme, ProbeStatus \<times> string) io option" where
  "probe_handlers e =
     (if instance_any e [ConnectionResetError, BrokenPipeError, ConnectionError]
      then Some (ret (Rejected, ''closed before AUTH_CHALLENGE: '' @ exn_msg e))
      else if instance_of e TimeoutError
      then Some (ret (Indeterminate, ''timeout waiting for AUTH_CHALLENGE''))
      else if instance_of e OSError then Some (ret (Indeterminate, ''socket error: '' @ exn_msg e))
      else None)"

definition probe_session :: "nat \<Rightarrow> ('z net_scheme, ProbeStatus \<times> string) io" where
  "probe_session s =
     try_finally
       (try_except
          (bindE (lg_recv_frame s) (\<lambda>(action, _, payload).
             if action = ACTION_AUTH_CHALLENGE \<and> length payload = CONTROL_PAYLOAD_SIZE
             then ret (Accepted, ''AUTH_CHALLENGE received'')
             else ret (Indeterminate, ''unexpected first frame action=0x'' @ hex2 (unat action))))
          probe_handlers)
       (sock_close s)"

definition probe_connection :: "lg_args \<Rightarrow> ('z net_scheme, ProbeStatus \<times> string) io" where
  "probe_connection a =
     bindE
       (try_except
          (bindE (lg_socks5_connect (g_socks_host a) (g_socks_port a) (g_onion a) (g_target_port a)
                    (g_probe_timeout a)) (\<lambda>s. ret (Inr s)))
          (catches [OSError, LoadSocksError, ConnectionError]
             (\<lambda>e. ret (Inl (Indeterminate, ''SOCKS/Tor error: '' @ exn_msg e)))))
       (\<lambda>r. case r of Inl verdict \<Rightarrow> ret verdict | Inr s \<Rightarrow> probe_session s)"

text \<open>Every submitted send runs; the first failure in completion order is raised by
  \<^verbatim>\<open>f.result()\<close>.\<close>

definition capture :: "('w, 'a) io \<Rightarrow> ('w, exn option) io" where
  "capture m w =
     (case m w of
        (Ok _, w') \<Rightarrow> (Ok None, w')
      | (Raise e, w') \<Rightarrow> (Ok (Some e), w')
      | (Diverge, w') \<Rightarrow> (Diverge, w'))"

definition send_parallel_round :: "nat list \<Rightarrow> bytes \<Rightarrow> ('z net_scheme, unit) io" where
  "send_parallel_round order frame =
     bindE (map_each order (\<lambda>c. capture (sock_sendall c frame))) (\<lambda>outcomes.
       case find (\<lambda>r. r \<noteq> None) outcomes of
         Some (Some e) \<Rightarrow> rethrow e
       | _ \<Rightarrow> ret ())"

definition verify_existing_session :: "nat \<Rightarrow> real \<Rightarrow> ('z net_scheme, bool) io" where
  "verify_existing_session s timeout =
     bindE (urandom MAILBOX_SIZE) (\<lambda>mailbox.
     bindE (sock_gettimeout s) (\<lambda>old_timeout.
     try_finally
       (try_except
          (seqE (sock_settimeout s (Some timeout))
          (seqE (send_control s ACTION_POLL mailbox [])
          (bindE (lg_recv_frame s) (\<lambda>(a, m, p).
           bindE (lift_exn (pad_control_payload [])) (\<lambda>padding.
             ret (a = ACTION_POLL \<and> m = mailbox \<and> p = padding))))))
          (catches [OSError, ConnectionError, LoadProtocolError] (\<lambda>_. ret False)))
       (sock_settimeout s old_timeout)))"

definition lg_close_client :: "nat \<Rightarrow> ('z net_scheme, unit) io" where
  "lg_close_client s =
     seqE (try_except (sock_shutdown s) (catches [OSError] (\<lambda>_. ret ()))) (sock_close s)"

definition lg_write_summary :: "string option \<Rightarrow> LgSummary \<Rightarrow> ('z lg_world_scheme, unit) io" where
  "lg_write_summary path sm w =
     (case path of
        None \<Rightarrow> (Ok (), w)
      | Some p \<Rightarrow>
          if p = [] then (Ok (), w)
          else (case lg_write_fault w p of
                  Some e \<Rightarrow> (Raise e, w)
                | None \<Rightarrow> (Ok (), w\<lparr>lg_written := lg_written w @ [(p, sm)]\<rparr>)))"

definition lg_parse_args :: "lg_args \<Rightarrow> exn + lg_args" where
  "lg_parse_args a =
     (if g_clients a \<le> 0 then Inl (Exn (SystemExit 2) ''--clients must be > 0'')
      else if \<not> (1 \<le> g_payload_size a \<and> g_payload_size a \<le> int MAX_PAYLOAD_SIZE)
      then Inl (Exn (SystemExit 2) ''--payload-size out of range'')
      else if g_max_sent_mib a \<le> 0 then Inl (Exn (SystemExit 2) ''--max-sent-mib must be > 0'')
      else if g_rejection_confirmations a \<le> 0
      then Inl (Exn (SystemExit 2) ''--rejection-confirmations must be > 0'')
      else if g_connect_retries a \<le> 0 then Inl (Exn (SystemExit 2) ''--connect-retries must be > 0'')
      else if g_retry_delay a < 0 then Inl (Exn (SystemExit 2) ''--retry-delay must be >= 0'')
      else if occurs ''://'' (g_onion a) then Inl (Exn (SystemExit 2) ''--onion must be hostname'')
      else Inr a)"

section \<open>Establishing the clients\<close>

text \<open>The inner loop for one client: \<^verbatim>\<open>k\<close> attempts left; left is the text of the last error.\<close>

fun client_attempts :: "(bytes \<Rightarrow> bytes) \<Rightarrow> lg_args \<Rightarrow> nat \<Rightarrow> string \<Rightarrow> ('z net_scheme, string + nat) io" where
  "client_attempts H a 0 last_exc = ret (Inl last_exc)"
| "client_attempts H a (Suc k) last_exc =
     bindE (try_except (bindE (create_authenticated_client H a) (\<lambda>s. ret (Inr s)))
              (catches [TimeoutError, OSError, LoadSocksError, ConnectionError] (\<lambda>e. ret (Inl (exn_msg e)))))
       (\<lambda>r. case r of
          Inr s \<Rightarrow> ret (Inr s)
        | Inl m \<Rightarrow>
            seqE (whenE (0 < k \<and> g_retry_delay a \<noteq> 0) (sleep (g_retry_delay a)))
              (client_attempts H a k m))"

fun establish_loop :: "(bytes \<Rightarrow> bytes) \<Rightarrow> lg_args \<Rightarrow> nat \<Rightarrow> nat list \<Rightarrow> ('z lg_world_scheme, nat list) io" where
  "establish_loop H a 0 clients = ret clients"
| "establish_loop H a (Suc m) clients =
     bindE (client_attempts H a (nat (g_connect_retries a)) ''None'') (\<lambda>r.
       case r of
         Inr s \<Rightarrow>
           seqE (upd_sum (\<lambda>u. u\<lparr>ls_clients_connected := int (Suc (length clients))\<rparr>))
             (establish_loop H a m (clients @ [s]))
       | Inl last_exc \<Rightarrow>
           seqE (for_each clients lg_close_client)
             (throw LoadGenError (''client '' @ show_nat (Suc (length clients)) @ ''/'' @
                show_int (g_clients a) @ '' could not authenticate after '' @
                show_int (g_connect_retries a) @ '' attempts: '' @ last_exc)))"

definition establish_authenticated_clients :: "(bytes \<Rightarrow> bytes) \<Rightarrow> lg_args \<Rightarrow> ('z lg_world_scheme, nat list) io" where
  "establish_authenticated_clients H a = establish_loop H a (nat (g_clients a)) []"

definition status_text :: "ProbeStatus \<Rightarrow> string" where
  "status_text st = (case st of Accepted \<Rightarrow> ''accepted'' | Rejected \<Rightarrow> ''rejected'' | Indeterminate \<Rightarrow> ''indeterminate'')"

definition add_probe :: "int \<Rightarrow> ProbeStatus \<times> string \<Rightarrow> ('z lg_world_scheme, unit) io" where
  "add_probe round_no p =
     upd_sum (\<lambda>u. u\<lparr>ls_probes := ls_probes u @
       [\<lparr>pr_round = round_no, pr_status = fst p, pr_detail = snd p\<rparr>]\<rparr>)"

fun baseline_loop :: "lg_args \<Rightarrow> nat \<Rightarrow> ProbeStatus \<times> string \<Rightarrow> ('z lg_world_scheme, unit) io" where
  "baseline_loop a 0 prev =
     throw LoadGenError (''baseline probe did not become accepted after '' @ show_int (g_connect_retries a) @
       '' attempts: '' @ status_text (fst prev) @ '' ('' @ snd prev @ '')'')"
| "baseline_loop a (Suc k) prev =
     bindE (probe_connection a) (\<lambda>p.
     seqE (add_probe 0 p)
     (case fst p of
        Accepted \<Rightarrow> ret ()
      | Rejected \<Rightarrow> throw LoadGenError ''baseline probe was rejected before load generation''
      | Indeterminate \<Rightarrow>
          seqE (whenE (0 < k \<and> g_retry_delay a \<noteq> 0) (sleep (g_retry_delay a)))
            (baseline_loop a k p)))"

definition baseline_probe_with_retries :: "lg_args \<Rightarrow> ('z lg_world_scheme, unit) io" where
  "baseline_probe_with_retries a =
     baseline_loop a (nat (g_connect_retries a)) (Indeterminate, ''no probe attempted'')"

section \<open>The load loop and the entry point\<close>

definition count_round :: "lg_args \<Rightarrow> nat \<Rightarrow> nat \<Rightarrow> LgSummary \<Rightarrow> LgSummary" where
  "count_round a n frame_len u =
     u\<lparr>ls_rounds_completed := ls_rounds_completed u + 1,
       ls_messages_sent := ls_messages_sent u + int n,
       ls_payload_bytes_sent := ls_payload_bytes_sent u + int n * g_payload_size a,
       ls_wire_bytes_sent := ls_wire_bytes_sent u + int n * int frame_len\<rparr>"

definition next_consecutive :: "int \<Rightarrow> ProbeStatus \<Rightarrow> int" where
  "next_consecutive c st = (case st of Rejected \<Rightarrow> c + 1 | Accepted \<Rightarrow> 0 | Indeterminate \<Rightarrow> c)"

text \<open>\<^verbatim>\<open>sched r cs\<close> is the order in which the sends of round \<^verbatim>\<open>r\<close> complete, \<^verbatim>\<open>fuel\<close> bounds the rounds.\<close>

definition push_round ::
  "lg_args \<Rightarrow> (int \<Rightarrow> nat list \<Rightarrow> nat list) \<Rightarrow> nat list \<Rightarrow> bytes \<Rightarrow> int \<Rightarrow>
   ('z lg_world_scheme, ProbeStatus) io" where
  "push_round a sched clients frame round_no =
     seqE (send_parallel_round (sched round_no clients) frame)
     (seqE (upd_sum (count_round a (length clients) (length frame)))
     (seqE (sleep (g_monitor_delay a))
     (bindE (probe_connection a) (\<lambda>p.
      seqE (add_probe round_no p) (ret (fst p))))))"

fun load_loop ::
  "nat \<Rightarrow> lg_args \<Rightarrow> (int \<Rightarrow> nat list \<Rightarrow> nat list) \<Rightarrow> nat list \<Rightarrow> bytes \<Rightarrow> int \<Rightarrow>
   ('z lg_world_scheme, unit) io" where
  "load_loop 0 a sched clients frame consecutive = diverge"
| "load_loop (Suc fuel) a sched clients frame consecutive =
     bindE (gets lsum) (\<lambda>u.
     if ls_payload_bytes_sent u < g_max_sent_mib a * 1024 * 1024 then
       bindE (push_round a sched clients frame (ls_rounds_completed u + 1)) (\<lambda>status.
       let c = next_consecutive consecutive status in
       if g_rejection_confirmations a \<le> c
       then upd_sum (\<lambda>u. u\<lparr>ls_rejection_detected := True\<rparr>)
       else load_loop fuel a sched clients frame c)
     else ret ())"

definition check_liveness :: "lg_args \<Rightarrow> nat list \<Rightarrow> ('z lg_world_scheme, int) io" where
  "check_liveness a clients =
     bindE (verify_existing_session (clients ! 0) (g_probe_timeout a)) (\<lambda>alive.
     seqE (upd_sum (\<lambda>u. u\<lparr>ls_liveness_ok := alive\<rparr>)) (ret (if alive then 0 else 3)))"

definition load_body ::
  "(bytes \<Rightarrow> bytes) \<Rightarrow> nat \<Rightarrow> (int \<Rightarrow> nat list \<Rightarrow> nat list) \<Rightarrow> lg_args \<Rightarrow> bytes \<Rightarrow> ('z lg_world_scheme, int) io" where
  "load_body H fuel sched a push_frame =
     bindE (establish_authenticated_clients H a) (\<lambda>clients.
     seqE (modify (\<lambda>w. w\<lparr>lg_clients := clients\<rparr>))
     (seqE (sleep 1)
     (seqE (baseline_probe_with_retries a)
     (if g_setup_only a then check_liveness a clients
      else
        seqE (load_loop fuel a sched clients push_frame 0)
        (bindE (gets (\<lambda>w. ls_rejection_detected (lsum w))) (\<lambda>detected.
         if \<not> detected then ret 2
         else seqE (sleep (g_post_rejection_hold a)) (check_liveness a clients)))))))"

definition fresh_summary :: "lg_args \<Rightarrow> bytes \<Rightarrow> LgSummary" where
  "fresh_summary a sink =
     \<lparr>ls_onion = g_onion a, ls_clients_requested = g_clients a, ls_clients_connected = 0,
      ls_payload_size = g_payload_size a, ls_rounds_completed = 0, ls_messages_sent = 0,
      ls_payload_bytes_sent = 0, ls_wire_bytes_sent = 0, ls_rejection_detected = False,
      ls_liveness_ok = False, ls_sink_mailbox_hex = hex sink, ls_duration_seconds = 0, ls_probes = []\<rparr>"

definition load_handlers :: "exn \<Rightarrow> ('z lg_world_scheme, int) io option" where
  "load_handlers e =
     (if instance_of e KeyboardInterrupt then Some (ret 130)
      else if instance_of e Exception then Some (ret 1) else None)"

text \<open>The \<^verbatim>\<open>finally\<close> block.\<close>

definition load_finally :: "real \<Rightarrow> string option \<Rightarrow> ('z lg_world_scheme, unit) io" where
  "load_finally started path =
     bindE monotonic (\<lambda>t.
     seqE (upd_sum (\<lambda>u. u\<lparr>ls_duration_seconds := round_digits 3 (t - started)\<rparr>))
     (bindE (gets lg_clients) (\<lambda>clients.
      seqE (for_each clients lg_close_client)
      (bindE (gets lsum) (lg_write_summary path)))))"

definition load_main ::
  "(bytes \<Rightarrow> bytes) \<Rightarrow> nat \<Rightarrow> (int \<Rightarrow> nat list \<Rightarrow> nat list) \<Rightarrow> lg_args \<Rightarrow> ('z lg_world_scheme, int) io" where
  "load_main H fuel sched raw =
     bindE (lift_exn (lg_parse_args raw)) (\<lambda>a.
     bindE (urandom MAILBOX_SIZE) (\<lambda>sink.
     bindE (lift_exn (build_frame ACTION_PUSH sink (replicate (nat (g_payload_size a)) 0xA5))) (\<lambda>push_frame.
     seqE (modify (\<lambda>w. w\<lparr>lsum := fresh_summary a sink, lg_clients := []\<rparr>))
     (bindE monotonic (\<lambda>started.
      try_finally
        (try_except (load_body H fuel sched a push_frame) load_handlers)
        (load_finally started (g_summary_json a)))))))"

section \<open>What the operations leave alone\<close>

context sock_order
begin

lemma ev_capture: "evolves R m \<Longrightarrow> evolves R (capture m)"
  by (auto simp: evolves_def capture_def split: prod.splits result.splits) (metis snd_conv)+

lemma ev_lg_sessions:
  "evolves R (lg_authenticate H s)" "evolves R (probe_session s)" "evolves R (lg_close_client s)"
  "evolves R (verify_existing_session s t)" "evolves R (send_parallel_round order f)"
proof -
  show "evolves R (lg_authenticate H s)"
    unfolding lg_authenticate_def
    by (auto intro!: ev_bind ev_seq ev_pure ev_lift_exn ev_frames prims)
  show "evolves R (probe_session s)"
    unfolding probe_session_def probe_handlers_def
    by (auto intro!: ev_try_finally ev_try_except ev_bind ev_pure ev_frames prims split: if_splits)
  show "evolves R (lg_close_client s)"
    unfolding lg_close_client_def
    by (auto intro!: ev_seq ev_try_except ev_pure prims elim: ev_catches [rotated])
  show "evolves R (verify_existing_session s t)"
    unfolding verify_existing_session_def
    by (auto intro!: ev_try_finally ev_try_except ev_bind ev_seq ev_pure ev_lift_exn ev_frames prims
        elim: ev_catches [rotated])
  show "evolves R (send_parallel_round order f)"
    unfolding send_parallel_round_def
    by (auto intro!: ev_bind ev_map_each ev_capture ev_pure prims split: option.splits)
qed

end

context net_order
begin

lemma ev_lg_connects:
  "evolves R (create_authenticated_client H a)" "evolves R (probe_connection a)"
  unfolding create_authenticated_client_def probe_connection_def
  by (auto intro!: ev_bind ev_seq ev_pure ev_try_except ev_connects ev_lg_sessions prims
      elim: ev_catches [rotated] split: sum.splits)

lemma ev_client_attempts: "evolves R (client_attempts H a k m)"
  by (induction k arbitrary: m)
    (auto intro!: ev_bind ev_seq ev_when ev_pure ev_try_except ev_lg_connects prims
      elim: ev_catches [rotated] split: sum.splits)

end

lemma same_more_lg_world:
  fixes w w' :: "'z lg_world_scheme"
  assumes "same_more w w'"
  shows "lsum w' = lsum w" "lg_clients w' = lg_clients w" "lg_written w' = lg_written w"
    "lg_write_fault w' = lg_write_fault w"
  using assms by (cases w; cases w'; simp add: same_more_def)+

lemma triple_lsum:
  fixes m :: "('z lg_world_scheme, 'a) io"
  assumes "evolves same_more m"
  shows "triple (\<lambda>w. P (lsum w)) m (\<lambda>_ w. P (lsum w)) (\<lambda>_ w. P (lsum w))"
  by (rule triple_evolves [OF assms]) (simp add: same_more_lg_world)

section \<open>Counting consecutive rejections\<close>

definition trailing :: "ProbeStatus list \<Rightarrow> int" where
  "trailing sts = foldl next_consecutive 0 sts"

lemma trailing_snoc: "trailing (sts @ [st]) = next_consecutive (trailing sts) st"
  by (simp add: trailing_def)

lemma trailing_nonneg: "0 \<le> trailing sts"
  by (induction sts rule: rev_induct)
    (auto simp: trailing_snoc next_consecutive_def trailing_def split: ProbeStatus.splits)

lemma replicate_snoc_iff:
  "(\<exists>pre. xs @ [y] = pre @ replicate (Suc n) y) \<longleftrightarrow> (\<exists>pre. xs = pre @ replicate n y)"
  by (metis append.assoc append_same_eq replicate_append_same replicate_Suc)

text \<open>The counter of the loop reaches \<^verbatim>\<open>k\<close> exactly when, indeterminate probes apart, the last \<^verbatim>\<open>k\<close>
  were rejected.\<close>

lemma trailing_iff:
  "int k \<le> trailing sts \<longleftrightarrow>
   (\<exists>pre. filter (\<lambda>st. st \<noteq> Indeterminate) sts = pre @ replicate k Rejected)"
proof (induction sts arbitrary: k rule: rev_induct)
  case Nil
  then show ?case by (auto simp: trailing_def)
next
  case (snoc st sts)
  show ?case
  proof (cases st)
    case Accepted
    have "\<not> (\<exists>pre. xs @ [Accepted] = pre @ replicate (Suc n) Rejected)" for xs n
      by (metis ProbeStatus.distinct(1) append_is_Nil_conv last_appendR last_replicate last_snoc
          list.distinct(1) nat.distinct(1) replicate_Suc)
    then show ?thesis
      using Accepted by (cases k) (auto simp: trailing_snoc next_consecutive_def)
  next
    case Rejected
    then show ?thesis
      using snoc [of "k - 1"] replicate_snoc_iff [of "filter (\<lambda>st. st \<noteq> Indeterminate) sts" Rejected "k - 1"]
        trailing_nonneg [of sts]
      by (cases k) (auto simp: trailing_snoc next_consecutive_def)
  next
    case Indeterminate
    then show ?thesis using snoc by (simp add: trailing_snoc next_consecutive_def)
  qed
qed

section \<open>Accounting\<close>

definition load_statuses :: "LgSummary \<Rightarrow> ProbeStatus list" where
  "load_statuses u = map pr_status (filter (\<lambda>p. pr_round p \<noteq> 0) (ls_probes u))"

text \<open>The totals are those of whole rounds, and a rejection was reported exactly when enough
  consecutive probes of the load phase were rejected.\<close>

definition totals_ok :: "lg_args \<Rightarrow> int \<Rightarrow> LgSummary \<Rightarrow> bool" where
  "totals_ok a frame_len u \<longleftrightarrow>
     0 \<le> ls_rounds_completed u \<and>
     ls_messages_sent u = ls_rounds_completed u * g_clients a \<and>
     ls_payload_bytes_sent u = ls_messages_sent u * g_payload_size a \<and>
     ls_wire_bytes_sent u = ls_messages_sent u * frame_len"

definition load_ok :: "lg_args \<Rightarrow> int \<Rightarrow> LgSummary \<Rightarrow> bool" where
  "load_ok a frame_len u \<longleftrightarrow>
     totals_ok a frame_len u \<and>
     (ls_rejection_detected u \<longleftrightarrow> g_rejection_confirmations a \<le> trailing (load_statuses u))"

definition load_running :: "lg_args \<Rightarrow> int \<Rightarrow> int \<Rightarrow> LgSummary \<Rightarrow> bool" where
  "load_running a frame_len c u \<longleftrightarrow>
     totals_ok a frame_len u \<and> \<not> ls_rejection_detected u \<and>
     c = trailing (load_statuses u) \<and> c < g_rejection_confirmations a"

lemma load_running_ok: "load_running a n c u \<Longrightarrow> load_ok a n u"
  by (auto simp: load_running_def load_ok_def)

lemma load_running_connected [simp]:
  "load_running a n c (u\<lparr>ls_clients_connected := x\<rparr>) = load_running a n c u"
  by (simp add: load_running_def totals_ok_def load_statuses_def)

lemma load_ok_liveness [simp]:
  "load_ok a n (u\<lparr>ls_liveness_ok := x\<rparr>) = load_ok a n u"
  "load_ok a n (u\<lparr>ls_duration_seconds := y\<rparr>) = load_ok a n u"
  by (simp_all add: load_ok_def totals_ok_def load_statuses_def)

lemma load_running_round:
  "load_running a (int n) c u \<Longrightarrow> int m = g_clients a \<Longrightarrow> load_running a (int n) c (count_round a m n u)"
  by (simp add: load_running_def totals_ok_def load_statuses_def count_round_def algebra_simps)

lemma triple_upd_sum: "triple (\<lambda>w. Q () (w\<lparr>lsum := f (lsum w)\<rparr>)) (upd_sum f) Q E"
  unfolding upd_sum_def by (rule triple_modify)

lemma triple_push_round:
  assumes n: "int (length clients) = g_clients a" and fl: "fl = int (length frame)"
    and r: "0 \<le> r"
  shows "triple (\<lambda>w. load_running a fl c (lsum w)) (push_round a sched clients frame (r + 1))
    (\<lambda>st w. totals_ok a fl (lsum w) \<and> \<not> ls_rejection_detected (lsum w) \<and>
       next_consecutive c st = trailing (load_statuses (lsum w)))
    (\<lambda>_ w. load_ok a fl (lsum w))"
proof -
  let ?I = "\<lambda>w. load_running a fl c (lsum w)" and ?E = "\<lambda>(_ :: exn) w. load_ok a fl (lsum w)"
  have net: "triple ?I m (\<lambda>_. ?I) ?E" if "evolves same_more m"
    for m :: "('z lg_world_scheme, 'b) io"
    by (rule triple_exc [OF triple_lsum [OF that, of "load_running a fl c"]]) (rule load_running_ok)
  have count: "triple ?I (upd_sum (count_round a (length clients) (length frame))) (\<lambda>_. ?I) ?E"
    by (rule triple_pre [OF triple_upd_sum]) (simp add: load_running_round n fl)
  have add: "triple ?I (seqE (add_probe (r + 1) p) (ret (fst p)))
      (\<lambda>st w. totals_ok a fl (lsum w) \<and> \<not> ls_rejection_detected (lsum w) \<and>
         next_consecutive c st = trailing (load_statuses (lsum w))) ?E" for p
    unfolding add_probe_def
    by (rule triple_seq [OF triple_pre [OF triple_upd_sum] triple_ret])
      (use r in \<open>simp add: load_running_def totals_ok_def load_statuses_def trailing_snoc\<close>)
  show ?thesis
    unfolding push_round_def
    by (intro triple_seq [OF net] triple_seq [OF count] triple_bind [OF net] add
        sm.ev_lg_sessions sm.ev_lg_connects sm.prims)
qed

lemma triple_load_loop:
  assumes n: "int (length clients) = g_clients a" and fl: "fl = int (length frame)"
  shows "triple (\<lambda>w. load_running a fl c (lsum w)) (load_loop fuel a sched clients frame c)
    (\<lambda>_ w. load_ok a fl (lsum w) \<and>
       (ls_rejection_detected (lsum w) \<or> g_max_sent_mib a * 1024 * 1024 \<le> ls_payload_bytes_sent (lsum w)))
    (\<lambda>_ w. load_ok a fl (lsum w))"
    (is "triple (?I c) _ ?Q ?E")
proof (induction fuel arbitrary: c)
  case 0
  then show ?case by (simp add: triple_diverge)
next
  case (Suc fuel)
  have after: "triple (\<lambda>w. totals_ok a fl (lsum w) \<and> \<not> ls_rejection_detected (lsum w) \<and>
       next_consecutive c st = trailing (load_statuses (lsum w)))
      (let c' = next_consecutive c st in
       if g_rejection_confirmations a \<le> c' then upd_sum (\<lambda>u. u\<lparr>ls_rejection_detected := True\<rparr>)
       else load_loop fuel a sched clients frame c') ?Q ?E" for st
  proof (cases "g_rejection_confirmations a \<le> next_consecutive c st")
    case True
    then show ?thesis unfolding Let_def
      by (auto intro!: triple_pre [OF triple_upd_sum]
          simp: load_ok_def totals_ok_def load_statuses_def)
  next
    case False
    then show ?thesis unfolding Let_def if_not_P [OF False]
      by (intro triple_pre [OF Suc]) (simp add: load_running_def)
  qed
  have body: "triple (\<lambda>w. lsum w = u \<and> ?I c w)
      (if ls_payload_bytes_sent u < g_max_sent_mib a * 1024 * 1024 then
         bindE (push_round a sched clients frame (ls_rounds_completed u + 1)) (\<lambda>st.
           let c' = next_consecutive c st in
           if g_rejection_confirmations a \<le> c' then upd_sum (\<lambda>u. u\<lparr>ls_rejection_detected := True\<rparr>)
           else load_loop fuel a sched clients frame c')
       else ret ()) ?Q ?E" for u
  proof (cases "load_running a fl c u \<and> ls_payload_bytes_sent u < g_max_sent_mib a * 1024 * 1024")
    case True
    then have "0 \<le> ls_rounds_completed u" by (simp add: load_running_def totals_ok_def)
    from triple_bind [OF triple_push_round [OF n fl this] after] True
    show ?thesis by (auto intro: triple_pre)
  next
    case False
    then show ?thesis by (auto simp: triple_def ret_def intro: load_running_ok)
  qed
  show ?case
    unfolding load_loop.simps
    by (rule triple_bind [OF _ body]) (simp add: triple_def gets_def)
qed

section \<open>The whole run\<close>

lemma triple_establish_loop:
  assumes P: "\<And>u x. P (u\<lparr>ls_clients_connected := x\<rparr>) = P u"
  shows "triple (\<lambda>w :: 'z lg_world_scheme. P (lsum w)) (establish_loop H a m cs)
    (\<lambda>r w. length r = length cs + m \<and> P (lsum w)) (\<lambda>_ w. P (lsum w))"
proof (induction m arbitrary: cs)
  case 0
  then show ?case by (simp add: triple_def ret_def)
next
  case (Suc m)
  have close: "triple (\<lambda>w :: 'z lg_world_scheme. P (lsum w)) (for_each cs lg_close_client) (\<lambda>_ w. P (lsum w)) (\<lambda>_ w. P (lsum w))"
    by (rule triple_lsum) (intro sm.ev_for_each sm.ev_lg_sessions)
  have "triple (\<lambda>w :: 'z lg_world_scheme. P (lsum w)) (case r of
         Inr s \<Rightarrow> seqE (upd_sum (\<lambda>u. u\<lparr>ls_clients_connected := int (Suc (length cs))\<rparr>))
             (establish_loop H a m (cs @ [s]))
       | Inl last_exc \<Rightarrow> seqE (for_each cs lg_close_client) (throw LoadGenError (t last_exc)))
      (\<lambda>r w. length r = length cs + Suc m \<and> P (lsum w)) (\<lambda>_ w. P (lsum w))" for r t
  proof (cases r)
    case (Inl e)
    then show ?thesis using triple_seq [OF close triple_pre [OF triple_throw]] by simp
  next
    case (Inr s)
    have "triple (\<lambda>w :: 'z lg_world_scheme. P (lsum w)) (upd_sum (\<lambda>u. u\<lparr>ls_clients_connected := x\<rparr>))
        (\<lambda>_ w. P (lsum w)) (\<lambda>_ w. P (lsum w))" for x
      by (rule triple_pre [OF triple_upd_sum]) (simp add: P)
    from triple_seq [OF this Suc [of "cs @ [s]"]] show ?thesis by (auto simp: Inr)
  qed
  then show ?case unfolding establish_loop.simps
    by (rule triple_bind [OF triple_lsum [OF sm.ev_client_attempts]])
qed

lemma triple_baseline_loop:
  assumes P: "\<And>u st d. P (u\<lparr>ls_probes := ls_probes u @ [\<lparr>pr_round = 0, pr_status = st, pr_detail = d\<rparr>]\<rparr>) = P u"
  shows "triple (\<lambda>w :: 'z lg_world_scheme. P (lsum w)) (baseline_loop a k p) (\<lambda>_ w. P (lsum w)) (\<lambda>_ w. P (lsum w))"
proof (induction k arbitrary: p)
  case 0
  then show ?case by (simp add: triple_def throw_def)
next
  case (Suc k)
  have wait: "triple (\<lambda>w :: 'z lg_world_scheme. P (lsum w)) (whenE b (sleep d)) (\<lambda>_ w. P (lsum w)) (\<lambda>_ w. P (lsum w))" for b d
    by (rule triple_lsum) (intro sm.ev_when sm.prims)
  have "triple (\<lambda>w :: 'z lg_world_scheme. P (lsum w)) (case fst q of Accepted \<Rightarrow> ret ()
      | Rejected \<Rightarrow> throw LoadGenError ''baseline probe was rejected before load generation''
      | Indeterminate \<Rightarrow> seqE (whenE (0 < k \<and> g_retry_delay a \<noteq> 0) (sleep (g_retry_delay a))) (baseline_loop a k q))
      (\<lambda>_ w. P (lsum w)) (\<lambda>_ w. P (lsum w))" for q
    by (cases "fst q")
      (simp_all add: triple_seq [OF wait Suc], simp_all add: triple_def ret_def throw_def)
  moreover have "triple (\<lambda>w :: 'z lg_world_scheme. P (lsum w)) (add_probe 0 q) (\<lambda>_ w. P (lsum w)) (\<lambda>_ w. P (lsum w))" for q
    unfolding add_probe_def by (rule triple_pre [OF triple_upd_sum]) (simp add: P)
  ultimately show ?case unfolding baseline_loop.simps
    by (intro triple_bind [OF triple_lsum [OF sm.ev_lg_connects(2)]] triple_seq)
qed

text \<open>The exit status against the summary.\<close>

definition exit_ok :: "lg_args \<Rightarrow> int \<Rightarrow> LgSummary \<Rightarrow> bool" where
  "exit_ok a rc u \<longleftrightarrow>
     (rc = 0 \<and> ls_liveness_ok u \<and> (g_setup_only a \<or> ls_rejection_detected u)) \<or>
     (rc = 2 \<and> \<not> g_setup_only a \<and> \<not> ls_rejection_detected u \<and>
        g_max_sent_mib a * 1024 * 1024 \<le> ls_payload_bytes_sent u) \<or>
     (rc = 3 \<and> \<not> ls_liveness_ok u \<and> (g_setup_only a \<or> ls_rejection_detected u))"

lemma triple_check_liveness:
  "triple (\<lambda>w. load_ok a fl (lsum w) \<and> (g_setup_only a \<or> ls_rejection_detected (lsum w)))
     (check_liveness a cs) (\<lambda>rc w. load_ok a fl (lsum w) \<and> exit_ok a rc (lsum w)) (\<lambda>_ w. load_ok a fl (lsum w))"
  unfolding check_liveness_def
  by (rule triple_bind [OF triple_exc [OF triple_lsum [where P = "\<lambda>u. load_ok a fl u \<and>
          (g_setup_only a \<or> ls_rejection_detected u)", OF sm.ev_lg_sessions(4)]]],
      simp, rule triple_seq [OF triple_pre [OF triple_upd_sum] triple_ret])
    (auto simp: exit_ok_def)

lemma triple_load_body:
  assumes "0 < g_clients a" "0 < g_rejection_confirmations a" and fl: "fl = int (length frame)"
  shows "triple (\<lambda>w. load_running a fl 0 (lsum w)) (load_body H fuel sched a frame)
    (\<lambda>rc w. load_ok a fl (lsum w) \<and> exit_ok a rc (lsum w)) (\<lambda>_ w. load_ok a fl (lsum w))"
proof -
  let ?I = "\<lambda>w. load_running a fl 0 (lsum w)" and ?E = "\<lambda>(_ :: exn) w. load_ok a fl (lsum w)"
  let ?Q = "\<lambda>rc w. load_ok a fl (lsum w) \<and> exit_ok a rc (lsum w)"
  have est: "triple ?I (establish_authenticated_clients H a)
      (\<lambda>cs w. int (length cs) = g_clients a \<and> ?I w) ?E"
    unfolding establish_authenticated_clients_def
    by (rule triple_conseq [OF triple_establish_loop [where P = "load_running a fl 0"]])
      (use assms(1) in \<open>auto intro: load_running_ok\<close>)
  have base: "triple ?I (baseline_probe_with_retries a) (\<lambda>_. ?I) ?E"
    unfolding baseline_probe_with_retries_def
    by (rule triple_exc [OF triple_baseline_loop [where P = "load_running a fl 0"]])
      (auto intro: load_running_ok simp: load_running_def totals_ok_def load_statuses_def)
  have sl: "triple ?I (sleep d) (\<lambda>_. ?I) ?E" for d
    by (rule triple_exc [OF triple_lsum [OF sm.prims(8)]]) (rule load_running_ok)
  have late: "triple (\<lambda>w. load_ok a fl (lsum w) \<and>
       (ls_rejection_detected (lsum w) \<or> g_max_sent_mib a * 1024 * 1024 \<le> ls_payload_bytes_sent (lsum w)))
      (bindE (gets (\<lambda>w. ls_rejection_detected (lsum w))) (\<lambda>detected.
         if \<not> detected then ret 2
         else seqE (sleep (g_post_rejection_hold a)) (check_liveness a cs))) ?Q ?E"
    if "\<not> g_setup_only a" for cs
  proof (rule triple_bind [where R = "\<lambda>d w. load_ok a fl (lsum w) \<and> d = ls_rejection_detected (lsum w) \<and>
       (d \<or> g_max_sent_mib a * 1024 * 1024 \<le> ls_payload_bytes_sent (lsum w))"])
    show "triple (\<lambda>w. load_ok a fl (lsum w) \<and> d = ls_rejection_detected (lsum w) \<and>
         (d \<or> g_max_sent_mib a * 1024 * 1024 \<le> ls_payload_bytes_sent (lsum w)))
        (if \<not> d then ret 2 else seqE (sleep (g_post_rejection_hold a)) (check_liveness a cs)) ?Q ?E" for d
    proof (cases d)
      case True
      then show ?thesis
        by (auto intro: triple_pre [OF triple_seq [OF triple_exc [OF triple_lsum [where
                P = "\<lambda>u. load_ok a fl u \<and> (g_setup_only a \<or> ls_rejection_detected u)", OF sm.prims(8)]]
              triple_check_liveness]])
    qed (use that in \<open>auto simp: triple_def ret_def exit_ok_def\<close>)
  qed (auto simp: triple_def gets_def)
  have rest: "triple (\<lambda>w. int (length cs) = g_clients a \<and> ?I w)
      (if g_setup_only a then check_liveness a cs
       else seqE (load_loop fuel a sched cs frame 0)
        (bindE (gets (\<lambda>w. ls_rejection_detected (lsum w))) (\<lambda>detected.
         if \<not> detected then ret 2
         else seqE (sleep (g_post_rejection_hold a)) (check_liveness a cs)))) ?Q ?E" for cs
  proof (cases "int (length cs) = g_clients a")
    case True
    then show ?thesis
      using triple_seq [OF triple_load_loop [OF True fl] late] triple_check_liveness [of a fl cs]
      by (auto intro: triple_pre load_running_ok)
  qed (simp add: triple_def)
  have set: "triple (\<lambda>w. int (length cs) = g_clients a \<and> ?I w) (modify (\<lambda>w. w\<lparr>lg_clients := cs\<rparr>))
      (\<lambda>_ w. int (length cs) = g_clients a \<and> ?I w) ?E" for cs
    by (simp add: triple_def modify_def)
  have keep: "triple (\<lambda>w. b \<and> ?I w) m (\<lambda>_ w. b \<and> ?I w) ?E" if "triple ?I m (\<lambda>_. ?I) ?E"
    for m :: "('a lg_world_scheme, unit) io" and b
    using that by (cases b) (simp_all add: triple_def)
  show ?thesis
    unfolding load_body_def
    by (intro triple_bind [OF est] triple_seq [OF set] triple_seq [OF keep [OF sl]]
        triple_seq [OF keep [OF base]] rest)
qed

lemma lg_parse_args_InrD:
  "lg_parse_args raw = Inr a \<Longrightarrow> a = raw \<and> 0 < g_clients a \<and> 1 \<le> g_payload_size a \<and>
     g_payload_size a \<le> int MAX_PAYLOAD_SIZE \<and> 0 < g_max_sent_mib a \<and> 0 < g_rejection_confirmations a \<and>
     0 < g_connect_retries a"
  by (auto simp: lg_parse_args_def split: if_splits)

lemma fresh_summary_running:
  "0 < g_rejection_confirmations a \<Longrightarrow> load_running a fl 0 (fresh_summary a sink)"
  by (simp add: load_running_def totals_ok_def load_statuses_def trailing_def fresh_summary_def)

text \<open>The \<^verbatim>\<open>finally\<close> block changes the duration only.\<close>

lemma triple_load_finally:
  assumes P: "\<And>u d. P (u\<lparr>ls_duration_seconds := d\<rparr>) = P u"
  shows "triple (\<lambda>w :: 'z lg_world_scheme. P (lsum w)) (load_finally started path)
    (\<lambda>_ w. P (lsum w)) (\<lambda>_ w. P (lsum w))"
proof -
  let ?P = "\<lambda>w :: 'z lg_world_scheme. P (lsum w)"
  have dur: "triple ?P (upd_sum (\<lambda>u. u\<lparr>ls_duration_seconds := d\<rparr>)) (\<lambda>_. ?P) (\<lambda>_. ?P)" for d
    by (rule triple_pre [OF triple_upd_sum]) (simp add: P)
  have wr: "triple ?P (lg_write_summary path sm) (\<lambda>_. ?P) (\<lambda>_. ?P)" for sm
    by (auto simp: triple_def lg_write_summary_def split: option.splits)
  have get: "triple ?P (gets f) (\<lambda>_. ?P) (\<lambda>_. ?P)" for f :: "'z lg_world_scheme \<Rightarrow> 'b"
    by (simp add: triple_def gets_def)
  have close: "triple ?P (for_each cs lg_close_client) (\<lambda>_. ?P) (\<lambda>_. ?P)" for cs
    by (rule triple_lsum) (intro sm.ev_for_each sm.ev_lg_sessions)
  show ?thesis
    unfolding load_finally_def
    by (rule triple_bind [OF triple_lsum [OF sm.prims(7)]], rule triple_seq [OF dur],
        rule triple_bind [OF get], rule triple_seq [OF close], rule triple_bind [OF get], rule wr)
qed

lemma triple_load_run:
  assumes c: "0 < g_clients a" "0 < g_rejection_confirmations a" and fl: "fl = int (length frame)"
  shows "triple (\<lambda>w :: 'z lg_world_scheme. load_running a fl 0 (lsum w))
    (bindE monotonic (\<lambda>started. try_finally (try_except (load_body H fuel sched a frame) load_handlers)
        (load_finally started path)))
    (\<lambda>rc w. load_ok a fl (lsum w) \<and> (exit_ok a rc (lsum w) \<or> rc = 1 \<or> rc = 130)) (\<lambda>_ _. True)"
proof -
  let ?P = "\<lambda>rc u. load_ok a fl u \<and> (exit_ok a rc u \<or> rc = 1 \<or> rc = 130)"
  have body: "triple (\<lambda>w :: 'z lg_world_scheme. load_running a fl 0 (lsum w))
      (try_except (load_body H fuel sched a frame) load_handlers)
      (\<lambda>rc w. ?P rc (lsum w)) (\<lambda>_ _. True)"
    by (rule triple_try_except [where F = "\<lambda>_ w. load_ok a fl (lsum w)",
          OF triple_conseq [OF triple_load_body [OF c fl]]])
      (auto simp: load_handlers_def triple_def ret_def split: if_splits)
  have fin: "triple (\<lambda>w :: 'z lg_world_scheme. ?P rc (lsum w)) (load_finally started path)
      (\<lambda>_ w. ?P rc (lsum w)) (\<lambda>_ _. True)" for rc started
    by (rule triple_exc [OF triple_load_finally]) (auto simp: exit_ok_def)
  show ?thesis
    by (rule triple_bind [OF triple_exc [OF triple_lsum [OF sm.prims(7)]]], simp,
        rule triple_try_finally [OF body fin])
      (auto simp: triple_def split: result.splits prod.splits)
qed

lemma load_main_Ok:
  assumes "load_main H fuel sched raw w = (Ok rc, w')"
  shows "load_ok raw (int FRAME_HEADER_SIZE + g_payload_size raw) (lsum w') \<and>
    0 < g_rejection_confirmations raw \<and> (exit_ok raw rc (lsum w') \<or> rc = 1 \<or> rc = 130)"
proof -
  obtain a where "lg_parse_args raw = Inr a"
    using assms by (cases "lg_parse_args raw") (auto simp: load_main_def lift_exn_def rethrow_def bindE_def)
  then have raw: "lg_parse_args raw = Inr raw" and c: "0 < g_clients raw" "0 < g_rejection_confirmations raw"
    and pl: "1 \<le> g_payload_size raw" "g_payload_size raw \<le> int MAX_PAYLOAD_SIZE"
    using lg_parse_args_InrD by blast+
  let ?sink = "map (entropy w (n_entropy w)) [0..<MAILBOX_SIZE]"
  obtain frame where f: "build_frame ACTION_PUSH ?sink (replicate (nat (g_payload_size raw)) 0xA5) = Inr frame"
    using build_frame_Inr [of ?sink "replicate (nat (g_payload_size raw)) 0xA5"] pl by simp
  have fl: "int FRAME_HEADER_SIZE + g_payload_size raw = int (length frame)"
    using build_frame_InrD(4) [OF f] pl(1) by simp
  let ?w = "w\<lparr>n_entropy := Suc (n_entropy w), lsum := fresh_summary raw ?sink, lg_clients := []\<rparr>"
  have "load_main H fuel sched raw w = bindE monotonic (\<lambda>started. try_finally
      (try_except (load_body H fuel sched raw frame) load_handlers) (load_finally started (g_summary_json raw))) ?w"
    unfolding load_main_def raw lift_exn_def sum.case bindE_ret
    by (simp add: bindE_def [of "urandom MAILBOX_SIZE"] urandom_def f seqE_def bindE_def [of "modify x" for x] modify_def)
  then show ?thesis
    using triple_OkD [OF triple_load_run [OF c fl], of ?w H fuel sched "g_summary_json raw" rc w']
      fresh_summary_running [OF c(2)] assms c(2) by simp
qed

section \<open>The run ends\<close>

lemma timed_more [simp]:
  "timed (w\<lparr>lsum := u\<rparr>) = timed w" "timed (w\<lparr>lg_clients := cs\<rparr>) = timed w"
  "timed (w\<lparr>lg_written := x\<rparr>) = timed w"
  for w :: "'z lg_world_scheme"
  by (simp_all add: timed_def)

lemma returns_capture: "returns I I m \<Longrightarrow> returns I I (capture m)"
  unfolding returns_def capture_def
  by (intro allI impI, erule_tac x = w in allE) (auto split: prod.splits result.splits)

lemma returns_verify_existing_session: "returns timed timed (verify_existing_session s t :: ('z net_scheme, bool) io)"
proof -
  let ?body = "\<lambda>mailbox. try_except
      (seqE (sock_settimeout s (Some t))
      (seqE (send_control s ACTION_POLL mailbox [])
      (bindE (lg_recv_frame s) (\<lambda>(a, m, p).
       bindE (lift_exn (pad_control_payload [])) (\<lambda>padding.
         ret (a = ACTION_POLL \<and> m = mailbox \<and> p = padding))))))
      (catches [OSError, ConnectionError, LoadProtocolError] (\<lambda>_. ret False))"
  have body: "returns timed timed (?body mailbox :: ('z net_scheme, bool) io)" for mailbox
    by (auto intro!: returns_rules returns_try_except returns_prims returns_frames elim!: returns_catches)
  have quiet: "evolves quiet (?body mailbox :: ('z net_scheme, bool) io)" for mailbox
    by (auto intro!: qt.ev_try_except qt.ev_bind qt.ev_seq qt.ev_pure qt.ev_lift_exn qt.ev_frames qt.prims
        elim: qt.ev_catches [rotated])
  have "fst (try_finally (?body mailbox) (sock_settimeout s (sk_timeout (sock_at w s))) w) \<noteq> Diverge \<and>
      timed (snd (try_finally (?body mailbox) (sock_settimeout s (sk_timeout (sock_at w s))) w))"
    if t: "timed w" for mailbox and w :: "'z net_scheme"
  proof (cases "s < length (socks w)")
    case True
    then obtain d where "sk_timeout (sock_at w s) = Some d"
      using t nth_mem [OF True] by (fastforce simp: timed_def)
    then show ?thesis
      using returnsD [OF returns_try_finally [OF body returns_prims(3)] t] by simp
  next
    case False
    have "returns (\<lambda>v. timed v \<and> length (socks v) \<le> s) timed (sock_settimeout s x :: ('z net_scheme, unit) io)" for x
      by (auto simp: returns_def sock_settimeout_def live_def throw_def bad_fd_def split: option.splits)
    from returnsD [OF returns_try_finally_via [OF returns_quiet [OF body quiet] this]]
    show ?thesis using t False by simp
  qed
  then show ?thesis
    unfolding verify_existing_session_def
    by (intro returns_bind [OF returns_prims(9)])
      (simp add: returns_def sock_gettimeout_def bindE_def gets_def)
qed

lemma returns_lg_sessions:
  "returns timed timed (lg_authenticate H s)" "returns timed timed (probe_session s)"
  "returns timed timed (lg_close_client s)" "returns timed timed (send_parallel_round order f)"
proof -
  show "returns timed timed (lg_authenticate H s)"
    unfolding lg_authenticate_def by (auto intro!: returns_rules returns_prims returns_frames)
  show "returns timed timed (probe_session s)"
    unfolding probe_session_def probe_handlers_def
    by (auto intro!: returns_rules returns_try_except returns_prims returns_frames split: if_splits)
  show "returns timed timed (lg_close_client s)"
    unfolding lg_close_client_def
    by (auto intro!: returns_rules returns_try_except returns_prims elim!: returns_catches)
  show "returns timed timed (send_parallel_round order f)"
    unfolding send_parallel_round_def
    by (auto intro!: returns_rules returns_capture returns_prims split: option.splits)
qed

lemma returns_lg_connects:
  "returns timed timed (create_authenticated_client H a)" "returns timed timed (probe_connection a)"
  unfolding create_authenticated_client_def probe_connection_def
  by (auto intro!: returns_rules returns_try_except returns_connect returns_lg_sessions returns_prims
      elim!: returns_catches split: sum.splits)

lemma returns_client_attempts: "returns timed timed (client_attempts H a k m)"
  by (induction k arbitrary: m)
    (auto intro!: returns_rules returns_try_except returns_lg_connects returns_prims
      elim!: returns_catches split: sum.splits)

lemma returns_upd_sum: "returns timed timed (upd_sum f)"
  unfolding upd_sum_def by (rule returns_modify) simp

lemma returns_establish: "returns timed timed (establish_authenticated_clients H a)"
proof -
  have "returns timed timed (establish_loop H a m cs)" for m cs
    by (induction m arbitrary: cs)
      (auto intro!: returns_rules returns_client_attempts returns_upd_sum returns_lg_sessions split: sum.splits)
  then show ?thesis by (simp add: establish_authenticated_clients_def)
qed

lemma returns_baseline: "returns timed timed (baseline_probe_with_retries a)"
proof -
  have "returns timed timed (baseline_loop a k p)" for k p
    by (induction k arbitrary: p)
      (auto intro!: returns_rules returns_lg_connects returns_upd_sum returns_prims
        simp: add_probe_def split: ProbeStatus.splits)
  then show ?thesis by (simp add: baseline_probe_with_retries_def)
qed

lemma returns_push_round: "returns timed timed (push_round a sched clients frame r)"
  unfolding push_round_def add_probe_def
  by (intro returns_rules returns_lg_sessions returns_lg_connects returns_upd_sum returns_prims)

lemma returns_check_liveness: "returns timed timed (check_liveness a cs)"
  unfolding check_liveness_def
  by (intro returns_rules returns_verify_existing_session returns_upd_sum)

lemma returns_load_finally: "returns timed timed (load_finally started path)"
proof -
  have "returns timed timed (lg_write_summary path sm)" for sm
    by (auto simp: returns_def lg_write_summary_def split: option.splits)
  then show ?thesis
    unfolding load_finally_def
    by (intro returns_rules returns_prims returns_upd_sum returns_lg_sessions)
qed

text \<open>A round counts at least one payload byte.\<close>

lemma triple_push_round_bytes:
  "triple (\<lambda>w. ls_payload_bytes_sent (lsum w) = b) (push_round a sched clients frame r)
     (\<lambda>_ w. ls_payload_bytes_sent (lsum w) = b + int (length clients) * g_payload_size a) (\<lambda>_ _. True)"
proof -
  have net: "triple (\<lambda>w. ls_payload_bytes_sent (lsum w) = x) m (\<lambda>_ w. ls_payload_bytes_sent (lsum w) = x) (\<lambda>_ _. True)"
    if "evolves same_more m" for m :: "('z lg_world_scheme, 'b) io" and x
    by (rule triple_exc [OF triple_lsum [OF that]]) simp
  have add: "triple (\<lambda>w. ls_payload_bytes_sent (lsum w) = x) (seqE (add_probe r p) (ret (fst p)))
      (\<lambda>_ w. ls_payload_bytes_sent (lsum w) = x) (\<lambda>_ _. True)" for x p
    unfolding add_probe_def
    by (rule triple_seq [OF triple_pre [OF triple_upd_sum] triple_ret]) simp
  have count: "triple (\<lambda>w. ls_payload_bytes_sent (lsum w) = b)
      (upd_sum (count_round a (length clients) (length frame)))
      (\<lambda>_ w. ls_payload_bytes_sent (lsum w) = b + int (length clients) * g_payload_size a) (\<lambda>_ _. True)"
    by (rule triple_pre [OF triple_upd_sum]) (simp add: count_round_def)
  show ?thesis
    unfolding push_round_def
    by (intro triple_seq [OF net] triple_seq [OF count] triple_bind [OF net] add
        sm.ev_lg_sessions sm.ev_lg_connects sm.prims)
qed

text \<open>The fuel exceeds the bytes still to be sent, so it is never used up.\<close>

lemma returns_load_loop:
  assumes "clients \<noteq> []" and "1 \<le> g_payload_size a"
  shows "returns (\<lambda>w. timed w \<and> g_max_sent_mib a * 1024 * 1024 \<le> ls_payload_bytes_sent (lsum w) + int fuel)
    timed (load_loop (Suc fuel) a sched clients frame c)"
    (is "returns (?P fuel) _ _")
proof (induction fuel arbitrary: c)
  case 0
  then show ?case by (auto simp: returns_def bindE_def gets_def ret_def)
next
  case (Suc fuel)
  have step: "1 \<le> int (length clients) * g_payload_size a"
    using assms mult_mono [of 1 "int (length clients)" 1 "g_payload_size a"] by (cases clients) auto
  have "returns (\<lambda>w. ?P (Suc fuel) w \<and> lsum w = u) timed
      (bindE (push_round a sched clients frame (ls_rounds_completed u + 1)) (\<lambda>status.
         let c' = next_consecutive c status in
         if g_rejection_confirmations a \<le> c' then upd_sum (\<lambda>u. u\<lparr>ls_rejection_detected := True\<rparr>)
         else load_loop (Suc fuel) a sched clients frame c'))"
    (is "returns _ _ (bindE _ ?f)")
    if "g_max_sent_mib a * 1024 * 1024 \<le> ls_payload_bytes_sent u + int (Suc fuel)" for u
  proof (rule returns_bind_triple [OF returns_pre [OF returns_push_round]
        triple_pre [OF triple_push_round_bytes [of "ls_payload_bytes_sent u"]]])
    show "returns (\<lambda>w. timed w \<and> ls_payload_bytes_sent (lsum w) =
        ls_payload_bytes_sent u + int (length clients) * g_payload_size a) timed (?f st)" for st
      using that step Suc [of "next_consecutive c st"] returns_upd_sum
      unfolding Let_def by (auto intro: returns_pre simp del: load_loop.simps)
  qed auto
  then show ?case
    by (subst load_loop.simps) (auto simp: returns_def bindE_def [of "gets lsum"] gets_def ret_def simp del: load_loop.simps)
qed

lemma returns_load_body:
  assumes c: "0 < g_clients a" "1 \<le> g_payload_size a" and fuel: "nat (g_max_sent_mib a * 1024 * 1024) < fuel"
  shows "returns (\<lambda>w. timed w \<and> 0 \<le> ls_payload_bytes_sent (lsum w)) timed (load_body H fuel sched a frame)"
proof -
  let ?B = "\<lambda>w. 0 \<le> ls_payload_bytes_sent (lsum w)"
  obtain f where f: "fuel = Suc f" "g_max_sent_mib a * 1024 * 1024 \<le> int f"
    using fuel by (cases fuel) auto
  have est: "triple (\<lambda>w. timed w \<and> ?B w) (establish_authenticated_clients H a)
      (\<lambda>cs w. length cs = nat (g_clients a) \<and> ?B w) (\<lambda>_ _. True)"
    unfolding establish_authenticated_clients_def
    by (rule triple_conseq [OF triple_establish_loop [where P = "\<lambda>u. 0 \<le> ls_payload_bytes_sent u"]]) auto
  have base: "triple ?B (baseline_probe_with_retries a) (\<lambda>_. ?B) (\<lambda>_ _. True)"
    unfolding baseline_probe_with_retries_def
    by (rule triple_exc [OF triple_baseline_loop [where P = "\<lambda>u. 0 \<le> ls_payload_bytes_sent u"]]) auto
  have sl: "triple ?B (sleep d) (\<lambda>_. ?B) (\<lambda>_ _. True)" for d
    by (rule triple_exc [OF triple_lsum [OF sm.prims(8)]]) simp
  have set: "triple ?B (modify (\<lambda>w. w\<lparr>lg_clients := cs\<rparr>)) (\<lambda>_. ?B) (\<lambda>_ _. True)" for cs
    by (simp add: triple_def modify_def)
  have step: "returns (\<lambda>w. timed w \<and> ?B w) timed (seqE m n)"
    if "returns timed timed m" "triple ?B m (\<lambda>_. ?B) (\<lambda>_ _. True)" "returns (\<lambda>w. timed w \<and> ?B w) timed n"
    for m :: "('z lg_world_scheme, unit) io" and n :: "('z lg_world_scheme, int) io"
    unfolding seqE_def
    by (rule returns_bind_triple [OF returns_pre [OF that(1)] triple_pre [OF that(2)] that(3)]) auto
  have late: "returns timed timed (bindE (gets (\<lambda>w. ls_rejection_detected (lsum w))) (\<lambda>detected.
         if \<not> detected then ret 2 else seqE (sleep (g_post_rejection_hold a)) (check_liveness a cs)))" for cs
    by (auto intro!: returns_rules returns_check_liveness returns_prims)
  have loop: "returns (\<lambda>w. timed w \<and> ?B w) timed (load_loop fuel a sched cs frame 0)"
    if "length cs = nat (g_clients a)" for cs
    unfolding f(1)
    by (rule returns_pre [OF returns_load_loop [OF _ c(2)]]) (use that c(1) f(2) in auto)
  have rest: "returns (\<lambda>w. timed w \<and> ?B w) timed
      (if g_setup_only a then check_liveness a cs
       else seqE (load_loop fuel a sched cs frame 0)
        (bindE (gets (\<lambda>w. ls_rejection_detected (lsum w))) (\<lambda>detected.
         if \<not> detected then ret 2
         else seqE (sleep (g_post_rejection_hold a)) (check_liveness a cs))))"
    if "length cs = nat (g_clients a)" for cs
    using returns_seq [OF loop [OF that] late [of cs]] by (auto intro: returns_pre [OF returns_check_liveness])
  show ?thesis
    unfolding load_body_def
  proof (rule returns_bind_triple [OF returns_pre [OF returns_establish] est], simp)
    fix cs
    show "returns (\<lambda>w. timed w \<and> length cs = nat (g_clients a) \<and> ?B w) timed
        (seqE (modify (\<lambda>w. w\<lparr>lg_clients := cs\<rparr>)) (seqE (sleep 1) (seqE (baseline_probe_with_retries a)
         (if g_setup_only a then check_liveness a cs
          else seqE (load_loop fuel a sched cs frame 0)
           (bindE (gets (\<lambda>w. ls_rejection_detected (lsum w))) (\<lambda>detected.
            if \<not> detected then ret 2
            else seqE (sleep (g_post_rejection_hold a)) (check_liveness a cs)))))))"
    proof (cases "length cs = nat (g_clients a)")
      case True
      show ?thesis
        by (rule returns_pre [OF step [OF returns_modify set step [OF returns_prims(8) sl
                step [OF returns_baseline base rest [OF True]]]]]) auto
    qed (simp add: returns_def)
  qed
qed

lemma load_main_returns:
  fixes w :: "'z lg_world_scheme"
  assumes "timed w" and "nat (g_max_sent_mib raw * 1024 * 1024) < fuel"
  shows "fst (load_main H fuel sched raw w) \<noteq> Diverge"
proof (cases "lg_parse_args raw")
  case (Inl e)
  then show ?thesis by (simp add: load_main_def lift_exn_def rethrow_def bindE_def)
next
  case (Inr a)
  then have a: "a = raw" and c: "0 < g_clients raw" "1 \<le> g_payload_size raw"
    using lg_parse_args_InrD by blast+
  have run: "returns (\<lambda>w. timed w \<and> 0 \<le> ls_payload_bytes_sent (lsum w)) timed
      (bindE monotonic (\<lambda>started. try_finally (try_except (load_body H fuel sched raw frame) load_handlers)
        (load_finally started path)))" for frame path
  proof (rule returns_bind_triple [OF returns_pre [OF returns_prims(7)]
        triple_pre [OF triple_lsum [OF sm.prims(7), of "\<lambda>u. 0 \<le> ls_payload_bytes_sent u"]]])
    show "returns (\<lambda>w. timed w \<and> 0 \<le> ls_payload_bytes_sent (lsum w)) timed
        (try_finally (try_except (load_body H fuel sched raw frame) load_handlers) (load_finally x path))" for x
      by (intro returns_try_finally returns_try_except returns_load_body [OF c assms(2)] returns_load_finally)
        (auto simp: load_handlers_def intro: returns_pure split: if_splits)
  qed auto
  have start: "returns timed timed (seqE (modify (\<lambda>w. w\<lparr>lsum := fresh_summary raw sink, lg_clients := []\<rparr>))
      (bindE monotonic (\<lambda>started. try_finally (try_except (load_body H fuel sched raw frame) load_handlers)
        (load_finally started path))))" for sink frame path
    unfolding seqE_def
    by (rule returns_bind_triple [where E = "\<lambda>_ _. True", OF returns_modify _ run])
      (simp_all add: triple_def modify_def fresh_summary_def)
  have "lift_exn (lg_parse_args raw) = (ret raw :: ('z lg_world_scheme, lg_args) io)" by (simp add: Inr a lift_exn_def)
  then have "returns timed timed (load_main H fuel sched raw :: ('z lg_world_scheme, int) io)"
    unfolding load_main_def by (simp only: bindE_ret) (intro returns_bind returns_prims returns_lift_exn start)
  then show ?thesis using assms(1) by (simp add: returns_def)
qed

section \<open>Properties\<close>

text \<open>Whatever ends the load generator, its totals are those of whole rounds: messages are rounds
  times clients, payload bytes are messages times the payload size and wire bytes are messages
  times the frame size, header included.\<close>

lemma load_main_totals:
  assumes "load_main H fuel sched raw w = (Ok rc, w')"
  shows "totals_ok raw (int FRAME_HEADER_SIZE + g_payload_size raw) (lsum w')"
  using load_main_Ok [OF assms] by (simp add: load_ok_def)

text \<open>C32: the load generator ends (it cannot loop for ever: the fuel that bounds its rounds in the
  model is never used up once it exceeds the byte limit, since every round sends at least one byte,
  and no read blocks for ever when the sockets have timeouts), and a run that reaches its end has
  reported a quota rejection exactly when the probes of its load phase, leaving out the
  indeterminate ones, end in the configured number of rejections.\<close>

theorem load_main_rejection:
  assumes "timed w" and "nat (g_max_sent_mib raw * 1024 * 1024) < fuel"
  shows "fst (load_main H fuel sched raw w) \<noteq> Diverge \<and>
    (\<forall>rc w'. load_main H fuel sched raw w = (Ok rc, w') \<longrightarrow>
      (ls_rejection_detected (lsum w') \<longleftrightarrow>
       (\<exists>pre. filter (\<lambda>st. st \<noteq> Indeterminate) (load_statuses (lsum w')) =
          pre @ replicate (nat (g_rejection_confirmations raw)) Rejected)))"
proof (intro conjI allI impI)
  show "fst (load_main H fuel sched raw w) \<noteq> Diverge" by (rule load_main_returns [OF assms])
  show "ls_rejection_detected (lsum w') \<longleftrightarrow>
      (\<exists>pre. filter (\<lambda>st. st \<noteq> Indeterminate) (load_statuses (lsum w')) =
         pre @ replicate (nat (g_rejection_confirmations raw)) Rejected)"
    if "load_main H fuel sched raw w = (Ok rc, w')" for rc w'
    using load_main_Ok [OF that]
      trailing_iff [of "nat (g_rejection_confirmations raw)" "load_statuses (lsum w')"]
    by (simp add: load_ok_def)
qed

text \<open>The exit status tells the outcome: 0 means the session answered after a confirmed rejection
  (or in a setup-only run), 2 that the safety limit was reached without one, 3 that the session did
  not answer; any other status is 1 (an error) or 130 (an interrupt).\<close>

lemma load_main_exit_status:
  assumes "load_main H fuel sched raw w = (Ok rc, w')"
  shows "exit_ok raw rc (lsum w') \<or> rc = 1 \<or> rc = 130"
  using load_main_Ok [OF assms] by blast

definition lg_demo_args :: lg_args where
  "lg_demo_args = \<lparr>g_onion = ''x.onion'', g_socks_host = ''127.0.0.1'', g_socks_port = 9050,
     g_target_port = 80, g_clients = 1, g_payload_size = 1, g_max_sent_mib = 1, g_monitor_delay = 0,
     g_rejection_confirmations = 1, g_post_rejection_hold = 0, g_timeout = 30, g_probe_timeout = 10,
     g_send_timeout = 300, g_connect_retries = 1, g_retry_delay = 1, g_summary_json = None,
     g_setup_only = False\<rparr>"

definition lg_demo_world :: "(exn + sock) list \<Rightarrow> lg_world" where
  "lg_demo_world ds = \<lparr>dials = ds, dialled = [], socks = [], entropy = (\<lambda>_ _. 7), n_entropy = 0,
     clock = real, n_clock = 0, slept = [], lsum = fresh_summary lg_demo_args [], lg_clients = [],
     lg_written = [], lg_write_fault = (\<lambda>_. None)\<rparr>"

text \<open>A run that meets the quota in the first round: one client, a baseline probe that is accepted,
  a probe that is closed before the challenge, and a session that still answers.\<close>

definition lg_frame_events :: "byte \<Rightarrow> byte \<Rightarrow> rx_event list" where
  "lg_frame_events action mb =
     [Data action (replicate 16 mb @ [0xDD, 1, 0, 0]), Data 0 (replicate 476 0)]"

definition lg_socks_events :: "rx_event list" where
  "lg_socks_events = [Data 5 [0], Data 5 [0, 0, 1], Data 0 [0, 0, 0], Data 0 [0]]"

definition lg_peer :: "rx_event list \<Rightarrow> sock" where
  "lg_peer rx = \<lparr>sk_rx = rx, sk_tx = [], sk_sent = [], sk_timeout = None, sk_shut = None, sk_closed = False\<rparr>"

definition lg_demo_quota :: lg_world where
  "lg_demo_quota = lg_demo_world
     [Inr (lg_peer (lg_socks_events @ lg_frame_events 4 0 @ lg_frame_events 2 7 @ lg_frame_events 2 7)),
      Inr (lg_peer (lg_socks_events @ lg_frame_events 4 0)),
      Inr (lg_peer (lg_socks_events @ [Fin]))]"

definition zero_hash :: "bytes \<Rightarrow> bytes" where
  "zero_hash x = replicate 16 0"

lemma zero_hash_pow: "length c = 32 \<Longrightarrow> lg_solve_pow zero_hash c = Inr (pack_le 8 0)"
  by (subst lg_solve_pow_def, subst nonce_loop.simps)
    (simp add: meets_target_def zero_hash_def found_or_def wire_simps)

lemma lg_demo_host: "encode_ascii ''x.onion'' = Inr (map of_char ''x.onion'')"
  by (simp add: encode_ascii_def)

lemmas lg_eval =
  bindE_def seqE_def attempt_cases lift_exn_def lg_socks5_connect_def lg_demo_host socks5_open_def
  create_connection_def Let_def sock_settimeout_def live_def upd_sock_def try_except_def
  socks5_handshake_def sock_sendall_def recv_exact_def recv_loop.simps sock_recv_def set_rx_def
  throw_def catches_def instance_any_def instance_of_def sock_close_def modify_def rethrow_def
  ret_def whenE_def try_finally_def monotonic_def gets_def rest_event_def recv_address_def
  load_dialect_def connect_request_def lg_recv_frame_def recv_frame_core_def wire_simps

lemma lg_zero_payload: "0 # replicate 476 0 = replicate 477 0"
  by (simp add: replicate_Suc [symmetric] del: replicate_Suc)

lemmas lg_run_eval =
  load_main_def lg_parse_args_def load_body_def establish_authenticated_clients_def fresh_summary_def
  upd_sum_def baseline_probe_with_retries_def probe_connection_def probe_session_def add_probe_def
  sleep_def push_round_def send_parallel_round_def capture_def count_round_def next_consecutive_def
  check_liveness_def verify_existing_session_def sock_gettimeout_def load_finally_def
  lg_close_client_def sock_shutdown_def lg_write_summary_def probe_handlers_def closed_early_def
  create_authenticated_client_def lg_demo_world_def lg_peer_def lg_socks_events_def
  lg_frame_events_def lg_demo_args_def lg_eval lg_authenticate_def lg_zero_payload
  map_replicate_const zero_hash_pow send_control_def send_frame_def pad_control_payload_def
  build_frame_def urandom_def

lemma lg_demo_run:
  "\<exists>w'. load_main zero_hash (Suc (Suc fuel)) (\<lambda>_ cs. cs) lg_demo_args lg_demo_quota = (Ok 0, w') \<and>
     ls_rounds_completed (lsum w') = 1"
  by (simp add: lg_demo_quota_def lg_run_eval)

lemma lg_demo_timed: "timed lg_demo_quota"
  by (simp add: timed_def lg_demo_quota_def lg_demo_world_def)

theorem load_main_rejection_witness:
  "\<exists>w' pre. load_main zero_hash (Suc (Suc 1048576)) (\<lambda>_ cs. cs) lg_demo_args lg_demo_quota = (Ok 0, w') \<and>
     ls_rejection_detected (lsum w') \<and>
     filter (\<lambda>st. st \<noteq> Indeterminate) (load_statuses (lsum w')) = pre @ [Rejected]"
proof -
  obtain w' where w': "load_main zero_hash (Suc (Suc 1048576)) (\<lambda>_ cs. cs) lg_demo_args lg_demo_quota = (Ok 0, w')"
    using lg_demo_run by blast
  have "ls_rejection_detected (lsum w')"
    using load_main_Ok [OF w'] by (simp add: exit_ok_def lg_demo_args_def)
  moreover have "nat (g_max_sent_mib lg_demo_args * 1024 * 1024) < Suc (Suc 1048576)"
    by (simp add: lg_demo_args_def)
  ultimately show ?thesis
    using load_main_rejection [OF lg_demo_timed, of lg_demo_args "Suc (Suc 1048576)" zero_hash "\<lambda>_ cs. cs"] w'
    by (auto simp: lg_demo_args_def)
qed

definition lg_demo_leak :: lg_world where
  "lg_demo_leak = lg_demo_world
     [Inr (lg_peer (lg_socks_events @ lg_frame_events 4 0 @ lg_frame_events 2 7)),
      Inr (lg_peer (lg_socks_events @ lg_frame_events 2 0))]"

lemma establish_loop_two: "establish_loop H a 2 cs = establish_loop H a (Suc (Suc 0)) cs"
  by (simp only: numeral_2_eq_2)

text \<open>A protocol error of a later client is not among the exceptions the setup loop handles: it
  leaves \<^verbatim>\<open>establish_authenticated_clients\<close> before \<^verbatim>\<open>main\<close> has the list of clients, so the
  connections already authenticated are still open when the program returns 1.  Here the first of
  two clients authenticates and the second is answered with a POLL frame.\<close>

lemma establish_leaks_on_protocol_error:
  "\<exists>w'. load_main zero_hash (Suc 0) (\<lambda>_ cs. cs) (lg_demo_args\<lparr>g_clients := 2\<rparr>) lg_demo_leak = (Ok 1, w') \<and>
     map sk_closed (socks w') = [False, True]"
  by (simp add: lg_demo_leak_def load_handlers_def establish_loop_two lg_run_eval)

end
