(* ===== verification/NetProps.thy ===== *)
theory NetProps
  imports AuthTest LoadGen
begin

text \<open>
  Properties of the shared network code of the benchmarks: framing as a pair of
  inverse functions over any segmentation of the stream, the size of control
  frames, the search for nonces, and the end of the wait for a rejection.
\<close>

section \<open>Frames\<close>

text \<open>C23: Receiving inverts building.  On an open connection \<^verbatim>\<open>recv_frame\<close> returns an action, a
  mailbox and a payload, and leaves the bytes \<^verbatim>\<open>rest\<close> unread, exactly when the arriving bytes are
  the frame \<^verbatim>\<open>build_frame\<close> makes of them followed by \<^verbatim>\<open>rest\<close>, however the network cut them.\<close>

theorem recv_frame_inverts_build:
  fixes w :: "'z net_scheme"
  assumes "live s w"
  shows "(\<exists>w'. recv_frame s w = (Ok (action, mailbox, payload), w') \<and> avail (sk_rx (sock_at w' s)) = rest) \<longleftrightarrow>
    (\<exists>f. build_frame action mailbox payload = Inr f \<and> avail (sk_rx (sock_at w s)) = f @ rest)"
  unfolding recv_frame_def
  using sk.recv_frame_built [OF assms] sk.recv_frame_sound [OF assms] by blast

theorem recv_frame_inverts_build_witness:
  "\<exists>w'. recv_frame 0 ((demo_world [])\<lparr>socks := [demo_peer (map (\<lambda>b. Data b []) (demo_frame 2 7 [9] @ [1, 2]))]\<rparr>) =
     (Ok (2, replicate 16 7, 9 # replicate 476 0), w') \<and> avail (sk_rx (sock_at w' 0)) = [1, 2]"
proof -
  let ?w = "(demo_world [])\<lparr>socks := [demo_peer (map (\<lambda>b. Data b []) (demo_frame 2 7 [9] @ [1, 2]))]\<rparr>"
  have av: "avail (map (\<lambda>b. Data b []) bs) = bs" for bs :: bytes
    by (induction bs) simp_all
  have "live 0 ?w" by (simp add: live_def demo_peer_def)
  moreover have "build_frame 2 (replicate 16 7) (9 # replicate 476 0) = Inr (demo_frame 2 7 [9])"
    using demo_frame_built [of "[9]" 2 7] by simp
  moreover have "avail (sk_rx (sock_at ?w 0)) = demo_frame 2 7 [9] @ [1, 2]"
    using av [of "demo_frame 2 7 [9] @ [1, 2]"] by (simp add: demo_peer_def)
  ultimately show ?thesis
    using recv_frame_inverts_build [of 0 ?w 2 "replicate 16 7" "9 # replicate 476 0" "[1, 2]"] by blast
qed

text \<open>The loop of \<^verbatim>\<open>recv_exact\<close> implements reading from one contiguous stream: it returns bytes
  exactly when enough of them arrive before the connection ends, and then the first \<^verbatim>\<open>size\<close> ones,
  for every division of the stream into segments.\<close>

lemma recv_exact_reads_prefix:
  fixes w :: "'z net_scheme"
  assumes "live s w"
  shows "(\<exists>w'. recv_exact closed_early (sock_recv s) n w = (Ok bs, w')) \<longleftrightarrow>
    n \<le> length (avail (sk_rx (sock_at w s))) \<and> bs = take n (avail (sk_rx (sock_at w s)))"
  using assms by (rule sk.recv_exact_iff)

text \<open>Every control frame fills exactly one Tor cell of 498 bytes, whatever its body, and a body
  that does not fit into the cell is refused.\<close>

lemma control_frame_one_cell:
  assumes "length mailbox = 16"
  shows "if length body \<le> 477
    then \<exists>p f. pad_control_payload body = Inr p \<and> build_frame action mailbox p = Inr f \<and> length f = 498 \<and>
      prefix (action # mailbox @ pack_le 4 477 @ body) f
    else \<exists>e. pad_control_payload body = Inl e \<and> exn_cls e = ValueError"
proof (cases "length body \<le> 477")
  case True
  let ?p = "body @ replicate (477 - length body) 0"
  have "pad_control_payload body = Inr ?p" using True by (simp add: pad_control_payload_def wire_simps)
  moreover have "build_frame action mailbox ?p = Inr (action # mailbox @ pack_le 4 477 @ ?p)"
    using True assms by (simp add: build_frame_def wire_simps)
  ultimately show ?thesis using True assms by auto
next
  case False
  then show ?thesis by (simp add: pad_control_payload_def wire_simps)
qed

section \<open>Nonces\<close>

text \<open>The two solvers agree: unless nonce 0 happens to meet the target, \<^verbatim>\<open>solve_pow\<close> of the load
  generator, which searches from 0, returns the same nonce as that of the authentication
  test, which searches from 1.\<close>

lemma solvers_agree:
  assumes c: "length challenge = CHALLENGE_SIZE" and zero: "\<not> meets_target H challenge (pack_le 8 0)"
  shows "lg_solve_pow H challenge = Inr b \<longleftrightarrow> solve_pow H challenge = Inr b"
proof -
  let ?P = "\<lambda>n. meets_target H challenge (pack_le 8 n)"
  have "nonce_loop (\<lambda>b. Inr (meets_target H challenge b)) (2 ^ 64) 0 = Inr (Some b) \<longleftrightarrow>
      nonce_loop (pow_is_valid H challenge) (2 ^ 64) 1 = Inr (Some b)"
    unfolding valid_nonce_found [OF c]
      nonce_loop_found [of "\<lambda>b. Inr (meets_target H challenge b)" ?P, OF refl]
    using zero by (metis One_nat_def Suc_leI le_zero_eq not_gr_zero zero_le)
  then show ?thesis using c by (simp add: lg_solve_pow_def solve_pow_def found_or_Inr)
qed

text \<open>The nonce with which the authentication test provokes a rejection is really invalid: it has
  eight bytes and does not meet the target of its challenge.\<close>

lemma invalid_nonce_is_invalid:
  assumes "length challenge = CHALLENGE_SIZE" and "find_invalid_nonce H challenge = Inr b"
  shows "length b = 8 \<and> pow_is_valid H challenge b = Inr False"
  using find_invalid_nonce_invalid [OF assms] assms(1) by (simp add: pow_is_valid_def)

section \<open>The wait for a rejection\<close>

text \<open>C39: \<^verbatim>\<open>wait_for_rejection\<close> ends: on a clock that does not run backwards, once some reading lies past
  the deadline, the loop has returned or raised, whatever the peer does.\<close>

theorem wait_for_rejection_terminates:
  assumes "\<And>i j. i \<le> j \<Longrightarrow> clock w i \<le> clock w j"
    and "clock w (n_clock w) + timeout \<le> clock w (n_clock w + Suc k)" and "k < fuel"
  shows "fst (wait_for_rejection fuel s timeout w) \<noteq> Diverge"
  using assms by (rule wait_for_rejection_ends)

theorem wait_for_rejection_terminates_witness:
  "fst (wait_for_rejection 4 0 2 ((demo_world [])\<lparr>socks := [demo_peer []], clock := real\<rparr>)) \<noteq> Diverge"
  by (rule wait_for_rejection_terminates [where k = 1]) (simp_all add: demo_world_def)

end
