(* ===== verification/Fragments.thy ===== *)
theory Fragments
  imports PyIO PyStr
begin

text \<open>
  The source fragments that the diagnostic patchers of BT-02, BT-04 and BT-05
  look for in \<^verbatim>\<open>repl.cpp\<close> and \<^verbatim>\<open>tcp_client.cpp\<close> and what they put in their place, character
  for character, with the markers that tell an already patched file.
\<close>

definition text_lines :: "string list \<Rightarrow> string" where
  "text_lines ls = concat (map (\<lambda>l. l @ newline) ls)"

abbreviation bs :: string where
  "bs \<equiv> [CHR 0x5C]"

section \<open>Markers\<close>

definition bt02_marker :: string where
  "bt02_marker = ''BT02_EVENT TEXT_CIPHERTEXT''"

definition bt04_marker :: string where
  "bt04_marker = ''BT04_EVENT TX''"

definition BT05_MARKERS :: "string list" where
  "BT05_MARKERS = [''BT05_EVENT QUEUE'', ''BT05_EVENT RX'', ''BT05_EVENT ACK'']"

definition BT06_CLOCK_MARKER :: string where
  "BT06_CLOCK_MARKER = ''BT06_EVENT CLOCK''"

definition BT06_MAP_MARKER :: string where
  "BT06_MAP_MARKER = ''BT06_EVENT MAP''"

definition BT06_TX_MARKER :: string where
  "BT06_TX_MARKER = ''BT06_EVENT TX''"

section \<open>BT-02\<close>

definition bt02_vector_old :: string where
  "bt02_vector_old = text_lines
     [''#include <span>'']"

definition bt02_vector_new :: string where
  "bt02_vector_new = text_lines
     [''#include <span>'',
      ''#include <vector>'']"

definition bt02_fingerprint_old :: string where
  "bt02_fingerprint_old = text_lines
     [''    return payload;'',
      ''}'',
      '''',
      ''} // namespace'']"

definition bt02_fingerprint_new :: string where
  "bt02_fingerprint_new = text_lines
     [''    return payload;'',
      ''}'',
      '''',
      ''template <typename Range>'',
      ''auto Bt02Fingerprint(const Range& data) -> std::string'',
      ''{'',
      ''    std::vector<std::uint8_t> bytes(data.begin(), data.end());'',
      ''    return bc::core::HashPayload(bytes);'',
      ''}'',
      '''',
      ''} // namespace'']"

definition bt02_ciphertext_old :: string where
  "bt02_ciphertext_old = text_lines
     [''    if (!ciphertextOpt) {'',
      ''        std::cout << \"Encryption failed for contact '\" << alias << \"'. Message dropped.'' @ bs @ ''n\";'',
      ''        return;'',
      ''    }'',
      '''',
      ''    auto frame = bc::protocol::Frame::CreatePush(contact->txMailboxId, std::move(*ciphertextOpt));'']"

definition bt02_ciphertext_new :: string where
  "bt02_ciphertext_new = text_lines
     [''    if (!ciphertextOpt) {'',
      ''        std::cout << \"Encryption failed for contact '\" << alias << \"'. Message dropped.'' @ bs @ ''n\";'',
      ''        return;'',
      ''    }'',
      '''',
      ''    BC_INFO(\"BT02_EVENT TEXT_CIPHERTEXT alias={} msg_id={} mailbox={} ciphertext={}\", alias, msgId,'',
      ''            bc::core::EncodeHex(contact->txMailboxId.AsSpan()),'',
      ''            bc::core::EncodeHex(std::span<const std::uint8_t>{ciphertextOpt->data(),'',
      ''                                                              ciphertextOpt->size()}));'',
      '''',
      ''    auto frame = bc::protocol::Frame::CreatePush(contact->txMailboxId, std::move(*ciphertextOpt));'']"

definition bt02_request_old :: string where
  "bt02_request_old = text_lines
     [''    if (crypto_sign_verify_detached('',
      ''            reqDataOpt->signature.data(), reqDataOpt->ephemeralPublicKey.data(),'',
      ''            reqDataOpt->ephemeralPublicKey.size(), contact->publicKey.data()) != 0) {'',
      ''        BC_ERROR(\"Invalid signature on PFS_ROTATE_REQUEST from {}. Potential MITM attack!\", alias);'',
      ''        return;'',
      ''    }'',
      '''',
      ''    const bool initialRotation = !contact->initialPfsComplete;'']"

definition bt02_request_new :: string where
  "bt02_request_new = text_lines
     [''    if (crypto_sign_verify_detached('',
      ''            reqDataOpt->signature.data(), reqDataOpt->ephemeralPublicKey.data(),'',
      ''            reqDataOpt->ephemeralPublicKey.size(), contact->publicKey.data()) != 0) {'',
      ''        BC_ERROR(\"Invalid signature on PFS_ROTATE_REQUEST from {}. Potential MITM attack!\", alias);'',
      ''        return;'',
      ''    }'',
      '''',
      ''    BC_INFO(\"BT02_EVENT PFS_ROTATE_REQUEST_VERIFIED alias={} peer_eph_fp={}\", alias,'',
      ''            Bt02Fingerprint(reqDataOpt->ephemeralPublicKey));'',
      '''',
      ''    const bool initialRotation = !contact->initialPfsComplete;'']"

definition bt02_responder_old :: string where
  "bt02_responder_old = text_lines
     [''    auto myEphemeralOpt = bc::crypto::EphemeralKey::Generate();'',
      ''    if (!myEphemeralOpt) {'',
      ''        return;'',
      ''    }'',
      '''',
      ''    std::array<std::uint8_t, bc::crypto::publicKeySize * 2> ackSignedData{};'']"

definition bt02_responder_new :: string where
  "bt02_responder_new = text_lines
     [''    auto myEphemeralOpt = bc::crypto::EphemeralKey::Generate();'',
      ''    if (!myEphemeralOpt) {'',
      ''        return;'',
      ''    }'',
      '''',
      ''    BC_INFO(\"BT02_EVENT PFS_LOCAL_EPHEMERAL alias={} role=responder fp={}\", alias,'',
      ''            Bt02Fingerprint(myEphemeralOpt->GetPublicKey()));'',
      '''',
      ''    std::array<std::uint8_t, bc::crypto::publicKeySize * 2> ackSignedData{};'']"

definition bt02_retained_old :: string where
  "bt02_retained_old = text_lines
     [''        if (!initialRotation) {'',
      ''            contact->oldRxMailboxId = contact->rxMailboxId;'',
      '''',
      ''            bc::core::SecureBuffer oldKey(bc::crypto::symmetricKeySize);'',
      ''            std::ranges::copy(contact->rxKey.AsSpan(), oldKey.AsMutableSpan().begin());'',
      ''            contact->oldRxKey = std::move(oldKey);'',
      ''        }'',
      '''',
      ''        std::array<std::uint8_t, crypto_scalarmult_BYTES> sharedSecret{};'']"

definition bt02_retained_new :: string where
  "bt02_retained_new = text_lines
     [''        if (!initialRotation) {'',
      ''            contact->oldRxMailboxId = contact->rxMailboxId;'',
      '''',
      ''            bc::core::SecureBuffer oldKey(bc::crypto::symmetricKeySize);'',
      ''            std::ranges::copy(contact->rxKey.AsSpan(), oldKey.AsMutableSpan().begin());'',
      ''            contact->oldRxKey = std::move(oldKey);'',
      '''',
      ''            BC_INFO(\"BT02_EVENT OLD_RX_RETAINED alias={} old_mailbox={}\", alias,'',
      ''                    bc::core::EncodeHex(contact->oldRxMailboxId->AsSpan()));'',
      ''        }'',
      '''',
      ''        std::array<std::uint8_t, crypto_scalarmult_BYTES> sharedSecret{};'']"

definition bt02_ack_verified_old :: string where
  "bt02_ack_verified_old = text_lines
     [''    if (crypto_sign_verify_detached(ackDataOpt->signature.data(), ackSignedData.data(),'',
      ''                                    ackSignedData.size(), contact->publicKey.data()) != 0) {'',
      ''        BC_ERROR(\"Invalid signature on PFS_ROTATE_ACK from {}. Potential MITM attack!\", alias);'',
      ''        return;'',
      ''    }'',
      '''',
      ''    std::array<std::uint8_t, crypto_scalarmult_BYTES> sharedSecret{};'']"

definition bt02_ack_verified_new :: string where
  "bt02_ack_verified_new = text_lines
     [''    if (crypto_sign_verify_detached(ackDataOpt->signature.data(), ackSignedData.data(),'',
      ''                                    ackSignedData.size(), contact->publicKey.data()) != 0) {'',
      ''        BC_ERROR(\"Invalid signature on PFS_ROTATE_ACK from {}. Potential MITM attack!\", alias);'',
      ''        return;'',
      ''    }'',
      '''',
      ''    BC_INFO(\"BT02_EVENT PFS_ROTATE_ACK_VERIFIED alias={} peer_eph_fp={}\", alias,'',
      ''            Bt02Fingerprint(ackDataOpt->ephemeralPublicKey));'',
      '''',
      ''    std::array<std::uint8_t, crypto_scalarmult_BYTES> sharedSecret{};'']"

definition bt02_transition_old :: string where
  "bt02_transition_old = text_lines
     [''    if (!plaintextOpt) {'',
      ''        PrintThreadSafe(\"Malformed or tampered PUSH message dropped silently.'' @ bs @ ''n\");'',
      ''        return;'',
      ''    }'',
      '''',
      ''    if (!usedOldKey && contact->oldRxMailboxId.has_value()) {'',
      ''        PrintThreadSafe(std::format('',
      ''            \"'' @ bs @ ''nTransition confirmed for {}. Dropping old mailbox safely.'' @ bs @ ''n>>> \", alias));'',
      ''        contact->oldRxMailboxId = std::nullopt;'',
      ''        contact->oldRxKey = std::nullopt;'',
      ''        addressBook.SaveToDisk();'',
      ''    }'']"

definition bt02_transition_new :: string where
  "bt02_transition_new = text_lines
     [''    if (!plaintextOpt) {'',
      ''        PrintThreadSafe(\"Malformed or tampered PUSH message dropped silently.'' @ bs @ ''n\");'',
      ''        return;'',
      ''    }'',
      '''',
      ''    if (usedOldKey && contact->oldRxMailboxId.has_value()) {'',
      ''        BC_INFO(\"BT02_EVENT OLD_RX_MESSAGE_ACCEPTED alias={} mailbox={}\", alias,'',
      ''                bc::core::EncodeHex(contact->oldRxMailboxId->AsSpan()));'',
      ''    }'',
      '''',
      ''    if (!usedOldKey && contact->oldRxMailboxId.has_value()) {'',
      ''        BC_INFO(\"BT02_EVENT OLD_RX_RETIRED alias={} old_mailbox={} new_mailbox={}\", alias,'',
      ''                bc::core::EncodeHex(contact->oldRxMailboxId->AsSpan()),'',
      ''                bc::core::EncodeHex(contact->rxMailboxId.AsSpan()));'',
      ''        PrintThreadSafe(std::format('',
      ''            \"'' @ bs @ ''nTransition confirmed for {}. Dropping old mailbox safely.'' @ bs @ ''n>>> \", alias));'',
      ''        contact->oldRxMailboxId = std::nullopt;'',
      ''        contact->oldRxKey = std::nullopt;'',
      ''        addressBook.SaveToDisk();'',
      ''    }'']"

definition bt02_ack_delivered_old :: string where
  "bt02_ack_delivered_old = text_lines
     [''    std::string msgId(plaintextOpt->begin(), plaintextOpt->end());'',
      ''    cache.UpdateMessageStatus(alias, msgId, bc::domain::client::MessageStatus::DELIVERED);'',
      ''    PrintThreadSafe(std::format(\"'' @ bs @ ''nMessage DELIVERED to {}'' @ bs @ ''n>>> \", alias));'']"

definition bt02_ack_delivered_new :: string where
  "bt02_ack_delivered_new = text_lines
     [''    std::string msgId(plaintextOpt->begin(), plaintextOpt->end());'',
      ''    cache.UpdateMessageStatus(alias, msgId, bc::domain::client::MessageStatus::DELIVERED);'',
      ''    BC_INFO(\"BT02_EVENT ACK_DELIVERED alias={} msg_id={}\", alias, msgId);'',
      ''    PrintThreadSafe(std::format(\"'' @ bs @ ''nMessage DELIVERED to {}'' @ bs @ ''n>>> \", alias));'']"

definition bt02_initiator_old :: string where
  "bt02_initiator_old = text_lines
     [''    auto ephemeralOpt = bc::crypto::EphemeralKey::Generate();'',
      ''    if (!ephemeralOpt) {'',
      ''        BC_ERROR(\"Failed to generate ephemeral key for '{}'\", alias);'',
      ''        return false;'',
      ''    }'',
      '''',
      ''    std::array<std::uint8_t, bc::domain::client::cryptoSignBytes> signature{};'']"

definition bt02_initiator_new :: string where
  "bt02_initiator_new = text_lines
     [''    auto ephemeralOpt = bc::crypto::EphemeralKey::Generate();'',
      ''    if (!ephemeralOpt) {'',
      ''        BC_ERROR(\"Failed to generate ephemeral key for '{}'\", alias);'',
      ''        return false;'',
      ''    }'',
      '''',
      ''    BC_INFO(\"BT02_EVENT PFS_LOCAL_EPHEMERAL alias={} role=initiator fp={}\", alias,'',
      ''            Bt02Fingerprint(ephemeralOpt->GetPublicKey()));'',
      '''',
      ''    std::array<std::uint8_t, bc::domain::client::cryptoSignBytes> signature{};'']"

section \<open>BT-04\<close>

definition bt04_chrono_old :: string where
  "bt04_chrono_old = text_lines
     [''#include <array>'']"

definition bt04_chrono_new :: string where
  "bt04_chrono_new = text_lines
     [''#include <array>'',
      ''#include <chrono>'']"

definition bt04_tx_old :: string where
  "bt04_tx_old = text_lines
     [''    writeInProgress = true;'',
      ''    boost::asio::async_write(socket, boost::asio::buffer(writeQueue.front()),'']"

definition bt04_tx_new :: string where
  "bt04_tx_new = text_lines
     [''    writeInProgress = true;'',
      '''',
      ''    const auto txTimestampNs = std::chrono::duration_cast<std::chrono::nanoseconds>('',
      ''                                   std::chrono::steady_clock::now().time_since_epoch())'',
      ''                                   .count();'',
      ''    const auto& txFrame = writeQueue.front();'',
      ''    const auto txAction = txFrame.empty() ? 0U : static_cast<unsigned int>(txFrame.front());'',
      ''    BC_INFO(\"BT04_EVENT TX timestamp_ns={} action={} bytes={}\", txTimestampNs, txAction,'',
      ''            txFrame.size());'',
      '''',
      ''    boost::asio::async_write(socket, boost::asio::buffer(writeQueue.front()),'']"

section \<open>BT-05 and BT-06\<close>

definition bt05_chrono_old :: string where
  "bt05_chrono_old = text_lines
     [''#include <algorithm>'']"

definition bt05_chrono_new :: string where
  "bt05_chrono_new = text_lines
     [''#include <algorithm>'',
      ''#include <chrono>'']"

definition bt05_queue_old :: string where
  "bt05_queue_old = text_lines
     [''    auto frame = bc::protocol::Frame::CreatePush(contact->txMailboxId, std::move(*ciphertextOpt));'',
      ''    {'',
      ''        std::scoped_lock lock(outboxMutex);'',
      ''        outbox.push(std::move(frame));'',
      ''    }'',
      '''',
      ''    PrintThreadSafe(\"Message queued for transmission.'' @ bs @ ''n\");'']"

definition bt05_queue_new :: string where
  "bt05_queue_new = text_lines
     [''    auto frame = bc::protocol::Frame::CreatePush(contact->txMailboxId, std::move(*ciphertextOpt));'',
      '''',
      ''    const auto bt06FrameHash = bc::core::HashPayload(frame.Serialize());'',
      ''    BC_INFO(\"BT06_EVENT MAP frame_hash={} msg_id={}\", bt06FrameHash, msgId);'',
      '''',
      ''    {'',
      ''        std::scoped_lock lock(outboxMutex);'',
      ''        outbox.push(std::move(frame));'',
      ''    }'',
      '''',
      ''    const auto bt05QueueTimestampNs = std::chrono::duration_cast<std::chrono::nanoseconds>('',
      ''                                          std::chrono::system_clock::now().time_since_epoch())'',
      ''                                          .count();'',
      ''    BC_INFO(\"BT05_EVENT QUEUE timestamp_ns={} msg_id={}\", bt05QueueTimestampNs, msgId);'',
      '''',
      ''    PrintThreadSafe(\"Message queued for transmission.'' @ bs @ ''n\");'']"

definition bt05_rx_old :: string where
  "bt05_rx_old = text_lines
     [''    cache.AppendMessage(entry);'',
      '''',
      ''    bc::protocol::Payload ackPayload(msgId.begin(), msgId.end());'']"

definition bt05_rx_new :: string where
  "bt05_rx_new = text_lines
     [''    cache.AppendMessage(entry);'',
      '''',
      ''    const auto bt05RxTimestampNs = std::chrono::duration_cast<std::chrono::nanoseconds>('',
      ''                                       std::chrono::system_clock::now().time_since_epoch())'',
      ''                                       .count();'',
      ''    BC_INFO(\"BT05_EVENT RX timestamp_ns={} msg_id={}\", bt05RxTimestampNs, msgId);'',
      '''',
      ''    bc::protocol::Payload ackPayload(msgId.begin(), msgId.end());'']"

definition bt05_ack_old :: string where
  "bt05_ack_old = text_lines
     [''    cache.UpdateMessageStatus(alias, msgId, bc::domain::client::MessageStatus::DELIVERED);'',
      ''    PrintThreadSafe(std::format(\"'' @ bs @ ''nMessage DELIVERED to {}'' @ bs @ ''n>>> \", alias));'']"

definition bt05_ack_new :: string where
  "bt05_ack_new = text_lines
     [''    cache.UpdateMessageStatus(alias, msgId, bc::domain::client::MessageStatus::DELIVERED);'',
      '''',
      ''    const auto bt05AckTimestampNs = std::chrono::duration_cast<std::chrono::nanoseconds>('',
      ''                                        std::chrono::system_clock::now().time_since_epoch())'',
      ''                                        .count();'',
      ''    BC_INFO(\"BT05_EVENT ACK timestamp_ns={} msg_id={}\", bt05AckTimestampNs, msgId);'',
      '''',
      ''    PrintThreadSafe(std::format(\"'' @ bs @ ''nMessage DELIVERED to {}'' @ bs @ ''n>>> \", alias));'']"

definition bt05_clock_old :: string where
  "bt05_clock_old = text_lines
     [''auto Repl::HandleList() -> void'',
      ''{'',
      ''    auto aliases = addressBook.GetAllAliases();'']"

definition bt05_clock_new :: string where
  "bt05_clock_new = text_lines
     [''auto Repl::HandleList() -> void'',
      ''{'',
      ''    const auto bt06ClockTimestampNs = std::chrono::duration_cast<std::chrono::nanoseconds>('',
      ''                                          std::chrono::system_clock::now().time_since_epoch())'',
      ''                                          .count();'',
      ''    BC_INFO(\"BT06_EVENT CLOCK timestamp_ns={}\", bt06ClockTimestampNs);'',
      '''',
      ''    auto aliases = addressBook.GetAllAliases();'']"

definition bt05_tx_old :: string where
  "bt05_tx_old = text_lines
     [''    writeInProgress = true;'',
      ''    boost::asio::async_write(socket, boost::asio::buffer(writeQueue.front()),'']"

definition bt05_tx_new :: string where
  "bt05_tx_new = text_lines
     [''    writeInProgress = true;'',
      '''',
      ''    const auto& bt06TxFrame = writeQueue.front();'',
      ''    const auto bt06TxAction ='',
      ''        bt06TxFrame.empty() ? 0U : static_cast<unsigned int>(bt06TxFrame.front());'',
      ''    const auto bt06TxBytes = bt06TxFrame.size();'',
      ''    const auto bt06TxFrameHash = bc::core::HashPayload(bt06TxFrame);'',
      ''    const auto bt06TxTimestampNs ='',
      ''        std::chrono::duration_cast<std::chrono::nanoseconds>('',
      ''            std::chrono::system_clock::now().time_since_epoch())'',
      ''            .count();'',
      '''',
      ''    BC_INFO(\"BT06_EVENT TX timestamp_ns={} action={} bytes={} frame_hash={}\",'',
      ''            bt06TxTimestampNs, bt06TxAction, bt06TxBytes, bt06TxFrameHash);'',
      '''',
      ''    boost::asio::async_write(socket, boost::asio::buffer(writeQueue.front()),'']"

end
