(* ===== verification/Patch.thy ===== *)
theory Patch
  imports Fragments
begin

text \<open>
  The three \<^verbatim>\<open>apply_diagnostics.py\<close> scripts, which insert logging statements into the
  C++ client before a benchmark.  A file system is a map from paths to texts.
  The lemmas show that an insertion replaces exactly one fragment, that a run
  either performs all of its insertions or leaves the sources alone, and that
  a patched tree is recognised, so that running a script twice is the same as
  running it once.
\<close>

type_synonym files = "string \<Rightarrow> string option"
type_synonym edit = "string \<times> string \<times> string"

section \<open>One replacement\<close>

text \<open>\<^verbatim>\<open>hint\<close> is the second sentence of the error text, which differs between the scripts.\<close>

definition replace_once :: "string \<Rightarrow> string \<Rightarrow> string \<Rightarrow> string \<Rightarrow> string \<Rightarrow> exn + string" where
  "replace_once hint text old new label =
     (let count = str_count old text in
      if count \<noteq> 1 then
        Inl (Exn RuntimeError (label @ '': expected exactly one matching source fragment, found '' @
               show_nat count @ ''. '' @ hint))
      else Inr (replace_first old new text))"

fun apply_edits :: "string \<Rightarrow> edit list \<Rightarrow> string \<Rightarrow> exn + string" where
  "apply_edits hint [] text = Inr text"
| "apply_edits hint ((old, new, label) # es) text =
     (case replace_once hint text old new label of
        Inl e \<Rightarrow> Inl e
      | Inr t \<Rightarrow> apply_edits hint es t)"

definition read_text :: "files \<Rightarrow> string \<Rightarrow> exn + string" where
  "read_text fs path =
     (case fs path of None \<Rightarrow> Inl (Exn FileNotFoundError path) | Some t \<Rightarrow> Inr t)"

definition REPL_CPP :: string where "REPL_CPP = ''libs/cli/src/repl.cpp''"
definition TCP_CLIENT_CPP :: string where "TCP_CLIENT_CPP = ''libs/network/src/tcp_client.cpp''"

text \<open>The module's last lines: an exception gives exit status 1.\<close>

definition script_exit :: "(files \<Rightarrow> exn + files) \<Rightarrow> files \<Rightarrow> int \<times> files" where
  "script_exit main fs = (case main fs of Inl e \<Rightarrow> (1, fs) | Inr fs' \<Rightarrow> (0, fs'))"

section \<open>BT-02 and BT-04\<close>

definition bt02_edits :: "edit list" where
  "bt02_edits =
     [(bt02_vector_old, bt02_vector_new, ''include <vector>''),
      (bt02_fingerprint_old, bt02_fingerprint_new, ''BT-02 fingerprint helper''),
      (bt02_ciphertext_old, bt02_ciphertext_new, ''text ciphertext event''),
      (bt02_request_old, bt02_request_new, ''PFS request verification event''),
      (bt02_responder_old, bt02_responder_new, ''responder ephemeral event''),
      (bt02_retained_old, bt02_retained_new, ''old RX retained event''),
      (bt02_ack_verified_old, bt02_ack_verified_new, ''PFS ACK verification event''),
      (bt02_transition_old, bt02_transition_new, ''old/new RX transition events''),
      (bt02_ack_delivered_old, bt02_ack_delivered_new, ''ACK delivery event''),
      (bt02_initiator_old, bt02_initiator_new, ''initiator ephemeral event'')]"

definition bt02_hint :: string where
  "bt02_hint = ''The benchmark branch probably changed; inspect repl.cpp before applying diagnostics.''"

definition bt02_diagnostics :: "files \<Rightarrow> exn + files" where
  "bt02_diagnostics fs =
     (case read_text fs REPL_CPP of
        Inl e \<Rightarrow> Inl e
      | Inr text \<Rightarrow>
          if occurs bt02_marker text then Inr fs
          else
            (case apply_edits bt02_hint bt02_edits text of
               Inl e \<Rightarrow> Inl e
             | Inr text' \<Rightarrow> Inr (fs(REPL_CPP \<mapsto> text'))))"

definition bt04_edits :: "edit list" where
  "bt04_edits =
     [(bt04_chrono_old, bt04_chrono_new, ''include <chrono>''),
      (bt04_tx_old, bt04_tx_new, ''TX timestamp diagnostic'')]"

definition bt04_hint :: string where
  "bt04_hint = ''The benchmark branch probably changed; inspect tcp_client.cpp before applying diagnostics.''"

definition bt04_diagnostics :: "files \<Rightarrow> exn + files" where
  "bt04_diagnostics fs =
     (case read_text fs TCP_CLIENT_CPP of
        Inl e \<Rightarrow> Inl e
      | Inr text \<Rightarrow>
          if occurs bt04_marker text then Inr fs
          else
            (case apply_edits bt04_hint bt04_edits text of
               Inl e \<Rightarrow> Inl e
             | Inr text' \<Rightarrow> Inr (fs(TCP_CLIENT_CPP \<mapsto> text'))))"

section \<open>BT-05 and BT-06\<close>

definition bt05_hint :: string where
  "bt05_hint = ''The benchmark branch probably changed; inspect the source before applying diagnostics.''"

definition ensure_chrono :: "string \<Rightarrow> exn + string" where
  "ensure_chrono text =
     (if occurs (''#include <chrono>'' @ newline) text then Inr text
      else replace_once bt05_hint text bt05_chrono_old bt05_chrono_new ''include <chrono>'')"

definition bt05_message_edits :: "edit list" where
  "bt05_message_edits =
     [(bt05_queue_old, bt05_queue_new, ''QUEUE + MAP diagnostics''),
      (bt05_rx_old, bt05_rx_new, ''RX diagnostic''),
      (bt05_ack_old, bt05_ack_new, ''ACK diagnostic'')]"

definition apply_bt05_and_bt06_map :: "string \<Rightarrow> exn + string" where
  "apply_bt05_and_bt06_map text =
     (let bt05_present = map (\<lambda>marker. occurs marker text) BT05_MARKERS;
          map_present = occurs BT06_MAP_MARKER text in
      if list_all id bt05_present \<and> map_present then Inr text
      else if list_ex id bt05_present \<or> map_present then
        Inl (Exn RuntimeError (''Only part of the BT-05/BT-06 message diagnostics is present in repl.cpp. '' @
               ''Restore repl.cpp to the branch version and rerun --prepare.''))
      else
        (case ensure_chrono text of
           Inl e \<Rightarrow> Inl e
         | Inr t \<Rightarrow> apply_edits bt05_hint bt05_message_edits t))"

definition apply_bt06_clock :: "string \<Rightarrow> exn + string" where
  "apply_bt06_clock text =
     (if occurs BT06_CLOCK_MARKER text then Inr text
      else
        (case ensure_chrono text of
           Inl e \<Rightarrow> Inl e
         | Inr t \<Rightarrow> replace_once bt05_hint t bt05_clock_old bt05_clock_new ''BT-06 clock diagnostic''))"

definition apply_bt06_tx :: "string \<Rightarrow> exn + string" where
  "apply_bt06_tx text =
     (if occurs BT06_TX_MARKER text then Inr text
      else
        (case ensure_chrono text of
           Inl e \<Rightarrow> Inl e
         | Inr t \<Rightarrow> replace_once bt05_hint t bt05_tx_old bt05_tx_new ''BT-06 transport TX diagnostic''))"

text \<open>Both files are computed before either is written.\<close>

definition bt05_diagnostics :: "files \<Rightarrow> exn + files" where
  "bt05_diagnostics fs =
     (case read_text fs REPL_CPP of
        Inl e \<Rightarrow> Inl e
      | Inr repl_text \<Rightarrow>
     (case apply_bt05_and_bt06_map repl_text of
        Inl e \<Rightarrow> Inl e
      | Inr repl_text1 \<Rightarrow>
     (case apply_bt06_clock repl_text1 of
        Inl e \<Rightarrow> Inl e
      | Inr repl_text2 \<Rightarrow>
     (case read_text fs TCP_CLIENT_CPP of
        Inl e \<Rightarrow> Inl e
      | Inr tcp_text \<Rightarrow>
     (case apply_bt06_tx tcp_text of
        Inl e \<Rightarrow> Inl e
      | Inr tcp_text1 \<Rightarrow> Inr (fs(REPL_CPP \<mapsto> repl_text2, TCP_CLIENT_CPP \<mapsto> tcp_text1)))))))"

section \<open>A marker survives replacements elsewhere\<close>

fun tails :: "'a list \<Rightarrow> 'a list list" where
  "tails [] = []"
| "tails (x # xs) = (x # xs) # tails xs"

text \<open>No occurrence of \<^verbatim>\<open>m\<close> can overlap an occurrence of \<^verbatim>\<open>old\<close>.\<close>

definition apart :: "string \<Rightarrow> string \<Rightarrow> bool" where
  "apart m old =
     (list_all (\<lambda>t. \<not> prefix t old \<and> \<not> prefix old t) (tails m) \<and>
      list_all (\<lambda>t. \<not> prefix t m \<and> \<not> prefix m t) (tails old))"

lemma set_tails: "set (tails xs) = {drop k xs |k. k < length xs}"
proof (induction xs)
  case (Cons x xs)
  have "(\<exists>k. t = drop k (x # xs) \<and> k < Suc (length xs)) \<longleftrightarrow>
      t = x # xs \<or> (\<exists>k. t = drop k xs \<and> k < length xs)" for t
  proof
    assume "\<exists>k. t = drop k (x # xs) \<and> k < Suc (length xs)"
    then show "t = x # xs \<or> (\<exists>k. t = drop k xs \<and> k < length xs)"
      by (auto simp: less_Suc_eq_0_disj)
  next
    assume "t = x # xs \<or> (\<exists>k. t = drop k xs \<and> k < length xs)"
    then show "\<exists>k. t = drop k (x # xs) \<and> k < Suc (length xs)"
      by (metis Suc_less_eq drop0 drop_Suc_Cons zero_less_Suc)
  qed
  then show ?case using Cons.IH by auto
qed simp

lemma apart_disjoint:
  assumes ap: "apart m old" and t: "text = pre @ old @ post" "text = a @ m @ b"
  shows "length a + length m \<le> length pre \<or> length pre + length old \<le> length a"
proof (rule ccontr)
  assume "\<not> ?thesis"
  then have o1: "length pre < length a + length m" and o2: "length a < length pre + length old"
    by simp_all
  have clash: "prefix x y \<or> prefix y x" if "x @ u = y @ v" for x y u v :: string
    using that prefix_same_cases [of x "x @ u" y] by (metis prefixI)
  show False
  proof (cases "length a \<le> length pre")
    case True
    define k where "k = length pre - length a"
    have k: "k < length m" using True o1 by (simp add: k_def)
    have "drop (length pre) text = old @ post" using t(1) by simp
    moreover have "drop (length pre) text = drop k m @ b"
      using t(2) True k by (simp add: k_def)
    ultimately have "prefix (drop k m) old \<or> prefix old (drop k m)" by (metis clash)
    then show False using ap k by (auto simp: apart_def list_all_iff set_tails)
  next
    case False
    define k where "k = length a - length pre"
    have k: "k < length old" using False o2 by (simp add: k_def)
    have "drop (length a) text = m @ b" using t(2) by simp
    moreover have "drop (length a) text = drop k old @ post"
      using t(1) False k by (simp add: k_def)
    ultimately have "prefix (drop k old) m \<or> prefix m (drop k old)" by (metis clash)
    then show False using ap k by (auto simp: apart_def list_all_iff set_tails)
  qed
qed

lemma occurs_replaced:
  assumes ap: "apart m old" and occ: "occurs m (pre @ old @ post)"
  shows "occurs m (pre @ new @ post)"
proof -
  obtain a b where ab: "pre @ old @ post = a @ m @ b" using occ by (auto simp: occurs_iff)
  from apart_disjoint [OF ap refl ab]
  show ?thesis
  proof
    assume le: "length a + length m \<le> length pre"
    have "take (length a + length m) (pre @ old @ post) = a @ m" unfolding ab by simp
    then have "take (length a + length m) pre = a @ m" using le by simp
    then have "pre = (a @ m) @ drop (length a + length m) pre" by (metis append_take_drop_id)
    then have "occurs m pre" unfolding occurs_iff by (metis append.assoc)
    then show ?thesis by simp
  next
    assume le: "length pre + length old \<le> length a"
    have "drop (length a) (pre @ old @ post) = m @ b" unfolding ab by simp
    moreover have "drop (length a) (pre @ old @ post) = drop (length a - length pre - length old) post"
      using le by simp
    ultimately have "post = take (length a - length pre - length old) post @ m @ b"
      by (metis append_take_drop_id)
    then have "occurs m post" unfolding occurs_iff by blast
    then show ?thesis by simp
  qed
qed

section \<open>Replacements\<close>

lemma str_count_Nil: "str_count [] text = 1 \<longleftrightarrow> text = []"
  by (simp add: str_count_def)

text \<open>A replacement that succeeds replaces the first occurrence and nothing else.\<close>

lemma replace_once_Inr:
  assumes "old \<noteq> []" and "replace_once h text old new l = Inr t"
  shows "\<exists>pre post. text = pre @ old @ post \<and> t = pre @ new @ post"
proof -
  have c: "str_count old text = 1" and t: "t = replace_first old new text"
    using assms(2) by (auto simp: replace_once_def Let_def split: if_splits)
  then have "occurs old text" by (simp add: occurs_count)
  then obtain i where "str_find old text = Some i" by (auto simp: str_find_iff [symmetric])
  with replace_first_at [OF assms(1) this] str_find_split [OF this] t show ?thesis by metis
qed

lemma replace_once_keeps:
  assumes "old \<noteq> []" "apart m old" "occurs m text" "replace_once h text old new l = Inr t"
  shows "occurs m t"
  using replace_once_Inr [OF assms(1,4)] occurs_replaced [OF assms(2)] assms(3) by blast

lemma replace_once_adds:
  assumes "old \<noteq> []" "occurs m new" "replace_once h text old new l = Inr t"
  shows "occurs m t"
  using replace_once_Inr [OF assms(1,3)] assms(2) by auto

lemma apply_edits_keeps:
  assumes "list_all (\<lambda>(old, _, _). old \<noteq> [] \<and> apart m old) es" "occurs m src"
    and "apply_edits h es src = Inr t"
  shows "occurs m t"
  using assms
proof (induction h es src rule: apply_edits.induct)
  case (2 h old new l es src)
  then show ?case by (auto split: sum.splits intro: replace_once_keeps)
qed simp

text \<open>Some edit inserts the marker, and no later one can touch it.\<close>

fun inserts :: "string \<Rightarrow> edit list \<Rightarrow> bool" where
  "inserts m [] = False"
| "inserts m ((old, new, _) # es) =
     (old \<noteq> [] \<and>
      (if occurs m new then list_all (\<lambda>(old, _, _). old \<noteq> [] \<and> apart m old) es else inserts m es))"

lemma apply_edits_inserts:
  assumes "inserts m es" and "apply_edits h es src = Inr t"
  shows "occurs m t"
  using assms
proof (induction h es src rule: apply_edits.induct)
  case (2 h old new l es src)
  then obtain t1 where t1: "replace_once h src old new l = Inr t1" "apply_edits h es t1 = Inr t"
    by (auto split: sum.splits)
  show ?case
  proof (cases "occurs m new")
    case True
    then have "occurs m t1" using 2(2) t1(1) by (auto intro: replace_once_adds)
    then show ?thesis using 2(2) t1(2) True by (auto intro: apply_edits_keeps)
  next
    case False
    then show ?thesis using 2(1) [OF t1(1)] 2(2) t1(2) by simp
  qed
qed simp

section \<open>Fragments made of lines\<close>

lemma text_lines_simps [simp]:
  "text_lines [] = []" "text_lines (l # ls) = l @ CHR 0x0A # text_lines ls"
  by (simp_all add: text_lines_def)

lemma prefix_line: "prefix t (l @ c # r) \<Longrightarrow> c \<notin> set t \<Longrightarrow> prefix t l"
proof (induction t arbitrary: l)
  case (Cons x t)
  show ?case
  proof (cases l)
    case Nil
    then show ?thesis using Cons.prems by simp
  next
    case (Cons y l')
    then show ?thesis using Cons.prems Cons.IH [of l'] by simp
  qed
qed simp

lemma occurs_line:
  assumes "occurs m (l @ c # r)" "c \<notin> set m" "m \<noteq> []"
  shows "occurs m l \<or> occurs m r"
  using assms(1)
proof (induction l)
  case Nil
  then show ?case using assms(2,3) by (cases m) auto
next
  case (Cons x l)
  then show ?case using prefix_line [of m "x # l" c r] assms(2) by auto
qed

lemma occurs_text_lines:
  assumes "m \<noteq> []" "CHR 0x0A \<notin> set m"
  shows "occurs m (text_lines ls) \<longleftrightarrow> (\<exists>l \<in> set ls. occurs m l)"
proof (induction ls)
  case Nil
  then show ?case using assms(1) by simp
next
  case (Cons l ls)
  have "occurs m (l @ CHR 0x0A # text_lines ls) \<longleftrightarrow> occurs m l \<or> occurs m (text_lines ls)"
    using occurs_line [of m l "CHR 0x0A" "text_lines ls"] assms by (auto simp: occurs_append)
  then show ?case using Cons.IH by simp
qed

lemma text_lines_Nil: "text_lines ls = [] \<longleftrightarrow> ls = []"
  by (cases ls) auto

lemma last_text_lines: "ls \<noteq> [] \<Longrightarrow> last (text_lines ls) = CHR 0x0A"
  by (induction ls) (auto simp: text_lines_Nil)

text \<open>A marker without line breaks is apart from a fragment of whole lines when it stands in none
  of the lines and no end of it begins the first line.\<close>

lemma apart_lines:
  assumes m: "m \<noteq> []" "CHR 0x0A \<notin> set m"
    and lines: "list_all (\<lambda>l. \<not> occurs m l) (l # ls)"
    and start: "list_all (\<lambda>t. \<not> prefix t l) (tails m)"
  shows "apart m (text_lines (l # ls))"
proof -
  let ?old = "text_lines (l # ls)"
  have nl: "CHR 0x0A \<in> set ?old" by simp
  have "\<not> prefix t ?old \<and> \<not> prefix ?old t" if "t \<in> set (tails m)" for t
  proof -
    have t: "CHR 0x0A \<notin> set t"
      using that m(2) by (auto simp: set_tails dest: in_set_dropD)
    have "\<not> prefix t l" using start that by (simp add: list_all_iff)
    then have "\<not> prefix t ?old" using t prefix_line [of t l "CHR 0x0A" "text_lines ls"] by auto
    moreover have "\<not> prefix ?old t" using nl t set_mono_prefix by blast
    ultimately show ?thesis by blast
  qed
  moreover have "\<not> prefix t m \<and> \<not> prefix m t" if tl: "t \<in> set (tails ?old)" for t
  proof -
    obtain k where k: "t = drop k ?old" "k < length ?old"
      using tl unfolding set_tails by blast
    then have "last t = CHR 0x0A" "t \<noteq> []"
      using last_text_lines [of "l # ls"] by (simp_all only: last_drop) auto
    then have "CHR 0x0A \<in> set t" using last_in_set [of t] by simp
    then have "\<not> prefix t m" using m(2) set_mono_prefix by blast
    moreover have "\<not> occurs m ?old"
      using occurs_text_lines [OF m, of "l # ls"] lines by (auto simp: list_all_iff)
    then have "\<not> prefix m t"
      using k by (metis append_take_drop_id occurs_iff prefix_def)
    ultimately show ?thesis by blast
  qed
  ultimately show ?thesis by (simp add: apart_def list_all_iff)
qed

lemmas marker_defs = bt02_marker_def bt04_marker_def BT05_MARKERS_def BT06_MAP_MARKER_def
  BT06_CLOCK_MARKER_def BT06_TX_MARKER_def

section \<open>The markers and the fragments\<close>

lemmas bt02_old_defs = bt02_request_old_def bt02_responder_old_def bt02_retained_old_def
  bt02_ack_verified_old_def bt02_transition_old_def bt02_ack_delivered_old_def bt02_initiator_old_def

lemma bt02_apart:
  "apart bt02_marker bt02_request_old" "apart bt02_marker bt02_responder_old"
  "apart bt02_marker bt02_retained_old" "apart bt02_marker bt02_ack_verified_old"
  "apart bt02_marker bt02_transition_old" "apart bt02_marker bt02_ack_delivered_old"
  "apart bt02_marker bt02_initiator_old"
  unfolding bt02_old_defs by (rule apart_lines; simp add: bt02_marker_def)+

lemma bt02_olds: "list_all (\<lambda>(old, _, _). old \<noteq> []) bt02_edits"
  by (simp add: bt02_edits_def bt02_vector_old_def bt02_fingerprint_old_def bt02_ciphertext_old_def
      bt02_old_defs text_lines_Nil del: text_lines_simps)

lemma bt02_ciphertext_marks: "occurs bt02_marker bt02_ciphertext_new"
  by (simp add: bt02_ciphertext_new_def occurs_text_lines bt02_marker_def del: text_lines_simps)

lemma bt02_unmarked: "\<not> occurs bt02_marker bt02_vector_new" "\<not> occurs bt02_marker bt02_fingerprint_new"
  by (simp_all add: bt02_vector_new_def bt02_fingerprint_new_def occurs_text_lines bt02_marker_def
      del: text_lines_simps)

lemma bt02_inserts: "inserts bt02_marker bt02_edits"
  using bt02_olds by (simp add: bt02_edits_def bt02_unmarked bt02_ciphertext_marks bt02_apart)

lemma bt04_inserts: "inserts bt04_marker bt04_edits"
proof -
  have "bt04_chrono_old \<noteq> []" "bt04_tx_old \<noteq> []"
    by (simp_all add: bt04_chrono_old_def bt04_tx_old_def)
  moreover have "\<not> occurs bt04_marker bt04_chrono_new" "occurs bt04_marker bt04_tx_new"
    by (simp_all add: bt04_chrono_new_def bt04_tx_new_def occurs_text_lines bt04_marker_def
        del: text_lines_simps)
  ultimately show ?thesis by (simp add: bt04_edits_def)
qed

lemmas bt05_marker_defs = BT06_MAP_MARKER_def BT06_CLOCK_MARKER_def BT06_TX_MARKER_def

abbreviation QUEUE_MARKER :: string where "QUEUE_MARKER \<equiv> ''BT05_EVENT QUEUE''"
abbreviation RX_MARKER :: string where "RX_MARKER \<equiv> ''BT05_EVENT RX''"
abbreviation ACK_MARKER :: string where "ACK_MARKER \<equiv> ''BT05_EVENT ACK''"

lemma bt05_apart_message:
  "apart QUEUE_MARKER bt05_rx_old" "apart QUEUE_MARKER bt05_ack_old" "apart RX_MARKER bt05_ack_old"
  "apart BT06_MAP_MARKER bt05_rx_old" "apart BT06_MAP_MARKER bt05_ack_old"
  unfolding bt05_rx_old_def bt05_ack_old_def
  by (rule apart_lines; simp add: bt05_marker_defs)+

lemma bt05_apart_clock:
  "apart QUEUE_MARKER bt05_clock_old" "apart RX_MARKER bt05_clock_old" "apart ACK_MARKER bt05_clock_old"
  "apart BT06_MAP_MARKER bt05_clock_old"
  unfolding bt05_clock_old_def by (rule apart_lines; simp add: bt05_marker_defs)+

lemma bt05_apart_chrono:
  "apart QUEUE_MARKER bt05_chrono_old" "apart RX_MARKER bt05_chrono_old" "apart ACK_MARKER bt05_chrono_old"
  "apart BT06_MAP_MARKER bt05_chrono_old"
  unfolding bt05_chrono_old_def by (rule apart_lines; simp add: bt05_marker_defs)+

lemma bt05_olds: "bt05_chrono_old \<noteq> []" "bt05_queue_old \<noteq> []" "bt05_rx_old \<noteq> []" "bt05_ack_old \<noteq> []"
  "bt05_clock_old \<noteq> []" "bt05_tx_old \<noteq> []"
  by (simp_all add: bt05_chrono_old_def bt05_queue_old_def bt05_rx_old_def bt05_ack_old_def
      bt05_clock_old_def bt05_tx_old_def)

lemma bt05_news:
  "occurs QUEUE_MARKER bt05_queue_new" "occurs BT06_MAP_MARKER bt05_queue_new"
  "occurs RX_MARKER bt05_rx_new" "occurs ACK_MARKER bt05_ack_new"
  "occurs BT06_CLOCK_MARKER bt05_clock_new" "occurs BT06_TX_MARKER bt05_tx_new"
  by (simp_all add: bt05_queue_new_def bt05_rx_new_def bt05_ack_new_def bt05_clock_new_def
      bt05_tx_new_def occurs_text_lines bt05_marker_defs del: text_lines_simps)

lemma bt05_unmarked:
  "\<not> occurs RX_MARKER bt05_queue_new" "\<not> occurs ACK_MARKER bt05_queue_new" "\<not> occurs ACK_MARKER bt05_rx_new"
  by (simp_all add: bt05_queue_new_def bt05_rx_new_def occurs_text_lines del: text_lines_simps)

lemma bt05_inserts:
  "inserts QUEUE_MARKER bt05_message_edits" "inserts BT06_MAP_MARKER bt05_message_edits"
  "inserts RX_MARKER bt05_message_edits" "inserts ACK_MARKER bt05_message_edits"
  by (simp_all add: bt05_message_edits_def bt05_olds bt05_news bt05_unmarked bt05_apart_message)

section \<open>Recognising a patched tree\<close>

lemma read_text_Some [simp]: "fs p = Some t \<Longrightarrow> read_text fs p = Inr t"
  by (simp add: read_text_def)

lemma single_file_twice:
  assumes def: "\<And>fs. main fs = (case read_text fs p of Inl e \<Rightarrow> Inl e | Inr src \<Rightarrow>
      if occurs m src then Inr fs
      else (case apply_edits h es src of Inl e \<Rightarrow> Inl e | Inr t \<Rightarrow> Inr (fs(p \<mapsto> t))))"
    and ins: "inserts m es" and run: "main fs = Inr fs'"
  shows "main fs' = Inr fs'"
proof -
  obtain src where src: "read_text fs p = Inr src"
    using run by (cases "read_text fs p") (auto simp: def)
  show ?thesis
  proof (cases "occurs m src")
    case True
    then have "fs' = fs" using run src by (simp add: def)
    then show ?thesis using run by simp
  next
    case False
    then obtain t where t: "apply_edits h es src = Inr t" "fs' = fs(p \<mapsto> t)"
      using run src by (auto simp: def split: sum.splits)
    have "occurs m t" using ins t(1) by (rule apply_edits_inserts)
    moreover have "read_text fs' p = Inr t" by (simp add: t(2))
    ultimately show ?thesis by (simp add: def)
  qed
qed

lemma ensure_chrono_keeps:
  assumes "ensure_chrono src = Inr t" and "apart m bt05_chrono_old" and "occurs m src"
  shows "occurs m t"
  using assms
  by (auto simp: ensure_chrono_def split: if_splits intro: replace_once_keeps [OF bt05_olds(1)])

lemma apply_bt06_clock_keeps:
  assumes "apply_bt06_clock src = Inr t" and "apart m bt05_chrono_old" "apart m bt05_clock_old"
    and "occurs m src"
  shows "occurs m t"
proof (cases "occurs BT06_CLOCK_MARKER src")
  case False
  then obtain u where "ensure_chrono src = Inr u"
    and 1: "replace_once bt05_hint u bt05_clock_old bt05_clock_new ''BT-06 clock diagnostic'' = Inr t"
    using assms(1) by (auto simp: apply_bt06_clock_def split: sum.splits)
  then have "occurs m u" using assms by (auto intro: ensure_chrono_keeps)
  then show ?thesis using replace_once_keeps [OF bt05_olds(5) assms(3) _ 1] by simp
qed (use assms in \<open>simp add: apply_bt06_clock_def\<close>)

lemma apply_bt06_clock_marks: "apply_bt06_clock src = Inr t \<Longrightarrow> occurs BT06_CLOCK_MARKER t"
  by (auto simp: apply_bt06_clock_def split: if_splits sum.splits
      intro: replace_once_adds [OF bt05_olds(5) bt05_news(5)])

lemma apply_bt06_tx_marks: "apply_bt06_tx src = Inr t \<Longrightarrow> occurs BT06_TX_MARKER t"
  by (auto simp: apply_bt06_tx_def split: if_splits sum.splits
      intro: replace_once_adds [OF bt05_olds(6) bt05_news(6)])

definition message_marked :: "string \<Rightarrow> bool" where
  "message_marked src \<longleftrightarrow> list_all (\<lambda>m. occurs m src) BT05_MARKERS \<and> occurs BT06_MAP_MARKER src"

lemma map_id_present: "list_all id (map f xs) = list_all f xs"
  by (induction xs) auto

lemma apply_bt05_marks: "apply_bt05_and_bt06_map src = Inr t \<Longrightarrow> message_marked t"
  by (auto simp: apply_bt05_and_bt06_map_def Let_def message_marked_def BT05_MARKERS_def
      split: if_splits sum.splits intro: apply_edits_inserts [OF bt05_inserts(1)]
        apply_edits_inserts [OF bt05_inserts(2)] apply_edits_inserts [OF bt05_inserts(3)]
        apply_edits_inserts [OF bt05_inserts(4)])

lemma apply_bt05_marked: "message_marked src \<Longrightarrow> apply_bt05_and_bt06_map src = Inr src"
  by (simp add: apply_bt05_and_bt06_map_def Let_def message_marked_def map_id_present)

lemma message_marked_clock:
  "message_marked src \<Longrightarrow> apply_bt06_clock src = Inr t \<Longrightarrow> message_marked t"
  by (auto simp: message_marked_def BT05_MARKERS_def
      intro: apply_bt06_clock_keeps bt05_apart_chrono bt05_apart_clock)

lemma repl_not_tcp: "REPL_CPP \<noteq> TCP_CLIENT_CPP"
  by (simp add: REPL_CPP_def TCP_CLIENT_CPP_def)

lemma bt05_twice:
  assumes "bt05_diagnostics fs = Inr fs'"
  shows "bt05_diagnostics fs' = Inr fs'"
proof -
  obtain r r1 r2 t t1 where
    "apply_bt05_and_bt06_map r = Inr r1" "apply_bt06_clock r1 = Inr r2"
    "apply_bt06_tx t = Inr t1" and fs': "fs' = fs(REPL_CPP \<mapsto> r2, TCP_CLIENT_CPP \<mapsto> t1)"
    using assms by (auto simp: bt05_diagnostics_def split: sum.splits)
  then have "message_marked r2" "occurs BT06_CLOCK_MARKER r2" "occurs BT06_TX_MARKER t1"
    by (auto intro: apply_bt05_marks message_marked_clock apply_bt06_clock_marks apply_bt06_tx_marks)
  then have "apply_bt05_and_bt06_map r2 = Inr r2" "apply_bt06_clock r2 = Inr r2" "apply_bt06_tx t1 = Inr t1"
    by (simp_all add: apply_bt05_marked apply_bt06_clock_def apply_bt06_tx_def)
  moreover have "read_text fs' REPL_CPP = Inr r2" "read_text fs' TCP_CLIENT_CPP = Inr t1"
    by (simp_all add: fs' repl_not_tcp)
  moreover have "fs'(REPL_CPP \<mapsto> r2, TCP_CLIENT_CPP \<mapsto> t1) = fs'"
    by (auto simp: fs' fun_eq_iff)
  ultimately show ?thesis by (simp add: bt05_diagnostics_def)
qed

section \<open>Properties\<close>

text \<open>C40: Preparing a source tree twice is preparing it once: after a run of any of the three
  patchers that succeeds, the same patcher succeeds again and changes nothing, because every
  marker it inserted survives all of its later insertions.\<close>

theorem patchers_idempotent:
  assumes "main \<in> set [bt02_diagnostics, bt04_diagnostics, bt05_diagnostics]"
    and "script_exit main fs = (0, fs')"
  shows "script_exit main fs' = (0, fs')"
proof -
  have run: "main fs = Inr fs'"
    using assms(2) by (auto simp: script_exit_def split: sum.splits)
  have "main fs' = Inr fs'"
    using assms(1) run bt05_twice [of fs fs']
      single_file_twice [OF bt02_diagnostics_def bt02_inserts, of fs fs']
      single_file_twice [OF bt04_diagnostics_def bt04_inserts, of fs fs'] by auto
  then show ?thesis by (simp add: script_exit_def)
qed

definition stub_tcp_client :: files where
  "stub_tcp_client = [TCP_CLIENT_CPP \<mapsto> bt04_chrono_old @ bt04_tx_old]"

theorem patchers_idempotent_witness:
  "\<exists>fs'. script_exit bt04_diagnostics stub_tcp_client = (0, fs') \<and> fs' \<noteq> stub_tcp_client \<and>
     script_exit bt04_diagnostics fs' = (0, fs')"
proof -
  let ?src = "bt04_chrono_old @ bt04_tx_old"
  have "\<exists>t. apply_edits bt04_hint bt04_edits ?src = Inr t \<and> t \<noteq> ?src" "\<not> occurs bt04_marker ?src"
    by (simp_all add: bt04_edits_def replace_once_def bt04_chrono_old_def bt04_chrono_new_def
        bt04_tx_old_def bt04_tx_new_def bt04_marker_def str_count_def)
  then obtain t where t: "bt04_diagnostics stub_tcp_client = Inr (stub_tcp_client(TCP_CLIENT_CPP \<mapsto> t))"
    "stub_tcp_client TCP_CLIENT_CPP \<noteq> Some t"
    by (auto simp: bt04_diagnostics_def stub_tcp_client_def)
  then have "script_exit bt04_diagnostics stub_tcp_client = (0, stub_tcp_client(TCP_CLIENT_CPP \<mapsto> t))"
    by (simp add: script_exit_def)
  moreover from this have "script_exit bt04_diagnostics (stub_tcp_client(TCP_CLIENT_CPP \<mapsto> t)) =
      (0, stub_tcp_client(TCP_CLIENT_CPP \<mapsto> t))"
    by (rule patchers_idempotent [rotated]) simp
  moreover have "stub_tcp_client(TCP_CLIENT_CPP \<mapsto> t) \<noteq> stub_tcp_client"
    using t(2) by (metis fun_upd_same)
  ultimately show ?thesis by blast
qed

text \<open>A replacement is exact: \<^verbatim>\<open>replace_once\<close> succeeds exactly when the fragment is counted once,
  and then the text before and after the fragment is kept; otherwise it raises and names
  the number it found.\<close>

lemma replace_once_exact:
  assumes "old \<noteq> []"
  shows "case replace_once hint src old new label of
      Inr t \<Rightarrow> str_count old src = 1 \<and> (\<exists>pre post. src = pre @ old @ post \<and> t = pre @ new @ post)
    | Inl e \<Rightarrow> str_count old src \<noteq> 1 \<and> exn_cls e = RuntimeError"
proof (cases "replace_once hint src old new label")
  case (Inl e)
  then show ?thesis by (auto simp: replace_once_def Let_def split: if_splits)
next
  case (Inr t)
  then have "str_count old src = 1" by (auto simp: replace_once_def Let_def split: if_splits)
  then show ?thesis using replace_once_Inr [OF assms Inr] Inr by simp
qed

end
