(* ===== verification/PyPath.thy ===== *)
theory PyPath
  imports PyStr
begin

text \<open>
  Pure POSIX paths as \<^verbatim>\<open>pathlib\<close> has them: a root (empty, one slash, or exactly two
  slashes) and the components, with the empty components and the single dots
  dropped when a string is parsed.  The lemmas show that every path the scripts
  build is in this normal form and that \<^verbatim>\<open>Path(str(p))\<close> gives \<^verbatim>\<open>p\<close> back.
\<close>

datatype path = Path (path_root: string) (path_parts: "string list")

fun split_on :: "char \<Rightarrow> string \<Rightarrow> string list" where
  "split_on c [] = [[]]"
| "split_on c (d # s) =
     (if d = c then [] # split_on c s
      else (case split_on c s of [] \<Rightarrow> [[d]] | x # xs \<Rightarrow> (d # x) # xs))"

definition root_of :: "string \<Rightarrow> string" where
  "root_of s =
     (if prefix ''//'' s \<and> \<not> prefix ''///'' s then ''//''
      else if prefix ''/'' s then ''/'' else [])"

definition proper_part :: "string \<Rightarrow> bool" where
  "proper_part x = (x \<noteq> [] \<and> x \<noteq> ''.'')"

text \<open>\<^verbatim>\<open>Path(s)\<close>, \<^verbatim>\<open>str(p)\<close>, \<^verbatim>\<open>p / s\<close>, \<^verbatim>\<open>p.name\<close> and \<^verbatim>\<open>p.parent\<close>.\<close>

definition py_path :: "string \<Rightarrow> path" where
  "py_path s = Path (root_of s) (filter proper_part (split_on CHR ''/'' s))"

definition path_str :: "path \<Rightarrow> string" where
  "path_str p =
     (if path_root p = [] \<and> path_parts p = [] then ''.''
      else path_root p @ join ''/'' (path_parts p))"

definition path_join :: "path \<Rightarrow> string \<Rightarrow> path" where
  "path_join p s =
     (let q = py_path s in
      if path_root q \<noteq> [] then q else Path (path_root p) (path_parts p @ path_parts q))"

definition path_joins :: "path \<Rightarrow> string list \<Rightarrow> path" where
  "path_joins p ss = foldl path_join p ss"

definition path_name :: "path \<Rightarrow> string" where
  "path_name p = (if path_parts p = [] then [] else last (path_parts p))"

definition path_parent :: "path \<Rightarrow> path" where
  "path_parent p = Path (path_root p) (butlast (path_parts p))"

lemmas path_defs = py_path_def path_str_def path_join_def path_joins_def path_name_def
  path_parent_def root_of_def proper_part_def

section \<open>Normal form\<close>

definition wf_path :: "path \<Rightarrow> bool" where
  "wf_path p \<longleftrightarrow>
     path_root p \<in> {[], ''/'', ''//''} \<and>
     list_all (\<lambda>x. proper_part x \<and> CHR ''/'' \<notin> set x) (path_parts p)"

lemma split_on_not_Nil [simp]: "split_on c s \<noteq> []"
  by (cases s) (auto split: list.splits)

lemma split_on_no_sep: "x \<in> set (split_on c s) \<Longrightarrow> c \<notin> set x"
proof (induction s arbitrary: x)
  case (Cons d s)
  then show ?case by (cases "split_on c s") (auto split: if_splits)
qed simp

lemma split_on_atom [simp]: "c \<notin> set x \<Longrightarrow> split_on c x = [x]"
  by (induction x) auto

lemma split_on_append: "c \<notin> set x \<Longrightarrow> split_on c (x @ c # s) = x # split_on c s"
  by (induction x) auto

lemma split_on_join:
  assumes "xs \<noteq> []" and "\<forall>x \<in> set xs. c \<notin> set x"
  shows "split_on c (join [c] xs) = xs"
  using assms by (induction "[c]" xs rule: join.induct) (simp_all add: split_on_append)

lemma wf_py_path [simp]: "wf_path (py_path s)"
  by (auto simp: wf_path_def py_path_def root_of_def list_all_iff dest: split_on_no_sep)

lemma wf_path_join [simp]: "wf_path p \<Longrightarrow> wf_path (path_join p s)"
  using wf_py_path [of s] by (auto simp: wf_path_def path_join_def Let_def)

lemma wf_path_joins [simp]: "wf_path p \<Longrightarrow> wf_path (path_joins p ss)"
  unfolding path_joins_def by (induction ss arbitrary: p) simp_all

lemma wf_path_parent [simp]: "wf_path p \<Longrightarrow> wf_path (path_parent p)"
  by (auto simp: wf_path_def path_parent_def list_all_iff dest: in_set_butlastD)

lemma join_head: "x \<noteq> [] \<Longrightarrow> hd (join sep (x # xs)) = hd x"
  by (cases xs) simp_all

lemma join_nonempty: "x \<noteq> [] \<Longrightarrow> join sep (x # xs) \<noteq> []"
  by (cases xs) simp_all

lemma join_no_slash:
  assumes "xs \<noteq> []" and "list_all (\<lambda>x. proper_part x \<and> CHR ''/'' \<notin> set x) xs"
  shows "\<exists>d t. join ''/'' xs = d # t \<and> d \<noteq> CHR ''/''"
proof -
  obtain x ys where xs: "xs = x # ys" using assms(1) by (cases xs) auto
  with assms(2) have x: "x \<noteq> []" "CHR ''/'' \<notin> set x" by (auto simp: proper_part_def)
  then have "hd x \<noteq> CHR ''/''" by (metis list.set_sel(1))
  with x xs show ?thesis
    using join_head [of x "''/''" ys] join_nonempty [of x "''/''" ys]
    by (cases "join ''/'' xs") auto
qed

lemma py_path_path_str: "wf_path p \<Longrightarrow> py_path (path_str p) = p"
proof (cases p)
  case (Path r xs)
  assume wf: "wf_path p"
  have parts: "filter proper_part xs = xs"
    using wf Path by (auto simp: wf_path_def list_all_iff intro: filter_True)
  have r: "r = [] \<or> r = ''/'' \<or> r = ''//''" using wf Path by (auto simp: wf_path_def)
  show ?thesis
  proof (cases "xs = []")
    case True
    with r Path show ?thesis by (auto simp: path_defs)
  next
    case False
    obtain d t where j: "join ''/'' xs = d # t" "d \<noteq> CHR ''/''"
      using join_no_slash [of xs] False wf Path by (auto simp: wf_path_def)
    have "split_on CHR ''/'' (join ''/'' xs) = xs"
      using wf Path False by (intro split_on_join) (auto simp: wf_path_def list_all_iff)
    then have "split_on CHR ''/'' (d # t) = xs" using j by simp
    with r Path parts j False show ?thesis
      by (auto simp: py_path_def path_str_def root_of_def proper_part_def [of "[]"])
  qed
qed

end
