(* ===== verification/Host.thy ===== *)
theory Host
  imports PyIO PyPath "HOL-Library.AList"
begin

text \<open>
  The host a build script runs on: the environment variables, the working
  directory, the file system, what was printed, and the commands run so far with
  their outcomes.  The file system is an association list from absolute paths (in
  directory order) to nodes; a path is resolved component by component through
  symbolic links, with the kernel's limit of forty links.  The programs the
  scripts start are a parameter: a function of the commands run before, the command
  and the file system, which gives the outcome of \<^verbatim>\<open>subprocess.run\<close> and the file
  system it leaves.  Permissions and the time stamps of directories are the
  system's: the model lets every access through and takes the latter from a
  parameter.
\<close>

section \<open>State\<close>

text \<open>The text of a file is absent when its bytes do not decode.\<close>

datatype node = File (content: "string option") (mode: nat) (mtime: int) | Dir | Link path

type_synonym fs = "(string list \<times> node) list"
type_synonym env = "string \<Rightarrow> string option"

datatype stream = Stdout | Stderr

record command =
  cmd_argv :: "string list"
  cmd_dir :: path
  cmd_env :: env
  cmd_piped :: bool

type_synonym programs = "command list \<Rightarrow> command \<Rightarrow> fs \<Rightarrow> (int \<times> string) result \<times> fs"

record host =
  script_file :: path
  argv :: "string list"
  environ :: env
  cwd :: "string list"
  files :: fs
  printed :: "(stream \<times> string) list"
  ran :: "(command \<times> int result) list"
  programs :: programs
  dir_mtime :: "fs \<Rightarrow> string list \<Rightarrow> int"
  tty :: bool
  uid :: nat
  gid :: nat

section \<open>Path resolution\<close>

definition node_at :: "fs \<Rightarrow> string list \<Rightarrow> node option" where
  "node_at fs q = (if q = [] then Some Dir else map_of fs q)"

fun walk :: "fs \<Rightarrow> nat \<Rightarrow> string list \<Rightarrow> string list \<Rightarrow> exn_class + string list" where
  "walk fs n cur [] = Inr cur"
| "walk fs n cur (c # cs) =
     (if c = ''..'' then walk fs n (butlast cur) cs
      else (case node_at fs (cur @ [c]) of
              None \<Rightarrow> if cs = [] then Inr (cur @ [c]) else Inl FileNotFoundError
            | Some Dir \<Rightarrow> walk fs n (cur @ [c]) cs
            | Some (File _ _ _) \<Rightarrow> if cs = [] then Inr (cur @ [c]) else Inl OSError
            | Some (Link p) \<Rightarrow>
                if n = 0 then Inl OSError
                else walk fs (n - 1) (if path_root p = [] then cur else []) (path_parts p @ cs)))"

definition max_links :: nat where
  "max_links = 40"

definition abs_parts :: "'z host_scheme \<Rightarrow> path \<Rightarrow> string list" where
  "abs_parts w p = (if path_root p = [] then cwd w @ path_parts p else path_parts p)"

definition path_at :: "'z host_scheme \<Rightarrow> path \<Rightarrow> exn_class + string list" where
  "path_at w p = walk (files w) max_links [] (abs_parts w p)"

text \<open>The entry itself, when the last component is a link it is not followed.\<close>

definition entry_at :: "'z host_scheme \<Rightarrow> path \<Rightarrow> exn_class + string list" where
  "entry_at w p =
     (let ps = abs_parts w p in
      if ps = [] \<or> last ps = ''..'' then walk (files w) max_links [] ps
      else (case walk (files w) max_links [] (butlast ps) of
              Inl e \<Rightarrow> Inl e
            | Inr d \<Rightarrow>
                (case node_at (files w) d of
                   None \<Rightarrow> Inl FileNotFoundError
                 | Some Dir \<Rightarrow> Inr (d @ [last ps])
                 | Some _ \<Rightarrow> Inl OSError)))"

definition stat :: "'z host_scheme \<Rightarrow> path \<Rightarrow> node option" where
  "stat w p = (case path_at w p of Inl _ \<Rightarrow> None | Inr q \<Rightarrow> node_at (files w) q)"

definition lstat :: "'z host_scheme \<Rightarrow> path \<Rightarrow> node option" where
  "lstat w p = (case entry_at w p of Inl _ \<Rightarrow> None | Inr q \<Rightarrow> node_at (files w) q)"

text \<open>\<^verbatim>\<open>p.exists()\<close>, \<^verbatim>\<open>p.is_dir()\<close>, \<^verbatim>\<open>p.is_file()\<close> and \<^verbatim>\<open>p.is_symlink()\<close>: the errors of the
  resolution count as absence.\<close>

definition path_exists :: "path \<Rightarrow> 'z host_scheme \<Rightarrow> bool" where
  "path_exists p w = (stat w p \<noteq> None)"

definition is_dir :: "path \<Rightarrow> 'z host_scheme \<Rightarrow> bool" where
  "is_dir p w = (stat w p = Some Dir)"

definition is_file :: "path \<Rightarrow> 'z host_scheme \<Rightarrow> bool" where
  "is_file p w = (case stat w p of Some (File _ _ _) \<Rightarrow> True | _ \<Rightarrow> False)"

definition is_symlink :: "path \<Rightarrow> 'z host_scheme \<Rightarrow> bool" where
  "is_symlink p w = (case lstat w p of Some (Link _) \<Rightarrow> True | _ \<Rightarrow> False)"

text \<open>\<^verbatim>\<open>p.resolve()\<close>: what does not exist is kept as written.\<close>

fun realpath :: "fs \<Rightarrow> nat \<Rightarrow> string list \<Rightarrow> string list \<Rightarrow> string list option" where
  "realpath fs n cur [] = Some cur"
| "realpath fs n cur (c # cs) =
     (if c = ''..'' then realpath fs n (butlast cur) cs
      else (case node_at fs (cur @ [c]) of
              Some (Link p) \<Rightarrow>
                if n = 0 then None
                else realpath fs (n - 1) (if path_root p = [] then cur else []) (path_parts p @ cs)
            | _ \<Rightarrow> realpath fs n (cur @ [c]) cs))"

section \<open>Operations\<close>

definition resolve :: "path \<Rightarrow> ('z host_scheme, path) io" where
  "resolve p w =
     (case realpath (files w) max_links [] (abs_parts w p) of
        Some q \<Rightarrow> (Ok (Path ''/'' q), w)
      | None \<Rightarrow> (Raise (Exn RuntimeError ''Symlink loop''), w))"

definition print_to :: "stream \<Rightarrow> string \<Rightarrow> ('z host_scheme, unit) io" where
  "print_to s txt = modify (\<lambda>w. w\<lparr>printed := printed w @ [(s, txt)]\<rparr>)"

definition sys_exit :: "int \<Rightarrow> ('z host_scheme, 'a) io" where
  "sys_exit n = throw (SystemExit n) []"

text \<open>\<^verbatim>\<open>os.environ[key] = value\<close>: a NUL byte or an equals sign in the key is refused by Python, an
  empty key by \<^verbatim>\<open>setenv\<close>.\<close>

definition setenv :: "string \<Rightarrow> string \<Rightarrow> ('z host_scheme, unit) io" where
  "setenv key v =
     (if CHR 0x00 \<in> set key \<or> CHR 0x00 \<in> set v then throw ValueError ''embedded null byte''
      else if CHR ''='' \<in> set key then throw ValueError ''illegal environment variable name''
      else if key = [] then throw OSError ''Invalid argument''
      else modify (\<lambda>w. w\<lparr>environ := (environ w)(key \<mapsto> v)\<rparr>))"

definition chdir :: "path \<Rightarrow> ('z host_scheme, unit) io" where
  "chdir p w =
     (case path_at w p of
        Inl c \<Rightarrow> (Raise (Exn c ''chdir''), w)
      | Inr q \<Rightarrow>
          (case node_at (files w) q of
             None \<Rightarrow> (Raise (Exn FileNotFoundError ''chdir''), w)
           | Some Dir \<Rightarrow> (Ok (), w\<lparr>cwd := q\<rparr>)
           | Some _ \<Rightarrow> (Raise (Exn OSError ''chdir''), w)))"

definition unlink :: "path \<Rightarrow> ('z host_scheme, unit) io" where
  "unlink p w =
     (case entry_at w p of
        Inl c \<Rightarrow> (Raise (Exn c ''unlink''), w)
      | Inr q \<Rightarrow>
          (case node_at (files w) q of
             None \<Rightarrow> (Raise (Exn FileNotFoundError ''unlink''), w)
           | Some Dir \<Rightarrow> (Raise (Exn OSError ''unlink''), w)
           | Some _ \<Rightarrow> (Ok (), w\<lparr>files := AList.delete q (files w)\<rparr>)))"

definition os_mkdir :: "path \<Rightarrow> ('z host_scheme, unit) io" where
  "os_mkdir p w =
     (case entry_at w p of
        Inl c \<Rightarrow> (Raise (Exn c ''mkdir''), w)
      | Inr q \<Rightarrow>
          (if node_at (files w) q = None then (Ok (), w\<lparr>files := files w @ [(q, Dir)]\<rparr>)
           else (Raise (Exn OSError ''mkdir''), w)))"

text \<open>\<^verbatim>\<open>Path.mkdir\<close> without and with \<^verbatim>\<open>parents=True\<close>.\<close>

definition mkdir_one :: "bool \<Rightarrow> path \<Rightarrow> ('z host_scheme, unit) io" where
  "mkdir_one exist_ok p =
     try_except (os_mkdir p) (\<lambda>e.
       if instance_of e FileNotFoundError then None
       else if instance_of e OSError then
         Some (bindE (gets (is_dir p)) (\<lambda>d. if \<not> exist_ok \<or> \<not> d then rethrow e else ret ()))
       else None)"

function mkdir_parents :: "bool \<Rightarrow> path \<Rightarrow> ('z host_scheme, unit) io" where
  "mkdir_parents exist_ok p =
     try_except (os_mkdir p) (\<lambda>e.
       if instance_of e FileNotFoundError then
         Some (if path_parts p = [] then rethrow e
               else seqE (mkdir_parents True (path_parent p)) (mkdir_one exist_ok p))
       else if instance_of e OSError then
         Some (bindE (gets (is_dir p)) (\<lambda>d. if \<not> exist_ok \<or> \<not> d then rethrow e else ret ()))
       else None)"
  by pat_completeness auto
termination
  by (relation "measure (\<lambda>(_, p). length (path_parts p))") (auto simp: path_parent_def)

declare mkdir_parents.simps [simp del]

definition rmtree :: "path \<Rightarrow> ('z host_scheme, unit) io" where
  "rmtree p w =
     (case entry_at w p of
        Inl c \<Rightarrow> (Raise (Exn c ''rmtree''), w)
      | Inr q \<Rightarrow>
          (case node_at (files w) q of
             None \<Rightarrow> (Raise (Exn FileNotFoundError ''rmtree''), w)
           | Some Dir \<Rightarrow> (Ok (), w\<lparr>files := filter (\<lambda>(x, _). \<not> prefix q x) (files w)\<rparr>)
           | Some _ \<Rightarrow> (Raise (Exn OSError ''rmtree''), w)))"

text \<open>\<^verbatim>\<open>shutil.copy2\<close>: content, mode and modification time; into the directory when the
  destination is one.\<close>

definition copy2 :: "path \<Rightarrow> path \<Rightarrow> ('z host_scheme, unit) io" where
  "copy2 src dst0 w =
     (let dst = (if is_dir dst0 w then path_join dst0 (path_name src) else dst0) in
      case (path_at w src, path_at w dst) of
        (Inl c, _) \<Rightarrow> (Raise (Exn c ''copy2''), w)
      | (_, Inl c) \<Rightarrow> (Raise (Exn c ''copy2''), w)
      | (Inr s, Inr d) \<Rightarrow>
          (case node_at (files w) s of
             None \<Rightarrow> (Raise (Exn FileNotFoundError ''copy2''), w)
           | Some (File t m i) \<Rightarrow>
               (if s = d \<or> node_at (files w) d = Some Dir then (Raise (Exn OSError ''copy2''), w)
                else (Ok (), w\<lparr>files := AList.update d (File t m i) (files w)\<rparr>))
           | Some _ \<Rightarrow> (Raise (Exn OSError ''copy2''), w)))"

definition chmod :: "path \<Rightarrow> nat \<Rightarrow> ('z host_scheme, unit) io" where
  "chmod p m w =
     (case path_at w p of
        Inl c \<Rightarrow> (Raise (Exn c ''chmod''), w)
      | Inr q \<Rightarrow>
          (case node_at (files w) q of
             None \<Rightarrow> (Raise (Exn FileNotFoundError ''chmod''), w)
           | Some (File t _ i) \<Rightarrow> (Ok (), w\<lparr>files := AList.update q (File t m i) (files w)\<rparr>)
           | Some _ \<Rightarrow> (Ok (), w)))"

definition getmtime :: "path \<Rightarrow> ('z host_scheme, int) io" where
  "getmtime p w =
     (case path_at w p of
        Inl c \<Rightarrow> (Raise (Exn c ''getmtime''), w)
      | Inr q \<Rightarrow>
          (case node_at (files w) q of
             None \<Rightarrow> (Raise (Exn FileNotFoundError ''getmtime''), w)
           | Some (File _ _ i) \<Rightarrow> (Ok i, w)
           | Some _ \<Rightarrow> (Ok (dir_mtime w (files w) q), w)))"

text \<open>\<^verbatim>\<open>list(p.glob(pattern))\<close> for a pattern without a slash, given by the predicate on names.\<close>

definition children :: "fs \<Rightarrow> string list \<Rightarrow> string list" where
  "children fs d = map (\<lambda>(q, _). last q) (filter (\<lambda>(q, _). q \<noteq> [] \<and> butlast q = d) fs)"

definition glob :: "(string \<Rightarrow> bool) \<Rightarrow> path \<Rightarrow> 'z host_scheme \<Rightarrow> path list" where
  "glob pat p w =
     (case path_at w p of
        Inr d \<Rightarrow>
          (if node_at (files w) d = Some Dir
           then map (\<lambda>x. Path (path_root p) (path_parts p @ [x])) (filter pat (children (files w) d))
           else [])
      | Inl _ \<Rightarrow> [])"

text \<open>\<^verbatim>\<open>for line in open(p)\<close>: carriage return, line feed and both together end a line.\<close>

fun file_lines :: "string \<Rightarrow> string \<Rightarrow> string list" where
  "file_lines acc [] = (if acc = [] then [] else [rev acc])"
| "file_lines acc (c # s) =
     (if c = CHR 0x0D \<and> s \<noteq> [] \<and> hd s = CHR 0x0A then rev (CHR 0x0A # acc) # file_lines [] (tl s)
      else if c = CHR 0x0D \<or> c = CHR 0x0A then rev (CHR 0x0A # acc) # file_lines [] s
      else file_lines (c # acc) s)"

definition open_lines :: "path \<Rightarrow> ('z host_scheme, string list) io" where
  "open_lines p w =
     (case path_at w p of
        Inl c \<Rightarrow> (Raise (Exn c ''open''), w)
      | Inr q \<Rightarrow>
          (case node_at (files w) q of
             None \<Rightarrow> (Raise (Exn FileNotFoundError ''open''), w)
           | Some (File (Some t) _ _) \<Rightarrow> (Ok (file_lines [] t), w)
           | Some (File None _ _) \<Rightarrow> (Raise (Exn UnicodeError ''open''), w)
           | Some _ \<Rightarrow> (Raise (Exn OSError ''open''), w)))"

text \<open>\<^verbatim>\<open>max(paths, key=os.path.getmtime)\<close> on a nonempty list: the first of the newest.\<close>

fun newest_from :: "path \<Rightarrow> int \<Rightarrow> path list \<Rightarrow> ('z host_scheme, path) io" where
  "newest_from best t [] = ret best"
| "newest_from best t (p # ps) =
     bindE (getmtime p) (\<lambda>u. if t < u then newest_from p u ps else newest_from best t ps)"

fun newest :: "path list \<Rightarrow> ('z host_scheme, path) io" where
  "newest [] = throw ValueError ''max() arg is an empty sequence''"
| "newest (p # ps) = bindE (getmtime p) (\<lambda>t. newest_from p t ps)"

text \<open>\<^verbatim>\<open>subprocess.run(args, cwd=dir)\<close>; with \<^verbatim>\<open>piped\<close> the standard output is captured.\<close>

definition command_of :: "'z host_scheme \<Rightarrow> string list \<Rightarrow> path option \<Rightarrow> bool \<Rightarrow> command" where
  "command_of w args dir piped =
     \<lparr>cmd_argv = args,
      cmd_dir = (case dir of None \<Rightarrow> Path ''/'' (cwd w) | Some p \<Rightarrow> Path ''/'' (abs_parts w p)),
      cmd_env = environ w, cmd_piped = piped\<rparr>"

fun map_result :: "('a \<Rightarrow> 'b) \<Rightarrow> 'a result \<Rightarrow> 'b result" where
  "map_result f (Ok x) = Ok (f x)"
| "map_result f (Raise e) = Raise e"
| "map_result f Diverge = Diverge"

definition subprocess_run ::
  "string list \<Rightarrow> path option \<Rightarrow> bool \<Rightarrow> ('z host_scheme, int \<times> string) io" where
  "subprocess_run args dir piped w =
     (let c = command_of w args dir piped;
          (r, fs) = programs w (map fst (ran w)) c (files w) in
      (r, w\<lparr>files := fs, ran := ran w @ [(c, map_result fst r)]\<rparr>))"

text \<open>The status the interpreter ends with; none when it does not end.\<close>

fun exit_status :: "'a result \<Rightarrow> int option" where
  "exit_status (Ok x) = Some 0"
| "exit_status (Raise e) =
     (case exn_cls e of
        SystemExit n \<Rightarrow> Some (n mod 256)
      | KeyboardInterrupt \<Rightarrow> Some 130
      | _ \<Rightarrow> Some 1)"
| "exit_status Diverge = None"

lemmas host_ops = resolve_def print_to_def sys_exit_def setenv_def chdir_def unlink_def os_mkdir_def
  mkdir_one_def rmtree_def copy2_def chmod_def getmtime_def open_lines_def subprocess_run_def
  command_of_def
lemmas host_queries = node_at_def max_links_def abs_parts_def path_at_def entry_at_def stat_def lstat_def
  path_exists_def is_dir_def is_file_def is_symlink_def children_def glob_def

end
