(* ===== verification/ArgParse.thy ===== *)
theory ArgParse
  imports Host
begin

text \<open>
  \<^verbatim>\<open>argparse.ArgumentParser.parse_args\<close> for the parsers the scripts declare: options
  that set a flag, options with one value and perhaps a set of choices, the help
  option every parser has, and at most one positional argument with \<^verbatim>\<open>nargs="?"\<close>.
  The arguments are first classified (exact options, \<^verbatim>\<open>--name=value\<close>, unambiguous
  abbreviations, clusters of one-letter flags, negative numbers, the separator
  \<^verbatim>\<open>--\<close>) and then consumed from left to right.  Asking for help ends the script
  with status 0, an error with status 2; the wording of the usage message is not
  modelled.
\<close>

datatype arg_value = AStr (arg_str: string) | ABool (arg_flag: bool)

datatype action = StoreTrue | Store (choices: "string list option") | HelpAction

datatype option_spec = OptSpec (flags: "string list") (dest: string) (action: action)

type_synonym namespace = "(string \<times> arg_value) list"

record parser =
  options :: "option_spec list"
  positional :: "string option"
  defaults :: namespace

datatype arg_class =
    Pos string
  | Known option_spec string "string option"
  | Unknown string
  | Dashes

definition help_option :: option_spec where
  "help_option = OptSpec [''-h'', ''--help''] ''help'' HelpAction"

definition find_option :: "parser \<Rightarrow> string \<Rightarrow> option_spec option" where
  "find_option p f = find (\<lambda>oc. f \<in> set (flags oc)) (options p)"

definition all_flags :: "parser \<Rightarrow> (string \<times> option_spec) list" where
  "all_flags p = concat (map (\<lambda>oc. map (\<lambda>f. (f, oc)) (flags oc)) (options p))"

definition abbreviations :: "parser \<Rightarrow> string \<Rightarrow> arg_class list" where
  "abbreviations p arg =
     (if prefix ''--'' arg then
        (let (pre, ex) = (case split_once CHR ''='' arg of
                            Some (a, b) \<Rightarrow> (a, Some b) | None \<Rightarrow> (arg, None)) in
         map (\<lambda>(f, oc). Known oc f ex) (filter (\<lambda>(f, _). prefix pre f) (all_flags p)))
      else
        concat (map (\<lambda>(f, oc).
          if f = take 2 arg then [Known oc f (Some (drop 2 arg))]
          else if prefix arg f then [Known oc f None] else []) (all_flags p)))"

definition negative_number :: "string \<Rightarrow> bool" where
  "negative_number s =
     (prefix ''-'' s \<and>
      ((tl s \<noteq> [] \<and> list_all is_digit (tl s)) \<or>
       (case split_once CHR ''.'' (tl s) of
          Some (a, b) \<Rightarrow> list_all is_digit a \<and> b \<noteq> [] \<and> list_all is_digit b
        | None \<Rightarrow> False)))"

definition classify :: "parser \<Rightarrow> string \<Rightarrow> arg_class option" where
  "classify p arg =
     (if \<not> prefix ''-'' arg then Some (Pos arg)
      else case find_option p arg of
        Some oc \<Rightarrow> Some (Known oc arg None)
      | None \<Rightarrow>
          if length arg = 1 then Some (Pos arg)
          else
            (case (case split_once CHR ''='' arg of
                     Some (f, x) \<Rightarrow> map_option (\<lambda>oc. Known oc f (Some x)) (find_option p f)
                   | None \<Rightarrow> None) of
               Some k \<Rightarrow> Some k
             | None \<Rightarrow>
                 (case abbreviations p arg of
                    [] \<Rightarrow> Some (if negative_number arg \<or> CHR '' '' \<in> set arg then Pos arg else Unknown arg)
                  | [k] \<Rightarrow> Some k
                  | _ \<Rightarrow> None)))"

fun classify_all :: "parser \<Rightarrow> string list \<Rightarrow> arg_class list option" where
  "classify_all p [] = Some []"
| "classify_all p (a # as) =
     (if a = ''--'' then Some (Dashes # map Pos as)
      else case classify p a of
        None \<Rightarrow> None
      | Some k \<Rightarrow> map_option (Cons k) (classify_all p as))"

text \<open>The options of a cluster \<^verbatim>\<open>-abc\<close>, after its first letter.\<close>

fun cluster :: "parser \<Rightarrow> string \<Rightarrow> option_spec list option" where
  "cluster p [] = Some []"
| "cluster p (c # cs) =
     (case find_option p [CHR ''-'', c] of
        None \<Rightarrow> None
      | Some oc \<Rightarrow> map_option (Cons oc) (cluster p cs))"

text \<open>Left: the status to exit with.  Right: the namespace and the arguments not recognized.\<close>

type_synonym parsed = "int + namespace \<times> string list"

fun run_flags :: "option_spec list \<Rightarrow> namespace \<Rightarrow> int + namespace" where
  "run_flags [] ns = Inr ns"
| "run_flags (o1 # os) ns =
     (if action o1 = HelpAction then Inl 0
      else run_flags os (AList.update (dest o1) (ABool True) ns))"

definition store :: "option_spec \<Rightarrow> string list option \<Rightarrow> string \<Rightarrow> namespace \<Rightarrow> namespace option" where
  "store o1 ch v ns =
     (if (case ch of None \<Rightarrow> True | Some cs \<Rightarrow> v \<in> set cs)
      then Some (AList.update (dest o1) (AStr v) ns) else None)"

fun consume :: "parser \<Rightarrow> arg_class list \<Rightarrow> namespace \<Rightarrow> string list \<Rightarrow> bool \<Rightarrow> parsed" where
  "consume p [] ns extra used = Inr (ns, extra)"
| "consume p (Pos s # ks) ns extra used =
     (case positional p of
        Some d \<Rightarrow>
          if used then consume p ks ns (extra @ [s]) used
          else consume p ks (AList.update d (AStr s) ns) extra True
      | None \<Rightarrow> consume p ks ns (extra @ [s]) used)"
| "consume p (Dashes # ks) ns extra used = consume p ks ns extra used"
| "consume p (Unknown s # ks) ns extra used = consume p ks ns (extra @ [s]) used"
| "consume p (Known o1 f None # ks) ns extra used =
     (case action o1 of
        HelpAction \<Rightarrow> Inl 0
      | StoreTrue \<Rightarrow> consume p ks (AList.update (dest o1) (ABool True) ns) extra used
      | Store ch \<Rightarrow>
          (case ks of
             Pos v # rest \<Rightarrow>
               (case store o1 ch v ns of Some ns' \<Rightarrow> consume p rest ns' extra used | None \<Rightarrow> Inl 2)
           | Dashes # Pos v # rest \<Rightarrow>
               (case store o1 ch v ns of Some ns' \<Rightarrow> consume p rest ns' extra used | None \<Rightarrow> Inl 2)
           | _ \<Rightarrow> Inl 2))"
| "consume p (Known o1 f (Some x) # ks) ns extra used =
     (case action o1 of
        Store ch \<Rightarrow>
          (case store o1 ch x ns of Some ns' \<Rightarrow> consume p ks ns' extra used | None \<Rightarrow> Inl 2)
      | _ \<Rightarrow>
          if prefix ''--'' f \<or> x = [] then Inl 2
          else
            (case cluster p x of
               None \<Rightarrow> Inl 2
             | Some os \<Rightarrow>
                 (case run_flags (o1 # os) ns of
                    Inl n \<Rightarrow> Inl n
                  | Inr ns' \<Rightarrow> consume p ks ns' extra used)))"

definition parse_list :: "parser \<Rightarrow> string list \<Rightarrow> int + namespace" where
  "parse_list p args =
     (case classify_all p args of
        None \<Rightarrow> Inl 2
      | Some ks \<Rightarrow>
          (case consume p ks (defaults p) [] False of
             Inl n \<Rightarrow> Inl n
           | Inr (ns, extra) \<Rightarrow> if extra = [] then Inr ns else Inl 2))"

definition run_parser :: "parser \<Rightarrow> ('z host_scheme, namespace) io" where
  "run_parser p =
     bindE (gets argv) (\<lambda>args.
       case parse_list p (tl args) of
         Inr ns \<Rightarrow> ret ns
       | Inl n \<Rightarrow> seqE (print_to (if n = 0 then Stdout else Stderr) ''usage'') (sys_exit n))"

definition arg_text :: "namespace \<Rightarrow> string \<Rightarrow> string" where
  "arg_text ns d = (case map_of ns d of Some (AStr s) \<Rightarrow> s | _ \<Rightarrow> [])"

definition arg_set :: "namespace \<Rightarrow> string \<Rightarrow> bool" where
  "arg_set ns d = (map_of ns d = Some (ABool True))"

lemmas argparse_eval = parse_list_def classify_def abbreviations_def find_option_def all_flags_def
  negative_number_def store_def arg_text_def arg_set_def help_option_def

text \<open>An argument that does not begin with a dash stands for itself.\<close>

lemma classify_word [simp]: "\<not> prefix ''-'' a \<Longrightarrow> classify p a = Some (Pos a)"
  by (simp add: classify_def)

text \<open>The only statuses the parser itself ends with are 0 and 2.\<close>

lemma run_flags_status: "run_flags os ns = Inl n \<Longrightarrow> n = 0"
  by (induction os arbitrary: ns) (auto split: if_splits)

lemma consume_status: "consume p ks ns extra used = Inl n \<Longrightarrow> n = 0 \<or> n = 2"
proof (induction p ks ns extra used rule: consume.induct)
  case (6 p o1 f x ks ns extra used)
  then show ?case
    by (auto split: action.splits option.splits sum.splits if_splits dest: run_flags_status)
qed (auto split: action.splits option.splits list.splits arg_class.splits if_splits)

lemma parse_list_status: "parse_list p args = Inl n \<Longrightarrow> n = 0 \<or> n = 2"
  by (auto simp: parse_list_def split: option.splits sum.splits prod.splits if_splits
      dest: consume_status)

end
