(* ===== verification/HostLogic.thy ===== *)
theory HostLogic
  imports ArgParse
begin

text \<open>
  Reasoning about scripts.  The locale \<^verbatim>\<open>mkdir_order\<close> is what \<^verbatim>\<open>Path.mkdir\<close> needs of a relation,
  \<^verbatim>\<open>quiet_order\<close> is the interface of a relation
  between the state before and after that every system call respects, and
  \<^verbatim>\<open>host_order\<close> adds the starting of programs;
  its lemmas carry the relation through \<^verbatim>\<open>mkdir\<close>, the argument parser and the choice
  of the newest file, and the theories of the scripts extend it to every script.
  It is interpreted with the well-formedness of the directory tree and with the
  growth of the output and of the command log.  The second half is the discipline
  of the command log: only the last command of a script may have failed, and a
  script that ends with status 0 had no failure at all.
\<close>

section \<open>Well-formed trees\<close>

text \<open>Every path has one entry, and the parent of an entry is a directory.\<close>

definition wf_fs :: "fs \<Rightarrow> bool" where
  "wf_fs fs \<longleftrightarrow>
     distinct (map fst fs) \<and>
     list_all (\<lambda>(q, _). q \<noteq> [] \<and> node_at fs (butlast q) = Some Dir) fs"

lemma node_at_Nil [simp]: "node_at fs [] = Some Dir"
  by (simp add: node_at_def)

lemma wf_fs_parent:
  assumes "wf_fs fs" and "node_at fs q = Some n"
  shows "node_at fs (butlast q) = Some Dir"
proof (cases "q = []")
  case False
  then have "(q, n) \<in> set fs" using assms(2) by (simp add: node_at_def map_of_SomeD)
  then show ?thesis using assms(1) by (auto simp: wf_fs_def list_all_iff)
qed simp

text \<open>A resolved path is an entry, or a new name in a directory; it is never a link.\<close>

lemma walk_parent:
  assumes "walk fs n cur todo = Inr q" and "node_at fs cur = Some Dir" and "wf_fs fs"
  shows "node_at fs (butlast q) = Some Dir"
  using assms
proof (induction fs n cur todo rule: walk.induct)
  case (1 fs n cur)
  then show ?case by (auto intro: wf_fs_parent)
next
  case (2 fs n cur c cs)
  then show ?case using wf_fs_parent [of fs cur Dir]
    by (auto split: option.splits node.splits if_splits)
qed

lemma walk_no_link: "walk fs n cur todo = Inr q \<Longrightarrow> node_at fs cur = Some Dir \<Longrightarrow> wf_fs fs
    \<Longrightarrow> node_at fs q \<noteq> Some (Link p)"
proof (induction fs n cur todo rule: walk.induct)
  case (2 fs n cur c cs)
  then show ?case using wf_fs_parent [of fs cur Dir]
    by (auto split: option.splits node.splits if_splits)
qed auto

lemma path_at_parent:
  "wf_fs (files w) \<Longrightarrow> path_at w p = Inr q \<Longrightarrow> node_at (files w) (butlast q) = Some Dir"
  unfolding path_at_def by (metis node_at_Nil walk_parent)

lemma path_at_no_link:
  "wf_fs (files w) \<Longrightarrow> path_at w p = Inr q \<Longrightarrow> node_at (files w) q \<noteq> Some (Link l)"
  unfolding path_at_def by (metis node_at_Nil walk_no_link)

lemma entry_at_parent:
  assumes "wf_fs (files w)" and "entry_at w p = Inr q"
  shows "node_at (files w) (butlast q) = Some Dir"
  using assms walk_parent [OF _ node_at_Nil assms(1)]
  by (auto simp: entry_at_def Let_def split: if_splits sum.splits option.splits node.splits)

lemma node_at_delete: "node_at (AList.delete q fs) x = (if x = q \<and> q \<noteq> [] then None else node_at fs x)"
  by (auto simp: node_at_def AList.delete_conv')

lemma node_at_update: "q \<noteq> [] \<Longrightarrow> node_at (AList.update q n fs) x = (if x = q then Some n else node_at fs x)"
  by (auto simp: node_at_def AList.update_conv')

lemma node_at_snoc: "node_at (fs @ [(q, n)]) x =
    (case node_at fs x of Some m \<Rightarrow> Some m | None \<Rightarrow> if x = q then Some n else None)"
  by (auto simp: node_at_def map_of_append map_add_def split: option.splits)

lemma map_of_filter_keys: "map_of (filter (\<lambda>(x, _). P x) fs) q = (if P q then map_of fs q else None)"
  by (induction fs) auto

lemma node_at_filter:
  "node_at (filter (\<lambda>(x, _). \<not> prefix q x) fs) x =
     (if x \<noteq> [] \<and> prefix q x then None else node_at fs x)"
  by (simp add: node_at_def map_of_filter_keys)

lemma wf_fs_iff:
  "wf_fs fs \<longleftrightarrow> distinct (map fst fs) \<and>
     (\<forall>q \<in> fst ` set fs. q \<noteq> [] \<and> node_at fs (butlast q) = Some Dir)"
  by (auto simp: wf_fs_def list_all_iff split: prod.splits)

lemma wf_fs_delete:
  assumes wf: "wf_fs fs" and q: "node_at fs q \<noteq> Some Dir"
  shows "wf_fs (AList.delete q fs)"
proof -
  have ne: "q \<noteq> []" using q by auto
  have keys: "fst ` set (AList.delete q fs) = fst ` set fs - {q}"
    by (metis AList.delete_keys set_map set_removeAll)
  have "distinct (map fst (AList.delete q fs))"
    using wf by (simp add: wf_fs_iff AList.delete_keys distinct_removeAll)
  then show ?thesis
    using assms ne unfolding wf_fs_iff keys by (auto simp: node_at_delete)
qed

lemma wf_fs_update:
  assumes wf: "wf_fs fs" and par: "node_at fs (butlast q) = Some Dir"
    and q: "node_at fs q \<noteq> Some Dir"
  shows "wf_fs (AList.update q n fs)"
proof -
  have ne: "q \<noteq> []" using q by auto
  have keys: "fst ` set (AList.update q n fs) = insert q (fst ` set fs)"
    by (simp add: AList.dom_update)
  show ?thesis
    using wf par q ne unfolding wf_fs_iff keys
    by (auto simp: AList.distinct_update node_at_update)
qed

lemma wf_fs_mkdir:
  assumes "wf_fs fs" and "node_at fs (butlast q) = Some Dir" and "node_at fs q = None"
  shows "wf_fs (fs @ [(q, Dir)])"
proof -
  have q: "q \<noteq> []" "q \<notin> fst ` set fs"
    using assms(3) by (auto simp: node_at_def map_of_eq_None_iff split: if_splits)
  show ?thesis
    using assms q unfolding wf_fs_iff by (auto simp: node_at_snoc)
qed

lemma wf_fs_rmtree:
  assumes "wf_fs fs"
  shows "wf_fs (filter (\<lambda>(x, _). \<not> prefix q x) fs)"
proof -
  have 1: "distinct (map fst (filter (\<lambda>(x, _). \<not> prefix q x) fs))"
    using assms by (auto simp: wf_fs_iff distinct_map_filter)
  have up: "\<not> prefix q x \<Longrightarrow> \<not> prefix q (butlast x)" for x
    using prefixeq_butlast [of x] prefix_order.trans by blast
  show ?thesis
    using assms 1 up unfolding wf_fs_iff by (auto simp: node_at_filter)
qed

section \<open>Resolution along real directories\<close>

lemma wf_prefix_dir:
  assumes "wf_fs fs" and "node_at fs (p @ q) = Some Dir"
  shows "node_at fs p = Some Dir"
  using assms(2)
proof (induction q rule: rev_induct)
  case (snoc x q)
  then show ?case using wf_fs_parent [OF assms(1), of "p @ q @ [x]" Dir] by (simp add: butlast_append)
qed simp

lemma walk_real:
  assumes "wf_fs fs" and "node_at fs (cur @ q) = Some Dir" and "''..'' \<notin> set q"
  shows "walk fs n cur (q @ cs) = walk fs n (cur @ q) cs"
  using assms(2,3)
proof (induction q arbitrary: cur)
  case (Cons x q)
  then have "node_at fs (cur @ [x]) = Some Dir"
    using wf_prefix_dir [OF assms(1), of "cur @ [x]" q] by simp
  moreover have "x \<noteq> ''..''" using Cons.prems by auto
  ultimately show ?case using Cons by simp
qed simp

lemma walk_real_dir:
  "wf_fs fs \<Longrightarrow> node_at fs q = Some Dir \<Longrightarrow> ''..'' \<notin> set q \<Longrightarrow> walk fs n [] q = Inr q"
  using walk_real [of fs "[]" q n "[]"] by simp

lemma walk_leaf:
  assumes "wf_fs fs" and "node_at fs q = Some Dir" and "''..'' \<notin> set q" and "c \<noteq> ''..''"
    and "\<forall>l. node_at fs (q @ [c]) \<noteq> Some (Link l)"
  shows "walk fs n [] (q @ [c]) = Inr (q @ [c])"
  using walk_real [of fs "[]" q n "[c]"] assms by (auto split: option.splits node.splits)

lemma entry_at_real:
  assumes "wf_fs (files w)" and "abs_parts w p = q @ [c]" and "node_at (files w) q = Some Dir"
    and "''..'' \<notin> set q" and "c \<noteq> ''..''"
  shows "entry_at w p = Inr (q @ [c])"
  using assms by (simp add: entry_at_def walk_real_dir)

lemma path_at_leaf:
  assumes "wf_fs (files w)" and "abs_parts w p = q @ [c]" and "node_at (files w) q = Some Dir"
    and "''..'' \<notin> set q" and "c \<noteq> ''..''" and "\<forall>l. node_at (files w) (q @ [c]) \<noteq> Some (Link l)"
  shows "path_at w p = Inr (q @ [c])"
  using assms by (simp add: path_at_def walk_leaf)

section \<open>Relations every script respects\<close>

locale mkdir_order = state_order R for R :: "'z host_scheme \<Rightarrow> 'z host_scheme \<Rightarrow> bool" +
  assumes on_mkdir: "evolves R (os_mkdir p)"
begin

lemma ev_mkdir_one: "evolves R (mkdir_one ok p)"
  unfolding mkdir_one_def
  by (rule ev_try_except [OF on_mkdir]) (auto intro!: ev_bind ev_pure split: if_splits)

lemma ev_mkdir_parents: "evolves R (mkdir_parents ok p)"
proof (induction "length (path_parts p)" arbitrary: ok p rule: less_induct)
  case less
  have IH: "evolves R (mkdir_parents True (path_parent p))" if "path_parts p \<noteq> []"
    using that by (intro less) (simp add: path_parent_def)
  show ?case
    by (subst mkdir_parents.simps, rule ev_try_except [OF on_mkdir])
      (auto intro!: ev_bind ev_seq ev_pure ev_mkdir_one IH split: if_splits)
qed

end

locale quiet_order = mkdir_order +
  assumes on_print: "evolves R (print_to s txt)"
    and on_setenv: "evolves R (setenv k v)"
    and on_chdir: "evolves R (chdir p)"
    and on_unlink: "evolves R (unlink p)"
    and on_rmtree: "evolves R (rmtree p)"
    and on_copy2: "evolves R (copy2 p p')"
    and on_chmod: "evolves R (chmod p m)"
begin

lemma ev_read: "(\<And>w. snd (m w) = w) \<Longrightarrow> evolves R m"
  by (simp add: evolves_def refl)

lemma ev_resolve: "evolves R (resolve p)"
  by (rule ev_read) (simp add: resolve_def split: option.splits)

lemma ev_getmtime: "evolves R (getmtime p)"
  by (rule ev_read) (simp add: getmtime_def split: sum.splits option.splits node.splits)

lemma ev_open_lines: "evolves R (open_lines p)"
  by (rule ev_read) (simp add: open_lines_def split: sum.splits option.splits node.splits)

lemma ev_exit: "evolves R (sys_exit n)"
  unfolding sys_exit_def by (rule ev_pure)

lemma ev_if: "evolves R m \<Longrightarrow> evolves R n \<Longrightarrow> evolves R (if b then m else n)"
  by simp

lemma ev_case_prod: "(\<And>x y. evolves R (f x y)) \<Longrightarrow> evolves R (case z of (x, y) \<Rightarrow> f x y)"
  by (cases z) simp

lemma ev_case_option:
  "evolves R m \<Longrightarrow> (\<And>x. evolves R (f x)) \<Longrightarrow> evolves R (case z of None \<Rightarrow> m | Some x \<Rightarrow> f x)"
  by (cases z) simp_all

lemma ev_caught: "evolves R m \<Longrightarrow> (\<And>e. evolves R (k e)) \<Longrightarrow> evolves R (try_except m (catches cs k))"
  by (rule ev_try_except) (auto intro: ev_catches)

lemma ev_newest_from: "evolves R (newest_from b t ps)"
  by (induction ps arbitrary: b t) (auto intro!: ev_bind ev_pure ev_getmtime)

lemma ev_newest: "evolves R (newest ps)"
  by (cases ps) (auto intro!: ev_bind ev_pure ev_getmtime ev_newest_from)

lemma ev_run_parser: "evolves R (run_parser p)"
  unfolding run_parser_def
  by (auto intro!: ev_bind ev_pure ev_seq on_print ev_exit split: sum.splits)

lemmas host_rules = ev_rules ev_resolve ev_getmtime ev_open_lines ev_exit ev_if ev_case_prod
  ev_case_option ev_caught ev_mkdir_parents ev_newest ev_run_parser ev_for_each on_print on_setenv
  on_chdir on_unlink on_rmtree on_copy2 on_chmod

end

locale host_order = quiet_order +
  assumes on_run: "evolves R (subprocess_run args dir piped)"

text \<open>The tree stays well-formed when the programs keep it so.\<close>

definition tidy :: "programs \<Rightarrow> bool" where
  "tidy pr \<longleftrightarrow> (\<forall>h c fs. wf_fs fs \<longrightarrow> wf_fs (snd (pr h c fs)))"

definition keeps_tree :: "'z host_scheme \<Rightarrow> 'z host_scheme \<Rightarrow> bool" where
  "keeps_tree w w' \<longleftrightarrow>
     programs w' = programs w \<and> (tidy (programs w) \<longrightarrow> wf_fs (files w) \<longrightarrow> wf_fs (files w'))"

lemma keeps_tree_unlink: "evolves keeps_tree (unlink p)"
  by (auto simp: evolves_def keeps_tree_def unlink_def wf_fs_delete
      split: sum.splits option.splits node.splits)

lemma keeps_tree_os_mkdir: "evolves keeps_tree (os_mkdir p)"
  by (auto simp: evolves_def keeps_tree_def os_mkdir_def wf_fs_mkdir entry_at_parent split: sum.splits)

lemma keeps_tree_rmtree: "evolves keeps_tree (rmtree p)"
  by (auto simp: evolves_def keeps_tree_def rmtree_def wf_fs_rmtree
      split: sum.splits option.splits node.splits)

lemma keeps_tree_copy2: "evolves keeps_tree (copy2 p p')"
  by (auto simp: evolves_def keeps_tree_def copy2_def Let_def path_at_parent
      intro!: wf_fs_update split: sum.splits option.splits node.splits)

lemma keeps_tree_chmod: "evolves keeps_tree (chmod p m)"
  by (auto simp: evolves_def keeps_tree_def chmod_def path_at_parent
      intro!: wf_fs_update split: sum.splits option.splits node.splits)

interpretation tree: host_order keeps_tree
proof unfold_locales
  show "evolves keeps_tree (subprocess_run args dir piped)" for args dir piped
    by (auto simp: evolves_def keeps_tree_def subprocess_run_def Let_def tidy_def
        split: prod.splits) (metis snd_conv)
qed (auto simp: keeps_tree_unlink keeps_tree_os_mkdir keeps_tree_rmtree keeps_tree_copy2
    keeps_tree_chmod, auto simp: evolves_def keeps_tree_def print_to_def setenv_def chdir_def io_defs
    split: sum.splits option.splits node.splits)

text \<open>Output and log only grow, and what identifies the run is constant.\<close>

definition log_le :: "'z host_scheme \<Rightarrow> 'z host_scheme \<Rightarrow> bool" where
  "log_le w w' \<longleftrightarrow>
     prefix (printed w) (printed w') \<and> prefix (ran w) (ran w') \<and> script_file w' = script_file w \<and>
     argv w' = argv w \<and> programs w' = programs w \<and> tty w' = tty w \<and> uid w' = uid w \<and> gid w' = gid w"

interpretation log: host_order log_le
  by unfold_locales
    (auto simp: evolves_def log_le_def print_to_def setenv_def chdir_def unlink_def os_mkdir_def
      rmtree_def copy2_def chmod_def subprocess_run_def Let_def io_defs
      intro: prefix_order.trans split: sum.splits option.splits node.splits prod.splits)

section \<open>The discipline of the command log\<close>

definition succeeded :: "command \<times> int result \<Rightarrow> bool" where
  "succeeded e = (snd e = Ok 0)"

text \<open>What \<^verbatim>\<open>subprocess.run\<close> documents: a return code is a status below 256 or minus a signal
  number, and the exceptions are an interrupt or a failure of the system to start the program.\<close>

definition posix :: "programs \<Rightarrow> bool" where
  "posix pr \<longleftrightarrow>
     (\<forall>h c fs. case fst (pr h c fs) of
        Ok (rc, _) \<Rightarrow> - 256 < rc \<and> rc < 256
      | Raise e \<Rightarrow> exn_cls e = KeyboardInterrupt \<or> instance_of e OSError
      | Diverge \<Rightarrow> True)"

definition disciplined :: "('z host_scheme, 'a) io \<Rightarrow> bool" where
  "disciplined m \<longleftrightarrow>
     (\<forall>w r w'. m w = (r, w') \<longrightarrow> posix (programs w) \<longrightarrow>
        programs w' = programs w \<and>
        (\<exists>t. ran w' = ran w @ t \<and> list_all succeeded (butlast t) \<and>
             (exit_status r = Some 0 \<longrightarrow> list_all succeeded t)))"

lemma disciplinedE:
  assumes "disciplined m" and "m w = (r, w')" and "posix (programs w)"
  obtains t where "programs w' = programs w" "ran w' = ran w @ t" "list_all succeeded (butlast t)"
    "exit_status r = Some 0 \<longrightarrow> list_all succeeded t"
  using assms unfolding disciplined_def by blast

text \<open>A statement that runs no command is disciplined.\<close>

definition runs_nothing :: "'z host_scheme \<Rightarrow> 'z host_scheme \<Rightarrow> bool" where
  "runs_nothing w w' \<longleftrightarrow> ran w' = ran w \<and> programs w' = programs w"

lemma disciplined_nothing: "evolves runs_nothing m \<Longrightarrow> disciplined m"
  unfolding disciplined_def by (auto dest: evolvesD simp: runs_nothing_def)

lemma list_all_butlast_append:
  "list_all P xs \<Longrightarrow> list_all P (butlast ys) \<Longrightarrow> list_all P (butlast (xs @ ys))"
  by (cases "ys = []") (auto simp: butlast_append list_all_iff dest: in_set_butlastD)

lemma disciplined_bind:
  assumes m: "disciplined m" and f: "\<And>x. disciplined (f x)"
  shows "disciplined (bindE m f)"
  unfolding disciplined_def
proof (intro allI impI)
  fix w r w'
  assume run: "bindE m f w = (r, w')" and px: "posix (programs w)"
  obtain r1 w1 where 1: "m w = (r1, w1)" by fastforce
  obtain t where t: "programs w1 = programs w" "ran w1 = ran w @ t" "list_all succeeded (butlast t)"
    "exit_status r1 = Some 0 \<longrightarrow> list_all succeeded t"
    using disciplinedE [OF m 1 px] by blast
  show "programs w' = programs w \<and> (\<exists>t. ran w' = ran w @ t \<and> list_all succeeded (butlast t) \<and>
      (exit_status r = Some 0 \<longrightarrow> list_all succeeded t))"
  proof (cases r1)
    case (Ok x)
    then have 2: "f x w1 = (r, w')" using run 1 by (simp add: bindE_def)
    have "posix (programs w1)" using px t(1) by simp
    from disciplinedE [OF f 2 this] obtain u where u: "programs w' = programs w1"
      "ran w' = ran w1 @ u" "list_all succeeded (butlast u)"
      "exit_status r = Some 0 \<longrightarrow> list_all succeeded u" by blast
    have "list_all succeeded t" using t(4) Ok by simp
    then have "ran w' = ran w @ (t @ u) \<and> list_all succeeded (butlast (t @ u)) \<and>
        (exit_status r = Some 0 \<longrightarrow> list_all succeeded (t @ u))"
      using t(2) u by (simp add: list_all_butlast_append)
    then show ?thesis using t(1) u(1) by metis
  next
    case (Raise e)
    then have "r = Raise e" "w' = w1" using run 1 by (simp_all add: bindE_def)
    then show ?thesis using t Raise by auto
  next
    case Diverge
    then have "r = Diverge" "w' = w1" using run 1 by (simp_all add: bindE_def)
    then show ?thesis using t by auto
  qed
qed

lemma disciplined_seq: "disciplined m \<Longrightarrow> disciplined n \<Longrightarrow> disciplined (seqE m n)"
  unfolding seqE_def by (rule disciplined_bind)

lemma disciplined_if: "disciplined m \<Longrightarrow> disciplined n \<Longrightarrow> disciplined (if b then m else n)"
  by simp

lemma disciplined_case_prod:
  "(\<And>x y. disciplined (f x y)) \<Longrightarrow> disciplined (case z of (x, y) \<Rightarrow> f x y)"
  by (cases z) simp

lemma disciplined_when: "disciplined m \<Longrightarrow> disciplined (whenE b m)"
  by (auto simp: whenE_def intro: disciplined_nothing simp: evolves_def runs_nothing_def ret_def)

lemma disciplined_for_each: "(\<And>x. disciplined (f x)) \<Longrightarrow> disciplined (for_each xs f)"
  by (induction xs) (auto intro: disciplined_seq disciplined_nothing
      simp: evolves_def runs_nothing_def ret_def)

interpretation rn: quiet_order runs_nothing
  by unfold_locales
    (auto simp: evolves_def runs_nothing_def host_ops io_defs Let_def
      split: sum.splits option.splits node.splits prod.splits)

end
