(* ===== verification/ScriptUtils.thy ===== *)
theory ScriptUtils
  imports HostLogic
begin

text \<open>
  \<^verbatim>\<open>scripts/utils.py\<close>: coloured messages, the \<^verbatim>\<open>.env\<close> parser, the change to the project
  root, the runner of commands and the loader of the Yocto SDK environment.  The
  lemmas give the effect of the two loaders as one overlay of maps, their round
  trips with a printed environment, and the discipline of \<^verbatim>\<open>run_command\<close>.
\<close>

section \<open>Messages\<close>

definition Colors_GREEN :: string where "Colors_GREEN = CHR 0x1B # ''[92m''"
definition Colors_BLUE :: string where "Colors_BLUE = CHR 0x1B # ''[94m''"
definition Colors_YELLOW :: string where "Colors_YELLOW = CHR 0x1B # ''[93m''"
definition Colors_RED :: string where "Colors_RED = CHR 0x1B # ''[91m''"
definition Colors_RESET :: string where "Colors_RESET = CHR 0x1B # ''[0m''"
definition Colors_BOLD :: string where "Colors_BOLD = CHR 0x1B # ''[1m''"

definition print_info :: "string \<Rightarrow> ('z host_scheme, unit) io" where
  "print_info msg = print_to Stdout (Colors_BLUE @ Colors_BOLD @ msg @ Colors_RESET)"

definition print_success :: "string \<Rightarrow> ('z host_scheme, unit) io" where
  "print_success msg = print_to Stdout (Colors_GREEN @ Colors_BOLD @ msg @ Colors_RESET)"

definition print_warning :: "string \<Rightarrow> ('z host_scheme, unit) io" where
  "print_warning msg = print_to Stdout (Colors_YELLOW @ Colors_BOLD @ msg @ Colors_RESET)"

definition print_error :: "string \<Rightarrow> ('z host_scheme, unit) io" where
  "print_error msg = print_to Stderr (Colors_RED @ Colors_BOLD @ ''Error: '' @ msg @ Colors_RESET)"

lemmas message_defs = print_info_def print_success_def print_warning_def print_error_def

section \<open>The \<^verbatim>\<open>.env\<close> file and the project root\<close>

definition dotenv_line :: "string \<Rightarrow> ('z host_scheme, unit) io" where
  "dotenv_line raw =
     (let line = strip raw in
      if line \<noteq> [] \<and> \<not> prefix ''#'' line \<and> occurs ''='' line then
        (case split_once CHR ''='' line of
           Some (key, val) \<Rightarrow>
             bindE (gets environ) (\<lambda>env.
               whenE (env (strip key) = None) (setenv (strip key) (strip val)))
         | None \<Rightarrow> throw ValueError ''not enough values to unpack'')
      else ret ())"

definition load_dotenv :: "path \<Rightarrow> ('z host_scheme, unit) io" where
  "load_dotenv project_root =
     (let env_path = path_join project_root ''.env'' in
      bindE (gets (path_exists env_path)) (\<lambda>here.
        whenE here (bindE (open_lines env_path) (\<lambda>ls. for_each ls dotenv_line))))"

definition change_to_project_root :: "('z host_scheme, path) io" where
  "change_to_project_root =
     bindE (gets script_file) (\<lambda>f.
       let script_dir = path_parent f; project_root = path_parent script_dir in
       try_except
         (seqE (chdir project_root) (seqE (load_dotenv project_root) (ret project_root)))
         (catches [OSError] (\<lambda>_.
            seqE (print_error ''Could not change to project root directory.'') (sys_exit 1))))"

section \<open>Commands and arguments\<close>

text \<open>The callers pass the arguments already as strings; the result is the return code.\<close>

definition run_command ::
  "string list \<Rightarrow> path option \<Rightarrow> bool \<Rightarrow> string \<Rightarrow> ('z host_scheme, int) io" where
  "run_command cmd dir exit_on_fail fail_msg =
     try_except
       (bindE (subprocess_run cmd dir False) (\<lambda>(returncode, _).
          seqE (whenE (exit_on_fail \<and> returncode \<noteq> 0)
                  (seqE (print_error fail_msg) (sys_exit returncode)))
            (ret returncode)))
       (catches [KeyboardInterrupt] (\<lambda>_.
          seqE (print_error (newline @ ''Process stopped by user.'')) (sys_exit 130)))"

text \<open>\<^verbatim>\<open>run_command(cmd, fail_msg=msg)\<close> as a statement, and the default message.\<close>

definition run_or_exit :: "string list \<Rightarrow> string \<Rightarrow> ('z host_scheme, unit) io" where
  "run_or_exit cmd fail_msg = seqE (run_command cmd None True fail_msg) (ret ())"

definition default_fail_msg :: string where
  "default_fail_msg = ''Command failed.''"

definition get_arg :: "string list \<Rightarrow> nat \<Rightarrow> string \<Rightarrow> string" where
  "get_arg args pos def = (if pos < length args then args ! pos else def)"

section \<open>The Yocto SDK environment\<close>

definition export_line :: "string \<Rightarrow> ('z host_scheme, unit) io" where
  "export_line line =
     (if occurs ''='' line then
        (case split_once CHR ''='' line of
           Some (key, val) \<Rightarrow>
             whenE (key \<notin> set [''BASH_FUNC_PROMPT_COMMAND%%'', ''_'']) (setenv key val)
         | None \<Rightarrow> throw ValueError ''not enough values to unpack'')
      else ret ())"

definition sdk_default :: "path \<Rightarrow> path" where
  "sdk_default f = path_joins (path_parent (path_parent (path_parent f))) [''yocto-dev'', ''sdk'']"

definition sdk_dir_of :: "'z host_scheme \<Rightarrow> string" where
  "sdk_dir_of w =
     (case environ w ''YOCTO_SDK_DIR'' of
        Some d \<Rightarrow> d | None \<Rightarrow> path_str (sdk_default (script_file w)))"

definition setup_cmd :: "path \<Rightarrow> string list" where
  "setup_cmd env_script = [''bash'', ''-c'', ''source '' @ path_str env_script @ '' && env'']"

definition load_yocto_env :: "('z host_scheme, bool) io" where
  "load_yocto_env =
     bindE (gets sdk_dir_of) (\<lambda>sdk_dir.
       let sdk_path = py_path sdk_dir in
       bindE (gets (path_exists sdk_path)) (\<lambda>here.
         if \<not> here then
           seqE (print_error (''SDK directory not found: '' @ sdk_dir))
             (seqE (print_info ''Please install the SDK or define YOCTO_SDK_DIR in your .env file.'')
               (ret False))
         else
           bindE (gets (glob (prefix ''environment-setup-'') sdk_path)) (\<lambda>env_scripts.
             case env_scripts of
               [] \<Rightarrow>
                 seqE (print_error (''No environment-setup script found in '' @ sdk_dir)) (ret False)
             | env_script # _ \<Rightarrow>
                 seqE (print_info (''Auto-loading Yocto SDK environment from: '' @ path_name env_script @ ''...''))
                   (bindE (subprocess_run (setup_cmd env_script) None True)
                     (\<lambda>(returncode, stdout).
                        if returncode \<noteq> 0 then
                          seqE (print_error ''Failed to load Yocto SDK environment.'') (ret False)
                        else seqE (for_each (splitlines stdout) export_line) (ret True))))))"

text \<open>The guard with which the scripts open: the environment is loaded unless it already is.\<close>

definition require_yocto_env :: "('z host_scheme, unit) io" where
  "require_yocto_env =
     bindE (gets environ) (\<lambda>env.
       whenE (env ''OECORE_NATIVE_SYSROOT'' = None)
         (bindE load_yocto_env (\<lambda>ok. whenE (\<not> ok) (sys_exit 1))))"

lemmas utils_defs = message_defs dotenv_line_def load_dotenv_def change_to_project_root_def
  run_command_def run_or_exit_def get_arg_def export_line_def sdk_default_def sdk_dir_of_def
  load_yocto_env_def require_yocto_env_def default_fail_msg_def

section \<open>Relations and discipline\<close>

context quiet_order
begin

lemma ev_dotenv_line: "evolves R (dotenv_line raw)"
  unfolding dotenv_line_def Let_def by (intro host_rules)

lemma ev_load_dotenv: "evolves R (load_dotenv p)"
  unfolding load_dotenv_def Let_def by (intro host_rules ev_dotenv_line)

lemma ev_messages:
  "evolves R (print_info msg)" "evolves R (print_success msg)"
  "evolves R (print_warning msg)" "evolves R (print_error msg)"
  unfolding message_defs by (rule on_print)+

lemma ev_change_to_project_root: "evolves R change_to_project_root"
  unfolding change_to_project_root_def Let_def by (intro host_rules ev_load_dotenv ev_messages)

lemma ev_export_line: "evolves R (export_line l)"
  unfolding export_line_def by (intro host_rules)

lemmas utils_rules = host_rules ev_messages ev_change_to_project_root ev_export_line

end

context host_order
begin

lemma ev_run_command: "evolves R (run_command cmd dir ef msg)"
  unfolding run_command_def by (intro utils_rules on_run)

lemma ev_run_or_exit: "evolves R (run_or_exit cmd msg)"
  unfolding run_or_exit_def by (intro utils_rules ev_run_command)

lemma ev_case_list:
  "evolves R m \<Longrightarrow> (\<And>x xs. evolves R (f x xs)) \<Longrightarrow> evolves R (case z of [] \<Rightarrow> m | x # xs \<Rightarrow> f x xs)"
  by (cases z) simp_all

lemma ev_load_yocto_env: "evolves R load_yocto_env"
  unfolding load_yocto_env_def Let_def by (intro utils_rules ev_case_list on_run)

lemma ev_require_yocto_env: "evolves R require_yocto_env"
  unfolding require_yocto_env_def by (intro utils_rules ev_load_yocto_env)

lemmas script_rules = utils_rules on_run ev_run_command ev_run_or_exit ev_require_yocto_env

end

text \<open>A command that fails ends the script with a status other than 0, so what follows it only
  runs after a success.\<close>

lemma instance_of_OSError_class: "instance_of e OSError \<Longrightarrow> exit_status (Raise e :: 'a result) = Some 1"
  by (cases e; cases "exn_cls e") (auto simp: instance_of_def)

lemma keyboard_not_os: "exn_cls e = KeyboardInterrupt \<Longrightarrow> instance_of e KeyboardInterrupt"
  by (simp add: instance_of_def)

lemma instance_of_OSError_keyboard: "instance_of e OSError \<Longrightarrow> \<not> instance_of e KeyboardInterrupt"
  by (cases e; cases "exn_cls e") (auto simp: instance_of_def)

lemma small_mod_256: "- 256 < (n :: int) \<Longrightarrow> n < 256 \<Longrightarrow> n mod 256 = 0 \<longleftrightarrow> n = 0"
  by (auto simp: mod_eq_0_iff_dvd)

lemma posix_cases:
  assumes "posix pr" and "pr h c fs = (r, fs')"
  obtains rc out where "r = Ok (rc, out)" "- 256 < rc" "rc < 256"
    | e where "r = Raise e" "exn_cls e = KeyboardInterrupt"
    | e where "r = Raise e" "instance_of e OSError"
    | "r = Diverge"
proof (cases r)
  case (Ok z)
  then show thesis using assms that(1) [of "fst z" "snd z"]
    unfolding posix_def by (cases z) (fastforce dest: spec [of _ h] spec [of _ c] spec [of _ fs])
next
  case (Raise e)
  then have "exn_cls e = KeyboardInterrupt \<or> instance_of e OSError"
    using assms unfolding posix_def by (fastforce dest: spec [of _ h] spec [of _ c] spec [of _ fs])
  then show thesis using Raise that(2,3) by blast
qed (use that(4) in blast)

lemma run_command_cases:
  assumes px: "posix (programs w)"
    and pr: "programs w (map fst (ran w)) (command_of w cmd dir False) (files w) = (r0, fs)"
    and run: "run_command cmd dir True msg w = (r, w')"
  shows "programs w' = programs w \<and>
    ran w' = ran w @ [(command_of w cmd dir False, map_result fst r0)] \<and> files w' = fs \<and>
    (exit_status r = Some 0 \<longleftrightarrow> (\<exists>out. r0 = Ok (0, out))) \<and>
    (\<forall>n. r = Ok n \<longrightarrow> n = 0)"
proof -
  have sub: "subprocess_run cmd dir False w =
      (r0, w\<lparr>files := fs, ran := ran w @ [(command_of w cmd dir False, map_result fst r0)]\<rparr>)"
    using pr by (simp add: subprocess_run_def Let_def)
  note ev = run_command_def try_except_def bindE_def seqE_def sub catches_def instance_any_def
    print_error_def print_to_def sys_exit_def io_defs
  from px pr show ?thesis
  proof (cases rule: posix_cases)
    case (1 rc out)
    then show ?thesis using run
      by (cases "rc = 0") (auto simp: ev instance_of_def small_mod_256)
  next
    case (2 e)
    then show ?thesis using run by (auto simp: ev keyboard_not_os)
  next
    case (3 e)
    then show ?thesis using run instance_of_OSError_class [OF 3(2)]
      by (auto simp: ev instance_of_OSError_keyboard)
  next
    case 4
    then show ?thesis using run by (auto simp: ev)
  qed
qed

lemma disciplined_run_command: "disciplined (run_command cmd dir True msg)"
  unfolding disciplined_def
proof (intro allI impI)
  fix w :: "'z host_scheme" and r w'
  assume run: "run_command cmd dir True msg w = (r, w')" and px: "posix (programs w)"
  obtain r0 fs where pr:
    "programs w (map fst (ran w)) (command_of w cmd dir False) (files w) = (r0, fs)" by fastforce
  show "programs w' = programs w \<and> (\<exists>t. ran w' = ran w @ t \<and> list_all succeeded (butlast t) \<and>
      (exit_status r = Some 0 \<longrightarrow> list_all succeeded t))"
    using run_command_cases [OF px pr run] by (auto simp: succeeded_def)
qed

lemma disciplined_run_or_exit: "disciplined (run_or_exit cmd msg)"
  unfolding run_or_exit_def
  by (intro disciplined_seq disciplined_run_command disciplined_nothing rn.ev_pure)

text \<open>The loader gives up with a failure that the guard turns into status 1.\<close>

lemma load_yocto_env_log:
  assumes px: "posix (programs w)" and run: "load_yocto_env w = (r, w')"
  shows "programs w' = programs w \<and>
    (\<exists>t. ran w' = ran w @ t \<and> length t \<le> 1 \<and> (exit_status r = Some 0 \<longrightarrow> r \<noteq> Ok False \<longrightarrow> list_all succeeded t))"
proof -
  define sdk where "sdk = py_path (sdk_dir_of w)"
  show ?thesis
  proof (cases "path_exists sdk w \<and> glob (prefix ''environment-setup-'') sdk w \<noteq> []")
    case False
    then show ?thesis using run
      by (auto simp: load_yocto_env_def sdk_def bindE_def seqE_def io_defs Let_def message_defs
          print_to_def split: if_splits)
  next
    case True
    then obtain s ss where g: "path_exists sdk w" "glob (prefix ''environment-setup-'') sdk w = s # ss"
      by (cases "glob (prefix ''environment-setup-'') sdk w") auto
    define w1 where "w1 = snd (print_info (''Auto-loading Yocto SDK environment from: '' @ path_name s @ ''...'') w)"
    have w1: "ran w1 = ran w" "programs w1 = programs w"
      by (simp_all add: w1_def print_info_def print_to_def io_defs)
    define args where "args = setup_cmd s"
    obtain r0 fs where pr: "programs w1 (map fst (ran w1)) (command_of w1 args None True) (files w1) = (r0, fs)"
      by fastforce
    define w2 where "w2 = w1\<lparr>files := fs, ran := ran w1 @ [(command_of w1 args None True, map_result fst r0)]\<rparr>"
    have sub: "subprocess_run args None True w1 = (r0, w2)"
      using pr by (simp add: subprocess_run_def Let_def w2_def)
    have w2: "ran w2 = ran w @ [(command_of w1 args None True, map_result fst r0)]"
      "programs w2 = programs w" by (simp_all add: w2_def w1)
    have body: "load_yocto_env w = bindE (subprocess_run args None True)
        (\<lambda>(returncode, stdout).
           if returncode \<noteq> 0 then seqE (print_error ''Failed to load Yocto SDK environment.'') (ret False)
           else seqE (for_each (splitlines stdout) export_line) (ret True)) w1"
      using g by (simp add: load_yocto_env_def sdk_def bindE_def seqE_def io_defs Let_def args_def
          w1_def print_info_def print_to_def)
    have px1: "posix (programs w1)" using px w1 by simp
    from px1 pr show ?thesis
    proof (cases rule: posix_cases)
      case (1 rc out)
      show ?thesis
      proof (cases "rc = 0")
        case True
        have "evolves runs_nothing (seqE (for_each (splitlines out) export_line) (ret True))"
          by (intro rn.utils_rules)
        moreover have "seqE (for_each (splitlines out) export_line) (ret True) w2 = (r, w')"
          using run body sub 1(1) True by (simp add: bindE_def)
        ultimately have "runs_nothing w2 w'" by (rule evolvesD)
        then show ?thesis using w2 1(1) True by (auto simp: runs_nothing_def succeeded_def)
      next
        case False
        then show ?thesis using run body sub 1(1) w2
          by (auto simp: bindE_def seqE_def io_defs print_error_def print_to_def)
      qed
    next
      case (2 e)
      then show ?thesis using run body sub w2 by (auto simp: bindE_def)
    next
      case (3 e)
      then show ?thesis using run body sub w2 instance_of_OSError_class [OF 3(2)]
        by (auto simp: bindE_def)
    next
      case 4
      then show ?thesis using run body sub w2 by (auto simp: bindE_def)
    qed
  qed
qed

lemma list_all_butlast_short: "length t \<le> 1 \<Longrightarrow> list_all P (butlast t)"
  by (cases t) auto

lemma disciplined_require_yocto_env: "disciplined require_yocto_env"
  unfolding disciplined_def
proof (intro allI impI)
  fix w :: "'z host_scheme" and r w'
  assume run: "require_yocto_env w = (r, w')" and px: "posix (programs w)"
  show "programs w' = programs w \<and> (\<exists>t. ran w' = ran w @ t \<and> list_all succeeded (butlast t) \<and>
      (exit_status r = Some 0 \<longrightarrow> list_all succeeded t))"
  proof (cases "environ w ''OECORE_NATIVE_SYSROOT'' = None")
    case False
    then show ?thesis using run by (auto simp: require_yocto_env_def bindE_def io_defs)
  next
    case True
    obtain r1 w1 where 1: "load_yocto_env w = (r1, w1)" by fastforce
    obtain t where t: "programs w1 = programs w" "ran w1 = ran w @ t" "length t \<le> 1"
      "exit_status r1 = Some 0 \<longrightarrow> r1 \<noteq> Ok False \<longrightarrow> list_all succeeded t"
      using load_yocto_env_log [OF px 1] by blast
    have "(r, w') = (case r1 of Ok b \<Rightarrow> (if b then Ok () else Raise (Exn (SystemExit 1) []), w1)
        | Raise e \<Rightarrow> (Raise e, w1) | Diverge \<Rightarrow> (Diverge, w1))"
      using run True 1
      by (auto simp: require_yocto_env_def bindE_def io_defs sys_exit_def split: result.splits)
    then show ?thesis using t by (cases r1) (auto simp: list_all_butlast_short split: if_splits)
  qed
qed

lemmas disciplined_rules = disciplined_bind disciplined_seq disciplined_when disciplined_if
  disciplined_case_prod disciplined_for_each disciplined_run_command disciplined_run_or_exit
  disciplined_require_yocto_env

text \<open>The interface of a script: what its log says when it ends.\<close>

locale host_script =
  fixes main :: "('z host_scheme, unit) io"
  assumes log_discipline: "disciplined main"
begin

lemma ends_well:
  assumes "main w = (r, w')" and "posix (programs w)" and "exit_status r = Some 0"
  shows "\<exists>t. ran w' = ran w @ t \<and> list_all succeeded t"
  using disciplinedE [OF log_discipline assms(1,2)] assms(3) by blast

lemma stops_at_failure:
  assumes "main w = (r, w')" and "posix (programs w)" and "ran w' = ran w @ t"
    and "i < length t" and "\<not> succeeded (t ! i)"
  shows "Suc i = length t \<and> exit_status r \<noteq> Some 0"
proof -
  obtain u where u: "ran w' = ran w @ u" "list_all succeeded (butlast u)"
    "exit_status r = Some 0 \<longrightarrow> list_all succeeded u"
    using disciplinedE [OF log_discipline assms(1,2)] by blast
  then have [simp]: "u = t" using assms(3) by simp
  have "\<not> i < length (butlast t)"
    using u(2) assms(5) by (auto simp: list_all_length nth_butlast)
  then show ?thesis using assms(4,5) u(3) by (auto simp: list_all_length)
qed

end

section \<open>The loaders as overlays of maps\<close>

text \<open>The assignment a line of \<^verbatim>\<open>.env\<close> stands for, and those of the whole text.\<close>

definition dotenv_binding :: "string \<Rightarrow> (string \<times> string) option" where
  "dotenv_binding raw =
     (let line = strip raw in
      if line = [] \<or> prefix ''#'' line then None
      else map_option (map_prod strip strip) (split_once CHR ''='' line))"

definition dotenv_bindings :: "string \<Rightarrow> (string \<times> string) list" where
  "dotenv_bindings src = List.map_filter dotenv_binding (file_lines [] src)"

text \<open>What the system accepts as a variable.\<close>

definition env_ok :: "string \<times> string \<Rightarrow> bool" where
  "env_ok b \<longleftrightarrow> fst b \<noteq> [] \<and> CHR ''='' \<notin> set (fst b) \<and> CHR 0x00 \<notin> set (fst b) \<and> CHR 0x00 \<notin> set (snd b)"

lemma occurs_char [simp]: "occurs [c] s \<longleftrightarrow> c \<in> set s"
  by (induction s) auto

lemma split_once_None [simp]: "split_once c s = None \<longleftrightarrow> c \<notin> set s"
  by (induction s) auto

lemma split_once_at: "c \<notin> set k \<Longrightarrow> split_once c (k @ c # v) = Some (k, v)"
  by (induction k) auto

lemma split_once_key: "split_once c s = Some (k, v) \<Longrightarrow> c \<notin> set k"
  by (induction s arbitrary: k) (auto split: if_splits)

lemma set_strip: "set (strip s) \<subseteq> set s"
  unfolding strip_def lstrip_def rstrip_def
  by (metis set_dropWhileD set_rev subsetI)

lemma setenv_ok: "env_ok (k, v) \<Longrightarrow> setenv k v w = (Ok (), w\<lparr>environ := (environ w)(k \<mapsto> v)\<rparr>)"
  by (auto simp: setenv_def env_ok_def io_defs)

lemma dotenv_line_effect:
  assumes "pred_option env_ok (dotenv_binding raw)"
  shows "dotenv_line raw w =
    (Ok (), w\<lparr>environ := map_of (case dotenv_binding raw of None \<Rightarrow> [] | Some b \<Rightarrow> [b]) ++ environ w\<rparr>)"
proof (cases "dotenv_binding raw")
  case None
  then show ?thesis
    by (auto simp: dotenv_line_def dotenv_binding_def Let_def io_defs split: if_splits)
next
  case (Some b)
  then obtain key val where kv: "split_once CHR ''='' (strip raw) = Some (key, val)"
    "b = (strip key, strip val)" "strip raw \<noteq> []" "\<not> prefix ''#'' (strip raw)"
    by (auto simp: dotenv_binding_def Let_def split: if_splits)
  have "CHR ''='' \<in> set (strip raw)" using kv(1) by (metis option.distinct(1) split_once_None)
  moreover have "env_ok (strip key, strip val)" using assms Some kv(2) by simp
  ultimately show ?thesis using kv Some
    by (cases "environ w (strip key)")
      (auto simp: dotenv_line_def Let_def bindE_def io_defs setenv_ok map_add_def fun_eq_iff
        intro!: arg_cong [of _ _ "\<lambda>e. w\<lparr>environ := e\<rparr>"] split: option.splits)
qed

lemma map_of_Cons_overlay: "map_of bs ++ (map_of [b] ++ env) = map_of (b # bs) ++ env"
  by (cases b) (auto simp: map_add_def fun_eq_iff split: option.splits)

lemma map_filter_Cons:
  "List.map_filter f (x # xs) = (case f x of None \<Rightarrow> [] | Some y \<Rightarrow> [y]) @ List.map_filter f xs"
  by (simp add: List.map_filter_def split: option.splits)

lemma for_each_dotenv:
  assumes "list_all env_ok (List.map_filter dotenv_binding ls)"
  shows "for_each ls dotenv_line w =
    (Ok (), w\<lparr>environ := map_of (List.map_filter dotenv_binding ls) ++ environ w\<rparr>)"
  using assms
proof (induction ls arbitrary: w)
  case (Cons l ls)
  have ok: "pred_option env_ok (dotenv_binding l)"
    using Cons.prems by (cases "dotenv_binding l") (simp_all add: map_filter_Cons)
  have "list_all env_ok (List.map_filter dotenv_binding ls)"
    using Cons.prems by (simp add: map_filter_Cons split: option.splits)
  note step = Cons.IH [OF this] seqE_Ok [OF dotenv_line_effect [OF ok]] map_filter_Cons
  show ?case
  proof (cases "dotenv_binding l")
    case None
    then show ?thesis by (simp add: step)
  next
    case (Some b)
    then show ?thesis
      using map_of_Cons_overlay [of "List.map_filter dotenv_binding ls" b "environ w"]
      by (simp add: step del: map_of.simps)
  qed
qed (simp add: ret_def List.map_filter_def)

lemma load_dotenv_effect:
  assumes "stat w (path_join d ''.env'') = Some (File (Some src) m t)"
    and "list_all env_ok (dotenv_bindings src)"
  shows "load_dotenv d w = (Ok (), w\<lparr>environ := map_of (dotenv_bindings src) ++ environ w\<rparr>)"
proof -
  obtain q where q: "path_at w (path_join d ''.env'') = Inr q"
    "node_at (files w) q = Some (File (Some src) m t)"
    using assms(1) by (auto simp: stat_def split: sum.splits)
  have "open_lines (path_join d ''.env'') w = (Ok (file_lines [] src), w)"
    using q by (simp add: open_lines_def)
  then show ?thesis
    using assms for_each_dotenv [of "file_lines [] src" w]
    by (simp add: load_dotenv_def Let_def bindE_def io_defs path_exists_def dotenv_bindings_def)
qed

section \<open>Printed environments\<close>

text \<open>The text \<^verbatim>\<open>env\<close> prints, and the variables whose print is read back.\<close>

definition env_text :: "(string \<times> string) list \<Rightarrow> string" where
  "env_text kvs = concat (map (\<lambda>(k, v). k @ ''='' @ v @ newline) kvs)"

definition trimmed :: "string \<Rightarrow> bool" where
  "trimmed s \<longleftrightarrow> (s \<noteq> [] \<longrightarrow> \<not> is_space (hd s) \<and> \<not> is_space (last s))"

definition plain_env :: "string \<times> string \<Rightarrow> bool" where
  "plain_env b \<longleftrightarrow> env_ok b \<and> list_all (\<lambda>c. \<not> is_eol c) (fst b @ snd b)"

definition plain_dotenv :: "string \<times> string \<Rightarrow> bool" where
  "plain_dotenv b \<longleftrightarrow> plain_env b \<and> trimmed (fst b) \<and> trimmed (snd b) \<and> hd (fst b) \<noteq> CHR ''#''"

lemma strip_trimmed: "trimmed s \<Longrightarrow> strip s = s"
proof -
  assume s: "trimmed s"
  have "lstrip s = s" using s by (cases s) (auto simp: trimmed_def lstrip_def)
  moreover have "rstrip s = s"
    using s by (cases s rule: rev_cases) (auto simp: trimmed_def rstrip_def)
  ultimately show ?thesis by (simp add: strip_def)
qed

lemma strip_newline:
  assumes "s \<noteq> []" and "trimmed s"
  shows "strip (s @ newline) = s"
proof -
  have "lstrip (s @ newline) = s @ newline"
    using assms by (cases s) (auto simp: trimmed_def lstrip_def)
  moreover have "rstrip (s @ newline) = s"
    using assms by (cases s rule: rev_cases) (auto simp: trimmed_def rstrip_def is_space_def)
  ultimately show ?thesis by (simp add: strip_def)
qed

lemma file_lines_line:
  assumes "list_all (\<lambda>c. \<not> is_eol c) s"
  shows "file_lines acc (s @ newline @ rest) = (rev acc @ s @ newline) # file_lines [] rest"
  using assms by (induction s arbitrary: acc) (auto simp: is_eol_def Let_def)

lemma lines_acc_line:
  assumes "list_all (\<lambda>c. \<not> is_eol c) s"
  shows "lines_acc acc (s @ newline @ rest) = (rev acc @ s) # lines_acc [] rest"
  using assms by (induction s arbitrary: acc) (auto simp: is_eol_def Let_def)

lemma eq_not_special: "\<not> is_eol CHR ''=''" "\<not> is_space CHR ''=''"
  by (simp_all add: is_eol_def is_space_def)

lemma plain_line: "plain_env (k, v) \<Longrightarrow> list_all (\<lambda>c. \<not> is_eol c) (k @ ''='' @ v)"
  by (simp add: plain_env_def eq_not_special)

lemma file_lines_env_text:
  "list_all plain_env kvs \<Longrightarrow> file_lines [] (env_text kvs) = map (\<lambda>(k, v). k @ ''='' @ v @ newline) kvs"
proof (induction kvs)
  case (Cons b kvs)
  obtain k v where b: "b = (k, v)" by fastforce
  with Cons file_lines_line [OF plain_line, of k v "[]" "env_text kvs"] show ?case
    by (simp add: env_text_def)
qed (simp add: env_text_def)

lemma splitlines_env_text:
  "list_all plain_env kvs \<Longrightarrow> splitlines (env_text kvs) = map (\<lambda>(k, v). k @ ''='' @ v) kvs"
proof (induction kvs)
  case (Cons b kvs)
  obtain k v where b: "b = (k, v)" by fastforce
  with Cons lines_acc_line [OF plain_line, of k v "[]" "env_text kvs"] show ?case
    by (simp add: env_text_def splitlines_def)
qed (simp add: env_text_def splitlines_def)

lemma dotenv_binding_line:
  assumes "plain_dotenv (k, v)"
  shows "dotenv_binding (k @ CHR ''='' # v @ newline) = Some (k, v)"
proof -
  have k: "k \<noteq> []" "CHR ''='' \<notin> set k" "trimmed k" "trimmed v" "hd k \<noteq> CHR ''#''"
    using assms by (auto simp: plain_dotenv_def plain_env_def env_ok_def)
  then have "trimmed (k @ ''='' @ v)" by (auto simp: trimmed_def eq_not_special)
  then have "strip (k @ ''='' @ v @ newline) = k @ ''='' @ v"
    using strip_newline [of "k @ ''='' @ v"] by simp
  moreover have "\<not> prefix ''#'' (k @ ''='' @ v)" using k by (cases k) auto
  ultimately show ?thesis
    using k by (simp add: dotenv_binding_def Let_def split_once_at strip_trimmed)
qed

lemma dotenv_bindings_env_text:
  assumes "list_all plain_dotenv kvs"
  shows "dotenv_bindings (env_text kvs) = kvs"
proof -
  have "list_all plain_env kvs" using assms by (auto simp: list_all_iff plain_dotenv_def)
  then have "dotenv_bindings (env_text kvs) =
      List.map_filter dotenv_binding (map (\<lambda>(k, v). k @ ''='' @ v @ newline) kvs)"
    by (simp add: dotenv_bindings_def file_lines_env_text)
  also have "\<dots> = kvs"
    using assms
    by (induction kvs) (auto simp: dotenv_binding_line List.map_filter_simps)
  finally show ?thesis .
qed

section \<open>What a successful step leaves\<close>

definition project_root_of :: "'z host_scheme \<Rightarrow> path" where
  "project_root_of w = path_parent (path_parent (script_file w))"

text \<open>The change of directory and the \<^verbatim>\<open>.env\<close> file touch the working directory and the environment
  only, and no variable that was set.\<close>

definition env_grows :: "'z host_scheme \<Rightarrow> 'z host_scheme \<Rightarrow> bool" where
  "env_grows w w' \<longleftrightarrow> w' = w\<lparr>environ := environ w'\<rparr> \<and> environ w \<subseteq>\<^sub>m environ w'"

interpretation eg: state_order env_grows
proof
  fix w w' w'' :: "'z host_scheme"
  show "env_grows w w" by (simp add: env_grows_def)
  assume 1: "env_grows w w'" and 2: "env_grows w' w''"
  then have "w'' = w'\<lparr>environ := environ w''\<rparr>" and "w' = w\<lparr>environ := environ w'\<rparr>"
    by (simp_all add: env_grows_def)
  then have "w'' = w\<lparr>environ := environ w''\<rparr>" by (cases w) (metis host.update_convs(3))
  then show "env_grows w w''" using 1 2 by (auto simp: env_grows_def intro: map_le_trans)
qed

lemma dotenv_line_grows: "evolves env_grows (dotenv_line raw)"
  unfolding evolves_def
proof
  fix w :: "'z host_scheme"
  show "env_grows w (snd (dotenv_line raw w))"
    by (auto simp: dotenv_line_def Let_def bindE_def io_defs setenv_def env_grows_def
        map_le_def dom_def split: option.splits)
qed

lemma load_dotenv_grows: "evolves env_grows (load_dotenv d)"
  unfolding load_dotenv_def Let_def
  by (intro eg.ev_rules eg.ev_for_each dotenv_line_grows)
    (simp add: evolves_def open_lines_def env_grows_def split: sum.splits option.splits node.splits)

lemma change_to_project_root_Ok:
  assumes "change_to_project_root w = (Ok d, w')"
  obtains q env where "d = project_root_of w" "path_at w d = Inr q" "node_at (files w) q = Some Dir"
    "w' = w\<lparr>cwd := q, environ := env\<rparr>" "environ w \<subseteq>\<^sub>m env"
proof -
  let ?d = "project_root_of w"
  obtain r1 w1 where cd: "chdir ?d w = (r1, w1)" by fastforce
  show thesis
  proof (cases r1)
    case (Ok u)
    then obtain q where q: "path_at w ?d = Inr q" "node_at (files w) q = Some Dir" "w1 = w\<lparr>cwd := q\<rparr>"
      using cd by (auto simp: chdir_def split: sum.splits option.splits node.splits)
    obtain r2 w2 where ld: "load_dotenv ?d w1 = (r2, w2)" by fastforce
    have "env_grows w1 w2" by (rule evolvesD [OF load_dotenv_grows ld])
    then have g: "w2 = w\<lparr>cwd := q, environ := environ w2\<rparr>" "environ w \<subseteq>\<^sub>m environ w2"
      using q(3) by (simp_all add: env_grows_def)
    have "r2 = Ok () \<and> d = ?d \<and> w' = w2"
      using assms cd ld Ok
      by (cases r2) (auto simp: change_to_project_root_def project_root_of_def Let_def bindE_def
          seqE_def io_defs try_except_def catches_def print_error_def print_to_def sys_exit_def
          split: if_splits)
    then show thesis using that q g by metis
  next
    case (Raise e)
    then show thesis using assms cd
      by (auto simp: change_to_project_root_def project_root_of_def Let_def bindE_def
          seqE_def io_defs try_except_def catches_def print_error_def print_to_def sys_exit_def
          split: if_splits)
  next
    case Diverge
    then show thesis using assms cd
      by (auto simp: change_to_project_root_def project_root_of_def Let_def bindE_def
          seqE_def io_defs try_except_def)
  qed
qed

lemma run_command_Ok:
  assumes "run_command cmd dir True msg w = (Ok n, w')"
  obtains fs out where
    "programs w (map fst (ran w)) (command_of w cmd dir False) (files w) = (Ok (0, out), fs)"
    "n = 0" "w' = w\<lparr>files := fs, ran := ran w @ [(command_of w cmd dir False, Ok 0)]\<rparr>"
proof -
  obtain r0 fs where pr:
    "programs w (map fst (ran w)) (command_of w cmd dir False) (files w) = (r0, fs)" by fastforce
  then have sub: "subprocess_run cmd dir False w =
      (r0, w\<lparr>files := fs, ran := ran w @ [(command_of w cmd dir False, map_result fst r0)]\<rparr>)"
    by (simp add: subprocess_run_def Let_def)
  note ev = run_command_def try_except_def bindE_def seqE_def sub catches_def print_error_def
    print_to_def sys_exit_def io_defs
  show thesis
  proof (cases r0)
    case (Ok z)
    then show thesis using assms pr that
      by (cases z; cases "fst z = 0") (auto simp: ev instance_any_def instance_of_def)
  qed (use assms in \<open>auto simp: ev split: if_splits\<close>)
qed

lemma run_or_exit_Ok:
  assumes "run_or_exit cmd msg w = (Ok u, w')"
  obtains fs out where
    "programs w (map fst (ran w)) (command_of w cmd None False) (files w) = (Ok (0, out), fs)"
    "w' = w\<lparr>files := fs, ran := ran w @ [(command_of w cmd None False, Ok 0)]\<rparr>"
  using assms unfolding run_or_exit_def
  by (auto simp: ret_def elim!: seqE_OkE run_command_Ok)

lemma message_Ok:
  "print_info msg w = (r, w') \<Longrightarrow> r = Ok () \<and> w' = w\<lparr>printed := printed w'\<rparr>"
  "print_success msg w = (r, w') \<Longrightarrow> r = Ok () \<and> w' = w\<lparr>printed := printed w'\<rparr>"
  "print_error msg w = (r, w') \<Longrightarrow> r = Ok () \<and> w' = w\<lparr>printed := printed w'\<rparr>"
  by (auto simp: message_defs print_to_def io_defs)

lemma whenE_OkE:
  assumes "whenE b m w = (Ok u, w')"
  obtains "b" "m w = (Ok u, w')" | "\<not> b" "w' = w"
  using assms by (auto simp: io_defs split: if_splits)

lemma sys_exit_never_Ok [simp]: "sys_exit n w \<noteq> (Ok x, w')"
  by (simp add: sys_exit_def io_defs)

lemma gets_bind [simp]: "bindE (gets f) g w = g (f w) w"
  by (simp add: bindE_def gets_def)

text \<open>The queries depend on the file system and the working directory alone.\<close>

lemma queries_cong:
  assumes "files w' = files w" and "cwd w' = cwd w"
  shows "is_dir p w' = is_dir p w" and "path_exists p w' = path_exists p w"
    and "glob pat p w' = glob pat p w" and "is_file p w' = is_file p w"
proof -
  have a: "path_at w' x = path_at w x" for x
    using assms by (simp add: path_at_def abs_parts_def)
  then have s: "stat w' x = stat w x" for x
    using assms by (simp add: stat_def split: sum.splits)
  show "is_dir p w' = is_dir p w" "path_exists p w' = path_exists p w" "is_file p w' = is_file p w"
    by (simp_all add: is_dir_def path_exists_def is_file_def s)
  show "glob pat p w' = glob pat p w"
    using assms(1) by (simp add: glob_def a split: sum.splits)
qed

lemma run_parser_Ok:
  "run_parser p w = (Ok ns, w') \<Longrightarrow> parse_list p (tl (argv w)) = Inr ns \<and> w' = w"
  by (auto simp: run_parser_def io_defs bindE_def seqE_def sys_exit_def print_to_def split: sum.splits)

lemma require_yocto_env_loaded:
  "environ w ''OECORE_NATIVE_SYSROOT'' \<noteq> None \<Longrightarrow> require_yocto_env w = (Ok (), w)"
  by (auto simp: require_yocto_env_def io_defs)

text \<open>The commands as they were given.\<close>

definition argvs :: "'z host_scheme \<Rightarrow> string list list" where
  "argvs w = map (\<lambda>(c, _). cmd_argv c) (ran w)"

text \<open>\<^verbatim>\<open>issues m cs\<close>: when the statement returns, it has run exactly these commands.\<close>

definition issues :: "('z host_scheme, 'a) io \<Rightarrow> string list list \<Rightarrow> bool" where
  "issues m cs \<longleftrightarrow> (\<forall>w x w'. m w = (Ok x, w') \<longrightarrow> argvs w' = argvs w @ cs)"

lemma issuesD: "issues m cs \<Longrightarrow> m w = (Ok x, w') \<Longrightarrow> argvs w' = argvs w @ cs"
  by (simp add: issues_def)

lemma issues_nothing: "evolves runs_nothing m \<Longrightarrow> issues m []"
  by (auto simp: issues_def argvs_def runs_nothing_def dest: evolvesD)

lemma issues_bind: "issues m cs \<Longrightarrow> (\<And>x. issues (f x) ds) \<Longrightarrow> issues (bindE m f) (cs @ ds)"
  by (auto simp: issues_def elim!: bindE_OkE)

lemma issues_seq: "issues m cs \<Longrightarrow> issues n ds \<Longrightarrow> issues (seqE m n) (cs @ ds)"
  unfolding seqE_def by (rule issues_bind)

lemma issues_if: "issues m cs \<Longrightarrow> issues n ds \<Longrightarrow> issues (if b then m else n) (if b then cs else ds)"
  by simp

lemma issues_when: "issues m cs \<Longrightarrow> issues (whenE b m) (if b then cs else [])"
  by (simp add: issues_def whenE_def ret_def)

lemma issues_run_command: "issues (run_command cmd dir True msg) [cmd]"
  by (auto simp: issues_def argvs_def command_of_def elim!: run_command_Ok)

lemma issues_run_or_exit: "issues (run_or_exit cmd msg) [cmd]"
  by (auto simp: issues_def argvs_def command_of_def elim!: run_or_exit_Ok)

lemma issues_exit: "issues (seqE m (sys_exit n)) cs"
  by (auto simp: issues_def elim!: seqE_OkE)

lemma issues_messages:
  "issues (print_info msg) []" "issues (print_success msg) []" "issues (print_error msg) []"
  by (rule issues_nothing, rule rn.ev_messages)+

lemmas issues_rules = issues_seq issues_if issues_when issues_run_command issues_run_or_exit
  issues_messages

definition export_binding :: "string \<Rightarrow> (string \<times> string) option" where
  "export_binding line =
     (case split_once CHR ''='' line of
        Some (k, v) \<Rightarrow> if k \<in> set [''BASH_FUNC_PROMPT_COMMAND%%'', ''_''] then None else Some (k, v)
      | None \<Rightarrow> None)"

lemma export_line_effect:
  assumes "pred_option env_ok (export_binding line)"
  shows "export_line line w =
    (Ok (), w\<lparr>environ := environ w ++ map_of (case export_binding line of None \<Rightarrow> [] | Some b \<Rightarrow> [b])\<rparr>)"
proof (cases "split_once CHR ''='' line")
  case None
  then have "CHR ''='' \<notin> set line" by simp
  then show ?thesis by (simp add: None export_line_def export_binding_def io_defs)
next
  case (Some kv)
  obtain k v where kv: "kv = (k, v)" by fastforce
  have "CHR ''='' \<in> set line" using Some by (metis option.distinct(1) split_once_None)
  then show ?thesis using assms Some kv
    by (auto simp: export_line_def export_binding_def io_defs setenv_ok)
qed

lemma for_each_export:
  assumes "list_all env_ok (List.map_filter export_binding ls)"
  shows "for_each ls export_line w =
    (Ok (), w\<lparr>environ := environ w ++ map_of (rev (List.map_filter export_binding ls))\<rparr>)"
  using assms
proof (induction ls arbitrary: w)
  case (Cons l ls)
  have ok: "pred_option env_ok (export_binding l)"
    using Cons.prems by (cases "export_binding l") (simp_all add: map_filter_Cons)
  have "list_all env_ok (List.map_filter export_binding ls)"
    using Cons.prems by (simp add: map_filter_Cons split: option.splits)
  note step = Cons.IH [OF this] seqE_Ok [OF export_line_effect [OF ok]] map_filter_Cons
  show ?case
    by (cases "export_binding l") (simp_all add: step map_of_append fun_upd_def)
qed (simp add: ret_def List.map_filter_def)

lemma export_bindings_env_text:
  assumes "list_all plain_env kvs"
  shows "List.map_filter export_binding (splitlines (env_text kvs)) =
    filter (\<lambda>(k, _). k \<notin> set [''BASH_FUNC_PROMPT_COMMAND%%'', ''_'']) kvs"
proof -
  have "List.map_filter export_binding (map (\<lambda>(k, v). k @ ''='' @ v) kvs) =
      filter (\<lambda>(k, _). k \<notin> set [''BASH_FUNC_PROMPT_COMMAND%%'', ''_'']) kvs"
    using assms
    by (induction kvs)
      (auto simp: List.map_filter_simps export_binding_def plain_env_def env_ok_def split_once_at)
  then show ?thesis by (simp only: splitlines_env_text [OF assms])
qed

lemma dropWhile_snoc: "\<not> P c \<Longrightarrow> dropWhile P (xs @ [c]) = dropWhile P xs @ [c]"
  by (induction xs) auto

lemma strip_Cons: "\<not> is_space c \<Longrightarrow> strip (c # s) = c # rstrip s"
  by (simp add: strip_def lstrip_def rstrip_def dropWhile_snoc)

lemma set_rstrip: "set (rstrip s) \<subseteq> set s"
  unfolding rstrip_def by (metis set_dropWhileD set_rev subsetI)

lemma strip_Nil [simp]: "strip [] = []"
  by (simp add: strip_def lstrip_def rstrip_def)

section \<open>A sample host\<close>

text \<open>The project is checked out at \<^verbatim>\<open>/r\<close>; the files, the environment, the arguments and the
  programs vary.\<close>

definition sample_host :: "fs \<Rightarrow> env \<Rightarrow> string list \<Rightarrow> programs \<Rightarrow> host" where
  "sample_host fs env args pr =
     \<lparr>script_file = Path ''/'' [''r'', ''scripts'', ''utils.py''], argv = args, environ = env, cwd = [],
      files = fs, printed = [], ran = [], programs = pr, dir_mtime = (\<lambda>_ _. 0), tty = False,
      uid = 1000, gid = 1000\<rparr>"

definition project_tree :: fs where
  "project_tree = [([''r''], Dir), ([''r'', ''scripts''], Dir)]"

lemmas host_eval = sample_host_def project_tree_def host_queries path_defs

section \<open>Properties\<close>

text \<open>C36: When the environment-setup script runs, \<^verbatim>\<open>load_yocto_env\<close> returns True and overlays \<^verbatim>\<open>os.environ\<close> with the
  assignments of the lines that \<^verbatim>\<open>env\<close> printed, later lines first, without the two names it
  skips; lines without an equals sign are passed over.  This takes that the system accepts the
  names and values of these lines (no empty name, no null byte).  If in addition none of the printed
  variables, the skipped ones included, holds a line break, then these assignments are exactly the
  printed variables but for the two skipped names; a value with a line break is cut, and its
  further lines are read as lines of their own.\<close>

theorem load_yocto_env_loads:
  fixes w :: "'z host_scheme"
  assumes "path_exists (py_path (sdk_dir_of w)) w"
    and "glob (prefix ''environment-setup-'') (py_path (sdk_dir_of w)) w = s # ss"
    and "programs w (map fst (ran w)) (command_of w (setup_cmd s) None True) (files w) = (Ok (0, out), fs)"
    and "list_all env_ok (List.map_filter export_binding (splitlines out))"
  shows "\<exists>w'. load_yocto_env w = (Ok True, w') \<and> files w' = fs \<and>
    environ w' = environ w ++ map_of (rev (List.map_filter export_binding (splitlines out))) \<and>
    (\<forall>kvs. list_all plain_env kvs \<and> out = env_text kvs \<longrightarrow>
       environ w' = environ w ++
         map_of (rev (filter (\<lambda>(k, _). k \<notin> {''BASH_FUNC_PROMPT_COMMAND%%'', ''_''}) kvs)))"
proof -
  have "subprocess_run (setup_cmd s) None True
      (w\<lparr>printed := p\<rparr>) = (Ok (0, out), w\<lparr>printed := p, files := fs, ran := ran w @
        [(command_of w (setup_cmd s) None True, Ok 0)]\<rparr>)" for p
    using assms(3) by (simp add: subprocess_run_def Let_def command_of_def abs_parts_def)
  then have "\<exists>w'. load_yocto_env w = (Ok True, w') \<and> files w' = fs \<and>
      environ w' = environ w ++ map_of (rev (List.map_filter export_binding (splitlines out)))"
    using assms(1,2)
    by (simp add: for_each_export [OF assms(4)] load_yocto_env_def Let_def bindE_def seqE_def io_defs print_info_def print_to_def)
  moreover have "List.map_filter export_binding (splitlines out) =
      filter (\<lambda>(k, _). k \<notin> {''BASH_FUNC_PROMPT_COMMAND%%'', ''_''}) kvs"
    if "list_all plain_env kvs" "out = env_text kvs" for kvs
    using export_bindings_env_text [OF that(1)] that(2) by simp
  ultimately show ?thesis by metis
qed

theorem load_yocto_env_loads_witness:
  "\<exists>w'. load_yocto_env
       (sample_host [([''sdk''], Dir), ([''sdk'', ''environment-setup-x''], File (Some []) 420 0)]
         [''YOCTO_SDK_DIR'' \<mapsto> ''/sdk'', ''CC'' \<mapsto> ''cc''] []
         (\<lambda>_ _ fs. (Ok (0, env_text [(''CC'', ''gcc''), (''_'', ''/bin/env'')]), fs))) = (Ok True, w') \<and>
     environ w' ''CC'' = Some ''gcc'' \<and> environ w' ''_'' = None"
proof -
  let ?fs = "[([''sdk''], Dir), ([''sdk'', ''environment-setup-x''], File (Some []) 420 0)]"
  let ?kvs = "[(''CC'', ''gcc''), (''_'', ''/bin/env'')]"
  let ?w = "sample_host ?fs [''YOCTO_SDK_DIR'' \<mapsto> ''/sdk'', ''CC'' \<mapsto> ''cc''] []
    (\<lambda>_ _ fs. (Ok (0, env_text ?kvs), fs))"
  have plain: "list_all plain_env ?kvs" by (simp add: plain_env_def env_ok_def is_eol_def)
  then have "list_all env_ok (List.map_filter export_binding (splitlines (env_text ?kvs)))"
    unfolding export_bindings_env_text [OF plain] by (simp add: plain_env_def)
  moreover have "path_exists (py_path (sdk_dir_of ?w)) ?w"
    by (simp add: host_eval sdk_dir_of_def)
  moreover have "glob (prefix ''environment-setup-'') (py_path (sdk_dir_of ?w)) ?w =
      [Path ''/'' [''sdk'', ''environment-setup-x'']]"
    by (simp add: host_eval sdk_dir_of_def)
  moreover have "programs ?w (map fst (ran ?w))
      (command_of ?w (setup_cmd (Path ''/'' [''sdk'', ''environment-setup-x''])) None True) (files ?w) =
      (Ok (0, env_text ?kvs), ?fs)"
    by (simp add: sample_host_def)
  ultimately obtain w' where w': "load_yocto_env ?w = (Ok True, w')"
      "\<forall>kvs. list_all plain_env kvs \<and> env_text ?kvs = env_text kvs \<longrightarrow> environ w' = environ ?w ++
        map_of (rev (filter (\<lambda>(k, _). k \<notin> {''BASH_FUNC_PROMPT_COMMAND%%'', ''_''}) kvs))"
    using load_yocto_env_loads [of ?w] by blast
  have "environ w' = environ ?w ++ map_of (rev (filter (\<lambda>(k, _). k \<notin> {''BASH_FUNC_PROMPT_COMMAND%%'', ''_''}) ?kvs))"
    using w'(2) plain by blast
  then show ?thesis using w'(1) by (auto simp: sample_host_def)
qed

text \<open>A function that the SDK's script exports is printed over several lines, and a line of its body that
  holds an equals sign is read as an assignment, here to \<^verbatim>\<open>PATH\<close>.\<close>

lemma load_yocto_env_splits_values:
  "List.map_filter export_binding (splitlines (env_text [(''BASH_FUNC_f%%'', ''() {'' @ newline @ ''PATH=x'' @ newline @ ''}'')])) =
     [(''BASH_FUNC_f%%'', ''() {''), (''PATH'', ''x'')]"
  by (simp add: env_text_def export_binding_def List.map_filter_simps splitlines_def is_eol_def)

text \<open>What a call that loads the environment did.\<close>

definition environ_only :: "'z host_scheme \<Rightarrow> 'z host_scheme \<Rightarrow> bool" where
  "environ_only w w' \<longleftrightarrow> (\<exists>env. w' = w\<lparr>environ := env\<rparr>)"

lemma environ_only_refl: "environ_only w w"
  unfolding environ_only_def by (rule exI [of _ "environ w"]) simp

interpretation eo: state_order environ_only
  by unfold_locales (rule environ_only_refl, auto simp: environ_only_def)

lemma export_lines_environ: "for_each ls export_line w = (r, w') \<Longrightarrow> environ_only w w'"
proof (rule evolvesD [of environ_only "for_each ls export_line"], rule eo.ev_for_each)
  show "evolves environ_only (export_line l)" for l
    by (auto simp: export_line_def setenv_def evolves_def io_defs environ_only_refl split: option.splits)
      (auto simp: environ_only_def)
qed

lemma load_yocto_env_True:
  fixes w :: "'z host_scheme"
  assumes "load_yocto_env w = (Ok True, w')"
  obtains s ss out fs pr env where "glob (prefix ''environment-setup-'') (py_path (sdk_dir_of w)) w = s # ss"
    "programs w (map fst (ran w)) (command_of w (setup_cmd s) None True) (files w) = (Ok (0, out), fs)"
    "w' = w\<lparr>printed := pr, files := fs, ran := ran w @ [(command_of w (setup_cmd s) None True, Ok 0)], environ := env\<rparr>"
proof -
  let ?g = "glob (prefix ''environment-setup-'') (py_path (sdk_dir_of w)) w"
  have here: "path_exists (py_path (sdk_dir_of w)) w"
    by (rule ccontr) (use assms in \<open>simp add: load_yocto_env_def Let_def bindE_def seqE_def io_defs message_defs print_to_def\<close>)
  moreover have "?g \<noteq> []"
    using assms here by (auto simp: load_yocto_env_def Let_def bindE_def seqE_def io_defs message_defs print_to_def)
  ultimately obtain s ss where g: "?g = s # ss" by (cases ?g) auto
  obtain r0 fs where p: "programs w (map fst (ran w)) (command_of w (setup_cmd s) None True) (files w) = (r0, fs)" by fastforce
  have sub: "subprocess_run (setup_cmd s) None True (w\<lparr>printed := pr\<rparr>) = (r0, w\<lparr>printed := pr, files := fs, ran := ran w @
        [(command_of w (setup_cmd s) None True, map_result fst r0)]\<rparr>)" for pr
    using p by (simp add: subprocess_run_def Let_def command_of_def abs_parts_def)
  let ?w1 = "\<lambda>pr. w\<lparr>printed := pr, files := fs, ran := ran w @ [(command_of w (setup_cmd s) None True, Ok 0)]\<rparr>"
  define pr where "pr = printed (snd (print_info (''Auto-loading Yocto SDK environment from: '' @ path_name s @ ''...'') w))"
  have body: "load_yocto_env w = bindE (subprocess_run (setup_cmd s) None True)
      (\<lambda>(returncode, stdout).
         if returncode \<noteq> 0 then seqE (print_error ''Failed to load Yocto SDK environment.'') (ret False)
         else seqE (for_each (splitlines stdout) export_line) (ret True)) (w\<lparr>printed := pr\<rparr>)"
    using here g by (simp add: load_yocto_env_def bindE_def seqE_def io_defs Let_def pr_def print_info_def print_to_def)
  have no: "seqE (print_error m) (ret False) v \<noteq> (Ok True, w')" for m and v :: "'z host_scheme"
    by (simp add: seqE_def bindE_def print_error_def print_to_def io_defs)
  obtain out where o: "r0 = Ok (0, out)" "seqE (for_each (splitlines out) export_line) (ret True) (?w1 pr) = (Ok True, w')"
  proof (cases r0)
    case (Ok z)
    obtain rc out where z: "z = (rc, out)" by fastforce
    have "rc = 0" using assms no unfolding body by (auto simp: bindE_def sub Ok z split: if_splits)
    then show thesis using assms that [of out] unfolding body by (simp add: bindE_def sub Ok z)
  qed (use assms in \<open>simp_all add: body bindE_def sub\<close>)
  obtain u where "for_each (splitlines out) export_line (?w1 pr) = (Ok u, w')"
    using o(2) by (auto simp: ret_def elim!: seqE_OkE)
  from export_lines_environ [OF this] that [OF g] p o(1) show thesis by (auto simp: environ_only_def)
qed

text \<open>The lines \<^verbatim>\<open>KEY=VALUE\<close> of a \<^verbatim>\<open>.env\<close> file are read back exactly: loading the file that
  prints a list of plain variables overlays the environment with those variables, and
  variables already set, as well as earlier lines, win.\<close>

lemma load_dotenv_roundtrip:
  assumes "list_all plain_dotenv kvs"
    and "stat w (path_join d ''.env'') = Some (File (Some (env_text kvs)) m t)"
  shows "load_dotenv d w = (Ok (), w\<lparr>environ := map_of kvs ++ environ w\<rparr>)"
proof -
  have "list_all env_ok (dotenv_bindings (env_text kvs))"
    using assms(1) by (auto simp: dotenv_bindings_env_text list_all_iff plain_dotenv_def plain_env_def)
  from load_dotenv_effect [OF assms(2) this] show ?thesis
    by (simp add: dotenv_bindings_env_text [OF assms(1)])
qed

text \<open>C34: For every \<^verbatim>\<open>.env\<close> text whose assignments the system accepts, with comments, blank
  lines and white space anywhere, the loop of \<^verbatim>\<open>load_dotenv\<close> has the effect of one overlay: a
  variable keeps the value it had, and otherwise gets that of its first assignment.\<close>

theorem load_dotenv_overlay:
  assumes "stat w (path_join d ''.env'') = Some (File (Some src) m t)"
    and "list_all env_ok (dotenv_bindings src)"
  shows "\<exists>w'. load_dotenv d w = (Ok (), w') \<and> w' = w\<lparr>environ := environ w'\<rparr> \<and>
    (\<forall>k. environ w' k =
       (case environ w k of Some v \<Rightarrow> Some v | None \<Rightarrow> map_of (dotenv_bindings src) k))"
  using load_dotenv_effect [OF assms] by (auto simp: map_add_def split: option.splits)

theorem load_dotenv_overlay_witness:
  "environ (snd (load_dotenv (Path ''/'' [''r''])
     (sample_host [([''r''], Dir), ([''r'', ''.env''],
         File (Some (''# c=1'' @ newline @ '' A = 1 '' @ newline @ ''A=2'' @ newline)) 420 0)]
       Map.empty [] (\<lambda>_ _ fs. (Ok (0, []), fs))))) ''A'' = Some ''1''"
proof -
  let ?src = "''# c=1'' @ newline @ '' A = 1 '' @ newline @ ''A=2'' @ newline"
  let ?w = "sample_host [([''r''], Dir), ([''r'', ''.env''], File (Some ?src) 420 0)]
    Map.empty [] (\<lambda>_ _ fs. (Ok (0, []), fs))"
  have b: "dotenv_bindings ?src = [(''A'', ''1''), (''A'', ''2'')]"
    by (simp add: dotenv_bindings_def dotenv_binding_def strip_def lstrip_def rstrip_def is_space_def
        List.map_filter_simps)
  have "stat ?w (path_join (Path ''/'' [''r'']) ''.env'') = Some (File (Some ?src) 420 0)"
    by (simp add: host_eval)
  moreover have "list_all env_ok (dotenv_bindings ?src)"
    unfolding b by (simp add: env_ok_def)
  ultimately have "\<exists>w'. load_dotenv (Path ''/'' [''r'']) ?w = (Ok (), w') \<and> w' = ?w\<lparr>environ := environ w'\<rparr> \<and>
      (\<forall>k. environ w' k =
        (case environ ?w k of Some v \<Rightarrow> Some v | None \<Rightarrow> map_of (dotenv_bindings ?src) k))"
    by (rule load_dotenv_overlay)
  then show ?thesis unfolding b by (auto simp: sample_host_def)
qed

text \<open>A line of \<^verbatim>\<open>.env\<close> that begins with an equals sign (here the first one) makes every
  script exit with status 1 and the message that the project root could not be entered,
  although the change of directory was done.\<close>

lemma blank_key_reported_as_chdir:
  fixes w :: "'z host_scheme"
  assumes root: "node_at (files w) q = Some Dir" "path_at w (path_parent (path_parent (script_file w))) = Inr q"
    and env: "stat (w\<lparr>cwd := q\<rparr>) (path_join (path_parent (path_parent (script_file w))) ''.env'') =
        Some (File (Some (''='' @ v @ newline @ rest)) m t)"
    and v: "list_all (\<lambda>c. \<not> is_eol c) v" "CHR 0x00 \<notin> set v" "environ w [] = None"
  shows "\<exists>w'. change_to_project_root w = (Raise (Exn (SystemExit 1) []), w') \<and> cwd w' = q \<and>
    printed w' = printed w @
      [(Stderr, Colors_RED @ Colors_BOLD @ ''Error: '' @
          ''Could not change to project root directory.'' @ Colors_RESET)]"
proof -
  define d where "d = path_parent (path_parent (script_file w))"
  let ?u = "w\<lparr>cwd := q\<rparr>"
  have cd: "chdir d w = (Ok (), ?u)" using root by (simp add: chdir_def d_def)
  obtain x where x: "path_at ?u (path_join d ''.env'') = Inr x"
    "node_at (files ?u) x = Some (File (Some (''='' @ v @ newline @ rest)) m t)"
    using env by (auto simp: stat_def d_def split: sum.splits)
  have ls: "file_lines [] (''='' @ v @ newline @ rest) = (''='' @ v @ newline) # file_lines [] rest"
    using file_lines_line [of "''='' @ v" "[]" rest] v(1) by (simp add: eq_not_special)
  have op: "open_lines (path_join d ''.env'') ?u = (Ok ((''='' @ v @ newline) # file_lines [] rest), ?u)"
    using x ls by (simp add: open_lines_def)
  define u where "u = rstrip (v @ newline)"
  have u: "strip (''='' @ v @ newline) = CHR ''='' # u"
    using strip_Cons [of "CHR ''=''" "v @ newline"] by (simp add: u_def eq_not_special)
  have nul: "CHR 0x00 \<notin> set (strip u)" using v(2) set_strip [of u] set_rstrip [of "v @ newline"] by (auto simp: u_def)
  have line: "dotenv_line (''='' @ v @ newline) ?u = (Raise (Exn OSError ''Invalid argument''), ?u)"
    using u v(3) nul
    by (simp add: dotenv_line_def Let_def bindE_def io_defs setenv_def)
  have "load_dotenv d ?u = (Raise (Exn OSError ''Invalid argument''), ?u)"
    using x op line
    by (simp add: load_dotenv_def Let_def bindE_def seqE_def io_defs path_exists_def stat_def)
  then show ?thesis using cd
    by (simp add: change_to_project_root_def Let_def bindE_def seqE_def io_defs d_def [symmetric]
        try_except_def catches_def instance_any_def instance_of_def print_error_def print_to_def sys_exit_def)
qed

end
