(* ===== verification/BuildScripts.thy ===== *)
theory BuildScripts
  imports ScriptUtils
begin

text \<open>
  The scripts that build, run and check the project with CMake: \<^verbatim>\<open>clean.py\<close>,
  \<^verbatim>\<open>run.py\<close>, \<^verbatim>\<open>test.py\<close>, \<^verbatim>\<open>coverage.py\<close>, \<^verbatim>\<open>format.py\<close>, \<^verbatim>\<open>valgrind.py\<close> and \<^verbatim>\<open>build.py\<close>,
  each \<^verbatim>\<open>main\<close> as one statement on the host.
\<close>

section \<open>\<^verbatim>\<open>clean.py\<close> and \<^verbatim>\<open>run.py\<close>\<close>

definition clean_main :: "('z host_scheme, unit) io" where
  "clean_main =
     bindE change_to_project_root (\<lambda>project_root.
       let build_dir = path_join project_root ''build'' in
       bindE (gets (path_exists build_dir)) (\<lambda>here.
         if here then
           seqE (print_info (''Removing '' @ path_str build_dir @ ''...''))
             (seqE (rmtree build_dir)
               (print_success (path_str build_dir @ '' removed successfully.'')))
         else
           print_info (''Build directory '' @ path_str build_dir @
             '' does not exist. Nothing to clean.'')))"

definition run_main :: "('z host_scheme, unit) io" where
  "run_main =
     seqE change_to_project_root
       (bindE (gets argv) (\<lambda>args.
          let target = get_arg args 1 ''server''; preset = get_arg args 2 ''yocto-debug'' in
          seqE
            (whenE (target \<notin> set [''server'', ''client''])
               (seqE (print_error (''Target unknown: '' @ target @ newline @ ''Usage: '' @ hd args @
                        '' [server|client] [preset]''))
                 (sys_exit 1)))
            (let executable = path_joins (py_path ''build'') [preset, ''apps'', ''blank_chat_'' @ target] in
             bindE (gets (is_file executable)) (\<lambda>here.
               if here then
                 seqE (print_info (''Running '' @ target @ '' ['' @ preset @ '']...''))
                   (run_or_exit [path_str executable] default_fail_msg)
               else
                 seqE (print_error (''Executable not found: '' @ path_str executable))
                   (seqE (print_info
                            (''Build the project first using: python3 ./scripts/build.py '' @ preset))
                     (sys_exit 1))))))"

section \<open>\<^verbatim>\<open>test.py\<close>, \<^verbatim>\<open>coverage.py\<close> and \<^verbatim>\<open>format.py\<close>\<close>

definition build_dir_of :: "string \<Rightarrow> path" where
  "build_dir_of preset = path_join (py_path ''build'') preset"

definition test_main :: "('z host_scheme, unit) io" where
  "test_main =
     seqE change_to_project_root
       (bindE (gets argv) (\<lambda>args.
          let preset = get_arg args 1 ''yocto-debug''; build_dir = build_dir_of preset in
          seqE require_yocto_env
            (bindE (gets (is_dir build_dir)) (\<lambda>here.
               seqE
                 (whenE (\<not> here)
                    (seqE (print_error (''Build directory for '' @ [CHR 0x27] @ preset @ [CHR 0x27] @ '' not found.''))
                      (seqE (print_info (''Run: python3 ./scripts/build.py '' @ preset @ '' first''))
                        (sys_exit 1))))
                 (seqE (print_info (''Running unit tests (Preset: '' @ preset @ '')...''))
                   (seqE (run_command [''ctest'', ''--output-on-failure''] (Some build_dir) True
                            ''One or more tests failed.'')
                     (ret ())))))))"

definition coverage_main :: "('z host_scheme, unit) io" where
  "coverage_main =
     seqE change_to_project_root
       (let preset = ''yocto-coverage''; build_dir = build_dir_of preset in
        seqE require_yocto_env
          (seqE (print_info (''Setting up environment for code coverage (Preset: '' @ preset @ '')...''))
            (seqE (run_or_exit [''cmake'', ''--preset'', preset]
                     (''CMake configuration failed for preset '' @ preset @ ''.''))
              (seqE (print_info ''Building the project...'')
                (seqE (run_or_exit [''cmake'', ''--build'', path_str build_dir] ''Build failed.'')
                  (seqE (print_info ''Running tests and generating coverage report...'')
                    (seqE (run_or_exit [''cmake'', ''--build'', path_str build_dir, ''--target'', ''coverage'']
                             ''Failed to generate coverage report.'')
                      (seqE (print_success ''Coverage report generated successfully!'')
                        (let report_path = path_joins build_dir [''coverage_report'', ''index.html''] in
                         bindE (resolve report_path) (\<lambda>p.
                           print_info (''Open this file in your browser: '' @ path_str p)))))))))))"

definition format_main :: "('z host_scheme, unit) io" where
  "format_main =
     seqE change_to_project_root
       (bindE (gets argv) (\<lambda>args.
          let preset = get_arg args 1 ''yocto-debug''; build_dir = build_dir_of preset in
          seqE require_yocto_env
            (bindE (gets (is_dir build_dir)) (\<lambda>here.
               seqE
                 (whenE (\<not> here)
                    (seqE (print_info
                             (''Build directory not found. Configuring format target (Preset: '' @ preset @ '')...''))
                      (run_or_exit [''cmake'', ''--preset'', preset] ''CMake configuration failed.'')))
                 (seqE (print_info ''Formatting source code...'')
                   (seqE (run_or_exit [''cmake'', ''--build'', path_str build_dir, ''--target'', ''format'']
                            ''Formatting failed.'')
                     (print_success ''Format done.'')))))))"

section \<open>\<^verbatim>\<open>valgrind.py\<close>\<close>

definition list_insert :: "nat \<Rightarrow> 'a \<Rightarrow> 'a list \<Rightarrow> 'a list" where
  "list_insert i x xs = take i xs @ x # drop i xs"

definition valgrind_cmd :: "string \<Rightarrow> path \<Rightarrow> string list" where
  "valgrind_cmd tool executable =
     (let cmd = [''valgrind'', ''--tool='' @ tool, ''--error-exitcode=1'', path_str executable] in
      if tool = ''memcheck'' then list_insert 2 ''--leak-check=full'' cmd else cmd)"

definition valgrind_main :: "('z host_scheme, unit) io" where
  "valgrind_main =
     seqE change_to_project_root
       (let preset = ''yocto-debug'' in
        seqE require_yocto_env
          (bindE (gets argv) (\<lambda>args.
             let tool = get_arg args 1 ''memcheck''; build_dir = build_dir_of preset in
             bindE (gets (is_dir build_dir)) (\<lambda>here.
               seqE
                 (whenE (\<not> here)
                    (seqE (print_error (''Build directory for '' @ [CHR 0x27] @ preset @ [CHR 0x27] @ '' not found.''))
                      (seqE (print_info (''Run: python3 ./scripts/build.py '' @ preset @ '' first''))
                        (sys_exit 1))))
                 (let executable = path_joins build_dir [''tests'', ''blank_chat_ut''] in
                  bindE (gets (path_exists executable)) (\<lambda>there.
                    seqE
                      (whenE (\<not> there)
                         (seqE (print_error (''Test executable not found: '' @ path_str executable))
                           (sys_exit 1)))
                      (seqE (print_info (''Running Valgrind ('' @ tool @ '') on tests using SYSTEM Valgrind...''))
                        (run_or_exit (valgrind_cmd tool executable)
                           (''Valgrind ('' @ tool @ '') found issues!'')))))))))"

section \<open>\<^verbatim>\<open>build.py\<close>\<close>

definition build_parser :: parser where
  "build_parser =
     \<lparr>options = [help_option, OptSpec [''-c'', ''--configure''] ''configure'' StoreTrue],
      positional = Some ''preset'',
      defaults = [(''preset'', AStr ''yocto-debug''), (''configure'', ABool False)]\<rparr>"

definition copy_compile_commands :: "path \<Rightarrow> ('z host_scheme, unit) io" where
  "copy_compile_commands build_dir =
     (let compile_cmds = path_join build_dir ''compile_commands.json'';
          root_compile_cmds = py_path ''compile_commands.json'' in
      bindE (gets (path_exists compile_cmds)) (\<lambda>here.
        whenE here
          (bindE (gets (\<lambda>w. path_exists root_compile_cmds w \<or> is_symlink root_compile_cmds w)) (\<lambda>old.
             seqE (whenE old (unlink root_compile_cmds))
               (seqE (copy2 compile_cmds root_compile_cmds)
                 (print_info ''Copied compile_commands.json to project root.''))))))"

definition configure_if :: "bool \<Rightarrow> string \<Rightarrow> ('z host_scheme, unit) io" where
  "configure_if needed preset =
     (if needed then
        seqE (print_info (''Configuring CMake (Preset: '' @ preset @ '')...''))
          (run_or_exit [''cmake'', ''--preset'', preset] ''CMake configuration failed.'')
      else print_info ''Build directory exists. Skipping configuration (use -c to force).'')"

definition build_and_copy :: "string \<Rightarrow> ('z host_scheme, unit) io" where
  "build_and_copy preset =
     seqE (print_info (''Building the project (Preset: '' @ preset @ '')...''))
       (seqE (run_or_exit [''cmake'', ''--build'', path_str (build_dir_of preset)] ''Build failed.'')
         (seqE (copy_compile_commands (build_dir_of preset))
           (print_success ''Build completed successfully!'')))"

definition build_main :: "('z host_scheme, unit) io" where
  "build_main =
     seqE change_to_project_root
       (bindE (run_parser build_parser) (\<lambda>args.
          let preset = arg_text args ''preset'' in
          seqE require_yocto_env
            (bindE (gets (is_dir (build_dir_of preset))) (\<lambda>here.
               seqE (configure_if (arg_set args ''configure'' \<or> \<not> here) preset)
                 (build_and_copy preset)))))"

lemmas build_defs = clean_main_def run_main_def test_main_def coverage_main_def format_main_def
  valgrind_main_def copy_compile_commands_def configure_if_def build_and_copy_def build_main_def

section \<open>Every script keeps the relations and the discipline\<close>

context host_order
begin

lemma ev_clean_main: "evolves R clean_main"
  unfolding clean_main_def Let_def by (intro script_rules)

lemma ev_run_main: "evolves R run_main"
  unfolding run_main_def Let_def by (intro script_rules)

lemma ev_test_main: "evolves R test_main"
  unfolding test_main_def Let_def by (intro script_rules)

lemma ev_coverage_main: "evolves R coverage_main"
  unfolding coverage_main_def Let_def by (intro script_rules)

lemma ev_format_main: "evolves R format_main"
  unfolding format_main_def Let_def by (intro script_rules)

lemma ev_valgrind_main: "evolves R valgrind_main"
  unfolding valgrind_main_def Let_def by (intro script_rules)

lemma ev_build_main: "evolves R build_main"
  unfolding build_main_def configure_if_def build_and_copy_def copy_compile_commands_def Let_def by (intro script_rules)

end

lemma disciplined_change_to_project_root: "disciplined change_to_project_root"
  and disciplined_messages: "disciplined (print_info msg)" "disciplined (print_success msg)"
    "disciplined (print_error msg)"
  and disciplined_gets: "disciplined (gets f)"
  and disciplined_ret: "disciplined (ret x)"
  and disciplined_exit: "disciplined (sys_exit n)"
  and disciplined_run_parser: "disciplined (run_parser p)"
  and disciplined_calls: "disciplined (rmtree q)" "disciplined (unlink q)" "disciplined (copy2 q q')"
    "disciplined (resolve q)" "disciplined (chmod q k)" "disciplined (newest qs)"
    "disciplined (mkdir_parents b q)"
  by (rule disciplined_nothing, intro rn.utils_rules)+

lemmas discipline = disciplined_rules disciplined_change_to_project_root disciplined_messages
  disciplined_gets disciplined_ret disciplined_exit disciplined_run_parser disciplined_calls

interpretation clean_script: host_script clean_main
  by unfold_locales (unfold clean_main_def Let_def, intro discipline)

interpretation run_script: host_script run_main
  by unfold_locales (unfold run_main_def Let_def, intro discipline)

interpretation test_script: host_script test_main
  by unfold_locales (unfold test_main_def Let_def, intro discipline)

interpretation coverage_script: host_script coverage_main
  by unfold_locales (unfold coverage_main_def Let_def, intro discipline)

interpretation format_script: host_script format_main
  by unfold_locales (unfold format_main_def Let_def, intro discipline)

interpretation valgrind_script: host_script valgrind_main
  by unfold_locales (unfold valgrind_main_def Let_def, intro discipline)

interpretation build_script: host_script build_main
  by unfold_locales (unfold build_main_def configure_if_def build_and_copy_def copy_compile_commands_def Let_def, intro discipline)

section \<open>\<^verbatim>\<open>compile_commands.json\<close>\<close>

definition single_name :: "string \<Rightarrow> bool" where
  "single_name s \<longleftrightarrow> proper_part s \<and> CHR ''/'' \<notin> set s \<and> s \<noteq> ''..''"

lemma py_path_single: "single_name s \<Longrightarrow> py_path s = Path [] [s]"
  by (cases s) (auto simp: single_name_def py_path_def root_of_def proper_part_def)

lemma build_dir_of_single: "single_name s \<Longrightarrow> build_dir_of s = Path [] [''build'', s]"
  using py_path_single [of "''build''"]
  by (simp add: build_dir_of_def path_join_def py_path_single single_name_def [of "''build''"] proper_part_def)

lemma py_path_compile_commands: "py_path ''compile_commands.json'' = Path [] [''compile_commands.json'']"
  by (simp add: path_defs)

lemma path_join_compile_commands:
  "path_join p ''compile_commands.json'' = Path (path_root p) (path_parts p @ [''compile_commands.json''])"
  by (simp add: path_join_def py_path_compile_commands)

lemma whenE_True: "whenE True m = m"
  by (simp add: whenE_def)

text \<open>Unlinking what is in the way, a file or a link, leaves the entry free.\<close>

lemma clear_entry:
  fixes w :: "'z host_scheme"
  assumes wf: "wf_fs (files w)" and p: "abs_parts w p = q @ [c]" and q: "node_at (files w) q = Some Dir"
    and dots: "''..'' \<notin> set q" "c \<noteq> ''..''" and old: "node_at (files w) (q @ [c]) \<noteq> Some Dir"
  shows "\<exists>fs. whenE (path_exists p w \<or> is_symlink p w) (unlink p) w = (Ok (), w\<lparr>files := fs\<rparr>) \<and>
    wf_fs fs \<and> (\<forall>x. node_at fs x = (if x = q @ [c] then None else node_at (files w) x))"
proof (cases "node_at (files w) (q @ [c])")
  case None
  then have "path_at w p = Inr (q @ [c])" using path_at_leaf [OF wf p q dots] by simp
  with None have "\<not> path_exists p w" "\<not> is_symlink p w"
    by (simp_all add: path_exists_def stat_def is_symlink_def lstat_def entry_at_real [OF wf p q dots])
  then have "whenE (path_exists p w \<or> is_symlink p w) (unlink p) w = (Ok (), w\<lparr>files := files w\<rparr>)"
    by (simp add: io_defs)
  with wf None show ?thesis by (intro exI [of _ "files w"]) auto
next
  case (Some n)
  have "path_exists p w \<or> is_symlink p w"
  proof (cases n)
    case (File t m i)
    then have "path_at w p = Inr (q @ [c])" using path_at_leaf [OF wf p q dots] Some by simp
    then show ?thesis using Some by (simp add: path_exists_def stat_def)
  qed (use Some old in \<open>simp_all add: is_symlink_def lstat_def entry_at_real [OF wf p q dots]\<close>)
  moreover have "unlink p w = (Ok (), w\<lparr>files := AList.delete (q @ [c]) (files w)\<rparr>)"
    using Some old by (auto simp: unlink_def entry_at_real [OF wf p q dots] split: node.splits)
  ultimately show ?thesis using wf_fs_delete [OF wf old]
    by (intro exI [of _ "AList.delete (q @ [c]) (files w)"]) (simp add: whenE_def node_at_delete)
qed

lemma copy_compile_commands_effect:
  fixes w :: "'z host_scheme"
  assumes wf: "wf_fs (files w)" and cwd: "node_at (files w) (cwd w) = Some Dir" "''..'' \<notin> set (cwd w)"
    and preset: "single_name preset"
    and src: "node_at (files w) (cwd w @ [''build'', preset, ''compile_commands.json'']) = Some (File t m i)"
    and dst: "node_at (files w) (cwd w @ [''compile_commands.json'']) \<noteq> Some Dir"
  shows "\<exists>w'. copy_compile_commands (build_dir_of preset) w = (Ok (), w') \<and>
    (\<forall>x. node_at (files w') x =
       (if x = cwd w @ [''compile_commands.json''] then Some (File t m i) else node_at (files w) x))"
proof -
  let ?cc = "''compile_commands.json''"
  let ?src = "Path [] [''build'', preset, ?cc]" and ?dst = "Path [] [?cc]"
  let ?q = "cwd w @ [?cc]" and ?d = "cwd w @ [''build'', preset]" and ?s = "cwd w @ [''build'', preset, ?cc]"
  have d: "node_at (files w) ?d = Some Dir" using wf_fs_parent [OF wf src] by (simp add: butlast_append)
  have dots: "''..'' \<notin> set ?d" using cwd(2) preset by (auto simp: single_name_def)
  have paths: "path_join (build_dir_of preset) ?cc = ?src" "py_path ?cc = ?dst"
    using preset by (simp_all add: build_dir_of_single path_join_compile_commands py_path_compile_commands)
  have parts: "abs_parts w ?dst = ?q" by (simp add: abs_parts_def)
  obtain fs where fs: "whenE (path_exists ?dst w \<or> is_symlink ?dst w) (unlink ?dst) w = (Ok (), w\<lparr>files := fs\<rparr>)"
    "wf_fs fs" "\<And>x. node_at fs x = (if x = ?q then None else node_at (files w) x)"
    using clear_entry [OF wf parts cwd _ dst] by auto
  define w2 where "w2 = w\<lparr>files := fs\<rparr>"
  have w2: "files w2 = fs" "cwd w2 = cwd w" by (simp_all add: w2_def)
  have at: "path_at w ?src = Inr ?s" "path_at w2 ?src = Inr ?s" "path_at w2 ?dst = Inr ?q"
    using path_at_leaf [of w ?src ?d ?cc] path_at_leaf [of w2 ?src ?d ?cc]
      path_at_leaf [of w2 ?dst "cwd w" ?cc] wf fs w2 d dots src cwd
    by (simp_all add: abs_parts_def)
  have cp: "copy2 ?src ?dst w2 = (Ok (), w2\<lparr>files := AList.update ?q (File t m i) fs\<rparr>)"
    using at src by (simp add: copy2_def is_dir_def stat_def w2 fs(3))
  have "path_exists ?src w" using at src by (simp add: path_exists_def stat_def)
  then have "copy_compile_commands (build_dir_of preset) w =
      seqE (copy2 ?src ?dst) (print_info ''Copied compile_commands.json to project root.'') w2"
    unfolding copy_compile_commands_def Let_def paths
    by (simp add: seqE_def bindE_def gets_def whenE_True fs(1) w2_def [symmetric])
  then show ?thesis
    by (simp add: seqE_def bindE_def cp print_info_def print_to_def io_defs node_at_update fs(3))
qed

text \<open>After a build, \<^verbatim>\<open>compile_commands.json\<close> in the project root is the one of the build
  directory, with its mode and time, whether the root had none, a file, or a symbolic link
  (even one into the build directory); no other entry of the file system changes.\<close>

lemma compile_commands_copied:
  fixes w :: "'z host_scheme"
  assumes wf: "wf_fs (files w)" and cwd: "node_at (files w) (cwd w) = Some Dir" "''..'' \<notin> set (cwd w)"
    and preset: "single_name preset"
    and src: "node_at (files w) (cwd w @ [''build'', preset, ''compile_commands.json'']) = Some (File t m i)"
    and dst: "node_at (files w) (cwd w @ [''compile_commands.json'']) \<noteq> Some Dir"
  shows "\<exists>w'. copy_compile_commands (build_dir_of preset) w = (Ok (), w') \<and>
    (\<forall>x. node_at (files w') x =
       (if x = cwd w @ [''compile_commands.json''] then Some (File t m i) else node_at (files w) x))"
  using assms by (rule copy_compile_commands_effect)

definition linked_host :: host where
  "linked_host =
     (sample_host (project_tree @
        [([''r'', ''build''], Dir), ([''r'', ''build'', ''dbg''], Dir),
         ([''r'', ''build'', ''dbg'', ''compile_commands.json''], File (Some ''[]'') 420 7),
         ([''r'', ''compile_commands.json''], Link (py_path ''build/dbg/compile_commands.json''))])
       [''OECORE_NATIVE_SYSROOT'' \<mapsto> ''/sdk''] [''build.py'', ''dbg''] (\<lambda>_ _ fs. (Ok (0, []), fs)))
     \<lparr>cwd := [''r'']\<rparr>"

lemma linked_host_simps: "cwd linked_host = [''r'']" "wf_fs (files linked_host)"
  "node_at (files linked_host) [''r''] = Some Dir"
  "node_at (files linked_host) [''r'', ''build'', ''dbg'', ''compile_commands.json''] = Some (File (Some ''[]'') 420 7)"
  "node_at (files linked_host) [''r'', ''compile_commands.json''] \<noteq> Some Dir"
  by (simp_all add: linked_host_def host_eval wf_fs_def)

section \<open>The commands of the scripts\<close>

lemma issues_copy: "issues (copy_compile_commands d) []"
  unfolding copy_compile_commands_def Let_def by (intro issues_nothing rn.utils_rules)

lemma issues_configure_if:
  "issues (configure_if needed preset) (if needed then [[''cmake'', ''--preset'', preset]] else [])"
proof -
  have "issues (configure_if needed preset) (if needed then [] @ [[''cmake'', ''--preset'', preset]] else [])"
    unfolding configure_if_def by (intro issues_rules)
  then show ?thesis by (cases needed) simp_all
qed

lemma issues_build_and_copy:
  "issues (build_and_copy preset) [[''cmake'', ''--build'', path_str (build_dir_of preset)]]"
proof -
  have "issues (build_and_copy preset)
      ([] @ [[''cmake'', ''--build'', path_str (build_dir_of preset)]] @ [] @ [])"
    unfolding build_and_copy_def by (intro issues_rules issues_copy)
  then show ?thesis by simp
qed

text \<open>The steps all the scripts that need the SDK share, when its environment is loaded.\<close>

lemma environ_kept: "environ w k \<noteq> None \<Longrightarrow> environ w \<subseteq>\<^sub>m env \<Longrightarrow> env k \<noteq> None"
  by (force simp: map_le_def dom_def)

lemma project_root_Ok:
  assumes "change_to_project_root w = (Ok d, w1)" and "path_at w (project_root_of w) = Inr q"
  obtains env where "d = project_root_of w" "w1 = w\<lparr>cwd := q, environ := env\<rparr>" "environ w \<subseteq>\<^sub>m env"
    "argvs w1 = argvs w" "\<And>p. is_dir p w1 = is_dir p (w\<lparr>cwd := q\<rparr>)"
    "\<And>p. path_exists p w1 = path_exists p (w\<lparr>cwd := q\<rparr>)"
    "\<And>p pat. glob pat p w1 = glob pat p (w\<lparr>cwd := q\<rparr>)"
proof -
  obtain env where "d = project_root_of w" "w1 = w\<lparr>cwd := q, environ := env\<rparr>" "environ w \<subseteq>\<^sub>m env"
    using change_to_project_root_Ok [OF assms(1)] assms(2) by (metis sum.inject(2))
  then show thesis
    using that queries_cong [of "w\<lparr>cwd := q, environ := env\<rparr>" "w\<lparr>cwd := q\<rparr>"]
    by (simp add: argvs_def)
qed

lemma sdk_loaded_seq:
  "environ w ''OECORE_NATIVE_SYSROOT'' \<noteq> None \<Longrightarrow> seqE require_yocto_env m w = m w"
  by (simp add: seqE_def bindE_def require_yocto_env_loaded)

text \<open>The guard of the scripts: nothing happens when the SDK is loaded, otherwise its setup script runs.\<close>

lemma require_yocto_env_Ok:
  fixes w :: "'z host_scheme"
  assumes "require_yocto_env w = (Ok u, w')" "environ w ''OECORE_NATIVE_SYSROOT'' = None"
  obtains s c out fs where "cmd_argv c = [''bash'', ''-c'', ''source '' @ path_str s @ '' && env'']"
    "programs w (map fst (ran w)) c (files w) = (Ok (0, out), fs)"
    "argvs w' = argvs w @ [[''bash'', ''-c'', ''source '' @ path_str s @ '' && env'']]" "files w' = fs" "cwd w' = cwd w"
proof -
  have "load_yocto_env w = (Ok True, w')"
    using assms by (auto simp: require_yocto_env_def gets_def whenE_def sys_exit_def rethrow_def throw_def ret_def
        elim!: bindE_OkE split: if_splits)
  then obtain s ss out fs pr env where l:
    "programs w (map fst (ran w)) (command_of w (setup_cmd s) None True) (files w) = (Ok (0, out), fs)"
    "w' = w\<lparr>printed := pr, files := fs, ran := ran w @ [(command_of w (setup_cmd s) None True, Ok 0)], environ := env\<rparr>"
    by (rule load_yocto_env_True)
  have "cmd_argv (command_of w (setup_cmd s) None True) = [''bash'', ''-c'', ''source '' @ path_str s @ '' && env'']"
    by (simp add: command_of_def setup_cmd_def)
  then show thesis using that [of "command_of w (setup_cmd s) None True" s out fs] l by (simp add: argvs_def)
qed

text \<open>C22: A successful \<^verbatim>\<open>build.py\<close> ran these commands and nothing else: first the environment-setup script
  of the SDK, exactly when the SDK was not loaded once \<^verbatim>\<open>.env\<close> had been read, and then it succeeded;
  then CMake's configuration, exactly when it was asked for or the build directory
  was missing from the files left by the setup script; then the build.  The preset is that of the command line.\<close>

theorem build_main_plan:
  fixes w :: "'z host_scheme"
  assumes run: "build_main w = (Ok (), w')"
    and root: "path_at w (project_root_of w) = Inr q"
  shows "\<exists>ns setup fs. parse_list build_parser (tl (argv w)) = Inr ns \<and>
    (if environ (snd (change_to_project_root w)) ''OECORE_NATIVE_SYSROOT'' \<noteq> None then setup = [] \<and> fs = files w
     else \<exists>s c out. setup = [[''bash'', ''-c'', ''source '' @ path_str s @ '' && env'']] \<and> cmd_argv c = hd setup \<and>
       programs w (map fst (ran w)) c (files w) = (Ok (0, out), fs)) \<and>
    argvs w' = argvs w @ setup @
      (if arg_set ns ''configure'' \<or> \<not> is_dir (build_dir_of (arg_text ns ''preset'')) (w\<lparr>cwd := q, files := fs\<rparr>)
       then [[''cmake'', ''--preset'', arg_text ns ''preset'']] else []) @
      [[''cmake'', ''--build'', path_str (build_dir_of (arg_text ns ''preset''))]]"
proof -
  obtain d w1 where 1: "change_to_project_root w = (Ok d, w1)"
    and rest: "bindE (run_parser build_parser) (\<lambda>ns. seqE require_yocto_env
      (bindE (gets (is_dir (build_dir_of (arg_text ns ''preset'')))) (\<lambda>here.
         seqE (configure_if (arg_set ns ''configure'' \<or> \<not> here) (arg_text ns ''preset''))
           (build_and_copy (arg_text ns ''preset''))))) w1 = (Ok (), w')"
    using run unfolding build_main_def Let_def by (rule seqE_OkE)
  from project_root_Ok [OF 1 root] obtain env where
    w1: "w1 = w\<lparr>cwd := q, environ := env\<rparr>" "argvs w1 = argvs w" by metis
  obtain ns w2 u where ns: "parse_list build_parser (tl (argv w)) = Inr ns"
    and req: "require_yocto_env w1 = (Ok u, w2)"
    and steps: "seqE (configure_if
        (arg_set ns ''configure'' \<or> \<not> is_dir (build_dir_of (arg_text ns ''preset'')) w2)
        (arg_text ns ''preset'')) (build_and_copy (arg_text ns ''preset'')) w2 = (Ok (), w')"
    using rest w1(1) by (elim bindE_OkE seqE_OkE [of require_yocto_env]) (auto dest!: run_parser_Ok simp: gets_def)
  note plan = issuesD [OF issues_seq [OF issues_configure_if issues_build_and_copy] steps]
  show ?thesis
  proof (cases "environ w1 ''OECORE_NATIVE_SYSROOT'' \<noteq> None")
    case True
    then have "w2 = w1" using req by (simp add: require_yocto_env_loaded)
    moreover have "is_dir p w1 = is_dir p (w\<lparr>cwd := q, files := files w\<rparr>)" for p
      using queries_cong(1) [of w1 "w\<lparr>cwd := q, files := files w\<rparr>"] w1(1) by simp
    ultimately show ?thesis using True 1 ns plan w1(2)
      by (intro exI [of _ ns] exI [of _ "[]"] exI [of _ "files w"]) simp
  next
    case False
    then obtain s c out fs where l: "cmd_argv c = [''bash'', ''-c'', ''source '' @ path_str s @ '' && env'']"
        "programs w1 (map fst (ran w1)) c (files w1) = (Ok (0, out), fs)"
        "argvs w2 = argvs w1 @ [[''bash'', ''-c'', ''source '' @ path_str s @ '' && env'']]" "files w2 = fs" "cwd w2 = cwd w1"
      by (rule require_yocto_env_Ok [OF req, OF notnotD])
    have "is_dir p w2 = is_dir p (w\<lparr>cwd := q, files := fs\<rparr>)" for p
      using queries_cong(1) [of w2 "w\<lparr>cwd := q, files := fs\<rparr>"] l(4,5) w1(1) by simp
    moreover have "programs w (map fst (ran w)) c (files w) = (Ok (0, out), fs)" using l(2) w1(1) by simp
    moreover note l(1) l(3) [unfolded w1(2)]
    ultimately show ?thesis using False 1 ns plan
      by (intro exI [of _ ns] exI [of _ "[[''bash'', ''-c'', ''source '' @ path_str s @ '' && env'']]"] exI [of _ fs])
        (simp, blast)
  qed
qed

theorem build_main_plan_witness:
  "\<exists>w'. build_main linked_host = (Ok (), w') \<and>
     argvs w' = [[''cmake'', ''--build'', ''build/dbg'']]"
proof -
  have run: "\<exists>w' w1. build_main linked_host = (Ok (), w') \<and> snd (change_to_project_root linked_host) = w1 \<and>
      environ w1 ''OECORE_NATIVE_SYSROOT'' \<noteq> None"
    by (simp add: build_defs utils_defs linked_host_def host_eval host_ops argparse_eval run_parser_def
        build_parser_def build_dir_of_def bindE_def seqE_def io_defs try_except_def Let_def)
  then obtain w' where w': "build_main linked_host = (Ok (), w')"
    and e: "environ (snd (change_to_project_root linked_host)) ''OECORE_NATIVE_SYSROOT'' \<noteq> None" by blast
  have root: "path_at linked_host (project_root_of linked_host) = Inr [''r'']"
    by (simp add: linked_host_def host_eval project_root_of_def)
  have "\<exists>ns. parse_list build_parser (tl (argv linked_host)) = Inr ns \<and>
    argvs w' = argvs linked_host @
      (if arg_set ns ''configure'' \<or> \<not> is_dir (build_dir_of (arg_text ns ''preset''))
          (linked_host\<lparr>cwd := [''r''], files := files linked_host\<rparr>)
       then [[''cmake'', ''--preset'', arg_text ns ''preset'']] else []) @
      [[''cmake'', ''--build'', path_str (build_dir_of (arg_text ns ''preset''))]]"
    using build_main_plan [OF w' root] e by auto
  then show ?thesis using w'
    by (auto simp: linked_host_def host_eval argparse_eval build_parser_def build_dir_of_def argvs_def)
qed

section \<open>A project in place\<close>

text \<open>The scripts directory stands in a real directory without a \<^verbatim>\<open>.env\<close> file.\<close>

definition checked_out :: "'z host_scheme \<Rightarrow> string list \<Rightarrow> bool" where
  "checked_out w q \<longleftrightarrow>
     script_file w = Path ''/'' (q @ [''scripts'', ''utils.py'']) \<and> wf_fs (files w) \<and>
     node_at (files w) q = Some Dir \<and> ''..'' \<notin> set q \<and> node_at (files w) (q @ [''.env'']) = None"

lemma path_join_word:
  "single_name s \<Longrightarrow> path_join p s = Path (path_root p) (path_parts p @ [s])"
  by (simp add: path_join_def py_path_single)

lemma change_to_checked_out:
  fixes w :: "'z host_scheme"
  assumes "checked_out w q"
  shows "change_to_project_root w = (Ok (Path ''/'' q), w\<lparr>cwd := q\<rparr>)"
proof -
  let ?u = "w\<lparr>cwd := q\<rparr>"
  have root: "path_parent (path_parent (script_file w)) = Path ''/'' q"
    using assms by (simp add: checked_out_def path_parent_def butlast_append)
  have "path_at w (Path ''/'' q) = Inr q"
    using assms by (simp add: checked_out_def path_at_def abs_parts_def walk_real_dir)
  then have cd: "chdir (Path ''/'' q) w = (Ok (), ?u)"
    using assms by (simp add: chdir_def checked_out_def)
  have env: "path_join (Path ''/'' q) ''.env'' = Path ''/'' (q @ [''.env''])"
    by (simp add: path_join_word single_name_def proper_part_def)
  have "path_at ?u (Path ''/'' (q @ [''.env''])) = Inr (q @ [''.env''])"
    using assms by (intro path_at_leaf) (auto simp: checked_out_def abs_parts_def)
  then have "\<not> path_exists (Path ''/'' (q @ [''.env''])) ?u"
    using assms by (simp add: path_exists_def stat_def checked_out_def)
  then have "load_dotenv (Path ''/'' q) ?u = (Ok (), ?u)"
    by (simp add: load_dotenv_def Let_def env io_defs)
  with cd show ?thesis
    by (simp add: change_to_project_root_def Let_def root try_except_def seqE_def bindE_def gets_def ret_def)
qed

text \<open>\<^verbatim>\<open>clean.py\<close> removes the build directory with everything below it and leaves every
  other entry of the file system as it was.\<close>

lemma clean_main_removes:
  fixes w :: "'z host_scheme"
  assumes here: "checked_out w q" and build: "node_at (files w) (q @ [''build'']) = Some Dir"
  shows "\<exists>w'. clean_main w = (Ok (), w') \<and>
    (\<forall>x. node_at (files w') x =
       (if prefix (q @ [''build'']) x then None else node_at (files w) x))"
proof -
  let ?u = "w\<lparr>cwd := q\<rparr>"
  have b: "path_join (Path ''/'' q) ''build'' = Path ''/'' (q @ [''build''])"
    by (simp add: path_join_word single_name_def proper_part_def)
  have parts: "\<And>v. abs_parts (v :: 'z host_scheme) (Path ''/'' (q @ [''build''])) = q @ [''build'']"
    by (simp add: abs_parts_def)
  have "path_at ?u (Path ''/'' (q @ [''build''])) = Inr (q @ [''build''])"
    using here build by (intro path_at_leaf [OF _ parts]) (auto simp: checked_out_def)
  then have ex: "path_exists (Path ''/'' (q @ [''build''])) ?u"
    using build by (simp add: path_exists_def stat_def)
  have rm: "rmtree (Path ''/'' (q @ [''build''])) (?u\<lparr>printed := pr\<rparr>) =
      (Ok (), ?u\<lparr>printed := pr, files := filter (\<lambda>(x, _). \<not> prefix (q @ [''build'']) x) (files w)\<rparr>)" for pr
  proof -
    have "entry_at (?u\<lparr>printed := pr\<rparr>) (Path ''/'' (q @ [''build''])) = Inr (q @ [''build''])"
      using here by (intro entry_at_real [OF _ parts]) (auto simp: checked_out_def)
    then show ?thesis using build by (simp add: rmtree_def)
  qed
  show ?thesis
    by (simp add: clean_main_def Let_def bindE_def seqE_def change_to_checked_out [OF here] b ex
        gets_def print_info_def print_success_def print_to_def modify_def rm node_at_filter)
qed

lemma linked_host_nodes: "checked_out linked_host [''r'']"
  "node_at (files linked_host) [''r'', ''build''] = Some Dir"
  "node_at (files linked_host) [''r'', ''scripts''] = Some Dir"
  by (simp_all add: checked_out_def linked_host_def host_eval wf_fs_def)

section \<open>The last command\<close>

text \<open>The arguments of the script do not change, and the last command of a statement is that of
  its last part.\<close>

lemma keeps_argv:
  "evolves log_le m \<Longrightarrow> triple (\<lambda>w. argv w = a) m (\<lambda>_ w. argv w = a) (\<lambda>_ _. True)"
  unfolding triple_def evolves_def log_le_def by (auto split: prod.splits result.splits) (metis snd_conv)+

lemma triple_gets_known:
  "(\<And>w. P w \<Longrightarrow> g w = x) \<Longrightarrow> triple P (f x) Q E \<Longrightarrow> triple P (bindE (gets g) f) Q E"
  by (simp add: triple_def)

lemma triple_gets_any: "(\<And>x. triple P (f x) Q E) \<Longrightarrow> triple P (bindE (gets g) f) Q E"
  by (simp add: triple_def)

definition concludes :: "string list \<Rightarrow> unit \<Rightarrow> 'z host_scheme \<Rightarrow> bool" where
  "concludes cmd u w \<longleftrightarrow> (\<exists>pre. argvs w = pre @ [cmd])"

lemma run_or_exit_concludes: "triple P (run_or_exit cmd msg) (concludes cmd) (\<lambda>_ _. True)"
  unfolding triple_def
  by (auto simp: concludes_def split: prod.splits result.splits dest: issuesD [OF issues_run_or_exit])

text \<open>\<^verbatim>\<open>valgrind.py\<close> ends by running the unit tests under the chosen tool, made to report
  errors in its status, with the full leak check exactly for memcheck.\<close>

lemma valgrind_main_command:
  fixes w :: "'z host_scheme"
  assumes run: "valgrind_main w = (Ok (), w')" and tool: "tool = get_arg (argv w) 1 ''memcheck''"
  shows "\<exists>pre. argvs w' = pre @
    [[''valgrind'', ''--tool='' @ tool] @ (if tool = ''memcheck'' then [''--leak-check=full''] else []) @
     [''--error-exitcode=1'', ''build/yocto-debug/tests/blank_chat_ut'']]"
proof -
  let ?exe = "path_joins (build_dir_of ''yocto-debug'') [''tests'', ''blank_chat_ut'']"
  have "triple (\<lambda>u. argv u = argv w) valgrind_main (concludes (valgrind_cmd tool ?exe)) (\<lambda>_ _. True)"
    unfolding valgrind_main_def Let_def tool
    by (intro triple_seq [OF keeps_argv] triple_gets_known [where x = "argv w"] triple_gets_any
        run_or_exit_concludes log.script_rules) simp
  from triple_OkD [OF this refl run] have "concludes (valgrind_cmd tool ?exe) () w'" .
  moreover have "valgrind_cmd tool ?exe =
      [''valgrind'', ''--tool='' @ tool] @ (if tool = ''memcheck'' then [''--leak-check=full''] else []) @
      [''--error-exitcode=1'', ''build/yocto-debug/tests/blank_chat_ut'']"
    by (simp add: valgrind_cmd_def list_insert_def build_dir_of_def path_defs)
  ultimately show ?thesis by (simp add: concludes_def)
qed

definition tested_host :: host where
  "tested_host =
     sample_host (project_tree @
        [([''r'', ''build''], Dir), ([''r'', ''build'', ''yocto-debug''], Dir),
         ([''r'', ''build'', ''yocto-debug'', ''tests''], Dir),
         ([''r'', ''build'', ''yocto-debug'', ''tests'', ''blank_chat_ut''], File None 493 7)])
       [''OECORE_NATIVE_SYSROOT'' \<mapsto> ''/sdk''] [''valgrind.py''] (\<lambda>_ _ fs. (Ok (0, []), fs))"

section \<open>Completion\<close>

text \<open>A tree in which the build can end, and programs that keep it so and leave the compilation
  database in the build directory.\<close>

definition in_order :: "string list \<Rightarrow> fs \<Rightarrow> bool" where
  "in_order q fs \<longleftrightarrow>
     wf_fs fs \<and> node_at fs q = Some Dir \<and> node_at fs (q @ [''compile_commands.json'']) \<noteq> Some Dir"

definition database_at :: "string list \<Rightarrow> fs \<Rightarrow> bool" where
  "database_at q fs \<longleftrightarrow> (\<exists>t m i. node_at fs (q @ [''compile_commands.json'']) = Some (File t m i))"

definition cmake_ok :: "programs \<Rightarrow> string list \<Rightarrow> string \<Rightarrow> bool" where
  "cmake_ok pr q preset \<longleftrightarrow>
     (\<forall>h c fs. in_order q fs \<longrightarrow>
        (\<exists>out fs'. pr h c fs = (Ok (0, out), fs') \<and> in_order q fs' \<and>
           database_at (q @ [''build'', preset]) fs'))"

definition can_build :: "programs \<Rightarrow> string list \<Rightarrow> 'z host_scheme \<Rightarrow> bool" where
  "can_build pr q w \<longleftrightarrow> programs w = pr \<and> cwd w = q \<and> in_order q (files w)"

definition has_built :: "programs \<Rightarrow> string list \<Rightarrow> string \<Rightarrow> 'z host_scheme \<Rightarrow> bool" where
  "has_built pr q preset w \<longleftrightarrow> can_build pr q w \<and> database_at (q @ [''build'', preset]) (files w)"

lemma info_yields: "yields (can_build pr q) (print_info msg) (\<lambda>_. can_build pr q)"
  by (simp add: yields_def print_info_def print_to_def modify_def can_build_def)

lemma run_yields:
  assumes "cmake_ok pr q preset"
  shows "yields (can_build pr q) (run_or_exit cmd msg) (\<lambda>_. has_built pr q preset)"
  unfolding yields_def
proof (intro allI impI)
  fix w :: "'z host_scheme"
  assume w: "can_build pr q w"
  then obtain out fs' where
    "programs w (map fst (ran w)) (command_of w cmd None False) (files w) = (Ok (0, out), fs')"
    "in_order q fs'" "database_at (q @ [''build'', preset]) fs'"
    using assms unfolding cmake_ok_def can_build_def by metis
  then show "\<exists>x w'. run_or_exit cmd msg w = (Ok x, w') \<and> has_built pr q preset w'"
    using w by (simp add: run_or_exit_def run_command_def try_except_def bindE_def seqE_def io_defs
        subprocess_run_def Let_def has_built_def can_build_def)
qed

lemma copy_yields:
  assumes "single_name preset" and "''..'' \<notin> set q"
  shows "yields (has_built pr q preset) (copy_compile_commands (build_dir_of preset))
    (\<lambda>_ w. database_at q (files w))"
  unfolding yields_def
proof (intro allI impI)
  fix w :: "'z host_scheme"
  assume w: "has_built pr q preset w"
  then obtain t m i where "node_at (files w) (cwd w @ [''build'', preset, ''compile_commands.json'']) = Some (File t m i)"
    by (auto simp: has_built_def can_build_def database_at_def)
  from copy_compile_commands_effect [OF _ _ _ assms(1) this] w assms(2)
  show "\<exists>x w'. copy_compile_commands (build_dir_of preset) w = (Ok x, w') \<and> database_at q (files w')"
    by (fastforce simp: has_built_def can_build_def in_order_def database_at_def)
qed

lemma configure_yields:
  assumes "cmake_ok pr q preset"
  shows "yields (can_build pr q) (configure_if b preset) (\<lambda>_. can_build pr q)"
proof (cases b)
  case True
  have "yields (can_build pr q) (configure_if True preset) (\<lambda>_. has_built pr q preset)"
    unfolding configure_if_def if_True
    by (rule yields_seq [OF info_yields run_yields [OF assms]])
  then have "yields (can_build pr q) (configure_if True preset) (\<lambda>_. can_build pr q)"
    by (rule yields_conseq) (simp_all add: has_built_def)
  then show ?thesis using True by simp
next
  case False
  then show ?thesis unfolding configure_if_def by (simp add: info_yields)
qed

lemma build_and_copy_yields:
  assumes "cmake_ok pr q preset" and "single_name preset" and "''..'' \<notin> set q"
  shows "yields (can_build pr q) (build_and_copy preset) (\<lambda>_ w. database_at q (files w) \<and>
    last (printed w) = (Stdout, Colors_GREEN @ Colors_BOLD @ ''Build completed successfully!'' @ Colors_RESET))"
  unfolding build_and_copy_def
proof (rule yields_seq [OF info_yields], rule yields_seq [OF run_yields [OF assms(1)]],
    rule yields_seq [OF copy_yields [OF assms(2,3)]])
qed (simp add: yields_def print_success_def print_to_def modify_def)

text \<open>\<^verbatim>\<open>build.py\<close> completes: in a checked-out project with the SDK environment loaded, when
  every CMake call succeeds, keeps the tree in order and writes the compilation database,
  the script ends with its success message, whether or not the build directory existed,
  and \<^verbatim>\<open>compile_commands.json\<close> is in the project root.\<close>

lemma build_main_completes:
  fixes w :: "'z host_scheme"
  assumes here: "checked_out w q" and sdk: "environ w ''OECORE_NATIVE_SYSROOT'' \<noteq> None"
    and args: "parse_list build_parser (tl (argv w)) = Inr ns" "single_name (arg_text ns ''preset'')"
    and cc: "node_at (files w) (q @ [''compile_commands.json'']) \<noteq> Some Dir"
    and cmake: "cmake_ok (programs w) q (arg_text ns ''preset'')"
  shows "\<exists>w'. build_main w = (Ok (), w') \<and> database_at q (files w') \<and>
    last (printed w') = (Stdout, Colors_GREEN @ Colors_BOLD @ ''Build completed successfully!'' @ Colors_RESET)"
proof -
  let ?u = "w\<lparr>cwd := q\<rparr>" and ?p = "arg_text ns ''preset''"
  have start: "build_main w = seqE (configure_if (arg_set ns ''configure'' \<or> \<not> is_dir (build_dir_of ?p) ?u) ?p)
      (build_and_copy ?p) ?u"
    using sdk args(1)
    by (simp add: build_main_def Let_def seqE_def [of change_to_project_root] bindE_def
        change_to_checked_out [OF here] run_parser_def gets_def ret_def sdk_loaded_seq)
  have dots: "''..'' \<notin> set q" using here by (simp add: checked_out_def)
  have "can_build (programs w) q ?u"
    using here cc by (simp add: can_build_def in_order_def checked_out_def)
  from yieldsD [OF yields_seq [OF configure_yields [OF cmake] build_and_copy_yields [OF cmake args(2) dots]] this]
  show ?thesis unfolding start by fastforce
qed

definition fresh_host :: host where
  "fresh_host =
     sample_host project_tree [''OECORE_NATIVE_SYSROOT'' \<mapsto> ''/sdk''] [''build.py'', ''-c'', ''dbg'']
       (\<lambda>_ _ _. (Ok (0, []), files linked_host))"

end
