(* ===== verification/SdkScripts.thy ===== *)
theory SdkScripts
  imports BuildScripts
begin

text \<open>
  The scripts around the Yocto SDK: \<^verbatim>\<open>upload_sdk.py\<close> publishes the newest installer as
  the one release \<^verbatim>\<open>sdk-latest\<close>, \<^verbatim>\<open>download_sdk.py\<close> fetches and installs it, and
  \<^verbatim>\<open>build_yocto.py\<close> prepares the layers and runs BitBake in a container.
\<close>

section \<open>\<^verbatim>\<open>upload_sdk.py\<close>\<close>

definition upload_parser :: parser where
  "upload_parser =
     \<lparr>options = [help_option, OptSpec [''--version''] ''version'' (Store None)],
      positional = None, defaults = [(''version'', AStr ''1.0.0'')]\<rparr>"

definition is_installer :: "string \<Rightarrow> bool" where
  "is_installer name = suffix ''.sh'' name"

definition release_tag :: string where
  "release_tag = ''sdk-latest''"

definition deploy_dir :: "path \<Rightarrow> path" where
  "deploy_dir project_root =
     path_joins (path_join (path_parent project_root) ''yocto-dev'')
       [''poky'', ''build'', ''tmp'', ''deploy'', ''sdk'']"

definition find_installer :: "path \<Rightarrow> ('z host_scheme, path) io" where
  "find_installer project_root =
     (let sdk_dir = deploy_dir project_root in
      bindE (gets (path_exists sdk_dir)) (\<lambda>here.
        seqE
          (whenE (\<not> here)
             (seqE (print_error (''SDK directory not found: '' @ path_str sdk_dir))
               (seqE (print_info
                        (''Did you generate the SDK first using '' @ [CHR 0x27] @
                         ''python3 scripts/build_yocto.py --sdk'' @ [CHR 0x27] @ ''?''))
                 (sys_exit 1))))
          (seqE (print_info ''Searching for the SDK installation script...'')
            (bindE (gets (glob is_installer sdk_dir)) (\<lambda>sdk_files.
               seqE
                 (whenE (sdk_files = [])
                    (seqE (print_error ''No SDK .sh file found in the deploy directory.'') (sys_exit 1)))
                 (bindE (newest sdk_files) (\<lambda>sdk_file.
                    seqE (print_info (''Found SDK file: '' @ path_name sdk_file)) (ret sdk_file))))))))"

definition view_cmd :: "string list" where
  "view_cmd = [''gh'', ''release'', ''view'', release_tag]"

definition delete_cmd :: "string list" where
  "delete_cmd = [''gh'', ''release'', ''delete'', release_tag, ''-y'', ''--cleanup-tag'']"

definition create_cmd :: "path \<Rightarrow> string list" where
  "create_cmd sdk_file =
     [''gh'', ''release'', ''create'', release_tag, path_str sdk_file, ''--title'', ''Yocto SDK (Latest)'',
      ''--notes'', ''Automated Yocto SDK rolling release.'']"

definition publish :: "path \<Rightarrow> ('z host_scheme, unit) io" where
  "publish sdk_file =
     seqE (print_info (''Checking for existing GitHub Release (Tag: '' @ release_tag @ '')...''))
       (bindE (subprocess_run view_cmd None True) (\<lambda>(returncode, _).
          seqE
            (whenE (returncode = 0)
               (seqE (print_info (''Release '' @ release_tag @
                        '' exists. Deleting it to clean up old artifacts...''))
                 (run_or_exit delete_cmd (''Failed to delete old release '' @ release_tag @ ''.''))))
            (seqE (print_info (''Creating fresh release '' @ release_tag @ '' and uploading file...''))
              (seqE (print_info ''This might take a while depending on your upload speed.'')
                (seqE (run_or_exit (create_cmd sdk_file)
                         (''Failed to create release '' @ release_tag @
                          '' and upload SDK. Make sure GH_TOKEN is set in CI or you are logged into gh cli locally.''))
                  (print_success ''SDK uploaded successfully to GitHub Releases!''))))))"

definition upload_main :: "('z host_scheme, unit) io" where
  "upload_main =
     bindE change_to_project_root (\<lambda>project_root.
       bindE (run_parser upload_parser) (\<lambda>args. bindE (find_installer project_root) publish))"

section \<open>\<^verbatim>\<open>download_sdk.py\<close>\<close>

definition download_parser :: "path \<Rightarrow> parser" where
  "download_parser project_root =
     \<lparr>options = [help_option, OptSpec [''--dest''] ''dest'' (Store None),
                 OptSpec [''--version''] ''version'' (Store None)],
      positional = None,
      defaults = [(''dest'', AStr (path_str (path_joins (path_parent project_root) [''yocto-dev'', ''downloads'']))),
                  (''version'', AStr ''sdk-latest'')]\<rparr>"

definition download_cmd :: "string \<Rightarrow> path \<Rightarrow> string list" where
  "download_cmd version dest_dir =
     [''gh'', ''release'', ''download'', version] @
     [''--pattern'', ''*.sh'', ''--dir'', path_str dest_dir, ''--clobber'']"

definition fetch_installer :: "string \<Rightarrow> path \<Rightarrow> ('z host_scheme, path) io" where
  "fetch_installer version dest_dir =
     seqE (mkdir_parents True dest_dir)
       (bindE (gets (glob is_installer dest_dir)) (\<lambda>old_files.
          seqE (for_each old_files unlink)
            (seqE (print_info ''Downloading... This might take a while depending on your network connection...'')
              (seqE (run_or_exit (download_cmd version dest_dir)
                       (''Download failed. Ensure '' @ [CHR 0x27] @ ''gh'' @ [CHR 0x27] @
                        '' is authenticated and the release exists.''))
                (bindE (gets (glob is_installer dest_dir)) (\<lambda>downloaded_files.
                   seqE
                     (whenE (downloaded_files = [])
                        (seqE (print_error ''Failed to find the downloaded .sh file.'') (sys_exit 1)))
                     (newest downloaded_files)))))))"

definition install_cmd :: "path \<Rightarrow> string \<Rightarrow> string list" where
  "install_cmd dest_file target_sdk_dir = [path_str dest_file, ''-y'', ''-d'', target_sdk_dir]"

definition install_dir :: "path \<Rightarrow> env \<Rightarrow> string" where
  "install_dir project_root env =
     (case env ''YOCTO_SDK_DIR'' of
        Some d \<Rightarrow> d
      | None \<Rightarrow> path_str (path_joins (path_parent project_root) [''yocto-dev'', ''sdk'']))"

definition install_sdk :: "path \<Rightarrow> path \<Rightarrow> ('z host_scheme, unit) io" where
  "install_sdk project_root dest_file =
     seqE (print_info (''Downloaded SDK file identified: '' @ path_name dest_file))
       (seqE (chmod dest_file 493)
         (seqE (print_success ''SDK downloaded successfully!'')
           (bindE (gets environ) (\<lambda>env.
              let target_sdk_dir = install_dir project_root env in
              seqE (print_info (''Extracting and installing SDK to '' @ target_sdk_dir @ ''...''))
                (seqE (print_info ''This will take a minute or two...'')
                  (seqE (run_or_exit (install_cmd dest_file target_sdk_dir) ''SDK installation failed.'')
                    (seqE (print_success ''SDK installed successfully!'')
                      (seqE (print_info ''You can safely delete the downloaded .sh file if you want to save space:'')
                        (seqE (print_info (''  rm '' @ path_str dest_file))
                          (print_success
                             (''Your builds with the '' @ [CHR 0x27] @ ''yocto-debug'' @ [CHR 0x27] @
                              '' preset will now work automatically!'')))))))))))"

definition download_main :: "('z host_scheme, unit) io" where
  "download_main =
     bindE change_to_project_root (\<lambda>project_root.
       bindE (run_parser (download_parser project_root)) (\<lambda>args.
         seqE (print_info ''Fetching the SDK from GitHub Releases...'')
           (bindE (fetch_installer (arg_text args ''version'') (py_path (arg_text args ''dest''))) (\<lambda>dest_file.
              install_sdk project_root dest_file))))"

section \<open>\<^verbatim>\<open>build_yocto.py\<close>\<close>

definition yocto_parser :: parser where
  "yocto_parser =
     \<lparr>options = [help_option, OptSpec [''--sdk''] ''sdk'' StoreTrue,
                 OptSpec [''--target''] ''target'' (Store (Some [''server'', ''client'', ''both''])),
                 OptSpec [''--clean''] ''clean'' StoreTrue],
      positional = None,
      defaults = [(''sdk'', ABool False), (''target'', AStr ''both''), (''clean'', ABool False)]\<rparr>"

text \<open>One layer: the message, the repository and the directory it is cloned into when that is
  missing.\<close>

definition clone_cmd :: "string \<Rightarrow> path \<Rightarrow> string list" where
  "clone_cmd url dir = [''git'', ''clone'', url, ''-b'', ''scarthgap'', path_str dir]"

definition clone_if_missing :: "string \<Rightarrow> string \<Rightarrow> path \<Rightarrow> ('z host_scheme, unit) io" where
  "clone_if_missing msg url dir =
     bindE (gets (path_exists dir)) (\<lambda>here.
       whenE (\<not> here) (seqE (print_info msg) (run_or_exit (clone_cmd url dir) default_fail_msg)))"

definition yocto_layers :: "path \<Rightarrow> (string \<times> string \<times> path) list" where
  "yocto_layers yocto_base =
     [(''Cloning Poky environment (scarthgap)...'', ''https://git.yoctoproject.org/git/poky'',
       path_join yocto_base ''poky''),
      (''Cloning meta-openembedded layer (scarthgap)...'', ''https://git.openembedded.org/meta-openembedded'',
       path_join yocto_base ''meta-openembedded''),
      (''Cloning meta-tor layer (scarthgap)...'', ''https://github.com/embetrix/meta-tor.git'',
       path_join yocto_base ''meta-tor''),
      (''Cloning meta-security layer (scarthgap)...'', ''https://git.yoctoproject.org/git/meta-security'',
       path_join yocto_base ''meta-security'')]"

definition prepare_layers :: "path \<Rightarrow> ('z host_scheme, unit) io" where
  "prepare_layers yocto_base =
     bindE (gets (path_exists yocto_base)) (\<lambda>here.
       seqE (whenE (\<not> here) (mkdir_parents False yocto_base))
         (for_each (yocto_layers yocto_base) (\<lambda>(msg, url, dir). clone_if_missing msg url dir)))"

definition image_build_cmd :: "path \<Rightarrow> path \<Rightarrow> nat \<Rightarrow> nat \<Rightarrow> string list" where
  "image_build_cmd project_root dockerfile user grp =
     [''docker'', ''build'', ''-t'', ''blankchat-yocto-builder'', ''--build-arg'', ''UID='' @ show_nat user,
      ''--build-arg'', ''GID='' @ show_nat grp, ''-f'', path_str dockerfile, path_str project_root]"

definition bitbake_target :: "bool \<Rightarrow> string \<Rightarrow> string" where
  "bitbake_target sdk target =
     (if sdk then ''bitbake -c populate_sdk blankchat-image-server''
      else if target = ''server'' then ''bitbake blankchat-image-server''
      else if target = ''client'' then ''bitbake blankchat-image-client''
      else ''bitbake blankchat-image-server blankchat-image-client'')"

definition success_msg :: "bool \<Rightarrow> string \<Rightarrow> string" where
  "success_msg sdk target =
     (if sdk then ''Yocto: SDK generated successfully! Check yocto-dev/poky/build/tmp/deploy/sdk/''
      else if target = ''server'' then ''Yocto: Server image generated successfully!''
      else if target = ''client'' then ''Yocto: Client image generated successfully!''
      else ''Yocto: Server and Client images generated successfully!'')"

definition starting_msg :: "bool \<Rightarrow> string \<Rightarrow> string" where
  "starting_msg sdk target =
     (if sdk then ''Starting BitBake engine to generate SDK...''
      else ''Starting BitBake engine to build the '' @ target @ '' image(s)...'')"

definition clean_cmd :: "bool \<Rightarrow> string" where
  "clean_cmd clean =
     (if clean then ''bitbake -c clean blank-chat && bitbake -c deploy -f virtual/kernel && '' else [])"

definition indent :: string where
  "indent = replicate 12 CHR '' ''"

definition add_layer :: "string \<Rightarrow> string" where
  "add_layer dir = ''bitbake-layers add-layer '' @ dir @ '' 2>/dev/null || true''"

definition quoted :: "string \<Rightarrow> string" where
  "quoted s = CHR 0x22 # s @ [CHR 0x22]"

definition echo_conf :: "string \<Rightarrow> string \<Rightarrow> string" where
  "echo_conf s redirect = ''echo '' @ [CHR 0x27] @ s @ [CHR 0x27] @ redirect @ '' conf/auto.conf''"

definition bash_lines :: "path \<Rightarrow> path \<Rightarrow> bool \<Rightarrow> bool \<Rightarrow> string \<Rightarrow> string list" where
  "bash_lines project_root yocto_base sdk clean target =
     (let poky_dir = path_join yocto_base ''poky'';
          meta_oe_dir = path_join yocto_base ''meta-openembedded'';
          meta_tor_dir = path_join yocto_base ''meta-tor'';
          meta_security_dir = path_join yocto_base ''meta-security'';
          build_dir = path_join poky_dir ''build'';
          meta_blankchat_dir = path_join project_root ''meta-blankchat'' in
      [''cd '' @ path_str poky_dir,
       ''source oe-init-build-env '' @ path_str build_dir,
       '''',
       add_layer (path_str meta_oe_dir @ ''/meta-oe''),
       add_layer (path_str meta_oe_dir @ ''/meta-python''),
       add_layer (path_str meta_oe_dir @ ''/meta-networking''),
       add_layer (path_str meta_tor_dir),
       add_layer (path_str meta_security_dir),
       add_layer (path_str meta_blankchat_dir),
       '''',
       echo_conf (''MACHINE = '' @ quoted ''genericx86-64'') '' >'',
       echo_conf (''DISTRO = '' @ quoted ''blankchat'') '' >>'',
       echo_conf (''INHERIT += '' @ quoted ''externalsrc'') '' >>'',
       echo_conf (''EXTERNALSRC:pn-blank-chat = '' @ quoted (path_str project_root)) '' >>'',
       '''',
       ''sed -i '' @ [CHR 0x27] @ ''/UNINATIVE_MAXGLIBCVERSION/d'' @ [CHR 0x27] @ '' conf/local.conf'',
       '''',
       clean_cmd clean @ bitbake_target sdk target])"

text \<open>The lines are indented except the blank ones, and the closing quotes stand on a line of
  their own.\<close>

definition bash_command :: "path \<Rightarrow> path \<Rightarrow> bool \<Rightarrow> bool \<Rightarrow> string \<Rightarrow> string" where
  "bash_command project_root yocto_base sdk clean target =
     newline @
     concat (map (\<lambda>l. (if l = [] then [] else indent @ l) @ newline)
       (bash_lines project_root yocto_base sdk clean target)) @
     indent"

definition docker_cmd :: "path \<Rightarrow> path \<Rightarrow> bool \<Rightarrow> string \<Rightarrow> string list" where
  "docker_cmd workspace_root poky_dir isatty body =
     [''docker'', ''run'', ''--rm'', ''-v'', path_str workspace_root @ '':'' @ path_str workspace_root,
      ''-w'', path_str poky_dir] @
     (if isatty then [''-it''] else []) @
     [''blankchat-yocto-builder'', ''bash'', ''-c'', body]"

definition build_image :: "path \<Rightarrow> ('z host_scheme, unit) io" where
  "build_image project_root =
     (let dockerfile = path_joins project_root [''scripts'', ''Dockerfile.yocto''] in
      bindE (gets (path_exists dockerfile)) (\<lambda>here.
        seqE
          (whenE (\<not> here)
             (seqE (print_error (''Cannot find '' @ path_str dockerfile @
                      ''. Ensure the file exists in your scripts directory.''))
               (sys_exit 1)))
          (seqE (print_info ''Ensuring Yocto Docker builder image is ready...'')
            (bindE (gets uid) (\<lambda>user. bindE (gets gid) (\<lambda>grp.
               run_or_exit (image_build_cmd project_root dockerfile user grp)
                 ''Failed to build the Yocto Docker builder image.''))))))"

definition run_bitbake :: "path \<Rightarrow> path \<Rightarrow> bool \<Rightarrow> bool \<Rightarrow> string \<Rightarrow> ('z host_scheme, unit) io" where
  "run_bitbake project_root yocto_base sdk clean target =
     seqE (print_info (starting_msg sdk target))
       (seqE (whenE clean (print_info ''Cleaning application cache and restoring kernel artifacts...''))
         (bindE (gets tty) (\<lambda>isatty.
            seqE (run_or_exit
                    (docker_cmd (path_parent project_root) (path_join yocto_base ''poky'') isatty
                       (bash_command project_root yocto_base sdk clean target))
                    ''Yocto compilation failed.'')
              (print_success (success_msg sdk target)))))"

definition yocto_main :: "('z host_scheme, unit) io" where
  "yocto_main =
     bindE change_to_project_root (\<lambda>project_root.
       bindE (run_parser yocto_parser) (\<lambda>args.
         let yocto_base = path_join (path_parent project_root) ''yocto-dev'' in
         seqE (print_info ''Verifying Yocto environment...'')
           (seqE (prepare_layers yocto_base)
             (seqE (build_image project_root)
               (run_bitbake project_root yocto_base
                  (arg_set args ''sdk'') (arg_set args ''clean'') (arg_text args ''target''))))))"

lemmas sdk_defs = find_installer_def publish_def upload_main_def fetch_installer_def install_sdk_def download_main_def
  clone_if_missing_def prepare_layers_def build_image_def run_bitbake_def yocto_main_def

section \<open>Relations and discipline\<close>

context host_order
begin

lemma ev_publish: "evolves R (publish p)"
  unfolding publish_def by (intro script_rules)

lemma ev_upload_main: "evolves R upload_main"
  unfolding upload_main_def find_installer_def Let_def by (intro script_rules ev_publish)

lemma ev_download_main: "evolves R download_main"
  unfolding download_main_def fetch_installer_def install_sdk_def Let_def by (intro script_rules)

lemma ev_clone_if_missing: "evolves R (clone_if_missing msg url dir)"
  unfolding clone_if_missing_def by (intro script_rules)

lemma ev_yocto_main: "evolves R yocto_main"
  unfolding yocto_main_def prepare_layers_def build_image_def run_bitbake_def Let_def
  by (intro script_rules ev_clone_if_missing)

end

interpretation download_script: host_script download_main
  by unfold_locales
    (unfold download_main_def fetch_installer_def install_sdk_def Let_def, intro discipline)

lemma disciplined_clone_if_missing: "disciplined (clone_if_missing msg url dir)"
  unfolding clone_if_missing_def by (intro discipline)

interpretation yocto_script: host_script yocto_main
  by unfold_locales
    (unfold yocto_main_def prepare_layers_def build_image_def run_bitbake_def Let_def,
      intro discipline disciplined_clone_if_missing)

end
