(* ===== verification/SdkProps.thy ===== *)
theory SdkProps
  imports SdkScripts
begin

text \<open>
  Correctness of the SDK scripts: which installer is published and in which order
  the release is replaced, that the version option has no effect, what is fetched
  and installed, which layers are cloned, and the contract every script keeps
  with the programs it starts.
\<close>

section \<open>The newest file\<close>

lemma getmtime_state: "getmtime p w = (r, w') \<Longrightarrow> w' = w"
  by (auto simp: getmtime_def split: sum.splits option.splits node.splits)

lemma newest_from_Ok:
  assumes "newest_from b t ps w = (Ok p, w')" and "getmtime b w = (Ok t, w)"
  shows "w' = w \<and> p \<in> set (b # ps) \<and>
    (\<exists>u. getmtime p w = (Ok u, w) \<and> (\<forall>x \<in> set (b # ps). \<exists>v \<le> u. getmtime x w = (Ok v, w)))"
  using assms
proof (induction ps arbitrary: b t)
  case (Cons x ps)
  obtain u where u: "getmtime x w = (Ok u, w)"
    and rest: "(if t < u then newest_from x u ps else newest_from b t ps) w = (Ok p, w')"
    using Cons.prems(1) by (auto elim!: bindE_OkE dest: getmtime_state)
  show ?case
  proof (cases "t < u")
    case True
    then show ?thesis using Cons.IH [of x u] rest u Cons.prems(2) by fastforce
  next
    case False
    then show ?thesis using Cons.IH [of b t] rest u Cons.prems(2) by fastforce
  qed
qed (auto simp: ret_def)

text \<open>Among the paths, none was modified later.\<close>

definition is_newest :: "path list \<Rightarrow> 'z host_scheme \<Rightarrow> path \<Rightarrow> bool" where
  "is_newest ps w p \<longleftrightarrow> p \<in> set ps \<and>
     (\<exists>u. fst (getmtime p w) = Ok u \<and> (\<forall>x \<in> set ps. \<exists>v \<le> u. fst (getmtime x w) = Ok v))"

lemma newest_Ok: "newest ps w = (Ok p, w') \<Longrightarrow> w' = w \<and> is_newest ps w p"
proof (cases ps)
  case (Cons x xs)
  assume "newest ps w = (Ok p, w')"
  then obtain t where "getmtime x w = (Ok t, w)" "newest_from x t xs w = (Ok p, w')"
    using Cons by (auto elim!: bindE_OkE dest: getmtime_state)
  then show ?thesis using newest_from_Ok [of x t xs w p w'] Cons
    unfolding is_newest_def by (metis fst_conv)
qed (simp add: io_defs)

lemma is_newest_cong:
  assumes "files w' = files w" "cwd w' = cwd w" "dir_mtime w' = dir_mtime w"
  shows "is_newest ps w' p = is_newest ps w p"
proof -
  have "fst (getmtime x w') = fst (getmtime x w)" for x
    using assms by (simp add: getmtime_def path_at_def abs_parts_def split: sum.splits option.splits node.splits)
  then show ?thesis by (simp add: is_newest_def)
qed

section \<open>Publishing\<close>

text \<open>The log as commands with their outcomes.\<close>

definition outcomes :: "'z host_scheme \<Rightarrow> (string list \<times> int result) list" where
  "outcomes w = map (\<lambda>(c, r). (cmd_argv c, r)) (ran w)"

lemma run_or_exit_outcomes:
  "run_or_exit cmd msg w = (Ok u, w') \<Longrightarrow> outcomes w' = outcomes w @ [(cmd, Ok 0)]"
  by (auto simp: outcomes_def command_of_def elim!: run_or_exit_Ok)

lemma message_outcomes:
  "print_info msg w = (r, w') \<Longrightarrow> outcomes w' = outcomes w"
  "print_success msg w = (r, w') \<Longrightarrow> outcomes w' = outcomes w"
  by (auto simp: message_defs print_to_def io_defs outcomes_def)

lemma publish_outcomes:
  assumes "publish p w = (Ok u, w')"
  shows "\<exists>rc. outcomes w' = outcomes w @ [(view_cmd, Ok rc)] @
    (if rc = 0 then [(delete_cmd, Ok 0)] else []) @ [(create_cmd p, Ok 0)]"
proof -
  have view: "\<exists>rc out. z = (rc, out) \<and> outcomes v' = outcomes v @ [(view_cmd, Ok rc)]"
    if "subprocess_run view_cmd None True v = (Ok z, v')" for v v' :: "'z host_scheme" and z
    using that by (cases z) (auto simp: subprocess_run_def Let_def outcomes_def command_of_def split: prod.splits)
  show ?thesis
    using assms unfolding publish_def
    by (elim seqE_OkE bindE_OkE) (auto dest!: view message_outcomes run_or_exit_outcomes
        elim!: seqE_OkE whenE_OkE split: prod.splits)
qed

lemma find_installer_Ok:
  assumes "find_installer d w = (Ok p, w')"
  shows "is_newest (glob is_installer (deploy_dir d) w) w p \<and> outcomes w' = outcomes w"
proof -
  let ?ps = "glob is_installer (deploy_dir d) w"
  define w1 where "w1 = snd (print_info ''Searching for the SDK installation script...'' w)"
  have 1: "print_info ''Searching for the SDK installation script...'' w = (Ok (), w1)"
    by (simp add: w1_def print_info_def print_to_def modify_def)
  have "\<exists>w2. newest (glob is_installer (deploy_dir d) w1) w1 = (Ok p, w2) \<and>
      print_info (''Found SDK file: '' @ path_name p) w2 = (Ok (), w')"
    using assms unfolding find_installer_def Let_def
    by (auto simp: gets_def ret_def 1 elim!: seqE_OkE bindE_OkE whenE_OkE)
  then obtain w2 where 2: "newest (glob is_installer (deploy_dir d) w1) w1 = (Ok p, w2)"
    and 3: "print_info (''Found SDK file: '' @ path_name p) w2 = (Ok (), w')"
    by blast
  have w1: "w1 = w\<lparr>printed := printed w1\<rparr>" using message_Ok(1) [OF 1] by simp
  have "glob is_installer (deploy_dir d) w1 = ?ps"
    by (rule queries_cong; subst w1; simp)
  moreover have "is_newest ?ps w1 p = is_newest ?ps w p"
    by (rule is_newest_cong; subst w1; simp)
  ultimately show ?thesis
    using newest_Ok [OF 2] message_outcomes(1) [OF 1] message_outcomes(1) [OF 3] by simp
qed

text \<open>C29: A successful \<^verbatim>\<open>upload_sdk.py\<close> published the installer that was modified last in the
  deploy directory: it looked for the release, deleted it exactly when the lookup found it,
  and then created it with that file, in this order and with every step after the lookup
  successful.\<close>

theorem upload_main_publishes:
  fixes w :: "'z host_scheme"
  assumes run: "upload_main w = (Ok (), w')" and root: "path_at w (project_root_of w) = Inr q"
  shows "\<exists>p rc.
    is_newest (glob is_installer (deploy_dir (project_root_of w)) (w\<lparr>cwd := q\<rparr>)) (w\<lparr>cwd := q\<rparr>) p \<and>
    outcomes w' = outcomes w @ [(view_cmd, Ok rc)] @
      (if rc = 0 then [(delete_cmd, Ok 0)] else []) @ [(create_cmd p, Ok 0)]"
proof -
  obtain d w1 where 1: "change_to_project_root w = (Ok d, w1)"
    and rest: "bindE (run_parser upload_parser) (\<lambda>args. bindE (find_installer d) publish) w1 = (Ok (), w')"
    using run unfolding upload_main_def by (rule bindE_OkE)
  from project_root_Ok [OF 1 root] obtain env where d: "d = project_root_of w"
    and w1: "w1 = w\<lparr>cwd := q, environ := env\<rparr>" by metis
  obtain p w2 where 2: "find_installer d w1 = (Ok p, w2)" "publish p w2 = (Ok (), w')"
    using rest by (elim bindE_OkE) (auto dest!: run_parser_Ok)
  have "is_newest (glob is_installer (deploy_dir d) w1) w1 p \<and> outcomes w2 = outcomes w1"
    by (rule find_installer_Ok [OF 2(1)])
  moreover have "glob is_installer (deploy_dir d) w1 = glob is_installer (deploy_dir d) (w\<lparr>cwd := q\<rparr>)"
    "is_newest ps w1 p = is_newest ps (w\<lparr>cwd := q\<rparr>) p" for ps
    using w1 queries_cong [of w1 "w\<lparr>cwd := q\<rparr>"] is_newest_cong [of w1 "w\<lparr>cwd := q\<rparr>"] by simp_all
  moreover have "outcomes w1 = outcomes w" using w1 by (simp add: outcomes_def)
  moreover obtain rc where "outcomes w' = outcomes w2 @ [(view_cmd, Ok rc)] @
      (if rc = 0 then [(delete_cmd, Ok 0)] else []) @ [(create_cmd p, Ok 0)]"
    using publish_outcomes [OF 2(2)] by blast
  ultimately show ?thesis using d by (intro exI [of _ p] exI [of _ rc]) simp
qed

definition release_host :: "string list \<Rightarrow> host" where
  "release_host args =
     sample_host (project_tree @
        [([''yocto-dev''], Dir), ([''yocto-dev'', ''poky''], Dir), ([''yocto-dev'', ''poky'', ''build''], Dir),
         ([''yocto-dev'', ''poky'', ''build'', ''tmp''], Dir),
         ([''yocto-dev'', ''poky'', ''build'', ''tmp'', ''deploy''], Dir),
         ([''yocto-dev'', ''poky'', ''build'', ''tmp'', ''deploy'', ''sdk''], Dir),
         ([''yocto-dev'', ''poky'', ''build'', ''tmp'', ''deploy'', ''sdk'', ''new.sh''], File None 493 9),
         ([''yocto-dev'', ''poky'', ''build'', ''tmp'', ''deploy'', ''sdk'', ''old.sh''], File None 493 5)])
       Map.empty args (\<lambda>_ c fs. (Ok (if cmd_argv c = view_cmd then 1 else 0, []), fs))"

lemma release_host_run: "\<exists>w'. upload_main (release_host [''upload_sdk.py'']) = (Ok (), w')"
  by (simp add: sdk_defs utils_defs release_host_def host_eval host_ops argparse_eval run_parser_def
      upload_parser_def deploy_dir_def is_installer_def view_cmd_def create_cmd_def release_tag_def
      suffix_to_prefix bindE_def seqE_def io_defs try_except_def Let_def)

theorem upload_main_publishes_witness:
  "\<exists>w'. upload_main (release_host [''upload_sdk.py'']) = (Ok (), w') \<and> (\<exists>p rc. outcomes w' =
     [(view_cmd, Ok rc)] @ (if rc = 0 then [(delete_cmd, Ok 0)] else []) @ [(create_cmd p, Ok 0)])"
proof -
  obtain w' where w': "upload_main (release_host [''upload_sdk.py'']) = (Ok (), w')"
    using release_host_run by blast
  have "path_at (release_host [''upload_sdk.py'']) (project_root_of (release_host [''upload_sdk.py''])) = Inr [''r'']"
    by (simp add: release_host_def host_eval project_root_of_def)
  from upload_main_publishes [OF w' this] w' show ?thesis
    by (fastforce simp: release_host_def sample_host_def outcomes_def)
qed

section \<open>The version option\<close>

text \<open>A statement that does not look at the arguments of the script.\<close>

definition argv_free :: "('z host_scheme, 'a) io \<Rightarrow> bool" where
  "argv_free m \<longleftrightarrow> (\<forall>w a. m (w\<lparr>argv := a\<rparr>) = (fst (m w), (snd (m w))\<lparr>argv := a\<rparr>))"

lemma argv_freeD: "argv_free m \<Longrightarrow> m (w\<lparr>argv := a\<rparr>) = (fst (m w), (snd (m w))\<lparr>argv := a\<rparr>)"
  by (simp add: argv_free_def)

lemma argv_free_bind:
  assumes "argv_free m" and "\<And>x. argv_free (f x)"
  shows "argv_free (bindE m f)"
  unfolding argv_free_def
proof (intro allI)
  fix w a
  obtain r v where m: "m w = (r, v)" by fastforce
  then show "bindE m f (w\<lparr>argv := a\<rparr>) = (fst (bindE m f w), (snd (bindE m f w))\<lparr>argv := a\<rparr>)"
    by (cases r) (simp_all add: bindE_def argv_freeD [OF assms(1)] argv_freeD [OF assms(2)])
qed

lemma argv_free_seq: "argv_free m \<Longrightarrow> argv_free n \<Longrightarrow> argv_free (seqE m n)"
  unfolding seqE_def by (rule argv_free_bind)

lemma argv_free_if: "argv_free m \<Longrightarrow> argv_free n \<Longrightarrow> argv_free (if b then m else n)"
  by simp

lemma argv_free_pure: "argv_free (ret x)" "argv_free (throw c s)" "argv_free (sys_exit n)"
  by (simp_all add: argv_free_def io_defs sys_exit_def)

lemma argv_free_when: "argv_free m \<Longrightarrow> argv_free (whenE b m)"
  by (simp add: whenE_def argv_free_pure)

lemma argv_free_for_each: "(\<And>x. argv_free (f x)) \<Longrightarrow> argv_free (for_each xs f)"
  by (induction xs) (auto intro: argv_free_seq argv_free_pure)

lemma argv_free_case_prod: "(\<And>x y. argv_free (f x y)) \<Longrightarrow> argv_free (case z of (x, y) \<Rightarrow> f x y)"
  by (cases z) simp

lemma argv_free_case_option:
  "argv_free m \<Longrightarrow> (\<And>x. argv_free (f x)) \<Longrightarrow> argv_free (case z of None \<Rightarrow> m | Some x \<Rightarrow> f x)"
  by (cases z) simp_all

lemma argv_free_gets: "(\<And>w a. f (w\<lparr>argv := a\<rparr>) = f w) \<Longrightarrow> argv_free (gets f)"
  by (simp add: argv_free_def gets_def)

lemma argv_free_try:
  assumes "argv_free m" and "\<And>e. argv_free (k e)"
  shows "argv_free (try_except m (catches cs k))"
  unfolding argv_free_def
proof (intro allI)
  fix w a
  obtain r v where m: "m w = (r, v)" by fastforce
  then show "try_except m (catches cs k) (w\<lparr>argv := a\<rparr>) =
      (fst (try_except m (catches cs k) w), (snd (try_except m (catches cs k) w))\<lparr>argv := a\<rparr>)"
    by (cases r) (simp_all add: try_except_def catches_def argv_freeD [OF assms(1)] argv_freeD [OF assms(2)])
qed

lemma queries_argv:
  "is_dir p (w\<lparr>argv := a\<rparr>) = is_dir p w" "path_exists p (w\<lparr>argv := a\<rparr>) = path_exists p w"
  "glob pat p (w\<lparr>argv := a\<rparr>) = glob pat p w"
  by (rule queries_cong; simp)+

lemma argv_free_system:
  "argv_free (print_to s txt)" "argv_free (setenv k v)" "argv_free (chdir p)" "argv_free (getmtime p)"
  "argv_free (open_lines p)" "argv_free (subprocess_run args dir piped)"
  by (auto simp: argv_free_def host_ops path_at_def abs_parts_def Let_def io_defs
      split: sum.splits option.splits node.splits prod.splits)

lemmas argv_free_rules = argv_free_bind argv_free_seq argv_free_if argv_free_pure argv_free_when
  argv_free_for_each argv_free_case_prod argv_free_case_option argv_free_try argv_free_system

lemma argv_free_messages:
  "argv_free (print_info msg)" "argv_free (print_success msg)" "argv_free (print_error msg)"
  unfolding message_defs by (rule argv_free_system)+

lemma argv_free_gets_fields:
  "argv_free (gets environ)" "argv_free (gets script_file)"
  "argv_free (gets (path_exists p))" "argv_free (gets (glob pat p))"
  by (rule argv_free_gets, simp add: queries_argv)+

lemma argv_free_change_to_project_root: "argv_free change_to_project_root"
  unfolding change_to_project_root_def load_dotenv_def dotenv_line_def Let_def
  by (intro argv_free_rules argv_free_messages argv_free_gets_fields)

lemma argv_free_run_or_exit: "argv_free (run_or_exit cmd msg)"
  unfolding run_or_exit_def run_command_def by (intro argv_free_rules argv_free_messages)

lemma argv_free_newest_from: "argv_free (newest_from b t ps)"
  by (induction ps arbitrary: b t) (auto intro!: argv_free_rules)

lemma argv_free_newest: "argv_free (newest ps)"
  by (cases ps) (auto intro!: argv_free_rules argv_free_newest_from)

lemma argv_free_find_installer: "argv_free (find_installer d)"
  unfolding find_installer_def Let_def
  by (intro argv_free_rules argv_free_messages argv_free_gets_fields argv_free_newest)

lemma argv_free_publish: "argv_free (publish p)"
  unfolding publish_def by (intro argv_free_rules argv_free_messages argv_free_run_or_exit)

lemma upload_version_parsed:
  "\<not> prefix ''-'' v \<Longrightarrow> \<exists>ns. parse_list upload_parser [''--version'', v] = Inr ns"
  by (cases "v = ''--''") (simp_all add: argparse_eval upload_parser_def)

lemma upload_default_parsed: "\<exists>ns. parse_list upload_parser [] = Inr ns"
  by (simp add: argparse_eval upload_parser_def)

text \<open>The option \<^verbatim>\<open>--version\<close> of \<^verbatim>\<open>upload_sdk.py\<close> has no effect: with any version the script
  runs the same commands, prints the same and ends the same as without the option.\<close>

lemma upload_version_ignored:
  fixes w :: "'z host_scheme"
  assumes "\<not> prefix ''-'' v"
  shows "upload_main (w\<lparr>argv := [prog, ''--version'', v]\<rparr>) =
    (fst (upload_main (w\<lparr>argv := [prog]\<rparr>)),
     (snd (upload_main (w\<lparr>argv := [prog]\<rparr>)))\<lparr>argv := [prog, ''--version'', v]\<rparr>)"
proof -
  let ?core = "bindE change_to_project_root (\<lambda>d. bindE (find_installer d) publish)"
  have core: "upload_main (w\<lparr>argv := as\<rparr>) = ?core (w\<lparr>argv := as\<rparr>)"
    if parsed: "\<exists>ns. parse_list upload_parser (tl as) = Inr ns" for as
  proof -
    obtain ns where ns: "parse_list upload_parser (tl as) = Inr ns" using parsed by blast
    obtain r u where c: "change_to_project_root (w\<lparr>argv := as\<rparr>) = (r, u)" by fastforce
    have "argv u = as"
      using evolvesD [OF log.ev_change_to_project_root c] by (simp add: log_le_def)
    then show ?thesis using c ns
      by (cases r) (simp_all add: upload_main_def bindE_def run_parser_def gets_def ret_def)
  qed
  have free: "argv_free ?core"
    by (intro argv_free_bind argv_free_change_to_project_root argv_free_find_installer argv_free_publish)
  show ?thesis
    using core [of "[prog, ''--version'', v]"] core [of "[prog]"] upload_version_parsed [OF assms]
      upload_default_parsed argv_freeD [OF free, where w = w]
    by simp
qed

section \<open>Fetching the installer\<close>

text \<open>The destination as a real directory.\<close>

definition real_dir :: "'z host_scheme \<Rightarrow> path \<Rightarrow> bool" where
  "real_dir w d \<longleftrightarrow>
     wf_fs (files w) \<and> node_at (files w) (abs_parts w d) = Some Dir \<and> ''..'' \<notin> set (abs_parts w d)"

lemma real_dir_path_at: "real_dir w d \<Longrightarrow> path_at w d = Inr (abs_parts w d)"
  by (simp add: real_dir_def path_at_def walk_real_dir)

lemma mkdir_existing:
  assumes "real_dir w d"
  shows "mkdir_parents True d w = (Ok (), w)"
proof -
  let ?q = "abs_parts w d"
  have "entry_at w d = Inr ?q"
  proof (cases "?q = []")
    case True
    then show ?thesis by (simp add: entry_at_def)
  next
    case False
    have "node_at (files w) (butlast ?q) = Some Dir"
      using assms by (auto simp: real_dir_def intro: wf_fs_parent)
    moreover have "''..'' \<notin> set (butlast ?q)" "last ?q \<noteq> ''..''"
      using assms False by (auto simp: real_dir_def dest: in_set_butlastD) (metis last_in_set)
    ultimately show ?thesis
      using assms False entry_at_real [of w d "butlast ?q" "last ?q"] by (simp add: real_dir_def)
  qed
  then have mk: "os_mkdir d w = (Raise (Exn OSError ''mkdir''), w)"
    using assms by (simp add: os_mkdir_def real_dir_def)
  have "is_dir d w" using assms by (simp add: is_dir_def stat_def real_dir_path_at real_dir_def)
  then show ?thesis
    by (subst mkdir_parents.simps) (simp add: try_except_def mk instance_of_def bindE_def gets_def ret_def)
qed

lemma children_complete:
  assumes "node_at fs (q @ [x]) = Some n"
  shows "x \<in> set (children fs q)"
proof -
  have "(q @ [x], n) \<in> set fs" using assms by (auto simp: node_at_def dest: map_of_SomeD)
  then show ?thesis by (force simp: children_def)
qed

lemma unlink_all:
  fixes w :: "'z host_scheme"
  assumes "for_each (map (\<lambda>x. Path (path_root d) (path_parts d @ [x])) xs) unlink w = (Ok u, w')"
    and "real_dir w d" and "\<forall>x \<in> set xs. x \<noteq> ''..''"
  shows "\<exists>fs. w' = w\<lparr>files := fs\<rparr> \<and> wf_fs fs \<and>
    (\<forall>y. node_at fs y = (if \<exists>x \<in> set xs. y = abs_parts w d @ [x] then None else node_at (files w) y))"
  using assms
proof (induction xs arbitrary: w)
  case Nil
  then have "w' = w\<lparr>files := files w\<rparr>" by (simp add: ret_def)
  then show ?case using Nil(2) by (intro exI [of _ "files w"]) (simp add: real_dir_def)
next
  case (Cons x xs)
  let ?q = "abs_parts w d" and ?p = "Path (path_root d) (path_parts d @ [x])"
  have parts: "abs_parts w ?p = ?q @ [x]" by (simp add: abs_parts_def)
  have entry: "entry_at w ?p = Inr (?q @ [x])"
    using Cons.prems parts by (intro entry_at_real) (auto simp: real_dir_def)
  obtain w1 where 1: "unlink ?p w = (Ok (), w1)"
    and rest: "for_each (map (\<lambda>x. Path (path_root d) (path_parts d @ [x])) xs) unlink w1 = (Ok u, w')"
    using Cons.prems(1) by (auto elim!: seqE_OkE)
  have old: "node_at (files w) (?q @ [x]) \<noteq> Some Dir"
    and w1: "w1 = w\<lparr>files := AList.delete (?q @ [x]) (files w)\<rparr>"
    using 1 by (auto simp: unlink_def entry split: option.splits node.splits)
  have wf1: "wf_fs (files w1)"
    using Cons.prems(2) old by (simp add: w1 real_dir_def wf_fs_delete)
  have parts1: "abs_parts w1 d = ?q" by (simp add: w1 abs_parts_def)
  have "real_dir w1 d"
    using Cons.prems(2) wf1 unfolding real_dir_def parts1 by (simp add: w1 node_at_delete)
  from Cons.IH [OF rest this] Cons.prems(3) obtain fs where fs: "w' = w1\<lparr>files := fs\<rparr>" "wf_fs fs"
    "\<And>y. node_at fs y = (if \<exists>x \<in> set xs. y = ?q @ [x] then None else node_at (files w1) y)"
    unfolding parts1 by auto
  have "w' = w\<lparr>files := fs\<rparr>" by (simp add: fs(1) w1)
  then show ?case using fs(2,3) by (intro exI [of _ fs]) (auto simp: w1 node_at_delete)
qed

lemma info_Ok: "print_info msg w = (Ok u, w') \<Longrightarrow> \<exists>pr. w' = w\<lparr>printed := pr\<rparr>"
  by (auto simp: print_info_def print_to_def modify_def)

text \<open>C30: \<^verbatim>\<open>download_sdk.py\<close> starts the download in a directory without installers: every old one
  is removed and nothing else; the installer it then goes on with is the newest of those
  the download left.\<close>

theorem fetch_installer_fresh:
  fixes w :: "'z host_scheme"
  assumes run: "fetch_installer version d w = (Ok p, w')" and dir: "real_dir w d"
  shows "\<exists>fs c out.
    (\<forall>y. node_at fs y =
       (if \<exists>x. is_installer x \<and> y = abs_parts w d @ [x] then None else node_at (files w) y)) \<and>
    cmd_argv c = download_cmd version d \<and>
    programs w (map fst (ran w)) c fs = (Ok (0, out), files w') \<and>
    is_newest (glob is_installer d w') w' p"
proof -
  let ?q = "abs_parts w d" and ?mk = "\<lambda>x. Path (path_root d) (path_parts d @ [x])"
  let ?xs = "filter is_installer (children (files w) ?q)"
  have g: "glob is_installer d w = map ?mk ?xs"
    using dir real_dir_path_at [OF dir] by (simp add: glob_def real_dir_def)
  have "\<exists>u w1 pr msg w3. for_each (map ?mk ?xs) unlink w = (Ok u, w1) \<and>
      run_or_exit (download_cmd version d) msg (w1\<lparr>printed := pr\<rparr>) = (Ok (), w3) \<and>
      newest (glob is_installer d w3) w3 = (Ok p, w')"
    using run unfolding fetch_installer_def
    by (auto simp: gets_def g mkdir_existing [OF dir] elim!: seqE_OkE bindE_OkE whenE_OkE dest!: info_Ok)
      blast
  then obtain u w1 pr msg w3 where 1: "for_each (map ?mk ?xs) unlink w = (Ok u, w1)"
    and 2: "run_or_exit (download_cmd version d) msg (w1\<lparr>printed := pr\<rparr>) = (Ok (), w3)"
    and 3: "newest (glob is_installer d w3) w3 = (Ok p, w')" by blast
  have "\<forall>x \<in> set ?xs. x \<noteq> ''..''" by (auto simp: is_installer_def suffix_to_prefix)
  from unlink_all [OF 1 dir this] obtain fs where fs: "w1 = w\<lparr>files := fs\<rparr>"
    "\<And>y. node_at fs y = (if \<exists>x \<in> set ?xs. y = ?q @ [x] then None else node_at (files w) y)" by blast
  have gone: "node_at fs y = (if \<exists>x. is_installer x \<and> y = ?q @ [x] then None else node_at (files w) y)" for y
    unfolding fs(2) using children_complete [of "files w" ?q] by (cases "node_at (files w) y") auto
  from 2 obtain fs3 out where prog: "programs w (map fst (ran w))
      (command_of (w1\<lparr>printed := pr\<rparr>) (download_cmd version d) None False) fs = (Ok (0, out), fs3)"
    "files w3 = fs3"
    by (rule run_or_exit_Ok) (simp add: fs(1))
  show ?thesis
    using gone prog newest_Ok [OF 3]
    by (intro exI [of _ fs] exI [of _ "command_of (w1\<lparr>printed := pr\<rparr>) (download_cmd version d) None False"]
        exI [of _ out]) (simp add: command_of_def)
qed

definition mirror_host :: host where
  "mirror_host =
     sample_host [([''d''], Dir), ([''d'', ''old.sh''], File None 420 3), ([''d'', ''notes''], File None 420 3)]
       Map.empty [] (\<lambda>_ _ fs. (Ok (0, []), fs @ [([''d'', ''sdk.sh''], File None 420 8)]))"

theorem fetch_installer_fresh_witness:
  "\<exists>w' fs. fetch_installer ''sdk-latest'' (Path ''/'' [''d'']) mirror_host = (Ok (Path ''/'' [''d'', ''sdk.sh'']), w') \<and>
     node_at fs [''d'', ''old.sh''] = None \<and> node_at fs [''d'', ''notes''] = Some (File None 420 3)"
proof -
  let ?d = "Path ''/'' [''d'']"
  have dir: "real_dir mirror_host ?d"
    by (simp add: real_dir_def mirror_host_def host_eval wf_fs_def)
  have "\<exists>w'. fetch_installer ''sdk-latest'' ?d mirror_host = (Ok (Path ''/'' [''d'', ''sdk.sh'']), w')"
    unfolding fetch_installer_def seqE_def bindE_def mkdir_existing [OF dir]
    by (simp add: utils_defs mirror_host_def host_eval host_ops is_installer_def suffix_to_prefix
        download_cmd_def seqE_def bindE_def io_defs try_except_def Let_def)
  then obtain w' where run: "fetch_installer ''sdk-latest'' ?d mirror_host = (Ok (Path ''/'' [''d'', ''sdk.sh'']), w')"
    by blast
  have nodes: "abs_parts mirror_host ?d = [''d'']" "node_at (files mirror_host) [''d'', ''notes''] = Some (File None 420 3)"
    "is_installer ''old.sh''" "\<not> is_installer ''notes''"
    by (simp_all add: mirror_host_def host_eval is_installer_def suffix_to_prefix)
  from fetch_installer_fresh [OF run dir] obtain fs where
    "\<forall>y. node_at fs y = (if \<exists>x. is_installer x \<and> y = abs_parts mirror_host ?d @ [x] then None
       else node_at (files mirror_host) y)" by blast
  then show ?thesis using run nodes by (intro exI [of _ w'] exI [of _ fs]) auto
qed

section \<open>Layers and the container\<close>

lemma clone_if_missing_Ok:
  fixes w :: "'z host_scheme"
  assumes "clone_if_missing msg url dir w = (Ok u, w')"
  obtains "path_exists dir w" "w' = w"
    | fs out c where "\<not> path_exists dir w" "cmd_argv c = clone_cmd url dir"
      "programs w (map fst (ran w)) c (files w) = (Ok (0, out), fs)"
      "files w' = fs" "cwd w' = cwd w" "programs w' = programs w"
proof (cases "path_exists dir w")
  case True
  then have "w' = w" using assms by (simp add: clone_if_missing_def io_defs)
  with True show thesis by (rule that(1))
next
  case False
  then have "seqE (print_info msg) (run_or_exit (clone_cmd url dir) default_fail_msg) w = (Ok u, w')"
    using assms by (simp add: clone_if_missing_def whenE_True)
  then obtain x w1 where 1: "print_info msg w = (Ok x, w1)"
    "run_or_exit (clone_cmd url dir) default_fail_msg w1 = (Ok u, w')" by (rule seqE_OkE)
  then obtain pr where w1: "w1 = w\<lparr>printed := pr\<rparr>" using info_Ok by blast
  from run_or_exit_Ok [OF 1(2)] obtain fs out where
    "programs w1 (map fst (ran w1)) (command_of w1 (clone_cmd url dir) None False) (files w1) = (Ok (0, out), fs)"
    "w' = w1\<lparr>files := fs, ran := ran w1 @ [(command_of w1 (clone_cmd url dir) None False, Ok 0)]\<rparr>" .
  then show thesis
    by (intro that(2) [OF False, of "command_of w1 (clone_cmd url dir) None False" out fs])
      (simp_all add: w1 command_of_def)
qed

text \<open>What the layers need of the programs: a directory that exists stays, and a successful
  clone creates its directory.\<close>

definition clones_ok :: "'z host_scheme \<Rightarrow> (string \<times> string \<times> path) list \<Rightarrow> bool" where
  "clones_ok w layers \<longleftrightarrow>
     (\<forall>(msg, url, dir) \<in> set layers. \<forall>h c fs out fs'. programs w h c fs = (Ok (0, out), fs') \<longrightarrow>
        (path_exists dir (w\<lparr>files := fs\<rparr>) \<or> cmd_argv c = clone_cmd url dir) \<longrightarrow>
        path_exists dir (w\<lparr>files := fs'\<rparr>))"

definition same_place :: "'z host_scheme \<Rightarrow> 'z host_scheme \<Rightarrow> bool" where
  "same_place w v \<longleftrightarrow> cwd v = cwd w \<and> programs v = programs w"

lemma path_exists_place: "same_place w v \<Longrightarrow> path_exists p v = path_exists p (w\<lparr>files := files v\<rparr>)"
  unfolding same_place_def by (intro queries_cong) simp_all

interpretation pl: mkdir_order same_place
  by unfold_locales (auto simp: same_place_def evolves_def os_mkdir_def split: sum.splits)

lemma clone_step:
  fixes w :: "'z host_scheme"
  assumes ok: "clones_ok w layers" and place: "same_place w v"
    and run: "clone_if_missing msg url dir v = (Ok u, v')" and l: "(msg, url, dir) \<in> set layers"
  shows "same_place w v' \<and> path_exists dir v' \<and>
    (\<forall>l \<in> set layers. path_exists (snd (snd l)) v \<longrightarrow> path_exists (snd (snd l)) v')"
  using run
proof (cases rule: clone_if_missing_Ok)
  case 1
  then show ?thesis using place by auto
next
  case (2 fs out c)
  have place': "same_place w v'" using 2 place by (simp add: same_place_def)
  have "programs w (map fst (ran v)) c (files v) = (Ok (0, out), files v')"
    using 2 place by (simp add: same_place_def)
  then have "\<forall>(m, url', d) \<in> set layers. path_exists d v \<or> cmd_argv c = clone_cmd url' d \<longrightarrow> path_exists d v'"
    using ok unfolding clones_ok_def path_exists_place [OF place] path_exists_place [OF place'] by blast
  then show ?thesis using place' l 2(2) by fastforce
qed

lemma clone_all:
  fixes w :: "'z host_scheme"
  assumes ok: "clones_ok w layers"
  shows "for_each ls (\<lambda>(msg, url, dir). clone_if_missing msg url dir) v = (Ok u, v') \<Longrightarrow>
    same_place w v \<Longrightarrow> set ls \<subseteq> set layers \<Longrightarrow>
    same_place w v' \<and> (\<forall>l \<in> set ls. path_exists (snd (snd l)) v') \<and>
    (\<forall>l \<in> set layers. path_exists (snd (snd l)) v \<longrightarrow> path_exists (snd (snd l)) v')"
proof (induction ls arbitrary: v)
  case Nil
  then show ?case by (auto simp: ret_def)
next
  case (Cons l ls)
  obtain msg url dir where l: "l = (msg, url, dir)" by (metis prod_cases3)
  obtain v1 u1 where 1: "clone_if_missing msg url dir v = (Ok u1, v1)"
    and rest: "for_each ls (\<lambda>(msg, url, dir). clone_if_missing msg url dir) v1 = (Ok u, v')"
    using Cons.prems(1) l by (auto elim!: seqE_OkE)
  have mem: "(msg, url, dir) \<in> set layers" using Cons.prems(3) l by simp
  note s = clone_step [OF ok Cons.prems(2) 1 mem]
  have t: "same_place w v'" "\<forall>l \<in> set ls. path_exists (snd (snd l)) v'"
    "\<forall>l \<in> set layers. path_exists (snd (snd l)) v1 \<longrightarrow> path_exists (snd (snd l)) v'"
    using Cons.IH [OF rest] s Cons.prems(3) by auto
  have "path_exists dir v'" using t(3) mem s by force
  then show ?case using s t by (simp add: l)
qed

text \<open>When \<^verbatim>\<open>build_yocto.py\<close> gets past its preparation, all four layer directories exist,
  whichever of them were there before, provided a successful clone creates its directory
  and the programs remove none of the four.\<close>

lemma prepare_layers_complete:
  fixes w :: "'z host_scheme"
  assumes run: "prepare_layers base w = (Ok u, w')" and ok: "clones_ok w (yocto_layers base)"
  shows "\<forall>(msg, url, dir) \<in> set (yocto_layers base). path_exists dir w'"
proof -
  obtain v where 1: "whenE (\<not> path_exists base w) (mkdir_parents False base) w = (Ok (), v)"
    and 2: "for_each (yocto_layers base) (\<lambda>(msg, url, dir). clone_if_missing msg url dir) v = (Ok u, w')"
    using run unfolding prepare_layers_def by (auto elim!: seqE_OkE)
  have "evolves same_place (whenE (\<not> path_exists base w) (mkdir_parents False base))"
    by (intro pl.ev_when pl.ev_mkdir_parents)
  then have "same_place w v" using 1 by (rule evolvesD)
  from clone_all [OF ok 2 this] show ?thesis by (auto split: prod.splits)
qed

text \<open>A workspace with all layers, and one whose programs create them.\<close>

definition layers_tree :: fs where
  "layers_tree = project_tree @
     [([''r'', ''scripts'', ''Dockerfile.yocto''], File (Some []) 420 0),
      ([''yocto-dev''], Dir), ([''yocto-dev'', ''poky''], Dir), ([''yocto-dev'', ''meta-openembedded''], Dir),
      ([''yocto-dev'', ''meta-tor''], Dir), ([''yocto-dev'', ''meta-security''], Dir)]"

definition bare_host :: host where
  "bare_host = sample_host project_tree Map.empty [] (\<lambda>_ _ _. (Ok (0, []), layers_tree))"

lemma bare_host_clones: "clones_ok bare_host (yocto_layers (Path ''/'' [''yocto-dev'']))"
  by (auto simp: clones_ok_def yocto_layers_def bare_host_def layers_tree_def host_eval)

lemma prepare_layers_ready:
  assumes "path_exists base w" and "\<forall>(msg, url, dir) \<in> set (yocto_layers base). path_exists dir w"
  shows "prepare_layers base w = (Ok (), w)"
proof -
  have "for_each ls (\<lambda>(msg, url, dir). clone_if_missing msg url dir) w = (Ok (), w)"
    if "\<forall>(msg, url, dir) \<in> set ls. path_exists dir w" for ls
    using that
    by (induction ls) (auto simp: ret_def seqE_def bindE_def clone_if_missing_def gets_def whenE_def)
  then show ?thesis using assms by (simp add: prepare_layers_def seqE_def bindE_def gets_def whenE_def ret_def)
qed

text \<open>The commands so far, for the same user and terminal.\<close>

definition upto :: "'z host_scheme \<Rightarrow> string list list \<Rightarrow> 'z host_scheme \<Rightarrow> bool" where
  "upto w cs v \<longleftrightarrow> argvs v = argvs w @ cs \<and> uid v = uid w \<and> gid v = gid w \<and> tty v = tty w"

lemma upto_step:
  assumes "issues m ds" and "evolves log_le m"
  shows "triple (upto w cs) m (\<lambda>_. upto w (cs @ ds)) (\<lambda>_ _. True)"
  unfolding triple_def
proof (intro allI impI)
  fix v
  assume v: "upto w cs v"
  obtain r v' where m: "m v = (r, v')" by fastforce
  show "case m v of (Ok x, v') \<Rightarrow> upto w (cs @ ds) v' | (Raise e, v') \<Rightarrow> True | (Diverge, _) \<Rightarrow> True"
    using v m issuesD [OF assms(1)] evolvesD [OF assms(2) m]
    by (cases r) (auto simp: upto_def log_le_def)
qed

lemma upto_quiet:
  "evolves runs_nothing m \<Longrightarrow> evolves log_le m \<Longrightarrow> triple (upto w cs) m (\<lambda>_. upto w cs) (\<lambda>_ _. True)"
  using upto_step [OF issues_nothing, of m w cs] by simp

lemma upto_run: "triple (upto w cs) (run_or_exit cmd msg) (\<lambda>_. upto w (cs @ [cmd])) (\<lambda>_ _. True)"
  by (intro upto_step issues_run_or_exit log.ev_run_or_exit)

lemma build_image_upto:
  "triple (upto w cs) (build_image d)
    (\<lambda>_. upto w (cs @ [image_build_cmd d (path_joins d [''scripts'', ''Dockerfile.yocto'']) (uid w) (gid w)]))
    (\<lambda>_ _. True)"
  unfolding build_image_def Let_def
  by (intro triple_gets_any triple_seq [OF upto_quiet] rn.utils_rules log.script_rules
      triple_gets_known [where x = "uid w"] triple_gets_known [where x = "gid w"] upto_run)
    (simp_all add: upto_def)

lemma run_bitbake_upto:
  "triple (upto w cs) (run_bitbake d base sdk clean target)
    (\<lambda>_. upto w (cs @ [docker_cmd (path_parent d) (path_join base ''poky'') (tty w)
       (bash_command d base sdk clean target)])) (\<lambda>_ _. True)"
  unfolding run_bitbake_def
  by (intro triple_seq [OF upto_quiet] triple_seq [OF upto_run] upto_quiet rn.utils_rules
      log.script_rules triple_gets_known [where x = "tty w"])
    (simp add: upto_def)

text \<open>With the layers in place, a successful \<^verbatim>\<open>build_yocto.py\<close> ran exactly two commands: the
  build of the builder image for the calling user, and the container that runs the
  generated script for the parsed options, interactively exactly on a terminal.\<close>

lemma yocto_main_plan:
  fixes w :: "'z host_scheme"
  assumes run: "yocto_main w = (Ok (), w')" and root: "path_at w (project_root_of w) = Inr q"
    and base: "base = path_join (path_parent (project_root_of w)) ''yocto-dev''"
    and ready: "path_exists base (w\<lparr>cwd := q\<rparr>)"
      "\<forall>(msg, url, dir) \<in> set (yocto_layers base). path_exists dir (w\<lparr>cwd := q\<rparr>)"
  shows "\<exists>ns. parse_list yocto_parser (tl (argv w)) = Inr ns \<and>
    argvs w' = argvs w @
      [image_build_cmd (project_root_of w)
         (path_joins (project_root_of w) [''scripts'', ''Dockerfile.yocto'']) (uid w) (gid w),
       docker_cmd (path_parent (project_root_of w)) (path_join base ''poky'') (tty w)
         (bash_command (project_root_of w) base (arg_set ns ''sdk'') (arg_set ns ''clean'')
           (arg_text ns ''target''))]"
proof -
  let ?d = "project_root_of w"
  let ?image = "image_build_cmd ?d (path_joins ?d [''scripts'', ''Dockerfile.yocto'']) (uid w) (gid w)"
  let ?bake = "\<lambda>ns. run_bitbake ?d base (arg_set ns ''sdk'') (arg_set ns ''clean'') (arg_text ns ''target'')"
  obtain d w1 where 1: "change_to_project_root w = (Ok d, w1)"
    and main: "bindE (run_parser yocto_parser) (\<lambda>ns.
      seqE (print_info ''Verifying Yocto environment...'')
        (seqE (prepare_layers (path_join (path_parent d) ''yocto-dev'')) (seqE (build_image d)
          (run_bitbake d (path_join (path_parent d) ''yocto-dev'')
            (arg_set ns ''sdk'') (arg_set ns ''clean'') (arg_text ns ''target''))))) w1 = (Ok (), w')"
    using run unfolding yocto_main_def Let_def by (rule bindE_OkE)
  from project_root_Ok [OF 1 root] obtain env where d: "d = ?d"
    and w1: "w1 = w\<lparr>cwd := q, environ := env\<rparr>" by metis
  obtain ns pr where ns: "parse_list yocto_parser (tl (argv w)) = Inr ns"
    and steps: "seqE (prepare_layers base) (seqE (build_image ?d) (?bake ns)) (w1\<lparr>printed := pr\<rparr>) = (Ok (), w')"
    using main unfolding d base [symmetric]
    by (elim bindE_OkE seqE_OkE [of "print_info ''Verifying Yocto environment...''"])
      (auto dest!: run_parser_Ok info_Ok simp: w1)
  have "prepare_layers base (w1\<lparr>printed := pr\<rparr>) = (Ok (), w1\<lparr>printed := pr\<rparr>)"
    using ready queries_cong [of "w1\<lparr>printed := pr\<rparr>" "w\<lparr>cwd := q\<rparr>"] w1
    by (intro prepare_layers_ready) simp_all
  then have steps: "seqE (build_image ?d) (?bake ns) (w1\<lparr>printed := pr\<rparr>) = (Ok (), w')"
    using steps by (simp add: seqE_def [of "prepare_layers base"] bindE_def)
  have "triple (upto w []) (seqE (build_image ?d) (?bake ns)) (\<lambda>_. upto w (([] @ [?image]) @
      [docker_cmd (path_parent ?d) (path_join base ''poky'') (tty w)
        (bash_command ?d base (arg_set ns ''sdk'') (arg_set ns ''clean'') (arg_text ns ''target''))]))
      (\<lambda>_ _. True)"
    by (rule triple_seq [OF build_image_upto run_bitbake_upto])
  from triple_OkD [OF this _ steps] ns show ?thesis by (auto simp: upto_def w1 argvs_def)
qed

definition baking_host :: host where
  "baking_host = sample_host layers_tree Map.empty [''build_yocto.py'', ''--sdk''] (\<lambda>_ _ fs. (Ok (0, []), fs))"

section \<open>Installing and options\<close>

lemma success_Ok: "print_success msg w = (Ok u, w') \<Longrightarrow> \<exists>pr. w' = w\<lparr>printed := pr\<rparr>"
  by (auto simp: print_success_def print_to_def modify_def)

text \<open>\<^verbatim>\<open>download_sdk.py\<close> makes the installer executable before it starts it, changes no other
  entry, and passes it the directory of \<^verbatim>\<open>YOCTO_SDK_DIR\<close> or the default next to the project.\<close>

lemma install_sdk_runs_executable:
  fixes w :: "'z host_scheme"
  assumes run: "install_sdk root_dir p w = (Ok (), w')"
    and nd: "path_at w p = Inr x" "node_at (files w) x = Some (File t m i)"
  shows "\<exists>fs c out.
    (\<forall>y. node_at fs y = (if y = x then Some (File t 493 i) else node_at (files w) y)) \<and>
    cmd_argv c = [path_str p, ''-y'', ''-d'',
      (case environ w ''YOCTO_SDK_DIR'' of Some d \<Rightarrow> d
       | None \<Rightarrow> path_str (path_joins (path_parent root_dir) [''yocto-dev'', ''sdk'']))] \<and>
    programs w (map fst (ran w)) c fs = (Ok (0, out), files w')"
proof -
  have ne: "x \<noteq> []" using nd(2) by (auto simp: node_at_def)
  let ?fs = "AList.update x (File t 493 i) (files w)"
  have ch: "chmod p 493 (w\<lparr>printed := pr\<rparr>) = (Ok (), w\<lparr>printed := pr, files := ?fs\<rparr>)" for pr
  proof -
    have "path_at (w\<lparr>printed := pr\<rparr>) p = Inr x" using nd(1) by (auto simp: path_at_def abs_parts_def split: if_splits)
    then show ?thesis using nd(2) by (simp add: chmod_def)
  qed
  let ?cmd = "install_cmd p (install_dir root_dir (environ w))"
  have "\<exists>pr msg v. run_or_exit ?cmd msg (w\<lparr>files := ?fs, printed := pr\<rparr>) = (Ok (), v) \<and> files w' = files v"
    using run unfolding install_sdk_def Let_def
    by (auto simp: gets_def ch elim!: seqE_OkE bindE_OkE dest!: info_Ok success_Ok) blast
  then obtain pr msg v where v: "run_or_exit ?cmd msg (w\<lparr>files := ?fs, printed := pr\<rparr>) = (Ok (), v)"
    "files w' = files v" by blast
  obtain fs' out where
    "programs w (map fst (ran w)) (command_of w ?cmd None False) ?fs = (Ok (0, out), fs')" "files v = fs'"
    using v(1) by (rule run_or_exit_Ok) (simp add: command_of_def)
  then show ?thesis
    using ne v(2) by (intro exI [of _ ?fs] exI [of _ "command_of w ?cmd None False"] exI [of _ out])
      (simp add: node_at_update command_of_def install_cmd_def install_dir_def)
qed

section \<open>The contract of the scripts\<close>

text \<open>\<^verbatim>\<open>upload_sdk.py\<close> asks with \<^verbatim>\<open>gh release view\<close> whether the release exists and goes on if that fails; the
  commands behind it stop at a failure.\<close>

lemma upload_stops_at_failure:
  fixes w :: "'z host_scheme"
  assumes run: "upload_main w = (r, w')" and px: "posix (programs w)" and t: "ran w' = ran w @ t"
    and i: "i < length t" "\<not> succeeded (t ! i)"
  shows "Suc i = length t \<and> exit_status r \<noteq> Some 0 \<or>
    i = 0 \<and> cmd_argv (fst (t ! i)) = view_cmd \<and> (\<exists>rc. snd (t ! i) = Ok rc)"
proof -
  let ?front = "bindE change_to_project_root (\<lambda>project_root.
      bindE (run_parser upload_parser) (\<lambda>args. find_installer project_root))"
  have up: "upload_main = bindE ?front publish" by (simp add: upload_main_def bindE_assoc)
  obtain r1 w1 where 1: "?front w = (r1, w1)" by fastforce
  have "evolves runs_nothing ?front" unfolding find_installer_def Let_def by (intro rn.utils_rules)
  from evolvesD [OF this 1] have w1: "ran w1 = ran w" "programs w1 = programs w" by (simp_all add: runs_nothing_def)
  have "r1 \<noteq> Raise e" "r1 \<noteq> Diverge" for e
    using run 1 w1(1) t i(1) by (auto simp: up bindE_def [of ?front])
  then obtain p where p: "r1 = Ok p" by (cases r1) auto
  define K :: "int \<times> string \<Rightarrow> ('z host_scheme, unit) io" where "K = (\<lambda>(returncode, _).
      seqE
        (whenE (returncode = 0)
           (seqE (print_info (''Release '' @ release_tag @ '' exists. Deleting it to clean up old artifacts...''))
             (run_or_exit delete_cmd (''Failed to delete old release '' @ release_tag @ ''.''))))
        (seqE (print_info (''Creating fresh release '' @ release_tag @ '' and uploading file...''))
          (seqE (print_info ''This might take a while depending on your upload speed.'')
            (seqE (run_or_exit (create_cmd p)
                     (''Failed to create release '' @ release_tag @
                      '' and upload SDK. Make sure GH_TOKEN is set in CI or you are logged into gh cli locally.''))
              (print_success ''SDK uploaded successfully to GitHub Releases!'')))))"
  have K: "disciplined (K z)" for z unfolding K_def by (intro discipline)
  have "publish p w1 = (r, w')" using run 1 p by (simp add: up bindE_def [of ?front])
  then have "seqE (print_info (''Checking for existing GitHub Release (Tag: '' @ release_tag @ '')...''))
      (bindE (subprocess_run view_cmd None True) K) w1 = (r, w')" (is "seqE ?say ?do w1 = _")
    unfolding publish_def K_def .
  moreover have "\<exists>pr. ?say w1 = (Ok (), w1\<lparr>printed := pr\<rparr>)" unfolding print_info_def print_to_def modify_def by blast
  ultimately obtain pr where go: "?do (w1\<lparr>printed := pr\<rparr>) = (r, w')"
    using seqE_Ok [of ?say w1 "()" _ ?do] by metis
  let ?c = "command_of (w1\<lparr>printed := pr\<rparr>) view_cmd None True"
  obtain r2 fs where c: "programs w1 (map fst (ran w1)) ?c (files w1) = (r2, fs)" by fastforce
  let ?w2 = "w1\<lparr>printed := pr, files := fs, ran := ran w1 @ [(?c, map_result fst r2)]\<rparr>"
  have go: "bindE (\<lambda>_. (r2, ?w2)) K w = (r, w')"
    using go c by (simp add: bindE_def subprocess_run_def Let_def)
  show ?thesis
  proof (cases r2)
    case (Ok z)
    then have k: "K z ?w2 = (r, w')" using go by (simp add: bindE_def)
    obtain u where u: "ran w' = ran ?w2 @ u" "list_all succeeded (butlast u)" "exit_status r = Some 0 \<longrightarrow> list_all succeeded u"
      by (rule disciplinedE [OF K k]) (use px w1(2) in simp_all)
    then have tu: "t = (?c, Ok (fst z)) # u" using t w1(1) Ok by simp
    show ?thesis
    proof (cases i)
      case 0
      then show ?thesis by (simp add: tu command_of_def)
    next
      case (Suc j)
      then have "j < length u" "\<not> succeeded (u ! j)" using i tu by simp_all
      moreover from this have "\<not> j < length (butlast u)" using u(2) by (auto simp: list_all_length nth_butlast)
      ultimately show ?thesis using u(3) Suc by (auto simp: tu list_all_length)
    qed
  next
    case (Raise e)
    then have e: "r = Raise e" "w' = ?w2" using go by (simp_all add: bindE_def)
    have "posix (programs w1)" using px w1(2) by simp
    from posix_cases [OF this c] have "exit_status (Raise e :: unit result) \<noteq> Some 0"
      using instance_of_OSError_class [of e, where 'a = unit] Raise by cases auto
    moreover have "t = [(?c, map_result fst r2)]" using e(2) t w1(1) by simp
    ultimately show ?thesis using e(1) i(1) by simp
  next
    case Diverge
    then have "r = Diverge" "w' = ?w2" using go by (simp_all add: bindE_def)
    moreover from this have "t = [(?c, map_result fst r2)]" using t w1(1) by simp
    ultimately show ?thesis using i(1) by simp
  qed
qed

definition scripts :: "(string \<times> ('z host_scheme, unit) io) list" where
  "scripts =
     [(''clean.py'', clean_main), (''run.py'', run_main), (''test.py'', test_main),
      (''coverage.py'', coverage_main), (''format.py'', format_main), (''valgrind.py'', valgrind_main),
      (''build.py'', build_main), (''download_sdk.py'', download_main), (''build_yocto.py'', yocto_main),
      (''upload_sdk.py'', upload_main)]"

lemmas log_disciplines = clean_script.log_discipline run_script.log_discipline
  test_script.log_discipline coverage_script.log_discipline format_script.log_discipline
  valgrind_script.log_discipline build_script.log_discipline download_script.log_discipline
  yocto_script.log_discipline

lemma scripts_disciplined:
  "(name, main) \<in> set scripts \<Longrightarrow> name = ''upload_sdk.py'' \<and> main = upload_main \<or> host_script main"
  unfolding scripts_def by (auto intro!: host_script.intro log_disciplines)

text \<open>C13: In each of the ten scripts, a command that fails (or cannot be started, or is interrupted) is the
  last one run, and the script ends with a status other than 0.  There is one exception: when
  \<^verbatim>\<open>gh release view\<close>, with which \<^verbatim>\<open>upload_sdk.py\<close> begins, answers with a status other than 0, the script goes on.\<close>

theorem scripts_stop_at_failure:
  fixes main :: "('z host_scheme, unit) io"
  assumes "(name, main) \<in> set scripts" and "main w = (r, w')" and "posix (programs w)"
    and "ran w' = ran w @ t" and "i < length t" and "\<not> succeeded (t ! i)"
  shows "Suc i = length t \<and> exit_status r \<noteq> Some 0 \<or>
    name = ''upload_sdk.py'' \<and> i = 0 \<and> cmd_argv (fst (t ! i)) = [''gh'', ''release'', ''view'', ''sdk-latest''] \<and>
      (\<exists>rc. snd (t ! i) = Ok rc)"
proof (cases "host_script main")
  case True
  from host_script.stops_at_failure [OF this assms(2-6)] show ?thesis ..
next
  case False
  then have "name = ''upload_sdk.py''" "main = upload_main" using scripts_disciplined [OF assms(1)] by simp_all
  moreover have "view_cmd = [''gh'', ''release'', ''view'', ''sdk-latest'']" by (simp add: view_cmd_def release_tag_def)
  ultimately show ?thesis using upload_stops_at_failure [of w r w' t i] assms(2-6) by simp
qed

definition failing_host :: host where
  "failing_host = fresh_host\<lparr>programs := (\<lambda>_ _ fs. (Ok (2, []), fs))\<rparr>"

theorem scripts_stop_at_failure_witness:
  "\<exists>r w' t. build_main failing_host = (r, w') \<and> ran w' = ran failing_host @ t \<and>
     Suc 0 = length t \<and> exit_status r \<noteq> Some 0"
proof -
  have "\<exists>r w' c. build_main failing_host = (r, w') \<and> ran w' = ran failing_host @ [(c, Ok 2)]"
    by (simp add: build_defs utils_defs failing_host_def fresh_host_def host_eval host_ops argparse_eval
        run_parser_def build_parser_def build_dir_of_def bindE_def seqE_def io_defs try_except_def Let_def
        catches_def instance_any_def instance_of_def)
  then obtain r w' c where run: "build_main failing_host = (r, w')"
    and ran: "ran w' = ran failing_host @ [(c, Ok 2)]" by blast
  have "(''build.py'', build_main) \<in> set scripts" by (simp add: scripts_def)
  moreover have "posix (programs failing_host)" by (simp add: posix_def failing_host_def)
  ultimately have "Suc 0 = length [(c, Ok 2 :: int result)] \<and> exit_status r \<noteq> Some 0"
    using scripts_stop_at_failure [where main = build_main and w = failing_host and r = r and w' = w' and
        t = "[(c, Ok 2)]" and i = 0 and name = "''build.py''"] run ran
    by (simp add: succeeded_def)
  then show ?thesis using run ran by blast
qed

text \<open>Every script keeps the directory tree well-formed: one
  entry for each path, and every entry in a directory, as long as the programs do.\<close>

lemma scripts_keep_tree:
  fixes main :: "('z host_scheme, unit) io"
  assumes "(name, main) \<in> set scripts" and "main w = (r, w')"
    and "tidy (programs w)" and "wf_fs (files w)"
  shows "wf_fs (files w')"
proof -
  have "evolves keeps_tree main"
    using assms(1) unfolding scripts_def
    by (auto simp: tree.ev_clean_main tree.ev_run_main tree.ev_test_main tree.ev_coverage_main
        tree.ev_format_main tree.ev_valgrind_main tree.ev_build_main tree.ev_download_main
        tree.ev_yocto_main tree.ev_upload_main)
  from evolvesD [OF this assms(2)] assms(3,4) show ?thesis by (simp add: keeps_tree_def)
qed

text \<open>The options of \<^verbatim>\<open>build_yocto.py\<close> are read as written: for each of the three targets the
  parser gives back the two flags and the target, and any other target ends the script with
  status 2.\<close>

lemma yocto_args_roundtrip:
  assumes "\<not> prefix ''-'' target"
  shows "if target \<in> set [''server'', ''client'', ''both'']
    then \<exists>ns. parse_list yocto_parser
           ((if sdk then [''--sdk''] else []) @ [''--target'', target] @ (if clean then [''--clean''] else [])) = Inr ns \<and>
         arg_set ns ''sdk'' = sdk \<and> arg_text ns ''target'' = target \<and> arg_set ns ''clean'' = clean
    else parse_list yocto_parser
           ((if sdk then [''--sdk''] else []) @ [''--target'', target] @ (if clean then [''--clean''] else [])) = Inl 2"
proof -
  have "target \<noteq> ''--''" using assms by auto
  then show ?thesis using assms
    by (cases sdk; cases clean) (auto simp: argparse_eval yocto_parser_def)
qed

end
