(* ===== verification/PyFloat.thy ===== *)
theory PyFloat
  imports Prelude
begin

text \<open>
  The binary floating-point numbers of Python: \<^verbatim>\<open>fl x\<close> is the double nearest to the real number
  \<^verbatim>\<open>x\<close>, ties to even, so that a float operation is \<^verbatim>\<open>fl\<close> of the exact result.  The significand has 53
  bits; the exponent is unbounded, so overflow and subnormal numbers are not represented.
\<close>

definition ulp_exp :: "real \<Rightarrow> int" where
  "ulp_exp x = \<lfloor>log 2 \<bar>x\<bar>\<rfloor> - 52"

definition fl :: "real \<Rightarrow> real" where
  "fl x = (if x = 0 then 0 else of_int (round_half_even (x / 2 powi ulp_exp x)) * 2 powi ulp_exp x)"

abbreviation fl_int :: "int \<Rightarrow> real" where
  "fl_int n \<equiv> fl (of_int n)"

lemma fl_0 [simp]: "fl 0 = 0"
  by (simp add: fl_def)

lemma ulp_exp_bounds:
  assumes "x \<noteq> 0"
  shows "2 ^ 52 * 2 powi ulp_exp x \<le> \<bar>x\<bar>" "\<bar>x\<bar> < 2 ^ 53 * 2 powi ulp_exp x"
proof -
  let ?l = "\<lfloor>log 2 \<bar>x\<bar>\<rfloor>"
  have l: "2 powr of_int ?l \<le> \<bar>x\<bar>" "\<bar>x\<bar> < 2 powr (of_int ?l + 1)"
    using assms floor_correct [of "log 2 \<bar>x\<bar>"]
    by (simp_all add: le_log_iff [symmetric] log_less_iff [symmetric])
  have p: "(2 :: real) powi ulp_exp x = 2 powr (of_int ?l - 52)"
    using powr_real_of_int' [of 2 "?l - 52"] by (simp add: ulp_exp_def)
  show "2 ^ 52 * 2 powi ulp_exp x \<le> \<bar>x\<bar>" "\<bar>x\<bar> < 2 ^ 53 * 2 powi ulp_exp x"
    using l unfolding p by (simp_all add: powr_diff powr_add)
qed

lemma fl_error: "\<bar>fl x - x\<bar> \<le> \<bar>x\<bar> / 2 ^ 53"
proof (cases "x = 0")
  case False
  let ?u = "2 powi ulp_exp x :: real"
  have u: "0 < ?u" by simp
  have "fl x - x = (of_int (round_half_even (x / ?u)) - x / ?u) * ?u"
    using False u by (simp add: fl_def field_simps)
  then have "\<bar>fl x - x\<bar> = \<bar>of_int (round_half_even (x / ?u)) - x / ?u\<bar> * ?u"
    by (simp add: abs_mult)
  also have "\<dots> \<le> 1 / 2 * ?u"
    using round_half_even_error u by (intro mult_right_mono) auto
  also have "\<dots> \<le> \<bar>x\<bar> / 2 ^ 53" using ulp_exp_bounds(1) [OF False] by simp
  finally show ?thesis .
qed simp

lemma fl_nonneg: "0 \<le> x \<Longrightarrow> 0 \<le> fl x"
proof -
  assume "0 \<le> x"
  then have "\<bar>x\<bar> / 2 ^ 53 \<le> x" by simp
  with fl_error [of x] show ?thesis by linarith
qed

lemma fl_dyadic:
  assumes "\<bar>m\<bar> < 2 ^ 53"
  shows "fl (of_int m * 2 powi k) = of_int m * 2 powi k"
proof (cases "m = 0")
  case False
  let ?x = "of_int m * 2 powi k :: real"
  have x: "?x \<noteq> 0" "\<bar>?x\<bar> = of_int \<bar>m\<bar> * 2 powi k" using False by (simp_all add: abs_mult)
  have "2 ^ 52 * 2 powi ulp_exp ?x \<le> (of_int \<bar>m\<bar> * 2 powi k :: real)"
    using ulp_exp_bounds(1) [OF x(1)] x(2) by simp
  also have "\<dots> < 2 ^ 53 * 2 powi k"
    using assms by (intro mult_strict_right_mono) (simp_all flip: of_int_less_iff [where 'a = real])
  finally have "2 powi ulp_exp ?x < (2 powi (k + 1) :: real)"
    by (simp add: power_int_add)
  then have "ulp_exp ?x \<le> k"
    using power_int_increasing [of "k + 1" "ulp_exp ?x" "2 :: real"] by linarith
  then have "(2 :: real) powi k = 2 ^ nat (k - ulp_exp ?x) * 2 powi ulp_exp ?x"
    by (simp flip: power_int_of_nat power_int_add)
  then have "?x / 2 powi ulp_exp ?x = of_int (m * 2 ^ nat (k - ulp_exp ?x))"
    by (simp add: field_simps)
  then have "round_half_even (?x / 2 powi ulp_exp ?x) = m * 2 ^ nat (k - ulp_exp ?x)"
    by (simp only: round_half_even_of_int)
  with \<open>?x / _ = _\<close> show ?thesis using x(1) by (simp add: fl_def field_simps)
qed simp

section \<open>The module \<^verbatim>\<open>statistics\<close>\<close>

text \<open>On non-empty samples: \<^verbatim>\<open>fmean\<close> rounds the exact sum and the quotient, \<^verbatim>\<open>stdev\<close> computes with
  exact fractions and rounds the root once.\<close>

definition fmean :: "real list \<Rightarrow> real" where
  "fmean xs = fl (fl (sum_list xs) / real (length xs))"

definition median :: "real list \<Rightarrow> real" where
  "median xs =
     (let ys = sort xs; n = length xs in
      if odd n then ys ! (n div 2) else fl (fl (ys ! (n div 2 - 1) + ys ! (n div 2)) / 2))"

definition stdev :: "real list \<Rightarrow> real" where
  "stdev xs =
     (let m = sum_list xs / real (length xs) in
      fl (sqrt (sum_list (map (\<lambda>x. (x - m)\<^sup>2) xs) / real (length xs - 1))))"

end
