(* ===== verification/PyJson.thy ===== *)
theory PyJson
  imports PyIO PyPath PyFloat
begin

text \<open>
  The values \<^verbatim>\<open>json.loads\<close> returns and what the analysis programs do with them: subscription,
  \<^verbatim>\<open>get\<close>, truth, \<^verbatim>\<open>int\<close>, \<^verbatim>\<open>float\<close>, \<^verbatim>\<open>str\<close>, iteration.  Pure code that may raise has a value of
  the type \<^verbatim>\<open>exn + 'a\<close>.  The printed form of floats and containers and the reading of a
  float from a string are arguments, bundled in \<^verbatim>\<open>conv\<close>.
\<close>

datatype json =
    JNull | JBool bool | JInt int | JFloat real | JStr string
  | JList "json list" | JObj "(string \<times> json) list"

record conv =
  repr_text :: "json \<Rightarrow> string"
  read_float :: "string \<Rightarrow> exn + real"

section \<open>Sequencing of pure code\<close>

definition bindS :: "exn + 'a \<Rightarrow> ('a \<Rightarrow> exn + 'b) \<Rightarrow> exn + 'b" where
  "bindS m f = (case m of Inl e \<Rightarrow> Inl e | Inr x \<Rightarrow> f x)"

definition unlessS :: "bool \<Rightarrow> exn \<Rightarrow> exn + 'a \<Rightarrow> exn + 'a" where
  "unlessS bad e m = (if bad then Inl e else m)"

definition raise_from :: "exn_class list \<Rightarrow> exn \<Rightarrow> exn + 'a \<Rightarrow> exn + 'a" where
  "raise_from cs e m = (case m of Inl x \<Rightarrow> Inl (if instance_any x cs then e else x) | Inr y \<Rightarrow> Inr y)"

fun mapS :: "('a \<Rightarrow> exn + 'b) \<Rightarrow> 'a list \<Rightarrow> exn + 'b list" where
  "mapS f [] = Inr []"
| "mapS f (x # xs) = bindS (f x) (\<lambda>y. bindS (mapS f xs) (\<lambda>ys. Inr (y # ys)))"

lemma bindS_Inr_iff [simp]: "bindS m f = Inr y \<longleftrightarrow> (\<exists>x. m = Inr x \<and> f x = Inr y)"
  by (cases m) (simp_all add: bindS_def)

lemma bindS_Inr [simp]: "bindS (Inr x) f = f x"
  by (simp add: bindS_def)

lemma unlessS_Inr_iff [simp]: "unlessS bad e m = Inr y \<longleftrightarrow> \<not> bad \<and> m = Inr y"
  by (simp add: unlessS_def)

lemma raise_from_Inr_iff [simp]: "raise_from cs e m = Inr y \<longleftrightarrow> m = Inr y"
  by (cases m) (simp_all add: raise_from_def)

lemma mapS_Inr_iff: "mapS f xs = Inr ys \<longleftrightarrow> list_all2 (\<lambda>x y. f x = Inr y) xs ys"
  by (induction xs arbitrary: ys) (auto simp: list_all2_Cons1)

section \<open>Strings\<close>

definition lower_char :: "char \<Rightarrow> char" where
  "lower_char c = (let n = (of_char c :: nat) in if 65 \<le> n \<and> n \<le> 90 then char_of (n + 32) else c)"

definition str_lower :: "string \<Rightarrow> string" where
  "str_lower s = map lower_char s"

definition sign_split :: "string \<Rightarrow> int \<times> string" where
  "sign_split s =
     (case s of
        c # r \<Rightarrow> if c = CHR ''-'' then (-1, r) else if c = CHR ''+'' then (1, r) else (1, s)
      | [] \<Rightarrow> (1, []))"

text \<open>\<^verbatim>\<open>int(text)\<close>: white space around, a sign, digits with single underscores between them, at
  most 4300 of them.\<close>

definition py_int :: "string \<Rightarrow> exn + int" where
  "py_int s =
     (let (sg, body) = sign_split (strip s); ds = split_on CHR ''_'' body in
      if list_all (\<lambda>d. d \<noteq> [] \<and> list_all is_digit d) ds \<and> length (concat ds) \<le> 4300
      then Inr (sg * int (read_digits (concat ds)))
      else Inl (Exn ValueError ''invalid literal for int() with base 10''))"

section \<open>Values\<close>

fun js_item :: "json \<Rightarrow> string \<Rightarrow> exn + json" where
  "js_item (JObj kvs) k = (case map_of kvs k of Some v \<Rightarrow> Inr v | None \<Rightarrow> Inl (Exn KeyError k))"
| "js_item _ k = Inl (Exn TypeError ''indices must be integers or slices'')"

fun js_get :: "json \<Rightarrow> string \<Rightarrow> json \<Rightarrow> exn + json" where
  "js_get (JObj kvs) k d = Inr (case map_of kvs k of Some v \<Rightarrow> v | None \<Rightarrow> d)"
| "js_get _ k d = Inl (Exn AttributeError ''get'')"

fun js_truth :: "json \<Rightarrow> bool" where
  "js_truth JNull = False"
| "js_truth (JBool b) = b"
| "js_truth (JInt i) = (i \<noteq> 0)"
| "js_truth (JFloat r) = (r \<noteq> 0)"
| "js_truth (JStr s) = (s \<noteq> [])"
| "js_truth (JList xs) = (xs \<noteq> [])"
| "js_truth (JObj kvs) = (kvs \<noteq> [])"

definition trunc :: "real \<Rightarrow> int" where
  "trunc r = (if 0 \<le> r then \<lfloor>r\<rfloor> else \<lceil>r\<rceil>)"

fun js_int :: "json \<Rightarrow> exn + int" where
  "js_int (JInt i) = Inr i"
| "js_int (JBool b) = Inr (if b then 1 else 0)"
| "js_int (JFloat r) = Inr (trunc r)"
| "js_int (JStr s) = py_int s"
| "js_int _ = Inl (Exn TypeError ''int() argument must be a string or a number'')"

fun js_float :: "conv \<Rightarrow> json \<Rightarrow> exn + real" where
  "js_float cv (JInt i) = Inr (fl_int i)"
| "js_float cv (JBool b) = Inr (if b then 1 else 0)"
| "js_float cv (JFloat r) = Inr r"
| "js_float cv (JStr s) = read_float cv s"
| "js_float cv _ = Inl (Exn TypeError ''float() argument must be a string or a number'')"

fun js_str :: "conv \<Rightarrow> json \<Rightarrow> string" where
  "js_str cv (JStr s) = s"
| "js_str cv JNull = ''None''"
| "js_str cv (JBool b) = (if b then ''True'' else ''False'')"
| "js_str cv (JInt i) = show_int i"
| "js_str cv j = repr_text cv j"

fun js_iter :: "json \<Rightarrow> exn + json list" where
  "js_iter (JList xs) = Inr xs"
| "js_iter (JObj kvs) = Inr (map (\<lambda>(k, _). JStr k) kvs)"
| "js_iter (JStr s) = Inr (map (\<lambda>c. JStr [c]) s)"
| "js_iter _ = Inl (Exn TypeError ''object is not iterable'')"

text \<open>\<^verbatim>\<open>xs[i]\<close> for an integer \<^verbatim>\<open>i\<close>, counted from the end when negative.\<close>

definition py_index :: "'a list \<Rightarrow> int \<Rightarrow> exn + 'a" where
  "py_index xs i =
     (let k = if i < 0 then i + int (length xs) else i in
      if 0 \<le> k \<and> k < int (length xs) then Inr (xs ! nat k) else Inl (Exn IndexError ''list index out of range''))"

end
