(* ===== verification/TrafficAnalysis.thy ===== *)
theory TrafficAnalysis
  imports PyJson
begin

text \<open>
  \<^verbatim>\<open>benchmarks/BT-04/analyze.py\<close>: inter-arrival times, their statistics, and the two-sample
  Kolmogorov-Smirnov test.  Float operations are rounded with \<^verbatim>\<open>fl\<close>; the exponential function of
  the C library is the argument \<^verbatim>\<open>mexp\<close>.  The rows of a CSV file and the JSON value of \<^verbatim>\<open>run.json\<close> are
  given; finding the scenario directories, the output files and the plots are left out.
\<close>

type_synonym csv_row = "(string \<times> string) list"

definition ALPHA :: real where
  "ALPHA = fl (5 / 100)"

definition POISSON_LAMBDA :: real where
  "POISSON_LAMBDA = fl (1 / 10)"

definition POISSON_MIN_CLAMP_S :: real where
  "POISSON_MIN_CLAMP_S = fl (1 / 10)"

record ScenarioStats =
  ss_mode :: json
  ss_profile :: json
  transmissions :: nat
  iat_samples :: nat
  duration_seconds :: real
  rate_per_second :: real
  mean_iat_s :: "real option"
  median_iat_s :: "real option"
  stddev_iat_s :: "real option"
  min_iat_s :: "real option"
  max_iat_s :: "real option"
  p95_iat_s :: "real option"
  push_count :: nat
  poll_count :: nat
  ack_count :: nat

section \<open>Samples\<close>

definition percentile :: "real list \<Rightarrow> real \<Rightarrow> exn + real option" where
  "percentile values p =
     (if values = [] then Inr None
      else
        let ordered = sort values in
        if length ordered = 1 then Inr (Some (ordered ! 0))
        else
          let pos = fl (real (length ordered - 1) * p); lo = \<lfloor>pos\<rfloor>; hi = \<lceil>pos\<rceil> in
          bindS (py_index ordered lo) (\<lambda>low.
            if lo = hi then Inr (Some low)
            else
              let frac = fl (pos - of_int lo) in
              bindS (py_index ordered hi) (\<lambda>high.
                Inr (Some (fl (fl (low * fl (1 - frac)) + fl (high * frac)))))))"

definition csv_item :: "csv_row \<Rightarrow> string \<Rightarrow> exn + string" where
  "csv_item row k = (case map_of row k of Some v \<Rightarrow> Inr v | None \<Rightarrow> Inl (Exn KeyError k))"

definition iats_from_rows :: "csv_row list \<Rightarrow> exn + real list" where
  "iats_from_rows rows =
     bindS (mapS (\<lambda>row. bindS (csv_item row ''timestamp_ns'') py_int) rows) (\<lambda>timestamps.
       Inr (map (\<lambda>(a, b). fl (fl_int (b - a) / 1000000000)) (zip timestamps (tl timestamps))))"

definition scenario_stats :: "conv \<Rightarrow> json \<Rightarrow> csv_row list \<Rightarrow> exn + ScenarioStats" where
  "scenario_stats cv run rows =
     bindS (iats_from_rows rows) (\<lambda>iats.
     bindS (mapS (\<lambda>row. csv_item row ''frame_type'') rows) (\<lambda>actions.
     bindS (bindS (js_item run ''measurement_elapsed_seconds'') (js_float cv)) (\<lambda>duration.
     bindS (js_item run ''mode'') (\<lambda>mode.
     bindS (js_item run ''profile'') (\<lambda>profile.
     bindS (percentile iats (fl (95 / 100))) (\<lambda>p95.
       let some = \<lambda>x. if iats = [] then None else Some x in
       Inr \<lparr>ss_mode = mode, ss_profile = profile, transmissions = length rows,
            iat_samples = length iats, duration_seconds = duration,
            rate_per_second = (if 0 < duration then fl (real (length rows) / duration) else 0),
            mean_iat_s = some (fmean iats), median_iat_s = some (median iats),
            stddev_iat_s = (if 2 \<le> length iats then Some (stdev iats) else None),
            min_iat_s = some (Min (set iats)), max_iat_s = some (Max (set iats)),
            p95_iat_s = p95,
            push_count = count_list actions ''PUSH'', poll_count = count_list actions ''POLL'',
            ack_count = count_list actions ''ACK''\<rparr>))))))"

section \<open>The two-sample test\<close>

function advance :: "real list \<Rightarrow> real \<Rightarrow> nat \<Rightarrow> nat" where
  "advance xs v i = (if i < length xs \<and> xs ! i \<le> v then advance xs v (Suc i) else i)"
  by auto
termination by (relation "measure (\<lambda>(xs, _, i). length xs - i)") auto

declare advance.simps [simp del]

definition next_value :: "real list \<Rightarrow> real list \<Rightarrow> nat \<Rightarrow> nat \<Rightarrow> real" where
  "next_value xs ys i j =
     (if length ys \<le> j \<or> (i < length xs \<and> xs ! i \<le> ys ! j) then xs ! i else ys ! j)"

definition ks_gap :: "nat \<Rightarrow> nat \<Rightarrow> nat \<Rightarrow> nat \<Rightarrow> real" where
  "ks_gap n m i j = \<bar>fl (fl (real i / real n) - fl (real j / real m))\<bar>"

lemma advance_ge: "i \<le> advance xs v i"
  by (induction xs v i rule: advance.induct) (subst advance.simps, auto)

lemma advance_gt: "i < length xs \<Longrightarrow> xs ! i \<le> v \<Longrightarrow> i < advance xs v i"
  using advance_ge [of "Suc i" xs v] by (subst advance.simps) simp

lemma advance_le: "i \<le> length xs \<Longrightarrow> advance xs v i \<le> length xs"
  by (induction xs v i rule: advance.induct) (subst advance.simps, auto)

lemma next_value_progress:
  assumes "i < length xs \<or> j < length ys"
  shows "i < length xs \<and> xs ! i = next_value xs ys i j \<or> j < length ys \<and> ys ! j = next_value xs ys i j"
  using assms by (auto simp: next_value_def)

function ks_loop :: "real list \<Rightarrow> real list \<Rightarrow> nat \<Rightarrow> nat \<Rightarrow> real \<Rightarrow> real" where
  "ks_loop xs ys i j d =
     (if i < length xs \<or> j < length ys then
        (let v = next_value xs ys i j; i' = advance xs v i; j' = advance ys v j in
         ks_loop xs ys i' j' (max d (ks_gap (length xs) (length ys) i' j')))
      else d)"
  by auto
termination
proof (relation "measure (\<lambda>(xs, ys, i, j, _). (length xs - i) + (length ys - j))", simp, goal_cases)
  case (1 xs ys i j d v i' j')
  then show ?case
    using next_value_progress [OF 1(1)] advance_ge [of i xs v] advance_ge [of j ys v]
      advance_gt [of i xs v] advance_gt [of j ys v] by auto
qed

declare ks_loop.simps [simp del]

fun ks_series :: "(real \<Rightarrow> real) \<Rightarrow> real \<Rightarrow> nat list \<Rightarrow> real \<Rightarrow> real" where
  "ks_series mexp lam [] p = p"
| "ks_series mexp lam (k # ks) p =
     (let t = fl (2 * (-1) ^ (k - 1) *
                mexp (fl (fl (fl (fl (-2 * real k) * real k) * lam) * lam)));
          p' = fl (p + t) in
      if \<bar>t\<bar> < fl (1 / 10 ^ 12) then p' else ks_series mexp lam ks p')"

definition ks_two_sample :: "(real \<Rightarrow> real) \<Rightarrow> real list \<Rightarrow> real list \<Rightarrow> exn + real \<times> real" where
  "ks_two_sample mexp x y =
     (if x = [] \<or> y = [] then Inl (Exn ValueError ''KS test requires two non-empty samples'')
      else
        let xs = sort x; ys = sort y; n = length xs; m = length ys; d = ks_loop xs ys 0 0 0 in
        if d \<le> 0 then Inr (0, 1)
        else
          let n_eff = fl (real (n * m) / real (n + m));
              rt = fl (sqrt n_eff);
              lam = fl (fl (fl (rt + fl (12 / 100)) + fl (fl (11 / 100) / rt)) * d);
              p_value = ks_series mexp lam [1..<200] 0 in
          Inr (d, max 0 (min 1 p_value)))"

section \<open>Distribution functions\<close>

definition empirical_cdf :: "real list \<Rightarrow> real list \<times> real list" where
  "empirical_cdf values =
     (let ordered = sort values; n = length ordered in
      (ordered, map (\<lambda>i. fl (real (i + 1) / real n)) [0..<n]))"

definition poisson_model_cdf :: "(real \<Rightarrow> real) \<Rightarrow> real \<Rightarrow> real" where
  "poisson_model_cdf mexp x =
     (if x < POISSON_MIN_CLAMP_S then 0 else fl (1 - mexp (fl (- POISSON_LAMBDA * x))))"

definition model_ks_distance :: "(real \<Rightarrow> real) \<Rightarrow> real list \<Rightarrow> real option" where
  "model_ks_distance mexp values =
     (if values = [] then None
      else
        let ordered = sort values; n = length ordered in
        Some (foldl (\<lambda>d (i, v).
          let upper = fl (real i / real n); lower = fl (real (i - 1) / real n);
              theoretical = poisson_model_cdf mexp v in
          max (max d \<bar>fl (upper - theoretical)\<bar>) \<bar>fl (lower - theoretical)\<bar>)
          0 (zip [1..<Suc n] ordered)))"

section \<open>The comparison of the profiles\<close>

type_synonym scenarios = "(string \<times> string) \<rightharpoonup> csv_row list"

record KsRow =
  ks_mode :: string
  n_idle :: nat
  n_chat :: nat
  ks_D :: real
  ks_p :: real
  significant :: bool

definition ks_row :: "(real \<Rightarrow> real) \<Rightarrow> scenarios \<Rightarrow> string \<Rightarrow> exn + KsRow list" where
  "ks_row mexp scen mode =
     (case (scen (mode, ''idle''), scen (mode, ''chat'')) of
        (Some idle_rows, Some chat_rows) \<Rightarrow>
          bindS (iats_from_rows idle_rows) (\<lambda>idle.
          bindS (iats_from_rows chat_rows) (\<lambda>chat.
          bindS (ks_two_sample mexp idle chat) (\<lambda>(d, p_value).
            Inr [\<lparr>ks_mode = mode, n_idle = length idle, n_chat = length chat, ks_D = d,
                  ks_p = p_value, significant = p_value < ALPHA\<rparr>])))
      | _ \<Rightarrow> Inr [])"

definition ks_rows :: "(real \<Rightarrow> real) \<Rightarrow> scenarios \<Rightarrow> exn + KsRow list" where
  "ks_rows mexp scen =
     bindS (mapS (ks_row mexp scen) [''cbr'', ''poisson'']) (\<lambda>rs. Inr (concat rs))"

section \<open>The merge loop computes the distance\<close>

definition le_count :: "real list \<Rightarrow> real \<Rightarrow> nat" where
  "le_count xs t = length (filter (\<lambda>x. x \<le> t) xs)"

lemma le_count_sorted:
  assumes "sorted xs" "i < length xs"
  shows "i < le_count xs t \<longleftrightarrow> xs ! i \<le> t"
  using assms
proof (induction xs arbitrary: i)
  case (Cons a xs)
  have "\<not> a \<le> t \<Longrightarrow> filter (\<lambda>x. x \<le> t) xs = []"
    using Cons.prems(1) by (fastforce simp: filter_empty_conv)
  with Cons show ?case
    by (cases i) (auto simp: le_count_def dest: nth_mem)
qed simp

lemma le_count_le: "le_count xs t \<le> length xs"
  by (simp add: le_count_def)

lemma le_count_mono: "t \<le> u \<Longrightarrow> le_count xs t \<le> le_count xs u"
  unfolding le_count_def by (induction xs) auto

lemma le_count_sort [simp]: "le_count (sort xs) t = le_count xs t"
  by (simp add: le_count_def filter_sort)

lemma advance_le_count:
  assumes "sorted xs" "i \<le> le_count xs v"
  shows "advance xs v i = le_count xs v"
  using assms
proof (induction xs v i rule: advance.induct)
  case (1 xs v i)
  show ?case
  proof (cases "i < length xs \<and> xs ! i \<le> v")
    case True
    with 1 show ?thesis using le_count_sorted [of xs i v] by (subst advance.simps) auto
  next
    case False
    then have "le_count xs v \<le> i"
      using le_count_sorted [OF 1(2), of i v] le_count_le [of xs v] by (cases "i < length xs") auto
    with False 1(3) show ?thesis by (subst advance.simps) auto
  qed
qed


definition ecdf :: "real list \<Rightarrow> real \<Rightarrow> real" where
  "ecdf xs t = fl (real (le_count xs t) / real (length xs))"

definition ecdf_gap :: "real list \<Rightarrow> real list \<Rightarrow> real \<Rightarrow> real" where
  "ecdf_gap x y t = \<bar>fl (ecdf x t - ecdf y t)\<bar>"

lemma ks_gap_ecdf: "ks_gap (length xs) (length ys) (le_count xs t) (le_count ys t) = ecdf_gap xs ys t"
  by (simp add: ks_gap_def ecdf_gap_def ecdf_def)

lemma ecdf_gap_sort [simp]: "ecdf_gap (sort x) (sort y) t = ecdf_gap x y t"
  by (simp add: ecdf_gap_def ecdf_def)

text \<open>Between two neighbouring samples the distribution functions do not move.\<close>

lemma le_count_between:
  assumes "sorted xs" "u \<le> t" "le_count xs u < length xs \<Longrightarrow> t < xs ! le_count xs u"
  shows "le_count xs t = le_count xs u"
proof (rule antisym)
  show "le_count xs t \<le> le_count xs u"
  proof (rule ccontr)
    assume "\<not> ?thesis"
    then have "le_count xs u < le_count xs t" "le_count xs u < length xs"
      using le_count_le [of xs t] by auto
    then show False using le_count_sorted [OF assms(1), of "le_count xs u" t] assms(3) by auto
  qed
qed (rule le_count_mono [OF assms(2)])

lemma ecdf_gap_between:
  assumes "sorted xs" "sorted ys" "u \<le> t"
    and "le_count xs u < length xs \<Longrightarrow> t < xs ! le_count xs u"
    and "le_count ys u < length ys \<Longrightarrow> t < ys ! le_count ys u"
  shows "ecdf_gap xs ys t = ecdf_gap xs ys u"
  using le_count_between [OF assms(1,3,4)] le_count_between [OF assms(2,3,5)]
  by (simp add: ecdf_gap_def ecdf_def)

text \<open>The loop has passed every value up to \<^verbatim>\<open>u\<close>.\<close>

definition passed :: "real list \<Rightarrow> real list \<Rightarrow> real \<Rightarrow> nat \<Rightarrow> nat \<Rightarrow> real \<Rightarrow> bool" where
  "passed xs ys u i j d \<longleftrightarrow> i = le_count xs u \<and> j = le_count ys u \<and>
     (\<forall>t \<le> u. ecdf_gap xs ys t \<le> d) \<and> (\<exists>t. ecdf_gap xs ys t = d)"

lemma passed_step:
  assumes s: "sorted xs" "sorted ys" and p: "passed xs ys u i j d"
    and more: "i < length xs \<or> j < length ys"
  defines "v \<equiv> next_value xs ys i j"
  shows "passed xs ys v (advance xs v i) (advance ys v j)
    (max d (ks_gap (length xs) (length ys) (advance xs v i) (advance ys v j)))"
proof -
  have ij: "i = le_count xs u" "j = le_count ys u" using p by (auto simp: passed_def)
  have uv: "u < v"
    using next_value_progress [OF more] le_count_sorted [OF s(1), of i u] le_count_sorted [OF s(2), of j u]
    by (auto simp: v_def ij)
  have low: "i < length xs \<Longrightarrow> v \<le> xs ! i" "j < length ys \<Longrightarrow> v \<le> ys ! j"
    by (auto simp: v_def next_value_def)
  have adv: "advance xs v i = le_count xs v" "advance ys v j = le_count ys v"
    using uv by (simp_all add: ij advance_le_count s le_count_mono)
  have "ecdf_gap xs ys t \<le> max d (ecdf_gap xs ys v)" if "t \<le> v" for t
  proof -
    consider "t \<le> u" | "u \<le> t" "t < v" | "t = v" using \<open>t \<le> v\<close> by linarith
    then show ?thesis
    proof cases
      case 2
      then have "ecdf_gap xs ys t = ecdf_gap xs ys u"
        using low by (intro ecdf_gap_between s) (auto simp: ij)
      then show ?thesis using p by (auto simp: passed_def le_max_iff_disj)
    qed (use p in \<open>auto simp: passed_def le_max_iff_disj\<close>)
  qed
  moreover have "\<exists>t. ecdf_gap xs ys t = max d (ecdf_gap xs ys v)"
    using p by (auto simp: passed_def max_def)
  ultimately show ?thesis by (simp add: adv passed_def ks_gap_ecdf)
qed

lemma ks_loop_supremum:
  assumes "sorted xs" "sorted ys" "xs \<noteq> []" "ys \<noteq> []" "passed xs ys u i j d"
  shows "(\<forall>t. ecdf_gap xs ys t \<le> ks_loop xs ys i j d) \<and> (\<exists>t. ecdf_gap xs ys t = ks_loop xs ys i j d)"
  using assms
proof (induction xs ys i j d arbitrary: u rule: ks_loop.induct)
  case (1 xs ys i j d)
  show ?case
  proof (cases "i < length xs \<or> j < length ys")
    case True
    from 1(1) [OF True refl refl refl 1(2-5) passed_step [OF 1(2,3,6) True]] True show ?thesis
      by (subst (1 2) ks_loop.simps) (simp add: Let_def)
  next
    case False
    have "ecdf_gap xs ys t \<le> d" for t
    proof (cases "t \<le> u")
      case False
      then have "ecdf_gap xs ys t = ecdf_gap xs ys u"
        using \<open>\<not> (i < _ \<or> _)\<close> 1(2,3,6) by (intro ecdf_gap_between) (auto simp: passed_def)
      then show ?thesis using 1(6) by (auto simp: passed_def)
    qed (use 1(6) in \<open>auto simp: passed_def\<close>)
    with False 1(6) show ?thesis by (subst (1 2) ks_loop.simps) (auto simp: passed_def)
  qed
qed

lemma passed_start:
  assumes "\<forall>x \<in> set xs. u < x" "\<forall>y \<in> set ys. u < y"
  shows "passed xs ys u 0 0 0"
proof -
  have z: "le_count xs t = 0" "le_count ys t = 0" if "t \<le> u" for t
    using assms that by (fastforce simp: le_count_def filter_empty_conv)+
  then have "ecdf_gap xs ys t = 0" if "t \<le> u" for t
    using that by (simp add: ecdf_gap_def ecdf_def)
  with z [of u] show ?thesis by (auto simp: passed_def)
qed

text \<open>C35: The statistic of \<^verbatim>\<open>ks_two_sample\<close> is the Kolmogorov-Smirnov distance: for two non-empty samples
  the merge loop ends with the largest difference of the two empirical distribution functions
  over all real arguments, ties included, and the p-value lies between 0 and 1.\<close>

theorem ks_distance_supremum:
  assumes "x \<noteq> []" "y \<noteq> []"
  shows "\<exists>D p. ks_two_sample mexp x y = Inr (D, p) \<and> 0 \<le> p \<and> p \<le> 1 \<and>
    (\<forall>t. ecdf_gap x y t \<le> D) \<and> (\<exists>t. ecdf_gap x y t = D)"
proof -
  let ?d = "ks_loop (sort x) (sort y) 0 0 0" and ?u = "Min (set x \<union> set y) - 1"
  have "?u < z" if "z \<in> set x \<union> set y" for z
    using Min_le [OF _ that] by simp
  then have "passed (sort x) (sort y) ?u 0 0 0" by (intro passed_start) simp_all
  moreover have "sort x \<noteq> []" "sort y \<noteq> []"
    using assms by (simp_all flip: length_greater_0_conv)
  ultimately have d: "(\<forall>t. ecdf_gap x y t \<le> ?d) \<and> (\<exists>t. ecdf_gap x y t = ?d)"
    using ks_loop_supremum [of "sort x" "sort y" ?u 0 0 0] by simp
  then have "0 \<le> ?d" by (auto simp: ecdf_gap_def)
  then show ?thesis using assms d by (cases "?d = 0") (simp_all add: ks_two_sample_def Let_def)
qed

theorem ks_distance_supremum_witness:
  "\<exists>D p. ks_two_sample exp [2, 1] [3] = Inr (D, p) \<and> (\<forall>t. ecdf_gap [2, 1] [3] t \<le> D) \<and> D = 1"
proof -
  have one: "fl 1 = 1" "fl (1 / 2) = 1 / 2" using fl_dyadic [of 1 0] fl_dyadic [of 1 "-1"] by simp_all
  obtain D p where D: "ks_two_sample exp [2, 1] [3] = Inr (D, p)" "\<forall>t. ecdf_gap [2, 1] [3] t \<le> D"
    using ks_distance_supremum [of "[2, 1]" "[3]" exp] by auto
  have "ks_loop [1, 2] [3] 0 0 0 = 1"
    by (simp add: ks_loop.simps advance.simps next_value_def ks_gap_def one Let_def)
  with D show ?thesis by (auto simp: ks_two_sample_def Let_def)
qed

end
