(* ===== verification/LatencyAnalysis.thy ===== *)
theory LatencyAnalysis
  imports PyJson
begin

text \<open>
  \<^verbatim>\<open>benchmarks/BT-06/analyze.py\<close>: the validation of a completed run, the correction of the clocks
  of the virtual machines, the latency of each message and the statistics.  The documents of the
  result directory are the function \<^verbatim>\<open>docs\<close> from relative paths to what reading them gives.  Nanosecond
  times are integers, float operations are rounded with \<^verbatim>\<open>fl\<close>.  The CSV files, the plots and the
  final \<^verbatim>\<open>run.json\<close> are left out.
\<close>

datatype doc = Missing | Unreadable exn | Malformed string | Parsed json

type_synonym docs = "string list \<Rightarrow> doc"

abbreviation bt06_error :: "string \<Rightarrow> exn" where
  "bt06_error m \<equiv> Exn Bt06Error m"

abbreviation lookup_errors :: "exn_class list" where
  "lookup_errors \<equiv> [KeyError, TypeError, ValueError]"

definition read_json :: "docs \<Rightarrow> string list \<Rightarrow> exn + json" where
  "read_json docs p =
     (case docs p of
        Missing \<Rightarrow> Inl (bt06_error (''Missing required file: '' @ join ''/'' p))
      | Unreadable e \<Rightarrow> Inl e
      | Malformed m \<Rightarrow> Inl (bt06_error (''Invalid JSON in '' @ join ''/'' p @ '': '' @ m))
      | Parsed j \<Rightarrow> Inr j)"

definition bt06_percentile :: "real list \<Rightarrow> real \<Rightarrow> exn + real" where
  "bt06_percentile values q =
     (let ordered = sort values in
      if ordered = [] then Inl (bt06_error ''Cannot calculate percentile of empty sample'')
      else if length ordered = 1 then Inr (ordered ! 0)
      else
        let pos = fl (real (length ordered - 1) * q); lo = \<lfloor>pos\<rfloor>; hi = \<lceil>pos\<rceil> in
        bindS (py_index ordered lo) (\<lambda>low.
          if lo = hi then Inr low
          else
            let frac = fl (pos - of_int lo) in
            bindS (py_index ordered hi) (\<lambda>high.
              Inr (fl (fl (low * fl (1 - frac)) + fl (high * frac))))))"

section \<open>Clocks\<close>

record Anchor =
  host_mid_ns :: int
  vm_ns :: int
  offset_vm_minus_host_ns :: int
  rtt_ns :: int

record CorrectedTime =
  host_ns :: int
  offset_ns :: real
  uncertainty_ns :: real

definition anchor_from :: "json \<Rightarrow> string \<Rightarrow> string \<Rightarrow> exn + Anchor" where
  "anchor_from calibration phase client =
     raise_from lookup_errors (bt06_error (''Invalid clock calibration for '' @ phase @ ''/'' @ client))
       (bindS (js_item calibration phase) (\<lambda>p.
        bindS (js_item p client) (\<lambda>c.
        bindS (js_item c ''selected'') (\<lambda>selected.
        let num = \<lambda>k. bindS (js_item selected k) js_int in
        bindS (num ''host_mid_ns'') (\<lambda>h.
        bindS (num ''vm_ns'') (\<lambda>v.
        bindS (num ''offset_vm_minus_host_ns'') (\<lambda>d.
        bindS (num ''rtt_ns'') (\<lambda>r.
          Inr \<lparr>host_mid_ns = h, vm_ns = v, offset_vm_minus_host_ns = d, rtt_ns = r\<rparr>))))))))"

text \<open>The position of a time in the calibration window, before and after the clamp, and a value
  interpolated there.\<close>

definition window_position :: "int \<Rightarrow> Anchor \<Rightarrow> Anchor \<Rightarrow> real" where
  "window_position t pre post = fl (of_int (t - vm_ns pre) / of_int (vm_ns post - vm_ns pre))"

definition interpolate :: "real \<Rightarrow> int \<Rightarrow> int \<Rightarrow> real" where
  "interpolate alpha a b = fl (fl_int a + fl (alpha * fl_int (b - a)))"

definition correct_vm_time :: "int \<Rightarrow> Anchor \<Rightarrow> Anchor \<Rightarrow> exn + CorrectedTime" where
  "correct_vm_time vm_event_ns pre post =
     (if vm_ns post \<le> vm_ns pre
      then Inl (bt06_error ''Post calibration is not later than pre calibration'')
      else
        let alpha = window_position vm_event_ns pre post in
        if alpha < - fl (5 / 100) \<or> fl (105 / 100) < alpha
        then Inl (bt06_error ''Message timestamp lies materially outside calibration window'')
        else
          let alpha = min 1 (max 0 alpha);
              offset = interpolate alpha (offset_vm_minus_host_ns pre) (offset_vm_minus_host_ns post);
              rtt = interpolate alpha (rtt_ns pre) (rtt_ns post) in
          Inr \<lparr>host_ns = round_half_even (fl (fl_int vm_event_ns - offset)), offset_ns = offset,
               uncertainty_ns = max 0 (fl (rtt / 2))\<rparr>)"

section \<open>Events\<close>

record event =
  ev_entry :: json
  timestamp_ns :: int
  ev_sequence :: int

type_synonym index = "(string \<times> event) list"

definition event_of :: "conv \<Rightarrow> json \<Rightarrow> exn + string \<times> event" where
  "event_of cv e =
     bindS (js_item e ''msg_id'') (\<lambda>m.
     bindS (bindS (js_item e ''timestamp_ns'') js_int) (\<lambda>t.
     bindS (bindS (js_item e ''sequence'') js_int) (\<lambda>s.
       Inr (str_lower (js_str cv m), \<lparr>ev_entry = e, timestamp_ns = t, ev_sequence = s\<rparr>))))"

fun index_from :: "conv \<Rightarrow> string \<Rightarrow> json list \<Rightarrow> index \<Rightarrow> exn + index" where
  "index_from cv label [] indexed = Inr indexed"
| "index_from cv label (e # es) indexed =
     bindS (raise_from lookup_errors
              (bt06_error (''Malformed '' @ label @ '' event: '' @ repr_text cv e)) (event_of cv e))
       (\<lambda>(msg_id, ev).
          unlessS (msg_id \<in> fst ` set indexed)
            (bt06_error (''Duplicate '' @ label @ '' event for '' @ msg_id))
            (index_from cv label es (indexed @ [(msg_id, ev)])))"

definition index_events :: "conv \<Rightarrow> json \<Rightarrow> string \<Rightarrow> exn + index" where
  "index_events cv entries label = bindS (js_iter entries) (\<lambda>es. index_from cv label es [])"

definition event_at :: "index \<Rightarrow> string \<Rightarrow> exn + event" where
  "event_at idx k = (case map_of idx k of Some e \<Rightarrow> Inr e | None \<Rightarrow> Inl (Exn KeyError k))"

definition by_sequence :: "index \<Rightarrow> index" where
  "by_sequence idx = sort_key (\<lambda>(_, e). ev_sequence e) idx"

text \<open>\<^verbatim>\<open>item["msg_id"].lower()\<close>, which only a string has.\<close>

definition lower_id :: "event \<Rightarrow> exn + string" where
  "lower_id e =
     bindS (js_item (ev_entry e) ''msg_id'') (\<lambda>m.
       case m of JStr s \<Rightarrow> Inr (str_lower s) | _ \<Rightarrow> Inl (Exn AttributeError ''lower''))"

fun check_gating :: "string \<Rightarrow> index \<Rightarrow> index \<Rightarrow> nat \<Rightarrow> event list \<Rightarrow> exn + unit" where
  "check_gating mode queue ack i (e # e' # es) =
     bindS (lower_id e) (\<lambda>current_id.
     bindS (lower_id e') (\<lambda>next_id.
     bindS (event_at queue next_id) (\<lambda>q.
     bindS (event_at ack current_id) (\<lambda>a.
       unlessS (timestamp_ns q < timestamp_ns a)
         (bt06_error (mode @ '': ACK-gating invariant violated at sequence '' @ show_nat (i + 1)))
         (check_gating mode queue ack (i + 1) (e' # es))))))"
| "check_gating mode queue ack i _ = Inr ()"

definition counts_text :: "string \<Rightarrow> int \<Rightarrow> index list \<Rightarrow> string" where
  "counts_text mode expected idxs =
     mode @ '': expected '' @ show_int expected @ '' events of each type, got '' @
     join '' '' (map2 (\<lambda>l idx. l @ ''='' @ show_nat (length idx)) [''QUEUE'', ''TX'', ''RX'', ''ACK''] idxs)"

definition check_indices :: "string \<Rightarrow> int \<Rightarrow> index \<Rightarrow> index \<Rightarrow> index \<Rightarrow> index \<Rightarrow> exn + unit" where
  "check_indices mode expected queue tx rx ack =
     unlessS (\<not> (length queue = length tx \<and> length tx = length rx \<and> length rx = length ack \<and>
                int (length ack) = expected))
       (bt06_error (counts_text mode expected [queue, tx, rx, ack]))
     (unlessS (\<not> (fst ` set queue = fst ` set tx \<and> fst ` set tx = fst ` set rx \<and>
                 fst ` set rx = fst ` set ack))
       (bt06_error (mode @ '': QUEUE/TX/RX/ACK ID sets differ''))
     (let ordered = map snd (by_sequence queue) in
      unlessS (map ev_sequence ordered \<noteq> [1..expected])
        (bt06_error (mode @ '': invalid sequence numbering''))
        (check_gating mode queue ack 0 ordered)))"

definition indices_of :: "conv \<Rightarrow> (string \<Rightarrow> exn + json) \<Rightarrow> exn + index \<times> index \<times> index \<times> index" where
  "indices_of cv field =
     bindS (bindS (field ''queue'') (\<lambda>j. index_events cv j ''QUEUE'')) (\<lambda>queue.
     bindS (bindS (field ''tx'') (\<lambda>j. index_events cv j ''TX'')) (\<lambda>tx.
     bindS (bindS (field ''rx'') (\<lambda>j. index_events cv j ''RX'')) (\<lambda>rx.
     bindS (bindS (field ''ack'') (\<lambda>j. index_events cv j ''ACK'')) (\<lambda>ack.
       Inr (queue, tx, rx, ack)))))"

definition check_policy :: "string \<Rightarrow> json \<Rightarrow> json \<Rightarrow> exn + unit" where
  "check_policy mode events run_meta =
     (let bad = bt06_error (mode @ '': source series is not ACK-gated'') in
      bindS (js_get events ''series_policy'' JNull) (\<lambda>p.
      unlessS (p \<noteq> JStr ''ack-gated'') bad
      (bindS (js_get run_meta ''series_policy'' JNull) (\<lambda>p.
       unlessS (p \<noteq> JStr ''ack-gated'') bad
      (bindS (js_get events ''validation'' (JObj [])) (\<lambda>v.
       bindS (js_get v ''verified_no_overlap'' (JBool False)) (\<lambda>ok.
       unlessS (\<not> js_truth ok)
         (bt06_error (mode @ '': no-overlap validation is missing or false'')) (Inr ()))))))))"

definition validate_mode :: "conv \<Rightarrow> docs \<Rightarrow> string \<Rightarrow> exn + json \<times> json \<times> json" where
  "validate_mode cv docs mode =
     bindS (read_json docs [mode, ''message_events.json'']) (\<lambda>events.
     bindS (read_json docs [mode, ''clock_calibration.json'']) (\<lambda>calibration.
     bindS (read_json docs [mode, ''run.json'']) (\<lambda>run_meta.
     bindS (check_policy mode events run_meta) (\<lambda>_.
     bindS (bindS (js_get run_meta ''messages_requested'' (JInt 0)) js_int) (\<lambda>expected.
     unlessS (expected \<le> 0) (bt06_error (mode @ '': invalid messages_requested''))
     (bindS (indices_of cv (\<lambda>k. js_get events k (JList []))) (\<lambda>(queue, tx, rx, ack).
      bindS (check_indices mode expected queue tx rx ack) (\<lambda>_.
        Inr (events, calibration, run_meta)))))))))"

section \<open>Latencies\<close>

record row =
  row_sequence :: int
  message_id :: string
  prequeue_jitter_ms :: real
  t_queue_vm_ns :: int
  t_tx_vm_ns :: int
  t_rx_vm_ns :: int
  t_ack_vm_ns :: int
  t_queue_host_corrected_ns :: int
  t_tx_host_corrected_ns :: int
  t_rx_host_corrected_ns :: int
  t_ack_host_corrected_ns :: int
  latency_ms :: real
  queue_to_tx_ms :: real
  tx_to_rx_ms :: real
  queue_to_ack_ms :: real
  sender_offset_ms :: real
  receiver_offset_ms :: real
  estimated_clock_uncertainty_ms :: real

text \<open>\<^verbatim>\<open>n / 1e6\<close> for an integer and for a float.\<close>

definition ms_of_ns :: "int \<Rightarrow> real" where
  "ms_of_ns n = fl (fl_int n / 1000000)"

definition ms_of_float :: "real \<Rightarrow> real" where
  "ms_of_float x = fl (x / 1000000)"

text \<open>The four latencies of a message, with the two checks on them.\<close>

definition latencies ::
  "string \<Rightarrow> string \<Rightarrow> CorrectedTime \<Rightarrow> CorrectedTime \<Rightarrow> CorrectedTime \<Rightarrow> CorrectedTime \<Rightarrow>
   exn + int \<times> int \<times> int \<times> int" where
  "latencies mode msg_id q t r a =
     (let e2e_ns = host_ns r - host_ns q; scheduler_ns = host_ns t - host_ns q;
          post_tx_ns = host_ns r - host_ns t; ack_ns = host_ns a - host_ns q in
      unlessS (min e2e_ns (min scheduler_ns (min post_tx_ns ack_ns)) < 0)
        (bt06_error (mode @ '': negative corrected latency component for '' @ msg_id))
      (unlessS (\<bar>e2e_ns - (scheduler_ns + post_tx_ns)\<bar> > 2000000)
        (bt06_error (mode @ '': latency decomposition mismatch for '' @ msg_id))
        (Inr (e2e_ns, scheduler_ns, post_tx_ns, ack_ns))))"

definition jitter_of :: "conv \<Rightarrow> event \<Rightarrow> exn + real" where
  "jitter_of cv e =
     bindS (bindS (js_get (ev_entry e) ''prequeue_jitter_seconds'' (JFloat 0)) (js_float cv)) (\<lambda>x.
       Inr (fl (x * 1000)))"

definition row_of ::
  "conv \<Rightarrow> string \<Rightarrow> Anchor \<times> Anchor \<Rightarrow> Anchor \<times> Anchor \<Rightarrow> index \<Rightarrow> index \<Rightarrow> index \<Rightarrow>
   string \<times> event \<Rightarrow> exn + row" where
  "row_of cv mode = (\<lambda>(a_pre, a_post) (b_pre, b_post) tx rx ack (msg_id, q_event).
     bindS (correct_vm_time (timestamp_ns q_event) a_pre a_post) (\<lambda>q.
     bindS (event_at tx msg_id) (\<lambda>t_event.
     bindS (correct_vm_time (timestamp_ns t_event) a_pre a_post) (\<lambda>t.
     bindS (event_at rx msg_id) (\<lambda>r_event.
     bindS (correct_vm_time (timestamp_ns r_event) b_pre b_post) (\<lambda>r.
     bindS (event_at ack msg_id) (\<lambda>a_event.
     bindS (correct_vm_time (timestamp_ns a_event) a_pre a_post) (\<lambda>a.
     bindS (latencies mode msg_id q t r a) (\<lambda>(e2e_ns, scheduler_ns, post_tx_ns, ack_ns).
     bindS (jitter_of cv q_event) (\<lambda>jitter.
       Inr \<lparr>row_sequence = ev_sequence q_event, message_id = msg_id, prequeue_jitter_ms = jitter,
            t_queue_vm_ns = timestamp_ns q_event, t_tx_vm_ns = timestamp_ns t_event,
            t_rx_vm_ns = timestamp_ns r_event, t_ack_vm_ns = timestamp_ns a_event,
            t_queue_host_corrected_ns = host_ns q, t_tx_host_corrected_ns = host_ns t,
            t_rx_host_corrected_ns = host_ns r, t_ack_host_corrected_ns = host_ns a,
            latency_ms = ms_of_ns e2e_ns, queue_to_tx_ms = ms_of_ns scheduler_ns,
            tx_to_rx_ms = ms_of_ns post_tx_ns, queue_to_ack_ms = ms_of_ns ack_ns,
            sender_offset_ms = ms_of_float (offset_ns q), receiver_offset_ms = ms_of_float (offset_ns r),
            estimated_clock_uncertainty_ms =
              ms_of_float (fl (uncertainty_ns q + uncertainty_ns r))\<rparr>))))))))))"

definition clock_of :: "Anchor \<Rightarrow> Anchor \<Rightarrow> Anchor \<Rightarrow> Anchor \<Rightarrow> (string \<times> real) list" where
  "clock_of a_pre a_post b_pre b_post =
     (let off = offset_vm_minus_host_ns in
      [(''client_a_pre_offset_ms'', ms_of_ns (off a_pre)),
       (''client_a_post_offset_ms'', ms_of_ns (off a_post)),
       (''client_a_offset_drift_ms'', ms_of_ns (off a_post - off a_pre)),
       (''client_b_pre_offset_ms'', ms_of_ns (off b_pre)),
       (''client_b_post_offset_ms'', ms_of_ns (off b_post)),
       (''client_b_offset_drift_ms'', ms_of_ns (off b_post - off b_pre)),
       (''client_a_pre_rtt_ms'', ms_of_ns (rtt_ns a_pre)),
       (''client_a_post_rtt_ms'', ms_of_ns (rtt_ns a_post)),
       (''client_b_pre_rtt_ms'', ms_of_ns (rtt_ns b_pre)),
       (''client_b_post_rtt_ms'', ms_of_ns (rtt_ns b_post))])"

definition build_rows :: "conv \<Rightarrow> docs \<Rightarrow> string \<Rightarrow> exn + row list \<times> json \<times> (string \<times> real) list" where
  "build_rows cv docs mode =
     bindS (validate_mode cv docs mode) (\<lambda>(events, calibration, run_meta).
     bindS (indices_of cv (js_item events)) (\<lambda>(queue, tx, rx, ack).
     bindS (anchor_from calibration ''pre'' ''client_a'') (\<lambda>a_pre.
     bindS (anchor_from calibration ''post'' ''client_a'') (\<lambda>a_post.
     bindS (anchor_from calibration ''pre'' ''client_b'') (\<lambda>b_pre.
     bindS (anchor_from calibration ''post'' ''client_b'') (\<lambda>b_post.
     bindS (mapS (row_of cv mode (a_pre, a_post) (b_pre, b_post) tx rx ack) (by_sequence queue)) (\<lambda>rows.
       Inr (rows, run_meta, clock_of a_pre a_post b_pre b_post))))))))"

section \<open>Statistics and the analysis of a run\<close>

record Stats =
  mean_ms :: real
  median_ms :: real
  p95_ms :: real
  stddev_ms :: real
  min_ms :: real
  max_ms :: real

definition stats :: "real list \<Rightarrow> exn + Stats" where
  "stats values =
     unlessS (values = []) (Exn ValueError ''fmean requires at least one data point'')
       (bindS (bt06_percentile values (fl (95 / 100))) (\<lambda>p95.
          Inr \<lparr>mean_ms = fmean values, median_ms = median values, p95_ms = p95,
               stddev_ms = (if 1 < length values then stdev values else 0),
               min_ms = Min (set values), max_ms = Max (set values)\<rparr>))"

record mode_summary =
  sum_mode :: string
  sum_n :: nat
  sum_primary :: Stats
  sum_queue_to_tx :: Stats
  sum_tx_to_rx :: Stats
  mean_clock_uncertainty_ms :: real
  max_clock_uncertainty_ms :: real
  sum_clock :: "(string \<times> real) list"

definition summarize :: "string \<Rightarrow> row list \<Rightarrow> (string \<times> real) list \<Rightarrow> exn + mode_summary" where
  "summarize mode rows clock =
     (let uncertainty = map estimated_clock_uncertainty_ms rows in
      bindS (stats (map latency_ms rows)) (\<lambda>primary.
      bindS (stats (map queue_to_tx_ms rows)) (\<lambda>qtx.
      bindS (stats (map tx_to_rx_ms rows)) (\<lambda>txrx.
        Inr \<lparr>sum_mode = mode, sum_n = length rows, sum_primary = primary, sum_queue_to_tx = qtx,
             sum_tx_to_rx = txrx, mean_clock_uncertainty_ms = fmean uncertainty,
             max_clock_uncertainty_ms = Max (set uncertainty), sum_clock = clock\<rparr>))))"

definition BT06_MODES :: "string list" where
  "BT06_MODES = [''cbr'', ''poisson'']"

fun hashable :: "json \<Rightarrow> bool" where
  "hashable (JList _) = False"
| "hashable (JObj _) = False"
| "hashable _ = True"

definition js_set :: "json \<Rightarrow> exn + json set" where
  "js_set j =
     bindS (js_iter j) (\<lambda>xs.
       unlessS (\<not> list_all hashable xs) (Exn TypeError ''unhashable type'') (Inr (set xs)))"

definition check_suite :: "json \<Rightarrow> exn + unit" where
  "check_suite suite =
     bindS (js_get suite ''series_policy'' JNull) (\<lambda>p.
     unlessS (p \<noteq> JStr ''ack-gated'') (bt06_error ''BT-06 run is not marked series_policy=ack-gated'')
     (bindS (js_get suite ''result'' JNull) (\<lambda>r.
      unlessS (r \<noteq> JStr ''passed'') (bt06_error ''BT-06 source run did not finish with result=passed'')
     (bindS (bindS (js_get suite ''completed'' (JList [])) js_set) (\<lambda>done_modes.
      unlessS (done_modes \<noteq> set (map JStr BT06_MODES))
        (bt06_error ''Analysis requires completed CBR and Poisson modes'') (Inr ()))))))"

definition analyze_run :: "conv \<Rightarrow> docs \<Rightarrow> exn + (row list \<times> mode_summary) list" where
  "analyze_run cv docs =
     bindS (read_json docs [''suite_run.json'']) (\<lambda>suite.
     bindS (check_suite suite) (\<lambda>_.
       mapS (\<lambda>mode.
         bindS (build_rows cv docs mode) (\<lambda>(rows, _, clock).
         bindS (summarize mode rows clock) (\<lambda>s. Inr (rows, s)))) BT06_MODES))"

section \<open>Validation\<close>

lemma index_from_Inr:
  assumes "index_from cv label es idx = Inr r" "distinct (map fst idx)"
    and "\<forall>(k, e) \<in> set idx. event_of cv (ev_entry e) = Inr (k, e)"
  shows "distinct (map fst r) \<and> (\<forall>(k, e) \<in> set r. event_of cv (ev_entry e) = Inr (k, e))"
  using assms
proof (induction es arbitrary: idx)
  case (Cons x es)
  then obtain k e where ke: "event_of cv x = Inr (k, e)" "k \<notin> fst ` set idx"
      "index_from cv label es (idx @ [(k, e)]) = Inr r" by auto
  have "ev_entry e = x" using ke(1) by (auto simp: event_of_def)
  with ke Cons.prems(2,3) show ?case by (intro Cons.IH [OF ke(3)]) auto
qed simp

lemma index_events_Inr:
  assumes "index_events cv j label = Inr r"
  shows "distinct (map fst r)" "(k, e) \<in> set r \<Longrightarrow> event_of cv (ev_entry e) = Inr (k, e)"
  using assms index_from_Inr [of cv label _ "[]" r] by (auto simp: index_events_def)

lemma lower_id_key:
  assumes "event_of cv (ev_entry e) = Inr (k, e)" "lower_id e = Inr i"
  shows "i = k"
proof -
  obtain m where m: "js_item (ev_entry e) ''msg_id'' = Inr m" "k = str_lower (js_str cv m)"
    using assms(1) by (auto simp: event_of_def)
  with assms(2) show ?thesis by (cases m) (simp_all add: lower_id_def)
qed

lemma event_at_Inr_iff [simp]: "event_at idx k = Inr e \<longleftrightarrow> map_of idx k = Some e"
  by (auto simp: event_at_def split: option.splits)

lemma check_gating_Inr:
  assumes "check_gating mode queue ack n es = Inr u" "Suc i < length es"
  shows "\<exists>k k' q a. lower_id (es ! i) = Inr k \<and> lower_id (es ! Suc i) = Inr k' \<and>
    map_of queue k' = Some q \<and> map_of ack k = Some a \<and> timestamp_ns a \<le> timestamp_ns q"
  using assms
proof (induction mode queue ack n es arbitrary: i rule: check_gating.induct)
  case (1 mode queue ack n e e' es)
  then show ?case by (cases i) (auto simp: not_less)
qed auto

lemma by_sequence_simps [simp]:
  "set (by_sequence idx) = set idx" "length (by_sequence idx) = length idx"
  "distinct (map fst (by_sequence idx)) = distinct (map fst idx)"
  unfolding by_sequence_def by (simp_all add: distinct_map)

text \<open>What \<^verbatim>\<open>check_indices\<close> ensures of four indices: the same messages in all of them, numbered from 1 and each
  acknowledged before the next is queued.\<close>

definition gated :: "int \<Rightarrow> index \<Rightarrow> index \<Rightarrow> index \<Rightarrow> index \<Rightarrow> bool" where
  "gated n queue tx rx ack \<longleftrightarrow>
     (\<forall>idx \<in> set [queue, tx, rx, ack]. distinct (map fst idx) \<and> int (length idx) = n \<and>
        fst ` set idx = fst ` set queue) \<and>
     map (\<lambda>(_, e). ev_sequence e) (by_sequence queue) = [1..n] \<and>
     (\<forall>i. Suc i < length queue \<longrightarrow>
        (\<exists>a. map_of ack (fst (by_sequence queue ! i)) = Some a \<and>
             timestamp_ns a \<le> timestamp_ns (snd (by_sequence queue ! Suc i))))"

lemma indices_of_Inr:
  assumes "indices_of cv field = Inr (queue, tx, rx, ack)"
  shows "idx \<in> set [queue, tx, rx, ack] \<Longrightarrow> distinct (map fst idx)"
    and "(k, e) \<in> set queue \<Longrightarrow> event_of cv (ev_entry e) = Inr (k, e)"
  using assms by (auto simp: indices_of_def dest: index_events_Inr)

lemma check_indices_gated:
  assumes idx: "indices_of cv field = Inr (queue, tx, rx, ack)"
    and chk: "check_indices mode n queue tx rx ack = Inr u"
  shows "gated n queue tx rx ack"
proof -
  let ?q = "by_sequence queue"
  have c: "length queue = length tx" "length tx = length rx" "length rx = length ack" "int (length ack) = n"
    "fst ` set queue = fst ` set tx" "fst ` set tx = fst ` set rx" "fst ` set rx = fst ` set ack"
    "map ev_sequence (map snd ?q) = [1..n]" "check_gating mode queue ack 0 (map snd ?q) = Inr u"
    using chk by (simp_all add: check_indices_def Let_def)
  have "\<exists>a. map_of ack (fst (?q ! i)) = Some a \<and> timestamp_ns a \<le> timestamp_ns (snd (?q ! Suc i))"
    if i: "Suc i < length queue" for i
  proof -
    obtain k k' q a where g: "lower_id (snd (?q ! i)) = Inr k" "lower_id (snd (?q ! Suc i)) = Inr k'"
        "map_of queue k' = Some q" "map_of ack k = Some a" "timestamp_ns a \<le> timestamp_ns q"
      using check_gating_Inr [OF c(9), of i] i by auto
    have m: "?q ! j \<in> set queue" if "j < length queue" for j
      using nth_mem [of j ?q] that by simp
    have key: "lower_id (snd (?q ! j)) = Inr x \<Longrightarrow> x = fst (?q ! j)" if "j < length queue" for j x
      using m [OF that] indices_of_Inr(2) [OF idx] lower_id_key by (metis prod.collapse)
    have "k = fst (?q ! i)" "k' = fst (?q ! Suc i)" using key i g by auto
    moreover have "map_of queue (fst (?q ! Suc i)) = Some (snd (?q ! Suc i))"
      using m [OF i] indices_of_Inr(1) [OF idx, of queue] by simp
    ultimately show ?thesis using g by auto
  qed
  with c indices_of_Inr(1) [OF idx] show ?thesis
    by (auto simp: gated_def case_prod_unfold comp_def)
qed

text \<open>A field that is missing has no events, so that the fields are all there once one is expected.\<close>

lemma index_events_item:
  assumes "bindS (js_get events k (JList [])) (\<lambda>j. index_events cv j label) = Inr idx" "idx \<noteq> []"
  shows "bindS (js_item events k) (\<lambda>j. index_events cv j label) = Inr idx"
  using assms by (cases events) (auto simp: index_events_def split: option.splits)

lemma indices_of_item:
  assumes "indices_of cv (\<lambda>k. js_get events k (JList [])) = Inr (queue, tx, rx, ack)"
    and "queue \<noteq> []" "tx \<noteq> []" "rx \<noteq> []" "ack \<noteq> []"
  shows "indices_of cv (js_item events) = Inr (queue, tx, rx, ack)"
  using assms unfolding indices_of_def
  by (simp del: bindS_Inr_iff add: bindS_Inr_iff [of "bindS _ _"] index_events_item)

lemma validate_mode_gated:
  assumes "validate_mode cv docs mode = Inr (events, calibration, run_meta)"
  shows "\<exists>n queue tx rx ack. 0 < n \<and> indices_of cv (js_item events) = Inr (queue, tx, rx, ack) \<and>
    gated n queue tx rx ack"
proof -
  obtain n queue tx rx ack u where v: "\<not> n \<le> 0"
      "indices_of cv (\<lambda>k. js_get events k (JList [])) = Inr (queue, tx, rx, ack)"
      "check_indices mode n queue tx rx ack = Inr u"
    using assms unfolding validate_mode_def by auto
  have g: "gated n queue tx rx ack" by (rule check_indices_gated [OF v(2,3)])
  then have "queue \<noteq> []" "tx \<noteq> []" "rx \<noteq> []" "ack \<noteq> []" using v(1) by (auto simp: gated_def)
  with v(1) g indices_of_item [OF v(2)] show ?thesis by (meson not_le)
qed

lemma latencies_Inr:
  "latencies mode m q t r a = Inr (e, s, p, k) \<longleftrightarrow>
     host_ns q \<le> host_ns t \<and> host_ns t \<le> host_ns r \<and> host_ns q \<le> host_ns a \<and>
     e = host_ns r - host_ns q \<and> s = host_ns t - host_ns q \<and> p = host_ns r - host_ns t \<and>
     k = host_ns a - host_ns q"
  by (auto simp: latencies_def Let_def)

text \<open>The second check on the latencies cannot fail: the decomposition is an identity.\<close>

lemma decomposition_check_dead:
  "latencies mode m q t r a = Inl e \<Longrightarrow>
     e = bt06_error (mode @ '': negative corrected latency component for '' @ m)"
  by (simp add: latencies_def Let_def unlessS_def split: if_splits)

text \<open>\<^verbatim>\<open>corrected w t h\<close>: between the anchors \<^verbatim>\<open>w\<close> the time \<^verbatim>\<open>t\<close> of a virtual machine is \<^verbatim>\<open>h\<close> on the host.\<close>

definition corrected :: "Anchor \<times> Anchor \<Rightarrow> int \<Rightarrow> int \<Rightarrow> bool" where
  "corrected = (\<lambda>(pre, post) t h. \<exists>c. correct_vm_time t pre post = Inr c \<and> host_ns c = h)"

text \<open>A row tells the times of its message in the four indices, corrected by the clock of the client
  that took them, in the order the code checks.\<close>

definition row_ok ::
  "Anchor \<times> Anchor \<Rightarrow> Anchor \<times> Anchor \<Rightarrow> index \<Rightarrow> index \<Rightarrow> index \<Rightarrow> string \<times> event \<Rightarrow> row \<Rightarrow> bool" where
  "row_ok A B tx rx ack = (\<lambda>(k, q) r.
     message_id r = k \<and> row_sequence r = ev_sequence q \<and> t_queue_vm_ns r = timestamp_ns q \<and>
     map_option timestamp_ns (map_of tx k) = Some (t_tx_vm_ns r) \<and>
     map_option timestamp_ns (map_of rx k) = Some (t_rx_vm_ns r) \<and>
     map_option timestamp_ns (map_of ack k) = Some (t_ack_vm_ns r) \<and>
     corrected A (t_queue_vm_ns r) (t_queue_host_corrected_ns r) \<and>
     corrected A (t_tx_vm_ns r) (t_tx_host_corrected_ns r) \<and>
     corrected B (t_rx_vm_ns r) (t_rx_host_corrected_ns r) \<and>
     corrected A (t_ack_vm_ns r) (t_ack_host_corrected_ns r) \<and>
     t_queue_host_corrected_ns r \<le> t_tx_host_corrected_ns r \<and>
     t_tx_host_corrected_ns r \<le> t_rx_host_corrected_ns r \<and>
     t_queue_host_corrected_ns r \<le> t_ack_host_corrected_ns r \<and>
     latency_ms r = ms_of_ns (t_rx_host_corrected_ns r - t_queue_host_corrected_ns r) \<and>
     queue_to_tx_ms r = ms_of_ns (t_tx_host_corrected_ns r - t_queue_host_corrected_ns r) \<and>
     tx_to_rx_ms r = ms_of_ns (t_rx_host_corrected_ns r - t_tx_host_corrected_ns r) \<and>
     queue_to_ack_ms r = ms_of_ns (t_ack_host_corrected_ns r - t_queue_host_corrected_ns r))"

lemma row_of_ok:
  assumes "row_of cv mode A B tx rx ack kq = Inr r"
  shows "row_ok A B tx rx ack kq r"
  using assms unfolding row_of_def row_ok_def corrected_def
  by (auto simp: latencies_Inr split: prod.splits)

lemma gated_rows:
  assumes "gated n queue tx rx ack" "Suc i < length queue"
    and "row_ok A B tx rx ack (by_sequence queue ! i) r" "row_ok A B tx rx ack (by_sequence queue ! Suc i) r'"
  shows "t_ack_vm_ns r \<le> t_queue_vm_ns r'"
proof -
  obtain a where "map_of ack (fst (by_sequence queue ! i)) = Some a"
      "timestamp_ns a \<le> timestamp_ns (snd (by_sequence queue ! Suc i))"
    using assms(1,2) by (auto simp: gated_def)
  then show ?thesis using assms(3,4) by (auto simp: row_ok_def case_prod_unfold)
qed

section \<open>Accuracy of the corrected times\<close>

lemma fl_within: "\<bar>x\<bar> \<le> b \<Longrightarrow> \<bar>fl x - x\<bar> \<le> b / 2 ^ 53"
  using fl_error [of x] by (smt (verit) divide_right_mono zero_le_power)

definition clamp :: "real \<Rightarrow> real" where
  "clamp x = min 1 (max 0 x)"

lemma clamp_bounds: "0 \<le> clamp x" "clamp x \<le> 1" "\<bar>clamp x - clamp y\<bar> \<le> \<bar>x - y\<bar>"
  by (auto simp: clamp_def)

lemma accepted_position:
  assumes "\<not> (fl x < - fl (5 / 100) \<or> fl (105 / 100) < fl x)"
  shows "\<bar>clamp (fl x) - clamp x\<bar> \<le> 2 / 2 ^ 53"
proof -
  have "\<bar>fl (5 / 100) - 5 / 100\<bar> \<le> 1 / 2 ^ 53" "\<bar>fl (105 / 100) - 105 / 100\<bar> \<le> 2 / 2 ^ 53"
    by (rule fl_within; simp)+
  with assms fl_error [of x] have "\<bar>x\<bar> \<le> 2" by (simp add: abs_le_iff) argo
  then have "\<bar>fl x - x\<bar> \<le> 2 / 2 ^ 53" by (rule fl_within)
  with clamp_bounds(3) [of "fl x" x] show ?thesis by linarith
qed

lemma interpolate_error:
  assumes a: "0 \<le> a" "a \<le> 1" and b: "0 \<le> b" "b \<le> 1" "\<bar>a - b\<bar> \<le> 2 / 2 ^ 53"
    and m: "\<bar>of_int p\<bar> \<le> M" "\<bar>of_int q\<bar> \<le> M"
  shows "\<bar>interpolate a p q - (of_int p + b * of_int (q - p))\<bar> \<le> 18 * (M / 2 ^ 53)"
    and "\<bar>interpolate a p q\<bar> \<le> 7 * M"
proof -
  define e where "e = M / 2 ^ 53"
  let ?D = "of_int (q - p) :: real" let ?d = "fl ?D"
  have M: "0 \<le> M" using m by linarith
  have e: "6 * e \<le> M" "0 \<le> e" using M by (simp_all add: e_def)
  have near: "\<bar>fl x - x\<bar> \<le> k * e" if "\<bar>x\<bar> \<le> k * M" for x k
    using fl_within [OF that] by (simp add: e_def)
  have D: "\<bar>?D\<bar> \<le> 2 * M" using m by simp
  then have d: "\<bar>?d - ?D\<bar> \<le> 2 * e" by (rule near)
  have d3: "\<bar>?d\<bar> \<le> 3 * M" using D d e by linarith
  have ad: "\<bar>a * ?d\<bar> \<le> 3 * M"
    using mult_mono [of a 1 "\<bar>?d\<bar>" "3 * M"] a d3 M by (simp add: abs_mult)
  then have e1: "\<bar>fl (a * ?d) - a * ?d\<bar> \<le> 3 * e" by (rule near)
  have "\<bar>(a - b) * ?d\<bar> \<le> 2 / 2 ^ 53 * (3 * M)"
    unfolding abs_mult using b(3) d3 by (intro mult_mono) auto
  then have e2: "\<bar>(a - b) * ?d\<bar> \<le> 6 * e" by (simp add: e_def)
  have e3: "\<bar>b * (?d - ?D)\<bar> \<le> 1 * (2 * e)"
    unfolding abs_mult using b d by (intro mult_mono) auto
  have "a * ?d - b * ?D = (a - b) * ?d + b * (?d - ?D)" by (simp add: algebra_simps)
  then have e4: "\<bar>fl (a * ?d) - b * ?D\<bar> \<le> 11 * e" using e1 e2 e3 by linarith
  have e5: "\<bar>fl_int p - of_int p\<bar> \<le> 1 * e" using m(1) by (intro near) simp
  have s: "\<bar>fl_int p + fl (a * ?d)\<bar> \<le> 6 * M" using ad e1 e5 m(1) e by linarith
  then have e6: "\<bar>interpolate a p q - (fl_int p + fl (a * ?d))\<bar> \<le> 6 * e"
    unfolding interpolate_def by (rule near)
  show "\<bar>interpolate a p q - (of_int p + b * of_int (q - p))\<bar> \<le> 18 * (M / 2 ^ 53)"
    using e4 e5 e6 unfolding e_def [symmetric] by linarith
  show "\<bar>interpolate a p q\<bar> \<le> 7 * M" using e6 s e by linarith
qed

section \<open>Properties\<close>

text \<open>C31: A series that \<^verbatim>\<open>validate_mode\<close> accepts is sequential: at least one message was requested; the
  QUEUE, TX, RX and ACK logs have the same messages, each exactly once and as many as requested;
  the messages are numbered from 1 without gaps; and each is acknowledged before the next one
  is queued.\<close>

theorem validate_mode_sequential:
  assumes "validate_mode cv docs mode = Inr (events, calibration, run_meta)"
  shows "\<exists>n queue tx rx ack. 0 < n \<and> indices_of cv (js_item events) = Inr (queue, tx, rx, ack) \<and>
    (\<forall>idx \<in> set [queue, tx, rx, ack]. distinct (map fst idx) \<and> int (length idx) = n \<and>
       fst ` set idx = fst ` set queue) \<and>
    map (\<lambda>(_, e). ev_sequence e) (by_sequence queue) = [1..n] \<and>
    (\<forall>i. Suc i < length queue \<longrightarrow>
       (\<exists>a. map_of ack (fst (by_sequence queue ! i)) = Some a \<and>
            timestamp_ns a \<le> timestamp_ns (snd (by_sequence queue ! Suc i))))"
  using validate_mode_gated [OF assms] unfolding gated_def .

text \<open>C33: \<^verbatim>\<open>build_rows\<close> returns one row for each message of the QUEUE log of the validated run, no more and no
  less, in the order of the sequence numbers 1, 2, ...; each row has the times of its message in the
  QUEUE, TX, RX and ACK logs, corrected between the anchors of the sender (QUEUE, TX, ACK) or the
  receiver (RX); in corrected time no message is sent before it is queued, received before it is
  sent or acknowledged before it is queued (the code does not compare reception and
  acknowledgement); the four latencies are the differences of these times; and each message was
  acknowledged before the next one was queued.\<close>

theorem build_rows_causal:
  assumes "build_rows cv docs mode = Inr (rows, run_meta, clock)"
  shows "\<exists>events calibration queue tx rx ack a_pre a_post b_pre b_post.
    validate_mode cv docs mode = Inr (events, calibration, run_meta) \<and>
    indices_of cv (js_item events) = Inr (queue, tx, rx, ack) \<and>
    anchor_from calibration ''pre'' ''client_a'' = Inr a_pre \<and>
    anchor_from calibration ''post'' ''client_a'' = Inr a_post \<and>
    anchor_from calibration ''pre'' ''client_b'' = Inr b_pre \<and>
    anchor_from calibration ''post'' ''client_b'' = Inr b_post \<and>
    rows \<noteq> [] \<and> distinct (map message_id rows) \<and> set (map message_id rows) = fst ` set queue \<and>
    map row_sequence rows = [1..int (length rows)] \<and>
    (\<forall>r \<in> set rows. \<exists>q. map_of queue (message_id r) = Some q \<and>
       row_ok (a_pre, a_post) (b_pre, b_post) tx rx ack (message_id r, q) r) \<and>
    (\<forall>i. Suc i < length rows \<longrightarrow> t_ack_vm_ns (rows ! i) \<le> t_queue_vm_ns (rows ! Suc i))"
proof -
  obtain events calibration queue tx rx ack a_pre a_post b_pre b_post where v:
      "validate_mode cv docs mode = Inr (events, calibration, run_meta)"
      "indices_of cv (js_item events) = Inr (queue, tx, rx, ack)"
      "anchor_from calibration ''pre'' ''client_a'' = Inr a_pre"
      "anchor_from calibration ''post'' ''client_a'' = Inr a_post"
      "anchor_from calibration ''pre'' ''client_b'' = Inr b_pre"
      "anchor_from calibration ''post'' ''client_b'' = Inr b_post"
      "mapS (row_of cv mode (a_pre, a_post) (b_pre, b_post) tx rx ack) (by_sequence queue) = Inr rows"
    using assms unfolding build_rows_def by fastforce
  let ?ok = "row_ok (a_pre, a_post) (b_pre, b_post) tx rx ack"
  obtain n where n: "0 < n" and g: "gated n queue tx rx ack"
    using validate_mode_gated [OF v(1)] v(2) by auto
  have rows: "list_all2 ?ok (by_sequence queue) rows"
    using v(7) unfolding mapS_Inr_iff by (rule list_all2_mono) (rule row_of_ok)
  then have len: "length rows = length queue" by (simp add: list_all2_lengthD [symmetric])
  have at: "?ok (by_sequence queue ! i) (rows ! i)" if "i < length rows" for i
    using rows that by (simp add: list_all2_conv_all_nth)
  have ids: "map row_sequence rows = map (\<lambda>(_, e). ev_sequence e) (by_sequence queue)"
    "map message_id rows = map fst (by_sequence queue)"
    using at len by (auto intro!: nth_equalityI simp: row_ok_def case_prod_unfold)
  have "t_ack_vm_ns (rows ! i) \<le> t_queue_vm_ns (rows ! Suc i)" if i: "Suc i < length rows" for i
    by (rule gated_rows [OF g _ at at [OF i]]) (use i len in simp_all)
  moreover have "\<exists>q. map_of queue (message_id r) = Some q \<and> ?ok (message_id r, q) r" if r: "r \<in> set rows" for r
  proof -
    obtain i where i: "i < length rows" "r = rows ! i" using r by (auto simp: in_set_conv_nth)
    obtain k q where kq: "by_sequence queue ! i = (k, q)" by fastforce
    then have "(k, q) \<in> set queue" using i(1) len nth_mem [of i "by_sequence queue"] by simp
    moreover have "?ok (k, q) r" "message_id r = k" using at [OF i(1)] i(2) kq by (auto simp: row_ok_def)
    ultimately show ?thesis using g by (auto simp: gated_def)
  qed
  moreover have "rows \<noteq> []" "map row_sequence rows = [1..int (length rows)]"
      "distinct (map message_id rows)" "set (map message_id rows) = fst ` set queue"
    using n g len by (auto simp: gated_def ids)
  ultimately show ?thesis using v(1-6) by blast
qed

text \<open>C37: The corrected time is accurate: for an accepted event it lies within half a nanosecond plus the
  rounding errors of double arithmetic of the exact linear interpolation between the two clock
  anchors, below a microsecond for present-day nanosecond clocks.\<close>

theorem correct_vm_time_accurate:
  fixes M :: real
  assumes ok: "correct_vm_time t pre post = Inr c"
    and m: "\<bar>of_int (offset_vm_minus_host_ns pre)\<bar> \<le> M" "\<bar>of_int (offset_vm_minus_host_ns post)\<bar> \<le> M"
  shows "\<bar>of_int (host_ns c) -
      (of_int t - (of_int (offset_vm_minus_host_ns pre) +
         min 1 (max 0 (of_int (t - vm_ns pre) / of_int (vm_ns post - vm_ns pre))) *
         of_int (offset_vm_minus_host_ns post - offset_vm_minus_host_ns pre)))\<bar>
    \<le> 1 / 2 + (3 * \<bar>of_int t\<bar> + 25 * M) / 2 ^ 53"
proof -
  let ?x = "of_int (t - vm_ns pre) / of_int (vm_ns post - vm_ns pre) :: real"
  let ?p = "offset_vm_minus_host_ns pre" and ?q = "offset_vm_minus_host_ns post"
  let ?o = "interpolate (clamp (fl ?x)) ?p ?q" and ?v = "fl_int t"
  have acc: "\<not> (fl ?x < - fl (5 / 100) \<or> fl (105 / 100) < fl ?x)"
    and c: "host_ns c = round_half_even (fl (?v - ?o))"
    using ok by (auto simp: correct_vm_time_def window_position_def Let_def clamp_def split: if_splits)
  note i = interpolate_error [OF clamp_bounds(1,2) clamp_bounds(1,2) accepted_position [OF acc] m]
  have v: "\<bar>?v - of_int t\<bar> \<le> \<bar>of_int t\<bar> / 2 ^ 53" by (rule fl_within) simp
  moreover have "\<bar>of_int t\<bar> / 2 ^ 53 \<le> (\<bar>of_int t\<bar> :: real)" by simp
  ultimately have "\<bar>?v - ?o\<bar> \<le> 2 * \<bar>of_int t\<bar> + 7 * M" using i(2) by linarith
  then have "\<bar>fl (?v - ?o) - (?v - ?o)\<bar> \<le> (2 * \<bar>of_int t\<bar> + 7 * M) / 2 ^ 53" by (rule fl_within)
  also have "\<dots> = 2 * (\<bar>of_int t\<bar> / 2 ^ 53) + 7 * (M / 2 ^ 53)" by (simp add: add_divide_distrib)
  finally have "\<bar>of_int (host_ns c) - (of_int t - (of_int ?p + clamp ?x * of_int (?q - ?p)))\<bar>
      \<le> 1 / 2 + 3 * (\<bar>of_int t\<bar> / 2 ^ 53) + 25 * (M / 2 ^ 53)"
    using v i(1) round_half_even_error [of "fl (?v - ?o)"] unfolding c by linarith
  then show ?thesis unfolding clamp_def by (simp add: add_divide_distrib)
qed

section \<open>An example run\<close>

definition demo_events :: "(string \<times> int \<times> int) list \<Rightarrow> json" where
  "demo_events xs = JList (map (\<lambda>(m, t, n).
     JObj [(''msg_id'', JStr m), (''timestamp_ns'', JInt t), (''sequence'', JInt n)]) xs)"

definition demo_clock :: "int \<Rightarrow> json" where
  "demo_clock v = JObj [(''selected'', JObj [(''host_mid_ns'', JInt v), (''vm_ns'', JInt v),
     (''offset_vm_minus_host_ns'', JInt 0), (''rtt_ns'', JInt 0)])]"

definition demo_docs :: docs where
  "demo_docs p = Parsed
     (if last p = ''message_events.json'' then
        JObj [(''series_policy'', JStr ''ack-gated''),
          (''validation'', JObj [(''verified_no_overlap'', JBool True)]),
          (''queue'', demo_events [(''B'', 5, 2), (''A'', 1, 1)]), (''tx'', demo_events [(''a'', 2, 1), (''b'', 6, 2)]),
          (''rx'', demo_events [(''a'', 3, 1), (''b'', 7, 2)]), (''ack'', demo_events [(''a'', 4, 1), (''b'', 8, 2)])]
      else if last p = ''run.json'' then
        JObj [(''series_policy'', JStr ''ack-gated''), (''messages_requested'', JInt 2)]
      else JObj [(''pre'', JObj [(''client_a'', demo_clock 0), (''client_b'', demo_clock 0)]),
        (''post'', JObj [(''client_a'', demo_clock 8), (''client_b'', demo_clock 8)])])"

definition plain_conv :: conv where
  "plain_conv = \<lparr>repr_text = (\<lambda>_. []), read_float = (\<lambda>_. Inl (Exn ValueError []))\<rparr>"

lemma window_limits: "0 \<le> fl (5 / 100)" "1 \<le> fl (105 / 100)"
proof -
  have "\<bar>105 / 100\<bar> / 2 ^ 53 \<le> (5 / 100 :: real)" by simp
  with fl_error [of "105 / 100"] show "1 \<le> fl (105 / 100)" by linarith
qed (rule fl_nonneg, simp)

lemma demo_correct:
  assumes "0 \<le> t" "t \<le> 8"
    and "vm_ns pre = 0" "vm_ns post = 8" "offset_vm_minus_host_ns pre = 0"
      "offset_vm_minus_host_ns post = 0" "rtt_ns pre = 0" "rtt_ns post = 0"
  shows "correct_vm_time t pre post = Inr \<lparr>host_ns = t, offset_ns = 0, uncertainty_ns = 0\<rparr>"
proof -
  have t: "fl_int t = of_int t" using fl_dyadic [of t 0] assms(1,2) by simp
  have "(of_int t * 2 powi - 3 :: real) = of_int t / 8" by (simp add: power_int_def power3_eq_cube)
  then have p: "fl (of_int t / 8) = of_int t / 8"
    using fl_dyadic [of t "- 3"] assms(1,2) by simp
  have "0 \<le> (of_int t :: real)" "(of_int t :: real) \<le> 8" using assms(1,2) by simp_all
  then have "\<not> (fl (of_int t / 8) < - fl (5 / 100) \<or> fl (105 / 100) < fl (of_int t / 8))"
    unfolding p using window_limits by linarith
  then show ?thesis
    using assms t p by (simp add: correct_vm_time_def window_position_def interpolate_def)
qed

lemma demo_lower: "str_lower ''A'' = ''a''" "str_lower ''B'' = ''b''" "str_lower ''a'' = ''a''"
  "str_lower ''b'' = ''b''"
  by code_simp+

lemmas demo_eval = validate_mode_def demo_docs_def read_json_def check_policy_def indices_of_def
  index_events_def demo_events_def event_of_def unlessS_def check_indices_def demo_lower insert_commute
  by_sequence_def upto.simps lower_id_def event_at_def raise_from_def

lemma demo_valid: "\<exists>e c r. validate_mode plain_conv demo_docs ''cbr'' = Inr (e, c, r)"
  by (simp add: demo_eval)

lemma demo_rows:
  "\<exists>rows r c. build_rows plain_conv demo_docs ''cbr'' = Inr (rows, r, c) \<and>
     map latency_ms rows = [ms_of_ns 2, ms_of_ns 2]"
  by (simp add: demo_eval build_rows_def anchor_from_def demo_clock_def row_of_def demo_correct
    latencies_def jitter_of_def)

theorem validate_mode_sequential_witness:
  "\<exists>e c r n queue tx rx ack. validate_mode plain_conv demo_docs ''cbr'' = Inr (e, c, r) \<and>
     indices_of plain_conv (js_item e) = Inr (queue, tx, rx, ack) \<and>
     map (\<lambda>(_, x). ev_sequence x) (by_sequence queue) = [1..n] \<and> 0 < n"
proof -
  obtain e c r where v: "validate_mode plain_conv demo_docs ''cbr'' = Inr (e, c, r)"
    using demo_valid by (elim exE) (rule that)
  obtain n queue tx rx ack where
    "indices_of plain_conv (js_item e) = Inr (queue, tx, rx, ack)"
    "map (\<lambda>(_, x). ev_sequence x) (by_sequence queue) = [1..n]" "0 < n"
    using validate_mode_sequential [OF v] by (elim exE conjE) (rule that)
  with v show ?thesis by (intro exI conjI)
qed

theorem build_rows_causal_witness:
  "\<exists>rows r c. build_rows plain_conv demo_docs ''cbr'' = Inr (rows, r, c) \<and> length rows = 2 \<and>
     t_ack_vm_ns (rows ! 0) \<le> t_queue_vm_ns (rows ! 1)"
proof -
  obtain rows r c where b: "build_rows plain_conv demo_docs ''cbr'' = Inr (rows, r, c)"
    and l: "map latency_ms rows = [ms_of_ns 2, ms_of_ns 2]"
    using demo_rows by (elim exE conjE) (rule that)
  have n: "length rows = 2" using arg_cong [OF l, of length] by simp
  then have "t_ack_vm_ns (rows ! 0) \<le> t_queue_vm_ns (rows ! Suc 0)"
    using build_rows_causal [OF b] by (elim exE conjE) simp
  with b n show ?thesis unfolding One_nat_def by (intro exI conjI)
qed

theorem correct_vm_time_accurate_witness:
  "\<exists>c. correct_vm_time 3 \<lparr>host_mid_ns = 0, vm_ns = 0, offset_vm_minus_host_ns = 0, rtt_ns = 0\<rparr>
        \<lparr>host_mid_ns = 8, vm_ns = 8, offset_vm_minus_host_ns = 0, rtt_ns = 0\<rparr> = Inr c \<and>
     \<bar>of_int (host_ns c) - 3\<bar> \<le> (1 / 2 + 9 / 2 ^ 53 :: real)"
proof -
  let ?a = "\<lambda>t. \<lparr>host_mid_ns = t, vm_ns = t, offset_vm_minus_host_ns = 0, rtt_ns = 0\<rparr>"
  have c: "correct_vm_time 3 (?a 0) (?a 8) = Inr \<lparr>host_ns = 3, offset_ns = 0, uncertainty_ns = 0\<rparr>"
    by (rule demo_correct) simp_all
  from correct_vm_time_accurate [OF this, of 0] c show ?thesis by simp
qed

end
