(* ===== verification/CppStrings.thy ===== *)
theory CppStrings
  imports Prelude "HOL-Library.Sublist"
begin

text \<open>
  The string helpers of the messenger (\<^verbatim>\<open>libs/core/src/string_utils.cpp\<close>): hexadecimal text and the
  escaping of JSON strings.  A \<^verbatim>\<open>char\<close> is a byte, a string a list of characters; the unkeyed hash of the
  sodium library, which \<^verbatim>\<open>HashPayload\<close> prints, is the argument \<^verbatim>\<open>H\<close>.
\<close>

unbundle bit_operations_syntax

section \<open>Hexadecimal text\<close>

definition HexCharToInt :: "char \<Rightarrow> int" where
  "HexCharToInt c =
     (let n = of_char c :: int in
      if 48 \<le> n \<and> n \<le> 57 then n - 48
      else if 97 \<le> n \<and> n \<le> 102 then n - 97 + 10
      else if 65 \<le> n \<and> n \<le> 70 then n - 65 + 10
      else -1)"

definition HexIntToChar :: "int \<Rightarrow> char" where
  "HexIntToChar v = ''0123456789abcdef'' ! nat (v AND 15)"

text \<open>The array after the loop, which is filled up to the first bad digit, and whether there was none.\<close>

fun decode_hex_loop :: "string \<Rightarrow> bytes \<Rightarrow> bool \<times> bytes" where
  "decode_hex_loop (h # l # s) (b # out) =
     (let high = HexCharToInt h; low = HexCharToInt l in
      if high = -1 \<or> low = -1 then (False, b # out)
      else (case decode_hex_loop s out of (ok, r) \<Rightarrow> (ok, word_of_int (push_bit 4 high OR low) # r)))"
| "decode_hex_loop s out = (True, out)"

definition DecodeHexToArray :: "string \<Rightarrow> bytes \<Rightarrow> bool \<times> bytes" where
  "DecodeHexToArray hexStr outArray =
     (if length hexStr \<noteq> length outArray * 2 then (False, outArray) else decode_hex_loop hexStr outArray)"

definition EncodeHex :: "bytes \<Rightarrow> string" where
  "EncodeHex data =
     concat (map (\<lambda>b. [HexIntToChar (uint (drop_bit 4 b)), HexIntToChar (uint (b AND 0x0F))]) data)"

definition HashPayload :: "(bytes \<Rightarrow> bytes) \<Rightarrow> bytes \<Rightarrow> string" where
  "HashPayload H payload = EncodeHex (H payload)"

section \<open>JSON strings\<close>

definition escape_char :: "char \<Rightarrow> string" where
  "escape_char c =
     (if c = CHR 0x22 then [CHR 0x5C, CHR 0x22]
      else if c = CHR 0x5C then [CHR 0x5C, CHR 0x5C]
      else if c = CHR 0x08 then [CHR 0x5C, CHR ''b'']
      else if c = CHR 0x0C then [CHR 0x5C, CHR ''f'']
      else if c = CHR 0x0A then [CHR 0x5C, CHR ''n'']
      else if c = CHR 0x0D then [CHR 0x5C, CHR ''r'']
      else if c = CHR 0x09 then [CHR 0x5C, CHR ''t'']
      else [c])"

definition EscapeJsonString :: "string \<Rightarrow> string" where
  "EscapeJsonString input = concat (map escape_char input)"

section \<open>Round trip\<close>

lemma hex_digit:
  assumes "0 \<le> v" "v < 16"
  shows "HexCharToInt (HexIntToChar v) = v"
proof -
  have "v \<in> {0..15}" using assms by simp
  also have "{0..15} = set [0..15 :: int]" by simp
  finally have "v \<in> set [0..15]" .
  moreover have "list_all (\<lambda>v. HexCharToInt (HexIntToChar v) = v) [0..15]" by code_simp
  ultimately show ?thesis by (simp only: list_all_iff)
qed

lemma low_nibble: "uint (b AND 0x0F) = uint (b :: byte) mod 16"
proof -
  have "(0x0F :: byte) = mask 4" by (simp add: mask_eq_exp_minus_1)
  then have "b AND 0x0F = take_bit 4 b" by (simp only: take_bit_eq_mask)
  then have "uint (b AND 0x0F) = take_bit 4 (uint b)" by (simp only: unsigned_take_bit_eq)
  then show ?thesis by (simp add: take_bit_eq_mod)
qed

lemma high_nibble: "uint (drop_bit 4 b) = uint (b :: byte) div 16"
  by (simp add: drop_bit_eq_div uint_div)

lemma nibbles:
  fixes b :: byte
  shows "word_of_int (push_bit 4 (uint (drop_bit 4 b)) OR uint (b AND 0x0F)) = b"
proof -
  let ?h = "uint b div 16" and ?l = "uint b mod 16"
  have "push_bit 4 ?h OR ?l = push_bit 4 ?h + ?l"
  proof (rule disjunctive_add [symmetric])
    fix n
    have "?l = take_bit 4 (uint b)" by (simp add: take_bit_eq_mod)
    then have "bit ?l n \<Longrightarrow> n < 4" by (simp only: bit_take_bit_iff)
    then show "\<not> bit (push_bit 4 ?h) n \<or> \<not> bit ?l n" by (auto simp: bit_push_bit_iff)
  qed
  also have "\<dots> = uint b" by (simp add: push_bit_eq_mult)
  finally show ?thesis by (simp only: low_nibble high_nibble word_of_int_uint)
qed

lemma nibble_bounds:
  fixes b :: byte
  shows "0 \<le> uint (drop_bit 4 b)" "uint (drop_bit 4 b) < 16" "0 \<le> uint (b AND 0x0F)" "uint (b AND 0x0F) < 16"
  using unsigned_less [of b, where 'a = int] unsigned_greater_eq [of b, where 'a = int]
  by (simp_all add: low_nibble high_nibble pos_imp_zdiv_nonneg_iff)

lemma EncodeHex_simps [simp]:
  "EncodeHex [] = []"
  "EncodeHex (b # bs) = HexIntToChar (uint (drop_bit 4 b)) # HexIntToChar (uint (b AND 0x0F)) # EncodeHex bs"
  by (simp_all add: EncodeHex_def)

lemma length_EncodeHex [simp]: "length (EncodeHex bs) = 2 * length bs"
  by (induction bs) simp_all

lemma DecodeHex_EncodeHex:
  assumes "length out = length bs"
  shows "DecodeHexToArray (EncodeHex bs) out = (True, bs)"
proof -
  have "decode_hex_loop (EncodeHex bs) out = (True, bs)"
    using assms
  proof (induction bs arbitrary: out)
    case (Cons b bs)
    then obtain c cs where out: "out = c # cs" "length cs = length bs" by (cases out) auto
    have "uint (drop_bit 4 b) \<noteq> -1" "uint (b AND 0x0F) \<noteq> -1"
      using nibble_bounds(1,3) [of b] by linarith+
    then show ?case unfolding out(1)
      using Cons.IH [OF out(2)] by (simp add: hex_digit nibble_bounds nibbles Let_def)
  qed simp
  then show ?thesis using assms by (simp add: DecodeHexToArray_def)
qed

lemma EncodeHex_inj:
  assumes "EncodeHex a = EncodeHex b"
  shows "a = b"
proof -
  have l: "length a = length b" using arg_cong [OF assms, of length] by simp
  have "(True, a) = DecodeHexToArray (EncodeHex a) b" by (rule DecodeHex_EncodeHex [symmetric]) (rule l [symmetric])
  also have "\<dots> = (True, b)" unfolding assms by (rule DecodeHex_EncodeHex) (rule refl)
  finally show ?thesis by (rule Pair_inject)
qed

lemma HexIntToChar_zero:
  assumes "0 \<le> v" "v < 16"
  shows "HexIntToChar v = CHR ''0'' \<longleftrightarrow> v = 0"
proof
  assume "HexIntToChar v = CHR ''0''"
  then have "HexCharToInt (HexIntToChar v) = HexCharToInt (CHR ''0'')" by simp
  then show "v = 0" using hex_digit [OF assms] by (simp add: HexCharToInt_def)
qed (simp add: HexIntToChar_def)

text \<open>Three leading zero digits are twelve zero bits.\<close>

lemma hex_zeros:
  "prefix ''000'' (EncodeHex (a # b # bs)) \<longleftrightarrow> a = 0 \<and> unat b < 16"
proof -
  have "uint a div 16 = 0 \<and> uint a mod 16 = 0 \<longleftrightarrow> a = 0"
    using mod_div_mult_eq [of "uint a" 16] by (auto simp: uint_0_iff)
  moreover have "uint b div 16 = 0 \<longleftrightarrow> unat b < 16"
  proof -
    have "uint b < 16 \<longleftrightarrow> b < 16" by (simp add: word_less_def)
    moreover have "unat b < 16 \<longleftrightarrow> b < 16" by (simp add: word_less_nat_alt)
    ultimately show ?thesis by (auto simp: zdiv_eq_0_iff)
  qed
  ultimately show ?thesis
    using HexIntToChar_zero [OF nibble_bounds(1,2), of a] HexIntToChar_zero [OF nibble_bounds(3,4), of a]
      HexIntToChar_zero [OF nibble_bounds(1,2), of b]
    by (auto simp: low_nibble high_nibble)
qed

end
