(* ===== verification/Protocol.thy ===== *)
theory Protocol
  imports Prelude "HOL-Library.Sublist"
begin

text \<open>
  The wire protocol of the messenger as its C++ library has it (\<^verbatim>\<open>libs/protocol\<close>): frames and their
  serialization, and the incremental parser that both ends run on the bytes they read.  A
  \<^verbatim>\<open>std::vector<uint8_t>\<close> is a list of bytes, \<^verbatim>\<open>PayloadLength\<close> a 32-bit word, an action any byte, since
  the parser casts the byte it read to the enumeration unchecked.  The loop of \<^verbatim>\<open>FeedBytes\<close> has no bound in
  the source, so it is a partial function; the lemmas show that it ends on every parser that
  arises, and that the parser is a function of the bytes fed and not of how they were cut.
\<close>

unbundle bit_operations_syntax

section \<open>Constants\<close>

named_theorems protocol_simps \<open>unfolding rules for the constants of the protocol library\<close>

definition mailboxIdSize :: nat where [protocol_simps]: "mailboxIdSize = 16"
definition headerSize :: nat where [protocol_simps]: "headerSize = 1 + mailboxIdSize + 4"
definition torCellPayloadSize :: nat where [protocol_simps]: "torCellPayloadSize = 498"
definition paddedControlPayloadSize :: nat where
  [protocol_simps]: "paddedControlPayloadSize = torCellPayloadSize - headerSize"
definition maxPayloadSize :: "32 word" where [protocol_simps]: "maxPayloadSize = 1024 * 1024"

definition PUSH :: byte where [protocol_simps]: "PUSH = 1"
definition POLL :: byte where [protocol_simps]: "POLL = 2"
definition ACK :: byte where [protocol_simps]: "ACK = 3"
definition AUTH_CHALLENGE :: byte where [protocol_simps]: "AUTH_CHALLENGE = 4"
definition AUTH_RESPONSE :: byte where [protocol_simps]: "AUTH_RESPONSE = 5"

datatype ParserState = READING_HEADER | READING_PAYLOAD | FRAME_READY | ERROR_MALFORMED

section \<open>Frames\<close>

record frame =
  fr_action :: byte
  fr_mailbox :: bytes
  fr_length :: "32 word"
  fr_payload :: bytes

definition make_frame :: "byte \<Rightarrow> bytes \<Rightarrow> bytes \<Rightarrow> frame" where
  "make_frame a m p =
     \<lparr>fr_action = a, fr_mailbox = m, fr_length = word_of_nat (length p), fr_payload = p\<rparr>"

definition CreatePush :: "bytes \<Rightarrow> bytes \<Rightarrow> frame" where
  "CreatePush m p = make_frame PUSH m p"

definition CreatePoll :: "bytes \<Rightarrow> frame" where
  "CreatePoll m = make_frame POLL m (replicate paddedControlPayloadSize 0)"

definition CreateAck :: "bytes \<Rightarrow> bytes \<Rightarrow> frame" where
  "CreateAck m p = make_frame ACK m p"

text \<open>\<^verbatim>\<open>resize(n, 0x00)\<close> of a vector that is shorter than \<^verbatim>\<open>n\<close>.\<close>

definition pad_control :: "bytes \<Rightarrow> bytes" where
  "pad_control p =
     (if length p < paddedControlPayloadSize
      then p @ replicate (paddedControlPayloadSize - length p) 0 else p)"

definition CreateAuthChallenge :: "bytes \<Rightarrow> bytes \<Rightarrow> frame" where
  "CreateAuthChallenge m p = make_frame AUTH_CHALLENGE m (pad_control p)"

definition CreateAuthResponse :: "bytes \<Rightarrow> bytes \<Rightarrow> frame" where
  "CreateAuthResponse m p = make_frame AUTH_RESPONSE m (pad_control p)"

definition length_bytes :: "32 word \<Rightarrow> bytes" where
  "length_bytes n =
     [ucast (n AND 0xFF), ucast (drop_bit 8 n AND 0xFF), ucast (drop_bit 16 n AND 0xFF),
      ucast (drop_bit 24 n AND 0xFF)]"

definition Serialize :: "frame \<Rightarrow> bytes" where
  "Serialize f =
     [fr_action f] @ fr_mailbox f @ length_bytes (fr_length f) @
     (if 0 < fr_length f \<and> fr_payload f \<noteq> [] then fr_payload f else [])"

section \<open>The parser\<close>

record FrameParser =
  currentState :: ParserState
  headerBuffer :: bytes
  payloadBuffer :: bytes
  currentAction :: "byte option"
  currentMailbox :: "bytes option"
  expectedPayloadLength :: "32 word"

definition fresh_parser :: FrameParser where
  "fresh_parser =
     \<lparr>currentState = READING_HEADER, headerBuffer = [], payloadBuffer = [], currentAction = None,
      currentMailbox = None, expectedPayloadLength = 0\<rparr>"

text \<open>Subtraction of two \<^verbatim>\<open>size_t\<close> values.\<close>

definition size_sub :: "nat \<Rightarrow> nat \<Rightarrow> nat" where
  "size_sub a b = unat (word_of_nat a - word_of_nat b :: 64 word)"

definition read_length :: "bytes \<Rightarrow> 32 word" where
  "read_length h =
     ucast (h ! 17) OR push_bit 8 (ucast (h ! 18)) OR push_bit 16 (ucast (h ! 19)) OR
     push_bit 24 (ucast (h ! 20))"

definition ParseHeader :: "FrameParser \<Rightarrow> FrameParser" where
  "ParseHeader p =
     (let h = headerBuffer p; n = read_length h;
          q = p\<lparr>currentAction := Some (h ! 0), currentMailbox := Some (take mailboxIdSize (drop 1 h)),
                expectedPayloadLength := n\<rparr> in
      if maxPayloadSize < n then q\<lparr>currentState := ERROR_MALFORMED\<rparr>
      else if n = 0 then q\<lparr>currentState := FRAME_READY\<rparr>
      else q\<lparr>currentState := READING_PAYLOAD\<rparr>)"

definition feed_header :: "FrameParser \<Rightarrow> bytes \<Rightarrow> FrameParser \<times> bytes" where
  "feed_header p data =
     (let toCopy = min (size_sub headerSize (length (headerBuffer p))) (length data);
          q = p\<lparr>headerBuffer := headerBuffer p @ take toCopy data\<rparr> in
      (if length (headerBuffer q) = headerSize then ParseHeader q else q, drop toCopy data))"

definition feed_payload :: "FrameParser \<Rightarrow> bytes \<Rightarrow> FrameParser \<times> bytes" where
  "feed_payload p data =
     (let toCopy = min (size_sub (unat (expectedPayloadLength p)) (length (payloadBuffer p))) (length data);
          q = p\<lparr>payloadBuffer := payloadBuffer p @ take toCopy data\<rparr> in
      (if length (payloadBuffer q) = unat (expectedPayloadLength q)
       then q\<lparr>currentState := FRAME_READY\<rparr> else q, drop toCopy data))"

partial_function (option) feed_loop :: "FrameParser \<Rightarrow> bytes \<Rightarrow> (FrameParser \<times> bytes) option" where
  "feed_loop p data =
     (if data \<noteq> [] \<and> currentState p \<noteq> FRAME_READY \<and> currentState p \<noteq> ERROR_MALFORMED then
        (case (if currentState p = READING_HEADER then feed_header p data else feed_payload p data) of
           (q, rest) \<Rightarrow> feed_loop q rest)
      else Some (p, data))"

declare feed_loop.simps [code]

text \<open>The number of bytes consumed, and the parser afterwards.\<close>

definition FeedBytes :: "FrameParser \<Rightarrow> bytes \<Rightarrow> (nat \<times> FrameParser) option" where
  "FeedBytes p data = map_option (\<lambda>(q, rest). (length data - length rest, q)) (feed_loop p data)"

definition rebuild :: "byte \<Rightarrow> bytes \<Rightarrow> bytes \<Rightarrow> frame option" where
  "rebuild a m p =
     (if a = PUSH then Some (CreatePush m p)
      else if a = POLL then Some (CreatePoll m)
      else if a = ACK then Some (CreateAck m p)
      else if a = AUTH_CHALLENGE then Some (CreateAuthChallenge m p)
      else if a = AUTH_RESPONSE then Some (CreateAuthResponse m p)
      else None)"

definition TryExtractFrame :: "FrameParser \<Rightarrow> frame option \<times> FrameParser" where
  "TryExtractFrame p =
     (if currentState p \<noteq> FRAME_READY then (None, p)
      else
        (case (currentAction p, currentMailbox p) of
           (Some a, Some m) \<Rightarrow> (rebuild a m (payloadBuffer p), fresh_parser)
         | _ \<Rightarrow> (None, p\<lparr>currentState := ERROR_MALFORMED\<rparr>)))"

definition HasError :: "FrameParser \<Rightarrow> bool" where
  "HasError p = (currentState p = ERROR_MALFORMED)"

section \<open>The length field\<close>

lemma size_sub_le: 
  assumes "b \<le> a" "a < 2 ^ 64"
  shows "size_sub a b = a - b"
proof -
  have "word_of_nat a - word_of_nat b = (word_of_nat (a - b) :: 64 word)"
    using assms(1) by (simp add: of_nat_diff)
  then have "size_sub a b = unat (word_of_nat (a - b) :: 64 word)" by (simp only: size_sub_def)
  also have "\<dots> = a - b" using assms(2) by (simp add: unat_of_nat)
  finally show ?thesis .
qed

lemma byte_bit: "bit (ucast (b :: byte) :: 32 word) n \<Longrightarrow> n < 8"
  by (auto simp: bit_simps dest: bit_imp_le_length)

lemma read_length_plus:
  "(ucast a OR push_bit 8 (ucast b) OR push_bit 16 (ucast c) OR push_bit 24 (ucast d) :: 32 word) =
   ucast (a :: byte) + push_bit 8 (ucast (b :: byte)) + push_bit 16 (ucast (c :: byte)) + push_bit 24 (ucast (d :: byte))"
proof -
  let ?a = "ucast a :: 32 word" and ?b = "push_bit 8 (ucast b) :: 32 word"
    and ?c = "push_bit 16 (ucast c) :: 32 word" and ?d = "push_bit 24 (ucast d) :: 32 word"
  have b: "bit ?b n \<Longrightarrow> 8 \<le> n \<and> n < 16" and c: "bit ?c n \<Longrightarrow> 16 \<le> n \<and> n < 24"
    and d: "bit ?d n \<Longrightarrow> 24 \<le> n" for n
    by (auto simp: bit_push_bit_iff dest: byte_bit)
  have "?c OR ?d = ?c + ?d"
    by (rule disjunctive_add [symmetric]) (use c d in fastforce)
  moreover have "?b OR (?c OR ?d) = ?b + (?c OR ?d)"
    by (rule disjunctive_add [symmetric]) (use b c d in \<open>fastforce simp: bit_or_iff\<close>)
  moreover have "?a OR (?b OR (?c OR ?d)) = ?a + (?b OR (?c OR ?d))"
    by (rule disjunctive_add [symmetric]) (use b c d byte_bit [of a] in \<open>fastforce simp: bit_or_iff\<close>)
  ultimately show ?thesis by (simp add: add.assoc)
qed

lemma read_length_word: "length h = 21 \<Longrightarrow> read_length h = word_of_nat (unpack_le (drop 17 h))"
proof -
  assume "length h = 21"
  then have "drop 17 h = [h ! 17, h ! 18, h ! 19, h ! 20]"
    by (intro nth_equalityI) (auto simp: less_Suc_eq numeral_eq_Suc)
  then show ?thesis unfolding read_length_def read_length_plus
    by (simp add: push_bit_eq_mult algebra_simps)
qed

lemma ucast_low_byte: "(ucast (w AND 0xFF) :: byte) = ucast (w :: 32 word)"
proof (rule bit_word_eqI)
  fix i assume "i < LENGTH(8)"
  moreover have "(0xFF :: 32 word) = mask 8" by (simp add: mask_eq_exp_minus_1)
  ultimately have "bit (0xFF :: 32 word) i" by (simp only: bit_mask_iff) simp
  then show "bit (ucast (w AND 0xFF) :: byte) i = bit (ucast w :: byte) i" by (simp add: bit_simps)
qed

lemma ucast_shifted: "(ucast (drop_bit k w) :: byte) = word_of_nat (unat (w :: 32 word) div 2 ^ k)"
proof -
  have "unat (drop_bit k w) = unat w div 2 ^ k" by (rule trans [OF unat_drop_bit_eq drop_bit_eq_div])
  then have "word_of_nat (unat w div 2 ^ k) = (word_of_nat (unat (drop_bit k w)) :: byte)" by simp
  also have "\<dots> = ucast (drop_bit k w)" by (rule of_nat_unat)
  finally show ?thesis by simp
qed

lemma length_bytes_pack: "length_bytes n = pack_le 4 (unat n)"
  unfolding length_bytes_def ucast_low_byte
  using ucast_shifted [of 0 n] ucast_shifted [of 8 n] ucast_shifted [of 16 n] ucast_shifted [of 24 n]
  by (simp add: pack_le_numeral div_mult2_eq [symmetric])

section \<open>The parser is a function of the bytes\<close>

text \<open>\<^verbatim>\<open>parser_of c\<close> is the parser that has stored the bytes \<^verbatim>\<open>c\<close> of a frame, \<^verbatim>\<open>frame_cut s\<close> what it stores of the
  stream \<^verbatim>\<open>s\<close>: at most one frame, and only the header of a malformed one.\<close>

definition header_length :: "bytes \<Rightarrow> nat" where
  "header_length s = unpack_le (take 4 (drop 17 s))"

definition malformed :: "bytes \<Rightarrow> bool" where
  "malformed s \<longleftrightarrow> headerSize \<le> length s \<and> unat maxPayloadSize < header_length s"

definition frame_size :: "bytes \<Rightarrow> nat" where
  "frame_size s = headerSize + (if malformed s then 0 else header_length s)"

definition frame_cut :: "bytes \<Rightarrow> bytes" where
  "frame_cut s = (if length s < headerSize then s else take (frame_size s) s)"

definition loaded :: "bytes \<Rightarrow> bytes \<Rightarrow> FrameParser" where
  "loaded h b =
     \<lparr>currentState =
        (if maxPayloadSize < read_length h then ERROR_MALFORMED
         else if length b = unat (read_length h) then FRAME_READY else READING_PAYLOAD),
      headerBuffer = h, payloadBuffer = b, currentAction = Some (h ! 0),
      currentMailbox = Some (take mailboxIdSize (drop 1 h)), expectedPayloadLength = read_length h\<rparr>"

definition parser_of :: "bytes \<Rightarrow> FrameParser" where
  "parser_of c =
     (if length c < headerSize then fresh_parser\<lparr>headerBuffer := c\<rparr>
      else loaded (take headerSize c) (drop headerSize c))"

lemma parser_of_Nil [simp]: "parser_of [] = fresh_parser"
  by (simp add: parser_of_def fresh_parser_def protocol_simps)

lemma header_length_take [simp]: "headerSize \<le> n \<Longrightarrow> header_length (take n s) = header_length s"
  by (simp add: header_length_def drop_take protocol_simps min_def)

lemma unat_read_length:
  assumes "headerSize \<le> length s"
  shows "unat (read_length (take headerSize s)) = header_length s"
proof -
  have "length (take headerSize s) = 21" using assms by (simp add: protocol_simps)
  then have "read_length (take headerSize s) = word_of_nat (unpack_le (drop 17 (take headerSize s)))"
    by (rule read_length_word)
  also have "drop 17 (take headerSize s) = take 4 (drop 17 s)"
    by (simp add: drop_take protocol_simps)
  finally show ?thesis
    using unpack_le_bound [of "take 4 (drop 17 s)"] assms
    by (simp add: header_length_def unat_of_nat protocol_simps)
qed

lemma header_length_bound: "headerSize \<le> length s \<Longrightarrow> header_length s < 2 ^ 32"
  using unat_read_length [of s] unsigned_less [of "read_length (take headerSize s)", where 'a = nat] by simp

lemma malformed_iff: "headerSize \<le> length s \<Longrightarrow> malformed s \<longleftrightarrow> maxPayloadSize < read_length (take headerSize s)"
  by (simp add: malformed_def word_less_nat_alt unat_read_length)

lemma malformed_take [simp]: "headerSize \<le> n \<Longrightarrow> headerSize \<le> length s \<Longrightarrow> malformed (take n s) = malformed s"
  by (simp add: malformed_def)

lemma read_length_take [simp]: "headerSize \<le> n \<Longrightarrow> read_length (take headerSize (take n s)) = read_length (take headerSize s)"
  by (simp add: min_def)

lemma ParseHeader_parser_of:
  assumes "length h \<le> headerSize"
  shows "(if length h = headerSize then ParseHeader (fresh_parser\<lparr>headerBuffer := h\<rparr>)
     else fresh_parser\<lparr>headerBuffer := h\<rparr>) = parser_of h"
proof (cases "length h = headerSize")
  case True
  then show ?thesis by (simp add: ParseHeader_def parser_of_def loaded_def fresh_parser_def Let_def unat_eq_0)
qed (use assms in \<open>simp add: parser_of_def\<close>)

lemma feed_header_spec:
  assumes "length c < headerSize"
  shows "feed_header (parser_of c) data =
    (parser_of (take headerSize (c @ data)), drop (headerSize - length c) data)"
proof -
  let ?k = "min (headerSize - length c) (length data)" and ?h = "take headerSize (c @ data)"
  have sub: "size_sub headerSize (length c) = headerSize - length c"
    using assms by (intro size_sub_le) (auto simp: protocol_simps)
  have h: "c @ take ?k data = ?h" and d: "drop ?k data = drop (headerSize - length c) data"
    using assms by (auto simp: min_def)
  have p: "parser_of c = fresh_parser\<lparr>headerBuffer := c\<rparr>" using assms by (simp add: parser_of_def)
  have "feed_header (parser_of c) data =
      (if length (c @ take ?k data) = headerSize then ParseHeader (fresh_parser\<lparr>headerBuffer := c @ take ?k data\<rparr>)
       else fresh_parser\<lparr>headerBuffer := c @ take ?k data\<rparr>, drop ?k data)"
    by (simp add: feed_header_def p fresh_parser_def sub Let_def)
  also have "\<dots> = (parser_of ?h, drop (headerSize - length c) data)"
    unfolding d h by (rule arg_cong2 [where f = Pair, OF ParseHeader_parser_of refl]) simp
  finally show ?thesis .
qed

lemma feed_payload_loaded:
  assumes "\<not> maxPayloadSize < read_length h" "length b < unat (read_length h)"
  shows "feed_payload (loaded h b) data =
    (loaded h (b @ take (unat (read_length h) - length b) data), drop (unat (read_length h) - length b) data)"
proof -
  let ?k = "unat (read_length h) - length b"
  have sub: "size_sub (unat (read_length h)) (length b) = ?k"
    using assms(2) unsigned_less [of "read_length h", where 'a = nat] by (intro size_sub_le) auto
  have "take (min ?k (length data)) data = take ?k data" "drop (min ?k (length data)) data = drop ?k data"
    by (auto simp: min_def)
  then show ?thesis using assms by (simp add: feed_payload_def loaded_def sub Let_def)
qed

lemma feed_payload_spec:
  assumes c: "headerSize \<le> length c" "\<not> malformed c" "length c < frame_size c"
  shows "currentState (parser_of c) = READING_PAYLOAD"
    and "feed_payload (parser_of c) data =
      (parser_of (take (frame_size c) (c @ data)), drop (frame_size c - length c) data)"
proof -
  let ?h = "take headerSize c" and ?b = "drop headerSize c"
  have n: "frame_size c = headerSize + unat (read_length ?h)" "\<not> maxPayloadSize < read_length ?h"
    using c by (simp_all add: unat_read_length frame_size_def malformed_iff)
  have lt: "length ?b < unat (read_length ?h)" using c n(1) by simp
  have p: "parser_of c = loaded ?h ?b" using c(1) by (simp add: parser_of_def)
  show "currentState (parser_of c) = READING_PAYLOAD" unfolding p using n(2) lt by (simp add: loaded_def)
  have k: "unat (read_length ?h) - length ?b = frame_size c - length c" using c n(1) by simp
  have "take (frame_size c) (c @ data) = c @ take (frame_size c - length c) data" using c(3) by simp
  then have "parser_of (take (frame_size c) (c @ data)) = loaded ?h (?b @ take (frame_size c - length c) data)"
    using c(1) by (simp add: parser_of_def)
  with feed_payload_loaded [OF n(2) lt, of data]
  show "feed_payload (parser_of c) data =
      (parser_of (take (frame_size c) (c @ data)), drop (frame_size c - length c) data)"
    unfolding p k by simp
qed

lemma frame_size_append [simp]: "headerSize \<le> length c \<Longrightarrow> frame_size (c @ d) = frame_size c"
  by (simp add: frame_size_def malformed_def header_length_def protocol_simps)

lemma malformed_append [simp]: "headerSize \<le> length c \<Longrightarrow> malformed (c @ d) = malformed c"
  by (simp add: malformed_def header_length_def protocol_simps)

lemma frame_size_take [simp]: "headerSize \<le> n \<Longrightarrow> headerSize \<le> length s \<Longrightarrow> frame_size (take n s) = frame_size s"
  by (simp add: frame_size_def)

lemma headerSize_le_frame_size [simp]: "headerSize \<le> frame_size s"
  by (simp add: frame_size_def)

lemma frame_cut_loaded: "headerSize \<le> length c \<Longrightarrow> frame_cut (c @ d) = take (frame_size c) (c @ d)"
  by (simp add: frame_cut_def)

lemma frame_cut_twice [simp]: "frame_cut (frame_cut s) = frame_cut s"
  by (simp add: frame_cut_def)

lemma state_complete:
  assumes "headerSize \<le> length c" "length c = frame_size c"
  shows "currentState (parser_of c) = (if malformed c then ERROR_MALFORMED else FRAME_READY)"
proof (cases "malformed c")
  case True
  then have "maxPayloadSize < read_length (take headerSize c)" using malformed_iff [OF assms(1)] by simp
  then show ?thesis using True assms(1) by (simp add: parser_of_def loaded_def)
next
  case False
  then have "\<not> maxPayloadSize < read_length (take headerSize c)" using malformed_iff [OF assms(1)] by simp
  moreover have "length (drop headerSize c) = unat (read_length (take headerSize c))"
    using False assms(2) unat_read_length [OF assms(1)] by (simp add: frame_size_def)
  ultimately show ?thesis using False assms(1) by (simp add: parser_of_def loaded_def)
qed

lemma feed_loop_loaded:
  assumes c: "headerSize \<le> length c" "frame_cut c = c"
  shows "feed_loop (parser_of c) data =
    Some (parser_of (frame_cut (c @ data)), drop (length (frame_cut (c @ data)) - length c) data)"
proof -
  have "take (frame_size c) c = c" using c by (simp add: frame_cut_def)
  then have "min (length c) (frame_size c) = length c" by (metis length_take)
  then have le: "length c \<le> frame_size c" by simp
  show ?thesis
  proof (cases "data = [] \<or> length c = frame_size c")
    case True
    then have "frame_cut (c @ data) = c" using c le by (auto simp: frame_cut_loaded)
    moreover have "feed_loop (parser_of c) data = Some (parser_of c, data)"
      using True state_complete [OF c(1)] by (subst feed_loop.simps) (auto split: if_splits)
    ultimately show ?thesis by simp
  next
    case False
    then have lt: "length c < frame_size c" using le by simp
    moreover have "\<not> malformed c" using lt c(1) by (auto simp: frame_size_def)
    ultimately have f: "currentState (parser_of c) = READING_PAYLOAD"
        "feed_payload (parser_of c) data = (parser_of (frame_cut (c @ data)), drop (frame_size c - length c) data)"
      using feed_payload_spec [OF c(1)] c(1) by (simp_all add: frame_cut_loaded)
    let ?d = "frame_cut (c @ data)" and ?r = "drop (frame_size c - length c) data"
    have d: "length ?d = min (frame_size c) (length c + length data)"
      using c(1) by (simp add: frame_cut_loaded min.commute)
    have "?r = [] \<or> currentState (parser_of ?d) = (if malformed ?d then ERROR_MALFORMED else FRAME_READY)"
    proof (cases "length c + length data \<le> frame_size c")
      case False
      then have "length ?d = frame_size c" using d by simp
      moreover have "frame_size ?d = frame_size c" using c(1) by (simp add: frame_cut_loaded)
      ultimately have "headerSize \<le> length ?d" "length ?d = frame_size ?d" by simp_all
      then show ?thesis using state_complete by blast
    qed simp
    then have "feed_loop (parser_of ?d) ?r = Some (parser_of ?d, ?r)"
      by (subst feed_loop.simps) (auto split: if_splits)
    moreover have "?r = drop (length ?d - length c) data" using d lt by (auto simp: min_def)
    ultimately show ?thesis using False f by (subst feed_loop.simps) simp
  qed
qed

lemma feed_loop_spec:
  assumes "frame_cut c = c"
  shows "feed_loop (parser_of c) data =
    Some (parser_of (frame_cut (c @ data)), drop (length (frame_cut (c @ data)) - length c) data)"
proof (cases "length c < headerSize \<and> data \<noteq> []")
  case True
  let ?h = "take headerSize (c @ data)" and ?r = "drop (headerSize - length c) data"
  have st: "currentState (parser_of c) = READING_HEADER" using True by (simp add: parser_of_def fresh_parser_def)
  have step: "feed_loop (parser_of c) data = feed_loop (parser_of ?h) ?r"
    using True st feed_header_spec [of c data] by (subst feed_loop.simps) simp
  show ?thesis
  proof (cases "length (c @ data) < headerSize")
    case short: True
    then have "?r = []" "?h = c @ data" "frame_cut (c @ data) = c @ data" by (auto simp: frame_cut_def)
    then show ?thesis unfolding step by (subst feed_loop.simps) simp
  next
    case False
    then have h: "headerSize \<le> length ?h" "?h @ ?r = c @ data" "length ?h = headerSize"
      using True by auto
    have h2: "frame_cut ?h = ?h" using h(3) headerSize_le_frame_size [of ?h] unfolding frame_cut_def by (metis take_all)
    have "headerSize \<le> length (frame_cut (c @ data))"
      unfolding frame_cut_def using False by (simp del: take_append length_append)
    then have "drop (length (frame_cut (c @ data)) - headerSize) ?r = drop (length (frame_cut (c @ data)) - length c) data"
      using True by simp
    then show ?thesis unfolding step feed_loop_loaded [OF h(1) h2] h(2,3) by simp
  qed
next
  case False
  then consider "headerSize \<le> length c" | "data = []" by linarith
  then show ?thesis
  proof cases
    case 2
    then show ?thesis using assms by (subst feed_loop.simps) simp
  qed (rule feed_loop_loaded [OF _ assms])
qed

lemma FeedBytes_spec:
  assumes "frame_cut c = c"
  shows "FeedBytes (parser_of c) data =
    Some (length (frame_cut (c @ data)) - length c, parser_of (frame_cut (c @ data)))"
proof -
  have "length (frame_cut (c @ data)) \<le> length (c @ data)"
    unfolding frame_cut_def by (simp del: take_append)
  then show ?thesis by (simp add: FeedBytes_def feed_loop_spec [OF assms])
qed

definition complete :: "bytes \<Rightarrow> bool" where
  "complete s \<longleftrightarrow> headerSize \<le> length s \<and> frame_size s \<le> length s \<and> \<not> malformed s"

definition frame_at :: "bytes \<Rightarrow> frame option" where
  "frame_at s = rebuild (s ! 0) (take mailboxIdSize (drop 1 s)) (drop headerSize (take (frame_size s) s))"

lemma nth_0_take: "0 < n \<Longrightarrow> take n s ! 0 = s ! 0"
  by (cases s; cases n) auto

lemma TryExtractFrame_complete:
  assumes "complete s"
  shows "TryExtractFrame (parser_of (frame_cut s)) = (frame_at s, fresh_parser)"
proof -
  let ?c = "take (frame_size s) s"
  have c: "frame_cut s = ?c" "headerSize \<le> length s" "length ?c = frame_size s" "\<not> malformed s"
    using assms by (auto simp: complete_def frame_cut_def)
  have l: "headerSize \<le> length ?c" "\<not> malformed ?c" "frame_size ?c = frame_size s"
    using c headerSize_le_frame_size [of s] by auto
  then have "currentState (parser_of ?c) = FRAME_READY" using state_complete [of ?c] c(3) by simp
  moreover have "parser_of ?c = loaded (take headerSize s) (drop headerSize ?c)"
    using l(1) by (simp add: parser_of_def min_def)
  moreover have "take mailboxIdSize (drop 1 (take headerSize s)) = take mailboxIdSize (drop 1 s)"
    by (simp add: drop_take protocol_simps)
  moreover have "take headerSize s ! 0 = s ! 0" by (simp add: nth_0_take protocol_simps)
  ultimately show ?thesis unfolding c(1)
    by (simp add: TryExtractFrame_def frame_at_def loaded_def)
qed

lemma TryExtractFrame_incomplete:
  assumes "\<not> complete s"
  shows "TryExtractFrame (parser_of (frame_cut s)) = (None, parser_of (frame_cut s))"
    and "HasError (parser_of (frame_cut s)) = malformed s"
proof -
  have "currentState (parser_of (frame_cut s)) \<noteq> FRAME_READY \<and>
      (currentState (parser_of (frame_cut s)) = ERROR_MALFORMED \<longleftrightarrow> malformed s)"
  proof (cases "length s < headerSize")
    case True
    then show ?thesis by (simp add: frame_cut_def parser_of_def fresh_parser_def malformed_def)
  next
    case False
    let ?c = "take (frame_size s) s"
    have c: "frame_cut s = ?c" "headerSize \<le> length ?c" "malformed ?c = malformed s" "frame_size ?c = frame_size s"
      using False by (auto simp: frame_cut_def)
    show ?thesis
    proof (cases "malformed s")
      case True
      then have "length ?c = frame_size ?c" using c(2,4) False by (simp add: frame_size_def)
      then show ?thesis using state_complete [OF c(2)] True c by simp
    next
      case nm: False
      then have "length ?c < frame_size ?c" using assms False c(4) by (auto simp: complete_def)
      then show ?thesis using feed_payload_spec(1) [of ?c] c nm by simp
    qed
  qed
  then show "TryExtractFrame (parser_of (frame_cut s)) = (None, parser_of (frame_cut s))"
    "HasError (parser_of (frame_cut s)) = malformed s"
    by (simp_all add: TryExtractFrame_def HasError_def)
qed

lemma HasError_complete: "complete s \<Longrightarrow> \<not> HasError (parser_of (frame_cut s))"
proof -
  assume s: "complete s"
  then have "headerSize \<le> length (frame_cut s)" "length (frame_cut s) = frame_size (frame_cut s)"
      "\<not> malformed (frame_cut s)"
    by (auto simp: complete_def frame_cut_def)
  then show ?thesis using state_complete [of "frame_cut s"] by (simp add: HasError_def)
qed

text \<open>What a stream of bytes means: the frames that it has, the ones of an unknown action left out,
  and the bytes of the last, unfinished frame, if the stream has no malformed header.\<close>

datatype ending = Pending bytes | Malformed

function decode :: "bytes \<Rightarrow> frame list \<times> ending" where
  "decode s =
     (if malformed s then ([], Malformed)
      else if complete s then
        (case decode (drop (frame_size s) s) of
           (fs, e) \<Rightarrow> ((case frame_at s of Some f \<Rightarrow> f # fs | None \<Rightarrow> fs), e))
      else ([], Pending s))"
  by auto
termination
proof (relation "measure length", simp, goal_cases)
  case (1 s)
  then have "0 < frame_size s" "0 < length s"
    using headerSize_le_frame_size [of s] by (auto simp: complete_def protocol_simps)
  then show ?case by simp
qed

declare decode.simps [simp del]

section \<open>Frames survive the wire\<close>

text \<open>The frames of the factory functions, with a mailbox of 16 bytes and a payload of admissible size.\<close>

definition wf_frame :: "frame \<Rightarrow> bool" where
  "wf_frame f \<longleftrightarrow> length (fr_mailbox f) = mailboxIdSize \<and> length (fr_payload f) \<le> unat maxPayloadSize \<and>
     rebuild (fr_action f) (fr_mailbox f) (fr_payload f) = Some f"

lemma rebuild_length: "rebuild a m p = Some f \<Longrightarrow> fr_length f = word_of_nat (length (fr_payload f))"
  by (auto simp: rebuild_def CreatePush_def CreatePoll_def CreateAck_def CreateAuthChallenge_def
      CreateAuthResponse_def make_frame_def split: if_splits)

lemma Serialize_layout:
  assumes "wf_frame f"
  shows "Serialize f = fr_action f # fr_mailbox f @ pack_le 4 (length (fr_payload f)) @ fr_payload f"
proof -
  have "fr_length f = word_of_nat (length (fr_payload f))"
    using assms rebuild_length by (auto simp: wf_frame_def)
  moreover have "length (fr_payload f) < 2 ^ 32" using assms by (simp add: wf_frame_def protocol_simps)
  ultimately have l: "unat (fr_length f) = length (fr_payload f)" by (simp add: unat_of_nat)
  then have "0 < fr_length f \<and> fr_payload f \<noteq> [] \<longleftrightarrow> fr_payload f \<noteq> []"
    by (auto simp: word_less_nat_alt)
  with l show ?thesis by (simp add: Serialize_def length_bytes_pack)
qed

lemma wire_frame:
  fixes a :: byte and rest :: bytes
  assumes "length m = mailboxIdSize" "length p \<le> unat maxPayloadSize"
  defines "s \<equiv> a # m @ pack_le 4 (length p) @ p @ rest"
  shows "complete s" "frame_size s = headerSize + length p" "frame_at s = rebuild a m p"
    "drop (frame_size s) s = rest"
proof -
  have "length p < 256 ^ 4" using assms(2) by (simp add: protocol_simps)
  moreover have "take 4 (drop 17 s) = pack_le 4 (length p)"
    using assms(1) by (simp add: s_def protocol_simps)
  ultimately have h: "header_length s = length p" by (simp add: header_length_def)
  then have m: "\<not> malformed s" using assms(2) by (simp add: malformed_def)
  show fs: "frame_size s = headerSize + length p" using h m by (simp add: frame_size_def)
  show "complete s" using m assms(1) unfolding complete_def fs by (simp add: s_def protocol_simps)
  let ?w = "a # m @ pack_le 4 (length p) @ p"
  have w: "s = ?w @ rest" "length ?w = frame_size s"
    unfolding fs using assms(1) by (simp_all add: s_def protocol_simps)
  then show "drop (frame_size s) s = rest" by (metis append_eq_conv_conj)
  have "take (frame_size s) s = ?w" using w by (metis append_eq_conv_conj)
  then show "frame_at s = rebuild a m p"
    using assms(1) by (simp add: frame_at_def s_def protocol_simps)
qed

lemma decode_wire:
  assumes "length m = mailboxIdSize" "length p \<le> unat maxPayloadSize"
  shows "decode (a # m @ pack_le 4 (length p) @ p @ rest) =
    (case decode rest of (fs, e) \<Rightarrow> ((case rebuild a m p of Some f \<Rightarrow> f # fs | None \<Rightarrow> fs), e))"
proof -
  note w = wire_frame [OF assms, of a rest]
  then have "\<not> malformed (a # m @ pack_le 4 (length p) @ p @ rest)" by (simp add: complete_def)
  with w show ?thesis by (subst decode.simps) simp
qed

lemma decode_Serialize:
  "wf_frame f \<Longrightarrow> decode (Serialize f @ rest) = (case decode rest of (fs, e) \<Rightarrow> (f # fs, e))"
  using decode_wire [of "fr_mailbox f" "fr_payload f" "fr_action f" rest]
  by (simp add: Serialize_layout) (simp add: wf_frame_def split: prod.splits)

lemma pad_control_twice [simp]: "pad_control (pad_control p) = pad_control p"
  by (simp add: pad_control_def)

lemma length_pad_control: "length (pad_control p) = max paddedControlPayloadSize (length p)"
  by (simp add: pad_control_def)

lemma wf_created:
  assumes "length m = mailboxIdSize"
  shows "wf_frame (CreatePoll m)"
    "length p \<le> unat maxPayloadSize \<Longrightarrow> wf_frame (CreatePush m p)"
    "length p \<le> unat maxPayloadSize \<Longrightarrow> wf_frame (CreateAck m p)"
    "length p \<le> unat maxPayloadSize \<Longrightarrow> wf_frame (CreateAuthChallenge m p)"
    "length p \<le> unat maxPayloadSize \<Longrightarrow> wf_frame (CreateAuthResponse m p)"
  using assms
  by (simp_all add: wf_frame_def rebuild_def CreatePoll_def CreatePush_def CreateAck_def CreateAuthChallenge_def
      CreateAuthResponse_def make_frame_def length_pad_control protocol_simps)

end
