(* ===== verification/Broker.thy ===== *)
theory Broker
  imports Protocol
begin

text \<open>
  The message store of the relay (\<^verbatim>\<open>libs/domain/server/src/message_broker.cpp\<close>) and the interface through
  which sessions use it (\<^verbatim>\<open>libs/protocol/include/protocol/i_frame_handler.h\<close>).  The hash map from
  mailboxes to queues is a map, a queue a list with the front first.  The locale states the contract
  of \<^verbatim>\<open>IFrameHandler\<close>: bounded first-in first-out queues, one for each mailbox.
\<close>

section \<open>The broker\<close>

record MessageBroker =
  queues :: "bytes \<rightharpoonup> frame list"
  maxMessages :: "32 word"

definition new_broker :: "32 word \<Rightarrow> MessageBroker" where
  "new_broker maxMessagesPerMailbox = \<lparr>queues = Map.empty, maxMessages = maxMessagesPerMailbox\<rparr>"

text \<open>\<^verbatim>\<open>queues[mid]\<close> inserts an empty queue when there is none.\<close>

definition queue_ref :: "bytes \<Rightarrow> MessageBroker \<Rightarrow> frame list" where
  "queue_ref mid b = (case queues b mid of Some q \<Rightarrow> q | None \<Rightarrow> [])"

definition ProcessPush :: "frame \<Rightarrow> MessageBroker \<Rightarrow> MessageBroker" where
  "ProcessPush f b =
     (let mid = fr_mailbox f; q = queue_ref mid b in
      if unat (maxMessages b) \<le> length q then b\<lparr>queues := (queues b)(mid \<mapsto> q)\<rparr>
      else b\<lparr>queues := (queues b)(mid \<mapsto> q @ [f])\<rparr>)"

definition ProcessPoll :: "bytes \<Rightarrow> MessageBroker \<Rightarrow> frame option \<times> MessageBroker" where
  "ProcessPoll mid b =
     (case queues b mid of
        None \<Rightarrow> (None, b)
      | Some [] \<Rightarrow> (None, b)
      | Some (f # q) \<Rightarrow>
          (Some f, b\<lparr>queues := (if q = [] then (queues b)(mid := None) else (queues b)(mid \<mapsto> q))\<rparr>))"

section \<open>The contract\<close>

locale frame_handler =
  fixes push :: "frame \<Rightarrow> 'b \<Rightarrow> 'b"
    and poll :: "bytes \<Rightarrow> 'b \<Rightarrow> frame option \<times> 'b"
    and waiting :: "bytes \<Rightarrow> 'b \<Rightarrow> frame list"
    and room :: "'b \<Rightarrow> nat"
  assumes push_waiting: "waiting mid (push f b) =
      (if mid = fr_mailbox f \<and> length (waiting mid b) < room b then waiting mid b @ [f] else waiting mid b)"
    and push_room: "room (push f b) = room b"
    and poll_result: "fst (poll mid b) = (case waiting mid b of [] \<Rightarrow> None | f # q \<Rightarrow> Some f)"
    and poll_waiting: "waiting mid' (snd (poll mid b)) = (if mid' = mid then tl (waiting mid b) else waiting mid' b)"
    and poll_room: "room (snd (poll mid b)) = room b"
begin

lemma push_bounded: "length (waiting mid b) \<le> room b \<Longrightarrow> length (waiting mid (push f b)) \<le> room (push f b)"
  by (auto simp: push_waiting push_room)

lemma poll_bounded: "length (waiting m b) \<le> room b \<Longrightarrow> length (waiting m (snd (poll mid b))) \<le> room (snd (poll mid b))"
  by (auto simp: poll_waiting poll_room)

end

datatype operation = Push frame | Poll bytes

text \<open>The operations in order, with the frames the store took and the ones it gave out.\<close>

fun run_handler ::
  "(frame \<Rightarrow> 'b \<Rightarrow> 'b) \<Rightarrow> (bytes \<Rightarrow> 'b \<Rightarrow> frame option \<times> 'b) \<Rightarrow> (bytes \<Rightarrow> 'b \<Rightarrow> frame list) \<Rightarrow> ('b \<Rightarrow> nat) \<Rightarrow>
   operation list \<Rightarrow> 'b \<Rightarrow> frame list \<times> (bytes \<times> frame) list \<times> 'b" where
  "run_handler push poll waiting room [] b = ([], [], b)"
| "run_handler push poll waiting room (Push f # ops) b =
     (let taken = (if length (waiting (fr_mailbox f) b) < room b then [f] else []) in
      case run_handler push poll waiting room ops (push f b) of (ins, outs, b'') \<Rightarrow> (taken @ ins, outs, b''))"
| "run_handler push poll waiting room (Poll mid # ops) b =
     (case poll mid b of (r, b') \<Rightarrow>
      case run_handler push poll waiting room ops b' of
        (ins, outs, b'') \<Rightarrow> (ins, (case r of Some f \<Rightarrow> [(mid, f)] | None \<Rightarrow> []) @ outs, b''))"

context frame_handler
begin

lemma run_fifo:
  assumes "run_handler push poll waiting room ops b = (ins, outs, b')"
  shows "waiting mid b @ filter (\<lambda>f. fr_mailbox f = mid) ins =
    map snd (filter (\<lambda>(m, _). m = mid) outs) @ waiting mid b'"
  using assms
proof (induction ops arbitrary: b ins outs)
  case (Cons x ops)
  show ?case
  proof (cases x)
    case (Push f)
    obtain i1 where i1: "run_handler push poll waiting room ops (push f b) = (i1, outs, b')"
      "ins = (if length (waiting (fr_mailbox f) b) < room b then [f] else []) @ i1"
      using Cons.prems Push by (auto simp: Let_def split: prod.splits)
    from Cons.IH [OF i1(1)] show ?thesis unfolding i1(2) by (auto simp: push_waiting)
  next
    case (Poll m)
    obtain o1 where o1: "run_handler push poll waiting room ops (snd (poll m b)) = (ins, o1, b')"
      "outs = (case fst (poll m b) of Some f \<Rightarrow> [(m, f)] | None \<Rightarrow> []) @ o1"
      using Cons.prems Poll by (auto split: prod.splits)
    from Cons.IH [OF o1(1)] show ?thesis unfolding o1(2)
      by (cases "waiting m b") (auto simp: poll_result poll_waiting split: if_splits)
  qed
qed simp

lemma run_bounded:
  assumes "run_handler push poll waiting room ops b = (ins, outs, b')" "\<And>m. length (waiting m b) \<le> room b"
  shows "length (waiting mid b') \<le> room b' \<and> room b' = room b"
  using assms
proof (induction ops arbitrary: b ins outs)
  case (Cons x ops)
  show ?case
  proof (cases x)
    case (Push f)
    then show ?thesis using Cons.IH [of "push f b"] Cons.prems push_bounded push_room
      by (auto simp: Let_def split: prod.splits)
  next
    case (Poll m)
    then show ?thesis using Cons.IH [of "snd (poll m b)"] Cons.prems poll_bounded poll_room
      by (auto split: prod.splits)
  qed
qed simp

end

definition broker_room :: "MessageBroker \<Rightarrow> nat" where
  "broker_room b = unat (maxMessages b)"

interpretation mb: frame_handler ProcessPush ProcessPoll queue_ref broker_room
  by unfold_locales
    (auto simp: ProcessPush_def ProcessPoll_def queue_ref_def broker_room_def Let_def
      split: option.splits list.splits)

section \<open>The stored queues\<close>

definition broker_ok :: "MessageBroker \<Rightarrow> bool" where
  "broker_ok b \<longleftrightarrow>
     (\<forall>mid q. queues b mid = Some q \<longrightarrow>
        length q \<le> unat (maxMessages b) \<and> (maxMessages b \<noteq> 0 \<longrightarrow> q \<noteq> []) \<and>
        list_all (\<lambda>f. fr_mailbox f = mid) q)"

lemma broker_ok_new: "broker_ok (new_broker n)"
  by (simp add: broker_ok_def new_broker_def)

lemma broker_ok_push: "broker_ok b \<Longrightarrow> broker_ok (ProcessPush f b)"
  by (fastforce simp: broker_ok_def ProcessPush_def queue_ref_def Let_def unat_eq_0 split: option.splits if_splits)

lemma broker_ok_poll: "broker_ok b \<Longrightarrow> broker_ok (snd (ProcessPoll mid b))"
  by (fastforce simp: broker_ok_def ProcessPoll_def split: option.splits list.splits)

lemma run_broker_ok:
  "broker_ok b \<Longrightarrow> broker_ok (snd (snd (run_handler ProcessPush ProcessPoll queue_ref broker_room ops b)))"
proof (induction ops arbitrary: b)
  case (Cons x ops)
  then show ?case using broker_ok_push broker_ok_poll
    by (cases x) (simp_all add: Let_def case_prod_unfold)
qed simp

text \<open>C15: Over any sequence of pushes and polls the relay's store is a bounded first-in first-out queue for
  each mailbox.  The frames polled from a mailbox followed by the ones left in it are exactly the ones
  that were there followed by the ones admitted for it, in order: nothing is lost, duplicated, reordered
  or handed to another mailbox, and a push is dropped only when its mailbox is full.  The invariant of
  the map is kept: no queue exceeds the quota, none is left empty unless the quota is zero, and each
  frame is under its own mailbox.\<close>

theorem broker_fifo:
  assumes "broker_ok b" "run_handler ProcessPush ProcessPoll queue_ref broker_room ops b = (ins, outs, b')"
  shows "broker_ok b' \<and> maxMessages b' = maxMessages b \<and>
    queue_ref mid b @ filter (\<lambda>f. fr_mailbox f = mid) ins =
    map snd (filter (\<lambda>(m, _). m = mid) outs) @ queue_ref mid b'"
proof -
  have "length (queue_ref m b) \<le> broker_room b" for m
    using assms(1) by (auto simp: broker_ok_def queue_ref_def broker_room_def split: option.splits)
  then have "maxMessages b' = maxMessages b"
    using mb.run_bounded [OF assms(2)] by (simp add: broker_room_def word_unat_eq_iff)
  moreover have "broker_ok b'" using run_broker_ok [OF assms(1), of ops] assms(2) by simp
  ultimately show ?thesis using mb.run_fifo [OF assms(2)] by blast
qed

theorem broker_fifo_witness:
  "let a = CreatePush [1] [7]; c = CreatePush [2] [8]; d = CreatePush [1] [9] in
   run_handler ProcessPush ProcessPoll queue_ref broker_room
     [Push a, Push c, Push d, Push a, Poll [1], Poll [3]] (new_broker 2) =
     ([a, c, d], [([1], a)], \<lparr>queues = [[1] \<mapsto> [d], [2] \<mapsto> [c]], maxMessages = 2\<rparr>) \<and>
   queue_ref [1] (new_broker 2) @ filter (\<lambda>f. fr_mailbox f = [1]) [a, c, d] =
     map snd (filter (\<lambda>(m, _). m = [1]) [([1 :: byte], a)]) @
     queue_ref [1] \<lparr>queues = [[1] \<mapsto> [d], [2] \<mapsto> [c]], maxMessages = 2\<rparr>"
proof -
  define a c d where fs: "a = CreatePush [1] [7]" "c = CreatePush [2] [8]" "d = CreatePush [1] [9]"
  have boxes: "fr_mailbox a = [1]" "fr_mailbox c = [2]" "fr_mailbox d = [1]"
    by (simp_all add: fs CreatePush_def make_frame_def)
  have run: "run_handler ProcessPush ProcessPoll queue_ref broker_room
      [Push a, Push c, Push d, Push a, Poll [1], Poll [3]] (new_broker 2) =
      ([a, c, d], [([1], a)], \<lparr>queues = [[1] \<mapsto> [d], [2] \<mapsto> [c]], maxMessages = 2\<rparr>)"
    by (simp add: boxes ProcessPush_def ProcessPoll_def queue_ref_def new_broker_def broker_room_def Let_def fun_upd_twist)
  show ?thesis
    using broker_fifo [OF broker_ok_new run, of "[1]"] run unfolding Let_def fs by blast
qed

end
