(* ===== verification/RelaySession.thy ===== *)
theory RelaySession
  imports CppStrings Broker
begin

text \<open>
  A connection at the relay (\<^verbatim>\<open>libs/network/src/tcp_session.cpp\<close>).  The socket is represented by whether it
  is open and by the buffers handed to \<^verbatim>\<open>async_write\<close>; a completion handler is a function that is
  applied when the operation it belongs to completes, and \<^verbatim>\<open>reading\<close> says that a read is outstanding.  The
  frame handler is the pair of its operations \<^verbatim>\<open>push\<close> and \<^verbatim>\<open>poll\<close> with the state \<^verbatim>\<open>b\<close> they work on, the
  hash of the sodium library the argument \<^verbatim>\<open>H\<close>, and \<^verbatim>\<open>randombytes_buf\<close> of the same library a function of the number of bytes.
\<close>

section \<open>The session\<close>

datatype SessionState = UNAUTHENTICATED | AUTHENTICATED

record TcpSession =
  is_open :: bool
  async_writes :: "bytes list"
  reading :: bool
  parser :: FrameParser
  writeQueue :: "bytes list"
  writeInProgress :: bool
  session_state :: SessionState
  currentChallenge :: bytes

definition new_session :: TcpSession where
  "new_session =
     \<lparr>is_open = True, async_writes = [], reading = False, parser = fresh_parser, writeQueue = [],
      writeInProgress = False, session_state = UNAUTHENTICATED, currentChallenge = []\<rparr>"

definition close_socket :: "TcpSession \<Rightarrow> TcpSession" where
  "close_socket s = s\<lparr>is_open := False\<rparr>"

definition ProcessWriteQueue :: "TcpSession \<Rightarrow> TcpSession" where
  "ProcessWriteQueue s =
     (if writeInProgress s \<or> writeQueue s = [] then s
      else s\<lparr>writeInProgress := True, async_writes := async_writes s @ [hd (writeQueue s)]\<rparr>)"

definition DoWrite :: "bytes \<Rightarrow> TcpSession \<Rightarrow> TcpSession" where
  "DoWrite frameData s = ProcessWriteQueue (s\<lparr>writeQueue := writeQueue s @ [frameData]\<rparr>)"

text \<open>The completion of \<^verbatim>\<open>async_write\<close>.\<close>

definition write_completed :: "bool \<Rightarrow> TcpSession \<Rightarrow> TcpSession" where
  "write_completed errorCode s =
     (let t = s\<lparr>writeInProgress := False, writeQueue := tl (writeQueue s)\<rparr> in
      if errorCode then close_socket t else ProcessWriteQueue t)"

definition DoRead :: "TcpSession \<Rightarrow> TcpSession" where
  "DoRead s = s\<lparr>reading := True\<rparr>"

definition challengSize :: nat where
  "challengSize = 32"

definition Start :: "(nat \<Rightarrow> bytes) \<Rightarrow> TcpSession \<Rightarrow> TcpSession" where
  "Start randombytes_buf s =
     (let t = s\<lparr>currentChallenge := randombytes_buf challengSize\<rparr>;
          dummyId = replicate mailboxIdSize 0;
          challengeFrame = CreateAuthChallenge dummyId (currentChallenge t) in
      DoRead (DoWrite (Serialize challengeFrame) t))"

definition HandleAuthResponse :: "(bytes \<Rightarrow> bytes) \<Rightarrow> frame \<Rightarrow> TcpSession \<Rightarrow> bool \<times> TcpSession" where
  "HandleAuthResponse H f s =
     (if fr_action f \<noteq> AUTH_RESPONSE then (False, close_socket s)
      else if length (fr_payload f) < 8 then (False, close_socket s)
      else
        let nonce = take 8 (fr_payload f);
            hashHex = HashPayload H (currentChallenge s @ nonce) in
        if prefix ''000'' hashHex then (True, s\<lparr>session_state := AUTHENTICATED\<rparr>)
        else (False, close_socket s))"

lemma DoWrite_fields [simp]:
  "parser (DoWrite d s) = parser s" "is_open (DoWrite d s) = is_open s" "reading (DoWrite d s) = reading s"
  "session_state (DoWrite d s) = session_state s" "currentChallenge (DoWrite d s) = currentChallenge s"
  by (simp_all add: DoWrite_def ProcessWriteQueue_def)

lemma parser_HandleAuthResponse [simp]: "parser (snd (HandleAuthResponse H f s)) = parser s"
  by (simp add: HandleAuthResponse_def close_socket_def Let_def)

lemma TryExtractFrame_Some: "TryExtractFrame p = (Some f, q) \<Longrightarrow> currentState p = FRAME_READY \<and> q = fresh_parser"
  by (auto simp: TryExtractFrame_def split: if_splits option.splits)

lemma fresh_parser_state [simp]: "currentState fresh_parser = READING_HEADER"
  by (simp add: fresh_parser_def)

lemma HandleAuthResponse_parser: "HandleAuthResponse H f s = (ok, u) \<Longrightarrow> parser u = parser s"
  by (metis parser_HandleAuthResponse snd_conv)

text \<open>The loop ends since a frame that was extracted leaves a fresh parser.\<close>

function ProcessExtractedFrame ::
  "(bytes \<Rightarrow> bytes) \<Rightarrow> (frame \<Rightarrow> 'b \<Rightarrow> 'b) \<Rightarrow> (bytes \<Rightarrow> 'b \<Rightarrow> frame option \<times> 'b) \<Rightarrow>
   TcpSession \<Rightarrow> 'b \<Rightarrow> TcpSession \<times> 'b" where
  "ProcessExtractedFrame H push poll s b =
     (case TryExtractFrame (parser s) of
        (None, p) \<Rightarrow> (s\<lparr>parser := p\<rparr>, b)
      | (Some f, p) \<Rightarrow>
          let t = s\<lparr>parser := p\<rparr> in
          if session_state t = UNAUTHENTICATED then
            (case HandleAuthResponse H f t of
               (ok, u) \<Rightarrow> if ok then ProcessExtractedFrame H push poll u b else (u, b))
          else if fr_action f = PUSH \<or> fr_action f = ACK then
            ProcessExtractedFrame H push poll t (push f b)
          else if fr_action f = POLL then
            (case poll (fr_mailbox f) b of
               (Some response, b') \<Rightarrow>
                 ProcessExtractedFrame H push poll (DoWrite (Serialize response) t) b'
             | (None, b') \<Rightarrow>
                 ProcessExtractedFrame H push poll (DoWrite (Serialize (CreatePoll (fr_mailbox f))) t) b')
          else ProcessExtractedFrame H push poll t b)"
  by auto
termination
  by (relation "measure (\<lambda>(H, push, poll, s, b). if currentState (parser s) = FRAME_READY then 1 else 0)")
    (auto dest!: TryExtractFrame_Some [OF sym] HandleAuthResponse_parser [OF sym])

declare ProcessExtractedFrame.simps [simp del]

text \<open>The loop of the read handler over the bytes that arrived, and the handler itself.\<close>

function read_loop ::
  "(bytes \<Rightarrow> bytes) \<Rightarrow> (frame \<Rightarrow> 'b \<Rightarrow> 'b) \<Rightarrow> (bytes \<Rightarrow> 'b \<Rightarrow> frame option \<times> 'b) \<Rightarrow>
   TcpSession \<Rightarrow> 'b \<Rightarrow> bytes \<Rightarrow> (TcpSession \<times> 'b) option" where
  "read_loop H push poll s b dataSpan =
     (if dataSpan = [] then Some (s, b)
      else
        (case FeedBytes (parser s) dataSpan of
           None \<Rightarrow> None
         | Some (consumed, p) \<Rightarrow>
             let t = s\<lparr>parser := p\<rparr>; rest = drop consumed dataSpan in
             if HasError (parser t) then Some (close_socket t, b)
             else
               (case ProcessExtractedFrame H push poll t b of
                  (u, b') \<Rightarrow>
                    if \<not> is_open u then Some (u, b')
                    else if consumed = 0 then Some (close_socket u, b')
                    else read_loop H push poll u b' rest)))"
  by auto
termination
  by (relation "measure (\<lambda>(H, push, poll, s, b, d). length d)") auto

declare read_loop.simps [simp del]

definition read_completed ::
  "(bytes \<Rightarrow> bytes) \<Rightarrow> (frame \<Rightarrow> 'b \<Rightarrow> 'b) \<Rightarrow> (bytes \<Rightarrow> 'b \<Rightarrow> frame option \<times> 'b) \<Rightarrow>
   bytes option \<Rightarrow> TcpSession \<Rightarrow> 'b \<Rightarrow> (TcpSession \<times> 'b) option" where
  "read_completed H push poll result s b =
     (let t = s\<lparr>reading := False\<rparr> in
      case result of
        None \<Rightarrow> Some (t, b)
      | Some readBuffer \<Rightarrow>
          map_option (\<lambda>(u, b'). (if is_open u then DoRead u else u, b')) (read_loop H push poll t b readBuffer))"

section \<open>What a session does with a stream\<close>

text \<open>The protocol of the relay, on frames: the first must solve the challenge, a \<^verbatim>\<open>PUSH\<close> or \<^verbatim>\<open>ACK\<close> is stored, a
  \<^verbatim>\<open>POLL\<close> is answered.  The result says whether the connection stays open, and lists the answers.\<close>

definition authentic :: "(bytes \<Rightarrow> bytes) \<Rightarrow> bytes \<Rightarrow> frame \<Rightarrow> bool" where
  "authentic H c f \<longleftrightarrow> fr_action f = AUTH_RESPONSE \<and> 8 \<le> length (fr_payload f) \<and>
     prefix ''000'' (HashPayload H (c @ take 8 (fr_payload f)))"

definition answer :: "bytes \<Rightarrow> frame option \<Rightarrow> bytes" where
  "answer mid r = Serialize (case r of Some f \<Rightarrow> f | None \<Rightarrow> CreatePoll mid)"

fun serve ::
  "(bytes \<Rightarrow> bytes) \<Rightarrow> (frame \<Rightarrow> 'b \<Rightarrow> 'b) \<Rightarrow> (bytes \<Rightarrow> 'b \<Rightarrow> frame option \<times> 'b) \<Rightarrow> bytes \<Rightarrow>
   SessionState \<Rightarrow> frame list \<Rightarrow> 'b \<Rightarrow> bool \<times> SessionState \<times> bytes list \<times> 'b" where
  "serve H push poll c st [] b = (True, st, [], b)"
| "serve H push poll c UNAUTHENTICATED (f # fs) b =
     (if authentic H c f then serve H push poll c AUTHENTICATED fs b
      else (False, UNAUTHENTICATED, [], b))"
| "serve H push poll c AUTHENTICATED (f # fs) b =
     (if fr_action f = PUSH \<or> fr_action f = ACK then serve H push poll c AUTHENTICATED fs (push f b)
      else if fr_action f = POLL then
        (case poll (fr_mailbox f) b of (r, b') \<Rightarrow>
         case serve H push poll c AUTHENTICATED fs b' of (ok, st, outs, b'') \<Rightarrow>
           (ok, st, answer (fr_mailbox f) r # outs, b''))
      else serve H push poll c AUTHENTICATED fs b)"

text \<open>Everything a session has written or will write.\<close>

definition session_output :: "TcpSession \<Rightarrow> bytes list" where
  "session_output s = async_writes s @ (if writeInProgress s then tl (writeQueue s) else writeQueue s)"

definition write_ok :: "TcpSession \<Rightarrow> bool" where
  "write_ok s \<longleftrightarrow> (writeInProgress s \<longrightarrow>
     writeQueue s \<noteq> [] \<and> async_writes s \<noteq> [] \<and> last (async_writes s) = hd (writeQueue s)) \<and>
     (is_open s \<and> \<not> writeInProgress s \<longrightarrow> writeQueue s = [])"

definition follows :: "TcpSession \<Rightarrow> bytes list \<Rightarrow> SessionState \<Rightarrow> TcpSession \<Rightarrow> bool" where
  "follows s outs st s' \<longleftrightarrow> session_state s' = st \<and> session_output s' = session_output s @ outs \<and> write_ok s' \<and>
     currentChallenge s' = currentChallenge s \<and> reading s' = reading s"

lemma session_output_DoWrite: "write_ok s \<Longrightarrow> session_output (DoWrite d s) = session_output s @ [d] \<and> write_ok (DoWrite d s)"
  by (cases "writeQueue s") (auto simp: session_output_def write_ok_def DoWrite_def ProcessWriteQueue_def)

lemma session_output_write_completed:
  "write_ok s \<Longrightarrow> writeInProgress s \<Longrightarrow> session_output (write_completed e s) = session_output s \<and> write_ok (write_completed e s)"
  by (cases "writeQueue s"; cases "tl (writeQueue s)")
    (auto simp: session_output_def write_ok_def write_completed_def ProcessWriteQueue_def close_socket_def Let_def)

lemma TryExtract_fresh [simp]: "TryExtractFrame fresh_parser = (None, fresh_parser)"
  by (simp add: TryExtractFrame_def)

lemma HandleAuthResponse_spec:
  "HandleAuthResponse H f s =
     (if authentic H (currentChallenge s) f then (True, s\<lparr>session_state := AUTHENTICATED\<rparr>) else (False, close_socket s))"
  by (auto simp: HandleAuthResponse_def authentic_def Let_def)

lemma ProcessExtractedFrame_None:
  "TryExtractFrame (parser s) = (None, p) \<Longrightarrow> ProcessExtractedFrame H push poll s b = (s\<lparr>parser := p\<rparr>, b)"
  by (subst ProcessExtractedFrame.simps) simp

lemma ProcessExtractedFrame_Some:
  assumes "TryExtractFrame (parser s) = (Some f, fresh_parser)"
  defines "t \<equiv> s\<lparr>parser := fresh_parser\<rparr>"
  shows "ProcessExtractedFrame H push poll s b =
    (if session_state s = UNAUTHENTICATED then
       (if authentic H (currentChallenge s) f then t\<lparr>session_state := AUTHENTICATED\<rparr> else close_socket t, b)
     else if fr_action f = PUSH \<or> fr_action f = ACK then (t, push f b)
     else if fr_action f = POLL then
       (DoWrite (answer (fr_mailbox f) (fst (poll (fr_mailbox f) b))) t, snd (poll (fr_mailbox f) b))
     else (t, b))"
proof -
  have stop: "parser u = fresh_parser \<Longrightarrow> ProcessExtractedFrame H push poll u b = (u, b)" for u b
    using ProcessExtractedFrame_None [of u fresh_parser] by (cases u) simp
  show ?thesis unfolding t_def
    by (subst ProcessExtractedFrame.simps)
      (simp add: assms(1) HandleAuthResponse_spec stop answer_def Let_def split: prod.splits option.splits)
qed

text \<open>The bytes of an unfinished frame, as the parser holds them between two reads.\<close>

definition unfinished :: "bytes \<Rightarrow> bool" where
  "unfinished c \<longleftrightarrow> \<not> complete c \<and> \<not> malformed c"

lemma unfinished_Nil [simp]: "unfinished []"
  by (simp add: unfinished_def complete_def malformed_def protocol_simps)

lemma unfinished_cut: "unfinished c \<Longrightarrow> frame_cut c = c"
  by (auto simp: unfinished_def complete_def frame_cut_def)

lemma decode_unfinished: "unfinished c \<Longrightarrow> decode c = ([], Pending c)"
  by (subst decode.simps) (simp add: unfinished_def)

text \<open>What one call of \<^verbatim>\<open>FeedBytes\<close> takes from a chunk.\<close>

lemma cut_complete:
  assumes "unfinished c" "complete (c @ d)"
  shows "0 < length (frame_cut (c @ d)) - length c"
    and "drop (length (frame_cut (c @ d)) - length c) d = drop (frame_size (c @ d)) (c @ d)"
proof -
  have lt: "length c < frame_size (c @ d)"
  proof (cases "headerSize \<le> length c")
    case True
    then show ?thesis using assms by (auto simp: unfinished_def complete_def)
  next
    case False
    then show ?thesis using headerSize_le_frame_size [of "c @ d"] by linarith
  qed
  have l: "length (frame_cut (c @ d)) = frame_size (c @ d)"
    using assms(2) unfolding frame_cut_def complete_def by (auto simp del: take_append)
  show "0 < length (frame_cut (c @ d)) - length c" using lt l by simp
  show "drop (length (frame_cut (c @ d)) - length c) d = drop (frame_size (c @ d)) (c @ d)"
    unfolding l using lt by simp
qed

lemma cut_unfinished: "unfinished (c @ d) \<Longrightarrow> length (frame_cut (c @ d)) - length c = length d"
  by (simp add: unfinished_cut)

definition settles :: "bool \<Rightarrow> ending \<Rightarrow> TcpSession \<Rightarrow> bool" where
  "settles ok e s \<longleftrightarrow>
     (case e of Pending r \<Rightarrow> if ok then is_open s \<and> parser s = parser_of r else \<not> is_open s
      | Malformed \<Rightarrow> \<not> is_open s)"

lemma follows_trans: "follows s o1 st1 t \<Longrightarrow> follows t o2 st2 u \<Longrightarrow> follows s (o1 @ o2) st2 u"
  by (simp add: follows_def)

text \<open>One frame: either the session is closed, or the rest of the stream is served from where it is.\<close>

lemma frame_served:
  assumes t: "TryExtractFrame (parser t) = (fo, fresh_parser)" "write_ok t"
    and sv: "serve H push poll (currentChallenge t) (session_state t) (case fo of Some f \<Rightarrow> f # fs | None \<Rightarrow> fs) b =
      (ok, st, outs, b')"
  obtains (closed) u where "ProcessExtractedFrame H push poll t b = (u, b')" "\<not> is_open u" "\<not> ok" "follows t outs st u"
  | (goes_on) u b1 o1 o2 where "ProcessExtractedFrame H push poll t b = (u, b1)" "is_open u = is_open t" "parser u = fresh_parser"
      "outs = o1 @ o2" "follows t o1 (session_state u) u"
      "serve H push poll (currentChallenge u) (session_state u) fs b1 = (ok, st, o2, b')"
proof (cases fo)
  case None
  then show thesis
    using ProcessExtractedFrame_None [of t fresh_parser H push poll b] t sv
    by (intro goes_on [where u = "t\<lparr>parser := fresh_parser\<rparr>"]) (auto simp: follows_def session_output_def write_ok_def)
next
  case (Some f)
  note step = ProcessExtractedFrame_Some [OF t(1) [unfolded Some], of H push poll b]
  let ?u = "t\<lparr>parser := fresh_parser\<rparr>"
  have w: "write_ok ?u" "session_output ?u = session_output t" using t(2) by (simp_all add: write_ok_def session_output_def)
  show thesis
  proof (cases "session_state t")
    case UNAUTHENTICATED
    show thesis
    proof (cases "authentic H (currentChallenge t) f")
      case True
      then show thesis using UNAUTHENTICATED step sv Some t w
        by (intro goes_on [where u = "?u\<lparr>session_state := AUTHENTICATED\<rparr>"])
          (auto simp: follows_def session_output_def write_ok_def)
    next
      case False
      then show thesis using UNAUTHENTICATED step sv Some t w
        by (intro closed [where u = "close_socket ?u"])
          (auto simp: follows_def session_output_def write_ok_def close_socket_def)
    qed
  next
    case AUTHENTICATED
    show thesis
    proof (cases "fr_action f = POLL")
      case False
      then show thesis using AUTHENTICATED step sv Some t w
        by (intro goes_on [where u = ?u and ?o1.0 = "[]" and ?o2.0 = outs and
              ?b1.0 = "if fr_action f = PUSH \<or> fr_action f = ACK then push f b else b"])
          (auto simp: follows_def split: if_splits)
    next
      case True
      let ?r = "answer (fr_mailbox f) (fst (poll (fr_mailbox f) b))"
      have act: "POLL \<noteq> PUSH" "POLL \<noteq> ACK" by (simp_all add: protocol_simps)
      obtain o2 where o2: "outs = [?r] @ o2"
          "serve H push poll (currentChallenge t) AUTHENTICATED fs (snd (poll (fr_mailbox f) b)) = (ok, st, o2, b')"
        using sv True AUTHENTICATED Some act by (auto split: prod.splits)
      show thesis using True AUTHENTICATED step t w o2 act session_output_DoWrite [OF w(1), of ?r]
        by (intro goes_on [where u = "DoWrite ?r ?u" and ?o1.0 = "[?r]" and ?o2.0 = o2 and
              ?b1.0 = "snd (poll (fr_mailbox f) b)"]) (auto simp: follows_def)
    qed
  qed
qed

lemma read_loop_step:
  assumes "data \<noteq> []" "FeedBytes (parser s) data = Some (k, p)" "\<not> HasError p" "0 < k"
  shows "read_loop H push poll s b data =
    (case ProcessExtractedFrame H push poll (s\<lparr>parser := p\<rparr>) b of
       (u, b1) \<Rightarrow> if \<not> is_open u then Some (u, b1) else read_loop H push poll u b1 (drop k data))"
  using assms by (subst read_loop.simps) (simp add: Let_def split: prod.split)

lemma read_loop_spec:
  assumes "parser s = parser_of c" "unfinished c" "is_open s" "write_ok s"
    "decode (c @ data) = (fs, e)"
    "serve H push poll (currentChallenge s) (session_state s) fs b = (ok, st, outs, b')"
  shows "\<exists>s'. read_loop H push poll s b data = Some (s', b') \<and> follows s outs st s' \<and> settles ok e s'"
  using assms
proof (induction "length data" arbitrary: s b c data fs outs rule: less_induct)
  case less
  note cut = unfinished_cut [OF less.prems(2)]
  show ?case
  proof (cases "data = []")
    case True
    then show ?thesis using less.prems decode_unfinished [of c]
      by (auto simp: read_loop.simps follows_def settles_def)
  next
    case False
    let ?x = "c @ data" and ?t = "s\<lparr>parser := parser_of (frame_cut (c @ data))\<rparr>"
    have feed: "FeedBytes (parser s) data = Some (length (frame_cut ?x) - length c, parser_of (frame_cut ?x))"
      using FeedBytes_spec [OF cut] less.prems(1) by simp
    consider "malformed ?x" | "complete ?x" "\<not> malformed ?x" | "unfinished ?x"
      by (auto simp: unfinished_def)
    then show ?thesis
    proof cases
      case 1
      then have "HasError (parser_of (frame_cut ?x))"
        using TryExtractFrame_incomplete(2) [of ?x] by (auto simp: complete_def)
      moreover have "fs = []" "e = Malformed" using 1 less.prems(5) by (simp_all add: decode.simps [of ?x])
      ultimately show ?thesis using False feed less.prems
        by (subst read_loop.simps) (simp add: Let_def close_socket_def follows_def settles_def session_output_def write_ok_def)
    next
      case 3
      then have "\<not> HasError (parser_of (frame_cut ?x))"
          "TryExtractFrame (parser ?t) = (None, parser_of (frame_cut ?x))"
        using TryExtractFrame_incomplete [of ?x] by (auto simp: unfinished_def)
      moreover have "fs = []" "e = Pending ?x" using decode_unfinished [OF 3] less.prems(5) by simp_all
      ultimately show ?thesis using False feed less.prems cut_unfinished [OF 3] unfinished_cut [OF 3]
        by (subst read_loop.simps)
          (simp add: ProcessExtractedFrame_None Let_def read_loop.simps [where dataSpan = "[]"] follows_def settles_def session_output_def write_ok_def)
    next
      case 2
      let ?k = "length (frame_cut ?x) - length c" and ?r = "drop (frame_size ?x) ?x"
      obtain fs' where fs: "decode ?r = (fs', e)" "fs = (case frame_at ?x of Some f \<Rightarrow> f # fs' | None \<Rightarrow> fs')"
        using 2 less.prems(5) by (auto simp: decode.simps [of ?x] split: prod.splits)
      have k: "0 < ?k" "drop ?k data = ?r" using cut_complete [OF less.prems(2) 2(1)] by simp_all
      have lt: "length (drop ?k data) < length data" unfolding length_drop using k(1) False by (intro diff_less) auto
      have t: "TryExtractFrame (parser ?t) = (frame_at ?x, fresh_parser)" "write_ok ?t" "is_open ?t"
        using TryExtractFrame_complete [OF 2(1)] less.prems by (simp_all add: write_ok_def)
      have loop: "read_loop H push poll s b data =
          (case ProcessExtractedFrame H push poll ?t b of
             (u, b1) \<Rightarrow> if \<not> is_open u then Some (u, b1) else read_loop H push poll u b1 ?r)"
        using read_loop_step [OF False feed HasError_complete [OF 2(1)] k(1)] unfolding k(2) .
      have st: "follows ?t os st v = follows s os st v" for os st v by (simp add: follows_def session_output_def)
      have sv: "serve H push poll (currentChallenge ?t) (session_state ?t)
          (case frame_at ?x of Some f \<Rightarrow> f # fs' | None \<Rightarrow> fs') b = (ok, st, outs, b')"
        using less.prems(6) fs(2) by simp
      from t(1,2) sv show ?thesis
      proof (cases rule: frame_served)
        case (closed u)
        then show ?thesis unfolding loop st by (auto simp: settles_def split: ending.splits)
      next
        case (goes_on u b1 o1 o2)
        obtain s' where s': "read_loop H push poll u b1 ?r = Some (s', b')" "follows u o2 st s'" "settles ok e s'"
          using less.hyps [OF lt, of u "[]" fs' b1 o2] goes_on fs(1) k(2) t(3) by (auto simp: follows_def)
        then show ?thesis
          using goes_on t(3) follows_trans [OF goes_on(5) s'(2)] unfolding loop st by auto
      qed
    qed
  qed
qed

section \<open>Reads in sequence\<close>

lemma complete_append: "complete s \<Longrightarrow> complete (s @ d)"
  by (auto simp: complete_def)

lemma frame_at_append:
  assumes "complete s"
  shows "frame_at (s @ d) = frame_at s" "drop (frame_size (s @ d)) (s @ d) = drop (frame_size s) s @ d"
proof -
  have l: "headerSize \<le> length s" "frame_size s \<le> length s" using assms by (simp_all add: complete_def)
  then have "0 < length s" "17 \<le> length s" by (auto simp: protocol_simps)
  then have "(s @ d) ! 0 = s ! 0" "take mailboxIdSize (drop 1 (s @ d)) = take mailboxIdSize (drop 1 s)"
    by (auto simp: nth_append protocol_simps)
  moreover have "take (frame_size s) (s @ d) = take (frame_size s) s" using l by simp
  ultimately show "frame_at (s @ d) = frame_at s" using l unfolding frame_at_def by (simp only: frame_size_append)
  show "drop (frame_size (s @ d)) (s @ d) = drop (frame_size s) s @ d" using l by simp
qed

lemma decode_append:
  "decode s = (fs, e) \<Longrightarrow> decode (s @ d) =
     (case e of Malformed \<Rightarrow> (fs, Malformed)
      | Pending r \<Rightarrow> (case decode (r @ d) of (gs, e') \<Rightarrow> (fs @ gs, e')))"
proof (induction s arbitrary: fs rule: decode.induct)
  case (1 s)
  show ?case
  proof (cases "complete s")
    case True
    then have nm: "\<not> malformed s" "\<not> malformed (s @ d)" by (auto simp: complete_def)
    obtain gs where gs: "decode (drop (frame_size s) s) = (gs, e)"
        "fs = (case frame_at s of Some f \<Rightarrow> f # gs | None \<Rightarrow> gs)"
      using 1(2) True nm by (auto simp: decode.simps [of s] split: prod.splits)
    have "decode (s @ d) =
        (case decode (drop (frame_size s) s @ d) of
           (fs, e) \<Rightarrow> ((case frame_at s of Some f \<Rightarrow> f # fs | None \<Rightarrow> fs), e))"
      using complete_append [OF True, of d] nm(2) unfolding decode.simps [of "s @ d"] frame_at_append [OF True] by simp
    then show ?thesis unfolding 1(1) [OF nm(1) True gs(1)] gs(2)
      by (simp split: ending.splits prod.splits option.splits)
  next
    case False
    show ?thesis
    proof (cases "malformed s")
      case True
      then have "malformed (s @ d)" by (simp add: malformed_def header_length_def protocol_simps)
      then show ?thesis using True 1(2) by (simp add: decode.simps [of s] decode.simps [of "s @ d"])
    next
      case nm: False
      then show ?thesis using False 1(2) by (auto simp: decode.simps [of s] split: prod.split)
    qed
  qed
qed

lemma decode_pending: "decode s = (fs, Pending r) \<Longrightarrow> unfinished r"
proof (induction s arbitrary: fs rule: decode.induct)
  case (1 s)
  then show ?case by (auto simp: decode.simps [of s] unfinished_def split: if_splits prod.splits)
qed

lemma serve_append:
  "serve H push poll c st (fs @ gs) b =
     (case serve H push poll c st fs b of (ok, st', outs, b') \<Rightarrow>
      if ok then (case serve H push poll c st' gs b' of (ok', st'', outs', b'') \<Rightarrow> (ok', st'', outs @ outs', b''))
      else (ok, st', outs, b'))"
  by (induction H push poll c st fs b rule: serve.induct) (auto split: prod.splits)

lemma read_completed_spec:
  assumes "parser s = parser_of c" "unfinished c" "is_open s" "write_ok s" "decode (c @ d) = (fs, e)"
    "serve H push poll (currentChallenge s) (session_state s) fs b = (ok, st, outs, b')"
  obtains s' where "read_completed H push poll (Some d) s b = Some (s', b')" "session_state s' = st"
    "session_output s' = session_output s @ outs" "write_ok s'" "currentChallenge s' = currentChallenge s" "settles ok e s'"
    "reading s' = is_open s'"
proof -
  let ?t = "s\<lparr>reading := False\<rparr>"
  have "parser ?t = parser_of c" "is_open ?t" "write_ok ?t"
      "serve H push poll (currentChallenge ?t) (session_state ?t) fs b = (ok, st, outs, b')"
    using assms by (simp_all add: write_ok_def)
  from read_loop_spec [OF this(1) assms(2) this(2,3) assms(5) this(4)]
  obtain u where u: "read_loop H push poll ?t b d = Some (u, b')" "follows ?t outs st u" "settles ok e u" by blast
  let ?v = "if is_open u then DoRead u else u"
  have "read_completed H push poll (Some d) s b = Some (?v, b')"
    using u(1) by (simp add: read_completed_def)
  moreover have "session_state ?v = st" "session_output ?v = session_output s @ outs" "write_ok ?v"
      "currentChallenge ?v = currentChallenge s" "settles ok e ?v" "reading ?v = is_open ?v"
    using u(2,3) by (auto simp: follows_def session_output_def write_ok_def settles_def DoRead_def split: ending.splits if_splits)
  ultimately show thesis by (rule that)
qed

text \<open>A read that had completed when the socket was closed is still handled: of its bytes, the first frame.\<close>

definition first_frame :: "bytes \<Rightarrow> frame list" where
  "first_frame x = (if complete x then (case frame_at x of Some f \<Rightarrow> [f] | None \<Rightarrow> []) else [])"

lemma read_loop_late:
  assumes s: "parser s = parser_of c" "unfinished c" "\<not> is_open s" "write_ok s"
    and sv: "serve H push poll (currentChallenge s) (session_state s) (first_frame (c @ d)) b = (ok, st, outs, b')"
  shows "\<exists>s'. read_loop H push poll s b d = Some (s', b') \<and> follows s outs st s' \<and> \<not> is_open s'"
proof (cases "d = []")
  case True
  then have "first_frame (c @ d) = []" using s(2) by (simp add: first_frame_def unfinished_def)
  then show ?thesis using True s sv by (auto simp: read_loop.simps follows_def)
next
  case False
  let ?x = "c @ d" and ?t = "s\<lparr>parser := parser_of (frame_cut (c @ d))\<rparr>"
  have feed: "FeedBytes (parser s) d = Some (length (frame_cut ?x) - length c, parser_of (frame_cut ?x))"
    using FeedBytes_spec [OF unfinished_cut [OF s(2)]] s(1) by simp
  have t: "write_ok ?t" "\<And>os st v. follows ?t os st v = follows s os st v"
    using s(4) by (simp_all add: follows_def session_output_def write_ok_def)
  show ?thesis
  proof (cases "complete ?x")
    case True
    have sv1: "serve H push poll (currentChallenge ?t) (session_state ?t)
        (case frame_at ?x of Some f \<Rightarrow> f # [] | None \<Rightarrow> []) b = (ok, st, outs, b')"
      using sv True by (simp add: first_frame_def)
    have "TryExtractFrame (parser ?t) = (frame_at ?x, fresh_parser)" using TryExtractFrame_complete [OF True] by simp
    then have "\<exists>u. ProcessExtractedFrame H push poll ?t b = (u, b') \<and> \<not> is_open u \<and> follows s outs st u"
      by (rule frame_served [OF _ t(1) sv1]) (use s(3) t(2) in auto)
    then show ?thesis using False feed HasError_complete [OF True] by (subst read_loop.simps) (auto simp: Let_def)
  next
    case nc: False
    then have "first_frame ?x = []" by (simp add: first_frame_def)
    with sv have r: "b' = b" "st = session_state s" "outs = []" by simp_all
    show ?thesis
    proof (cases "HasError (parser_of (frame_cut ?x))")
      case True
      then show ?thesis using False feed r s
        by (subst read_loop.simps) (simp add: Let_def close_socket_def follows_def session_output_def write_ok_def)
    next
      case ok: False
      have "TryExtractFrame (parser ?t) = (None, parser_of (frame_cut ?x))"
        using TryExtractFrame_incomplete(1) [OF nc] by simp
      then show ?thesis using False feed ok r s
        by (subst read_loop.simps)
          (simp add: Let_def ProcessExtractedFrame_None follows_def session_output_def write_ok_def)
    qed
  qed
qed

text \<open>The chunks arrive one after the other, as long as the session reads.\<close>

fun reads ::
  "(bytes \<Rightarrow> bytes) \<Rightarrow> (frame \<Rightarrow> 'b \<Rightarrow> 'b) \<Rightarrow> (bytes \<Rightarrow> 'b \<Rightarrow> frame option \<times> 'b) \<Rightarrow>
   bytes list \<Rightarrow> TcpSession \<Rightarrow> 'b \<Rightarrow> (TcpSession \<times> 'b) option" where
  "reads H push poll [] s b = Some (s, b)"
| "reads H push poll (d # ds) s b =
     (if reading s then
        (case read_completed H push poll (Some d) s b of
           None \<Rightarrow> None
         | Some (s', b') \<Rightarrow> reads H push poll ds s' b')
      else Some (s, b))"

lemma reads_closed: "\<not> reading s \<Longrightarrow> reads H push poll ds s b = Some (s, b)"
  by (cases ds) simp_all

lemma reads_spec:
  assumes "parser s = parser_of c" "unfinished c" "is_open s" "write_ok s" "reading s"
    "decode (c @ concat ds) = (fs, e)"
    "serve H push poll (currentChallenge s) (session_state s) fs b = (ok, st, outs, b')"
  shows "\<exists>s'. reads H push poll ds s b = Some (s', b') \<and> session_state s' = st \<and>
    session_output s' = session_output s @ outs \<and> write_ok s' \<and> is_open s' = (ok \<and> e \<noteq> Malformed) \<and>
    settles ok e s' \<and> reading s' = is_open s'"
  using assms
proof (induction ds arbitrary: s b c fs outs)
  case Nil
  then show ?case using decode_unfinished [of c] by (auto simp: settles_def)
next
  case (Cons d ds)
  obtain f1 e1 where d1: "decode (c @ d) = (f1, e1)" by fastforce
  obtain ok1 st1 o1 b1 where s1: "serve H push poll (currentChallenge s) (session_state s) f1 b = (ok1, st1, o1, b1)"
    by (metis prod_cases4)
  obtain t where t: "read_completed H push poll (Some d) s b = Some (t, b1)" "session_state t = st1"
      "session_output t = session_output s @ o1" "write_ok t" "currentChallenge t = currentChallenge s" "settles ok1 e1 t"
      "reading t = is_open t"
    by (rule read_completed_spec [OF Cons.prems(1-4) d1 s1])
  have step: "reads H push poll (d # ds) s b = reads H push poll ds t b1" using t(1) Cons.prems(5) by simp
  have dec: "(case e1 of Malformed \<Rightarrow> (f1, Malformed)
      | Pending r \<Rightarrow> (case decode (r @ concat ds) of (gs, e') \<Rightarrow> (f1 @ gs, e'))) = (fs, e)"
    using decode_append [OF d1, of "concat ds"] Cons.prems(6) by simp
  show ?case
  proof (cases "ok1 \<and> e1 \<noteq> Malformed")
    case False
    then have cl: "\<not> is_open t" using t(6) by (auto simp: settles_def split: ending.splits)
    have "\<exists>gs. fs = f1 @ gs \<and> (e1 = Malformed \<longrightarrow> gs = [] \<and> e = Malformed)"
      using dec by (auto split: ending.splits prod.splits)
    then have "(ok, st, outs, b') = (ok1, st1, o1, b1) \<and> \<not> (ok \<and> e \<noteq> Malformed)"
      using False Cons.prems(7) s1 by (auto simp: serve_append)
    then show ?thesis unfolding step using cl t by (auto simp: reads_closed settles_def split: ending.splits)
  next
    case True
    then obtain r where r: "e1 = Pending r" "ok1" by (cases e1) auto
    have o: "is_open t" "parser t = parser_of r" using t(6) r by (simp_all add: settles_def)
    obtain gs where gs: "decode (r @ concat ds) = (gs, e)" "fs = f1 @ gs" using dec r by (auto split: prod.splits)
    obtain o2 where o2: "serve H push poll (currentChallenge t) (session_state t) gs b1 = (ok, st, o2, b')" "outs = o1 @ o2"
      using Cons.prems(7) s1 r(2) gs(2) t(2,5) by (auto simp: serve_append split: prod.splits)
    show ?thesis using Cons.IH [OF o(2) decode_pending o(1) t(4) _ gs(1) o2(1)] d1 r(1) t(3,7) o(1) o2(2) step by simp
  qed
qed

lemma Start_session:
  "parser (Start rb new_session) = parser_of []" "is_open (Start rb new_session)"
  "write_ok (Start rb new_session)" "reading (Start rb new_session)"
  "session_state (Start rb new_session) = UNAUTHENTICATED"
  "currentChallenge (Start rb new_session) = rb challengSize"
  "session_output (Start rb new_session) = [Serialize (CreateAuthChallenge (replicate mailboxIdSize 0) (rb challengSize))]"
  by (simp_all add: Start_def new_session_def DoRead_def DoWrite_def ProcessWriteQueue_def write_ok_def session_output_def Let_def)

text \<open>C14: A session of the relay does with the bytes of its client what the protocol says of the frames in
  them, in whatever pieces they arrive: the read handler ends, the frame handler goes through the
  operations of \<^verbatim>\<open>serve\<close> on the decoded frames and no others, the session writes its challenge and the
  answers in order, is authenticated when \<^verbatim>\<open>serve\<close> is, and stays open unless the first frame did not solve
  the challenge or a header announced an oversized payload.\<close>

theorem relay_session_stream:
  "case decode (concat chunks) of (fs, e) \<Rightarrow>
   case serve H push poll (rb challengSize) UNAUTHENTICATED fs b of (ok, st, outs, b') \<Rightarrow>
     (\<exists>s'. reads H push poll chunks (Start rb new_session) b = Some (s', b') \<and> session_state s' = st \<and>
        session_output s' = Serialize (CreateAuthChallenge (replicate mailboxIdSize 0) (rb challengSize)) # outs \<and>
        is_open s' = (ok \<and> e \<noteq> Malformed))"
proof -
  obtain fs e where d: "decode ([] @ concat chunks) = (fs, e)" by fastforce
  obtain ok st outs b' where sv: "serve H push poll (rb challengSize) UNAUTHENTICATED fs b = (ok, st, outs, b')"
    by (metis prod_cases4)
  have "serve H push poll (currentChallenge (Start rb new_session)) (session_state (Start rb new_session)) fs b =
      (ok, st, outs, b')" using sv by (simp only: Start_session)
  from reads_spec [OF Start_session(1) unfinished_Nil Start_session(2-4) d this] show ?thesis
    using d sv by (auto simp: Start_session)
qed

end
