(* ===== verification/Relay.thy ===== *)
theory Relay
  imports RelaySession PyStr
begin

text \<open>
  The relay server: its guard on resident memory (\<^verbatim>\<open>libs/network/src/memory_monitor.cpp\<close>), the accept loop
  (\<^verbatim>\<open>libs/network/src/tcp_server.cpp\<close>) and the event loop as a step relation in which any outstanding
  operation may complete next.  It refines a machine whose connections hold the bytes of an unfinished frame
  and whose mailboxes are lists of frames.
\<close>

section \<open>The memory monitor\<close>

record MemoryMonitor =
  memoryLimitBytes :: "64 word"
  isQuotaExceeded :: bool

definition statusBufferSize :: nat where "statusBufferSize = 2048"
definition bytesInKb :: "64 word" where "bytesInKb = 1024"
definition percentMax :: "64 word" where "percentMax = 100"
definition defaultFallbackRam :: "64 word" where "defaultFallbackRam = 1073741824"

definition CalculateMemoryLimit :: "int \<Rightarrow> int \<Rightarrow> byte \<Rightarrow> 64 word" where
  "CalculateMemoryLimit pages pageSize percent =
     (if 0 < pages \<and> 0 < pageSize then
        let totalRam = word_of_int pages * word_of_int pageSize in totalRam * ucast percent div percentMax
      else defaultFallbackRam * ucast percent div percentMax)"

definition new_monitor :: "int \<Rightarrow> int \<Rightarrow> byte \<Rightarrow> MemoryMonitor" where
  "new_monitor pages pageSize quotaPercent =
     \<lparr>memoryLimitBytes = CalculateMemoryLimit pages pageSize quotaPercent, isQuotaExceeded = False\<rparr>"

text \<open>The status file is \<^verbatim>\<open>None\<close> when it cannot be opened.\<close>

definition ReadStatusFile :: "string option \<Rightarrow> string" where
  "ReadStatusFile status = (case status of None \<Rightarrow> [] | Some content \<Rightarrow> take (statusBufferSize - 1) content)"

definition ParseVmRSS :: "string \<Rightarrow> 64 word option" where
  "ParseVmRSS status =
     (case str_find ''VmRSS:'' status of
        None \<Rightarrow> None
      | Some pos \<Rightarrow>
          let num = dropWhile (\<lambda>c. c = CHR '' '' \<or> c = CHR 0x09) (drop (pos + 6) status) in
          if num = [] \<or> \<not> is_digit (hd num) then None
          else
            let vmRssKb = read_digits (takeWhile is_digit num) in
            if vmRssKb < 2 ^ 64 then Some (word_of_nat vmRssKb) else None)"

definition CheckMemory :: "string option \<Rightarrow> MemoryMonitor \<Rightarrow> MemoryMonitor" where
  "CheckMemory file m =
     (let status = ReadStatusFile file in
      if 0 < length status then
        (case ParseVmRSS status of
           None \<Rightarrow> m
         | Some vmRssKb \<Rightarrow>
             let exceeded = memoryLimitBytes m \<le> vmRssKb * bytesInKb in
             if exceeded \<noteq> isQuotaExceeded m then m\<lparr>isQuotaExceeded := exceeded\<rparr> else m)
      else m)"

section \<open>The server\<close>

record TcpServer =
  sessions :: "TcpSession list"
  broker :: MessageBroker
  memoryMonitor :: MemoryMonitor
  acceptor_open :: bool
  accepting :: bool

datatype accept_error = operation_aborted | bad_descriptor | other_error

definition DoAccept :: "TcpServer \<Rightarrow> TcpServer" where
  "DoAccept srv = srv\<lparr>accepting := True\<rparr>"

definition InitializeSession :: "(nat \<Rightarrow> bytes) \<Rightarrow> TcpServer \<Rightarrow> TcpServer" where
  "InitializeSession randombytes_buf srv =
     srv\<lparr>sessions := sessions srv @ [Start randombytes_buf new_session]\<rparr>"

definition HandleAccept :: "(nat \<Rightarrow> bytes) \<Rightarrow> accept_error option \<Rightarrow> TcpServer \<Rightarrow> TcpServer" where
  "HandleAccept randombytes_buf errorCode srv =
     (if errorCode = Some operation_aborted \<or> errorCode = Some bad_descriptor then srv
      else if isQuotaExceeded (memoryMonitor srv) then DoAccept srv
      else
        let t = (case errorCode of Some _ \<Rightarrow> srv | None \<Rightarrow> InitializeSession randombytes_buf srv) in
        if acceptor_open t then DoAccept t else t)"

definition start_server :: "32 word \<Rightarrow> int \<Rightarrow> int \<Rightarrow> byte \<Rightarrow> TcpServer" where
  "start_server maxMessagesPerMailbox pages pageSize memoryQuotaPercent =
     DoAccept \<lparr>sessions = [], broker = new_broker maxMessagesPerMailbox,
       memoryMonitor = new_monitor pages pageSize memoryQuotaPercent, acceptor_open = True, accepting = False\<rparr>"

text \<open>An operation that is outstanding completes and its handler runs.\<close>

datatype event =
  Accepted "nat \<Rightarrow> bytes" "accept_error option"
| Read nat "bytes option"
| Wrote nat bool
| Timer "string option"

inductive server_step :: "(bytes \<Rightarrow> bytes) \<Rightarrow> TcpServer \<Rightarrow> event \<Rightarrow> TcpServer \<Rightarrow> bool"
  for H where
  accept: "accepting srv \<Longrightarrow>
    server_step H srv (Accepted rb e) (HandleAccept rb e (srv\<lparr>accepting := False\<rparr>))"
| read: "i < length (sessions srv) \<Longrightarrow> reading (sessions srv ! i) \<Longrightarrow>
    read_completed H ProcessPush ProcessPoll r (sessions srv ! i) (broker srv) = Some (s, b) \<Longrightarrow>
    server_step H srv (Read i r) (srv\<lparr>sessions := (sessions srv)[i := s], broker := b\<rparr>)"
| wrote: "i < length (sessions srv) \<Longrightarrow> writeInProgress (sessions srv ! i) \<Longrightarrow>
    server_step H srv (Wrote i e) (srv\<lparr>sessions := (sessions srv)[i := write_completed e (sessions srv ! i)]\<rparr>)"
| timer: "server_step H srv (Timer status) (srv\<lparr>memoryMonitor := CheckMemory status (memoryMonitor srv)\<rparr>)"

inductive server_run :: "(bytes \<Rightarrow> bytes) \<Rightarrow> TcpServer \<Rightarrow> event list \<Rightarrow> TcpServer \<Rightarrow> bool"
  for H where
  nil: "server_run H srv [] srv"
| snoc: "server_run H srv evs srv' \<Longrightarrow> server_step H srv' ev srv'' \<Longrightarrow> server_run H srv (evs @ [ev]) srv''"

inductive_cases accept_stepE: "server_step H srv (Accepted rb e) srv'"
inductive_cases read_stepE: "server_step H srv (Read i r) srv'"
inductive_cases wrote_stepE: "server_step H srv (Wrote i e) srv'"
inductive_cases timer_stepE: "server_step H srv (Timer status) srv'"

section \<open>What the relay promises\<close>

text \<open>Mailboxes as lists of at most \<^verbatim>\<open>n\<close> frames.\<close>

type_synonym boxes = "bytes \<Rightarrow> frame list"

definition spec_push :: "nat \<Rightarrow> frame \<Rightarrow> boxes \<Rightarrow> boxes" where
  "spec_push n f q =
     (if length (q (fr_mailbox f)) < n then q(fr_mailbox f := q (fr_mailbox f) @ [f]) else q)"

definition spec_poll :: "bytes \<Rightarrow> boxes \<Rightarrow> frame option \<times> boxes" where
  "spec_poll mid q = (case q mid of [] \<Rightarrow> (None, q) | f # fs \<Rightarrow> (Some f, q(mid := fs)))"

interpretation spec: frame_handler "spec_push n" spec_poll "\<lambda>mid q. q mid" "\<lambda>_. n"
  by unfold_locales (auto simp: spec_push_def spec_poll_def split: list.splits)

context frame_handler
begin

lemma push_boxes: "(\<lambda>m. waiting m (push f b)) = spec_push (room b) f (\<lambda>m. waiting m b)"
  by (auto simp: spec_push_def push_waiting fun_eq_iff)

lemma poll_boxes:
  "spec_poll mid (\<lambda>m. waiting m b) = (fst (poll mid b), \<lambda>m. waiting m (snd (poll mid b)))"
  by (auto simp: spec_poll_def poll_result poll_waiting fun_eq_iff split: list.splits)

text \<open>A session cannot tell a handler from the lists it implements.\<close>

lemma serve_boxes:
  "room b = n \<Longrightarrow> serve H push poll c st fs b = (ok, st', outs, b') \<Longrightarrow>
   serve H (spec_push n) spec_poll c st fs (\<lambda>m. waiting m b) = (ok, st', outs, \<lambda>m. waiting m b') \<and> room b' = n"
proof (induction fs arbitrary: st b outs)
  case (Cons f fs)
  show ?case
  proof (cases st)
    case UNAUTHENTICATED
    then show ?thesis using Cons by (auto split: if_splits)
  next
    case AUTHENTICATED
    consider "fr_action f = PUSH \<or> fr_action f = ACK" | "fr_action f = POLL" "\<not> (fr_action f = PUSH \<or> fr_action f = ACK)"
      | "fr_action f \<noteq> POLL" "\<not> (fr_action f = PUSH \<or> fr_action f = ACK)" by blast
    then show ?thesis
    proof cases
      case 1
      then show ?thesis using Cons.IH [of "push f b" AUTHENTICATED outs] Cons.prems AUTHENTICATED
        by (simp add: push_room push_boxes)
    next
      case 2
      obtain o2 where o2: "outs = answer (fr_mailbox f) (fst (poll (fr_mailbox f) b)) # o2"
          "serve H push poll c AUTHENTICATED fs (snd (poll (fr_mailbox f) b)) = (ok, st', o2, b')"
        using Cons.prems 2 AUTHENTICATED by (auto split: prod.splits)
      then show ?thesis using Cons.IH [OF _ o2(2)] Cons.prems(1) 2 AUTHENTICATED by (simp add: poll_room poll_boxes)
    qed (use Cons AUTHENTICATED in simp)
  qed
qed simp

end

text \<open>A connection with the bytes of its unfinished frame and everything written to it.\<close>

record conn =
  cn_challenge :: bytes
  cn_open :: bool
  cn_reading :: bool
  cn_state :: SessionState
  cn_pending :: bytes
  cn_out :: "bytes list"

record relay =
  conns :: "conn list"
  mailboxes :: boxes

definition fresh_conn :: "bytes \<Rightarrow> conn" where
  "fresh_conn ch =
     \<lparr>cn_challenge = ch, cn_open = True, cn_reading = True, cn_state = UNAUTHENTICATED, cn_pending = [],
      cn_out = [Serialize (CreateAuthChallenge (replicate mailboxIdSize 0) ch)]\<rparr>"

definition served :: "conn \<Rightarrow> bool \<Rightarrow> SessionState \<Rightarrow> bytes \<Rightarrow> bytes list \<Rightarrow> conn" where
  "served c up st pending outs =
     c\<lparr>cn_open := up, cn_reading := up, cn_state := st, cn_pending := (if up then pending else []),
       cn_out := cn_out c @ outs\<rparr>"

inductive relay_step :: "(bytes \<Rightarrow> bytes) \<Rightarrow> nat \<Rightarrow> relay \<Rightarrow> relay \<Rightarrow> bool"
  for H n where
  idle: "relay_step H n r r"
| connect: "relay_step H n r (r\<lparr>conns := conns r @ [fresh_conn ch]\<rparr>)"
| receive: "i < length (conns r) \<Longrightarrow> c = conns r ! i \<Longrightarrow> cn_reading c \<Longrightarrow> cn_open c \<Longrightarrow>
    decode (cn_pending c @ d) = (fs, e) \<Longrightarrow>
    serve H (spec_push n) spec_poll (cn_challenge c) (cn_state c) fs (mailboxes r) = (ok, st, outs, q) \<Longrightarrow>
    relay_step H n r
      \<lparr>conns = (conns r)[i := served c (ok \<and> e \<noteq> Malformed) st (case e of Pending p \<Rightarrow> p | Malformed \<Rightarrow> []) outs],
       mailboxes = q\<rparr>"
| receive_late: "i < length (conns r) \<Longrightarrow> c = conns r ! i \<Longrightarrow> cn_reading c \<Longrightarrow> \<not> cn_open c \<Longrightarrow>
    serve H (spec_push n) spec_poll (cn_challenge c) (cn_state c) (first_frame (cn_pending c @ d)) (mailboxes r) =
      (ok, st, outs, q) \<Longrightarrow>
    relay_step H n r \<lparr>conns = (conns r)[i := served c False st [] outs], mailboxes = q\<rparr>"
| stop_reading: "i < length (conns r) \<Longrightarrow> c = conns r ! i \<Longrightarrow>
    relay_step H n r (r\<lparr>conns := (conns r)[i := c\<lparr>cn_reading := False, cn_pending := []\<rparr>]\<rparr>)"
| hang_up: "i < length (conns r) \<Longrightarrow> c = conns r ! i \<Longrightarrow>
    relay_step H n r (r\<lparr>conns := (conns r)[i := c\<lparr>cn_open := False\<rparr>]\<rparr>)"

section \<open>The server refines it\<close>

definition stored :: "FrameParser \<Rightarrow> bytes" where
  "stored p = headerBuffer p @ payloadBuffer p"

lemma stored_parser_of [simp]: "stored (parser_of c) = c"
  by (simp add: stored_def parser_of_def loaded_def fresh_parser_def)

lemma stored_fresh [simp]: "stored fresh_parser = []"
  by (simp add: stored_def fresh_parser_def)

definition session_ok :: "TcpSession \<Rightarrow> bool" where
  "session_ok s \<longleftrightarrow> write_ok s \<and>
     (reading s \<longrightarrow> unfinished (stored (parser s)) \<and> parser s = parser_of (stored (parser s)))"

definition server_ok :: "TcpServer \<Rightarrow> bool" where
  "server_ok srv \<longleftrightarrow> list_all session_ok (sessions srv) \<and> broker_ok (broker srv)"

definition abs_session :: "TcpSession \<Rightarrow> conn" where
  "abs_session s =
     \<lparr>cn_challenge = currentChallenge s, cn_open = is_open s, cn_reading = reading s,
      cn_state = session_state s, cn_pending = (if reading s then stored (parser s) else []),
      cn_out = session_output s\<rparr>"

definition abs_server :: "TcpServer \<Rightarrow> relay" where
  "abs_server srv = \<lparr>conns = map abs_session (sessions srv), mailboxes = (\<lambda>m. queue_ref m (broker srv))\<rparr>"

lemma serve_broker_ok:
  "broker_ok b \<Longrightarrow> serve H ProcessPush ProcessPoll c st fs b = (ok, st', outs, b') \<Longrightarrow>
   broker_ok b' \<and> maxMessages b' = maxMessages b"
proof (induction fs arbitrary: st b outs)
  case (Cons f fs)
  have m: "maxMessages (ProcessPush f b) = maxMessages b" "maxMessages (snd (ProcessPoll mid b)) = maxMessages b" for mid
    using mb.push_room [of f b] mb.poll_room [of mid b] by (simp_all add: broker_room_def word_unat_eq_iff)
  show ?case
  proof (cases st)
    case UNAUTHENTICATED
    then show ?thesis using Cons by (auto split: if_splits)
  next
    case AUTHENTICATED
    note after = Cons.IH [OF broker_ok_push [OF Cons.prems(1)]] Cons.IH [OF broker_ok_poll [OF Cons.prems(1)]]
    show ?thesis
    proof (cases "fr_action f = PUSH \<or> fr_action f = ACK")
      case True
      then show ?thesis using Cons.prems(2) AUTHENTICATED after(1) m by auto
    next
      case False
      show ?thesis
      proof (cases "fr_action f = POLL")
        case True
        obtain o2 where "serve H ProcessPush ProcessPoll c AUTHENTICATED fs (snd (ProcessPoll (fr_mailbox f) b)) = (ok, st', o2, b')"
          using Cons.prems(2) False True AUTHENTICATED by (auto split: prod.splits)
        then show ?thesis using after(2) m by metis
      qed (use Cons False AUTHENTICATED in auto)
    qed
  qed
qed auto

lemma served_session:
  assumes "settles ok e s'" "reading s' = is_open s'" "session_state s' = st" "session_output s' = session_output s @ outs"
    "write_ok s'" "currentChallenge s' = currentChallenge s" "decode x = (fs, e)"
  shows "session_ok s' \<and> abs_session s' =
    served (abs_session s) (ok \<and> e \<noteq> Malformed) st (case e of Pending p \<Rightarrow> p | Malformed \<Rightarrow> []) outs"
proof (cases "ok \<and> e \<noteq> Malformed")
  case True
  then obtain r where r: "e = Pending r" by (cases e) auto
  with True assms(1) have "is_open s'" "parser s' = parser_of r" by (simp_all add: settles_def)
  moreover have "unfinished r" using assms(7) r decode_pending by blast
  ultimately show ?thesis using assms(2-6) True r by (simp add: session_ok_def abs_session_def served_def)
next
  case False
  then have "\<not> is_open s'" using assms(1) by (auto simp: settles_def split: ending.splits)
  then show ?thesis using assms(2-6) False by (auto simp: session_ok_def abs_session_def served_def)
qed

lemma read_open_sim:
  assumes s: "session_ok s" "reading s" "is_open s"
    and dec: "decode (stored (parser s) @ d) = (fs, e)"
    and sv: "serve H push poll (currentChallenge s) (session_state s) fs b = (ok, st, outs, b')"
  shows "\<exists>s'. read_completed H push poll (Some d) s b = Some (s', b') \<and> session_ok s' \<and>
    abs_session s' = served (abs_session s) (ok \<and> e \<noteq> Malformed) st (case e of Pending p \<Rightarrow> p | Malformed \<Rightarrow> []) outs"
proof -
  have p: "parser s = parser_of (stored (parser s))" "unfinished (stored (parser s))" "write_ok s"
    using s by (simp_all add: session_ok_def)
  show ?thesis
    by (rule read_completed_spec [OF p(1,2) s(3) p(3) dec sv]) (use served_session dec in blast)
qed

lemma read_late_sim:
  assumes s: "session_ok s" "reading s" "\<not> is_open s"
    and sv: "serve H push poll (currentChallenge s) (session_state s) (first_frame (stored (parser s) @ d)) b = (ok, st, outs, b')"
  shows "\<exists>s'. read_completed H push poll (Some d) s b = Some (s', b') \<and> session_ok s' \<and>
    abs_session s' = served (abs_session s) False st [] outs"
proof -
  let ?t = "s\<lparr>reading := False\<rparr>"
  have p: "parser ?t = parser_of (stored (parser s))" "unfinished (stored (parser s))" "\<not> is_open ?t" "write_ok ?t"
      "serve H push poll (currentChallenge ?t) (session_state ?t) (first_frame (stored (parser s) @ d)) b = (ok, st, outs, b')"
    using s sv by (simp_all add: session_ok_def write_ok_def)
  obtain u where "read_loop H push poll ?t b d = Some (u, b')" "follows ?t outs st u" "\<not> is_open u"
    using read_loop_late [OF p] by blast
  then show ?thesis
    by (auto simp: read_completed_def follows_def session_ok_def abs_session_def served_def session_output_def)
qed

lemma abs_server_update:
  "abs_server (srv\<lparr>sessions := (sessions srv)[i := s], broker := b\<rparr>) =
   \<lparr>conns = (conns (abs_server srv))[i := abs_session s], mailboxes = (\<lambda>m. queue_ref m b)\<rparr>"
  by (simp add: abs_server_def map_update)

lemma server_ok_update:
  "server_ok srv \<Longrightarrow> session_ok s \<Longrightarrow> broker_ok b \<Longrightarrow> server_ok (srv\<lparr>sessions := (sessions srv)[i := s], broker := b\<rparr>)"
  by (auto simp: server_ok_def list_all_iff dest: set_update_subset_insert [THEN subsetD])

lemma server_read_sim:
  assumes ok: "server_ok srv" and i: "i < length (sessions srv)" "reading (sessions srv ! i)"
  shows "\<exists>s' b'. read_completed H ProcessPush ProcessPoll r (sessions srv ! i) (broker srv) = Some (s', b') \<and>
    maxMessages b' = maxMessages (broker srv) \<and>
    (let srv' = srv\<lparr>sessions := (sessions srv)[i := s'], broker := b'\<rparr> in
     server_ok srv' \<and> relay_step H (broker_room (broker srv)) (abs_server srv) (abs_server srv'))"
proof -
  let ?s = "sessions srv ! i" and ?b = "broker srv" and ?n = "broker_room (broker srv)"
  have s: "session_ok ?s" and b: "broker_ok ?b" using ok i by (auto simp: server_ok_def list_all_length)
  have len: "i < length (conns (abs_server srv))" using i by (simp add: abs_server_def)
  have conn: "conns (abs_server srv) ! i = abs_session ?s" using i by (simp add: abs_server_def)
  have abs: "cn_challenge (abs_session ?s) = currentChallenge ?s" "cn_state (abs_session ?s) = session_state ?s"
      "cn_pending (abs_session ?s) = stored (parser ?s)" "cn_open (abs_session ?s) = is_open ?s" "cn_reading (abs_session ?s)"
      "mailboxes (abs_server srv) = (\<lambda>m. queue_ref m ?b)"
    using i by (simp_all add: abs_session_def abs_server_def)
  show ?thesis
  proof (cases r)
    case None
    let ?t = "?s\<lparr>reading := False\<rparr>"
    have "session_ok ?t" using s by (simp add: session_ok_def write_ok_def)
    moreover have "abs_session ?t = (abs_session ?s)\<lparr>cn_reading := False, cn_pending := []\<rparr>"
      by (simp add: abs_session_def session_output_def)
    then have "abs_server (srv\<lparr>sessions := (sessions srv)[i := ?t], broker := ?b\<rparr>) =
        (abs_server srv)\<lparr>conns := (conns (abs_server srv))[i := (abs_session ?s)\<lparr>cn_reading := False, cn_pending := []\<rparr>]\<rparr>"
      unfolding abs_server_update by (simp add: abs_server_def)
    ultimately show ?thesis
      using None server_ok_update [OF ok _ b] relay_step.stop_reading [OF len conn [symmetric], of H ?n]
      by (auto simp: read_completed_def Let_def)
  next
    case (Some d)
    show ?thesis
    proof (cases "is_open ?s")
      case True
      obtain fs e where dec: "decode (stored (parser ?s) @ d) = (fs, e)" by fastforce
      obtain up st outs b' where sv: "serve H ProcessPush ProcessPoll (currentChallenge ?s) (session_state ?s) fs ?b = (up, st, outs, b')"
        by (metis prod_cases4)
      obtain s' where s': "read_completed H ProcessPush ProcessPoll (Some d) ?s ?b = Some (s', b')" "session_ok s'"
          "abs_session s' = served (abs_session ?s) (up \<and> e \<noteq> Malformed) st (case e of Pending p \<Rightarrow> p | Malformed \<Rightarrow> []) outs"
        using read_open_sim [OF s i(2) True dec sv] by blast
      note q = mb.serve_boxes [OF refl sv]
      have "relay_step H ?n (abs_server srv)
          \<lparr>conns = (conns (abs_server srv))[i := abs_session s'], mailboxes = (\<lambda>m. queue_ref m b')\<rparr>"
        unfolding s'(3)
        by (rule relay_step.receive [OF len conn [symmetric], where d = d and fs = fs]) (use abs True dec q in simp_all)
      then show ?thesis
        using Some s' server_ok_update [OF ok s'(2)] serve_broker_ok [OF b sv] i
        by (auto simp: abs_server_update Let_def)
    next
      case False
      obtain up st outs b' where sv: "serve H ProcessPush ProcessPoll (currentChallenge ?s) (session_state ?s)
          (first_frame (stored (parser ?s) @ d)) ?b = (up, st, outs, b')"
        by (metis prod_cases4)
      obtain s' where s': "read_completed H ProcessPush ProcessPoll (Some d) ?s ?b = Some (s', b')" "session_ok s'"
          "abs_session s' = served (abs_session ?s) False st [] outs"
        using read_late_sim [OF s i(2) False sv] by blast
      note q = mb.serve_boxes [OF refl sv]
      have "relay_step H ?n (abs_server srv)
          \<lparr>conns = (conns (abs_server srv))[i := abs_session s'], mailboxes = (\<lambda>m. queue_ref m b')\<rparr>"
        unfolding s'(3)
        by (rule relay_step.receive_late [OF len conn [symmetric], where d = d and ok = up]) (use abs False q in simp_all)
      then show ?thesis
        using Some s' server_ok_update [OF ok s'(2)] serve_broker_ok [OF b sv] i
        by (auto simp: abs_server_update Let_def)
    qed
  qed
qed

lemma abs_Start: "session_ok (Start rb new_session)" "abs_session (Start rb new_session) = fresh_conn (rb challengSize)"
  using Start_session [of rb] by (simp_all add: session_ok_def abs_session_def fresh_conn_def)

lemma HandleAccept_sessions:
  "HandleAccept rb e srv = srv\<lparr>sessions := sessions srv, accepting := accepting (HandleAccept rb e srv)\<rparr> \<or>
   \<not> isQuotaExceeded (memoryMonitor srv) \<and>
   HandleAccept rb e srv = srv\<lparr>sessions := sessions srv @ [Start rb new_session], accepting := accepting (HandleAccept rb e srv)\<rparr>"
  by (auto simp: HandleAccept_def InitializeSession_def DoAccept_def Let_def split: option.splits)

lemma server_accept_sim:
  assumes "server_ok srv" "srv' = HandleAccept rb e (srv\<lparr>accepting := False\<rparr>)"
  shows "server_ok srv' \<and> broker srv' = broker srv \<and> relay_step H n (abs_server srv) (abs_server srv')"
proof -
  let ?srv = "srv\<lparr>accepting := False\<rparr>"
  consider a where "srv' = ?srv\<lparr>sessions := sessions ?srv, accepting := a\<rparr>"
    | a where "srv' = ?srv\<lparr>sessions := sessions ?srv @ [Start rb new_session], accepting := a\<rparr>"
    using HandleAccept_sessions [of rb e ?srv] assms(2) by blast
  then show ?thesis
  proof cases
    case 1
    then have "abs_server srv' = abs_server srv" by (simp add: abs_server_def)
    then show ?thesis using 1 assms(1) by (simp add: server_ok_def relay_step.idle)
  next
    case 2
    then have "abs_server srv' = (abs_server srv)\<lparr>conns := conns (abs_server srv) @ [fresh_conn (rb challengSize)]\<rparr>"
      by (simp add: abs_server_def abs_Start)
    then show ?thesis using 2 assms(1) relay_step.connect [of H n "abs_server srv"] by (simp add: server_ok_def abs_Start)
  qed
qed

lemma write_completed_fields:
  "currentChallenge (write_completed e s) = currentChallenge s" "session_state (write_completed e s) = session_state s"
  "reading (write_completed e s) = reading s" "parser (write_completed e s) = parser s"
  "is_open (write_completed e s) = (is_open s \<and> \<not> e)"
  by (simp_all add: write_completed_def ProcessWriteQueue_def close_socket_def Let_def)

lemma server_write_sim:
  assumes ok: "server_ok srv" and i: "i < length (sessions srv)" "writeInProgress (sessions srv ! i)"
    and srv': "srv' = srv\<lparr>sessions := (sessions srv)[i := write_completed e (sessions srv ! i)]\<rparr>"
  shows "server_ok srv' \<and> relay_step H n (abs_server srv) (abs_server srv')"
proof -
  let ?s = "sessions srv ! i" and ?c = "abs_session (sessions srv ! i)"
  have s: "session_ok ?s" and b: "broker_ok (broker srv)" using ok i by (auto simp: server_ok_def list_all_length)
  then have w: "session_ok (write_completed e ?s)" "session_output (write_completed e ?s) = session_output ?s"
    using session_output_write_completed [OF _ i(2), of e] by (simp_all add: session_ok_def write_completed_fields)
  have conn: "?c = conns (abs_server srv) ! i" "i < length (conns (abs_server srv))" using i by (simp_all add: abs_server_def)
  have up: "srv' = srv\<lparr>sessions := (sessions srv)[i := write_completed e ?s], broker := broker srv\<rparr>" unfolding srv' by simp
  have abs: "abs_server srv' = (abs_server srv)\<lparr>conns := (conns (abs_server srv))[i := abs_session (write_completed e ?s)]\<rparr>"
    unfolding up abs_server_update by (simp add: abs_server_def)
  have "relay_step H n (abs_server srv) (abs_server srv')"
  proof (cases e)
    case True
    then have "abs_session (write_completed e ?s) = ?c\<lparr>cn_open := False\<rparr>"
      using w(2) by (simp add: abs_session_def write_completed_fields)
    then show ?thesis unfolding abs using relay_step.hang_up [OF conn(2,1)] by simp
  next
    case False
    then have "abs_session (write_completed e ?s) = ?c" using w(2) by (simp add: abs_session_def write_completed_fields)
    then have "abs_server srv' = abs_server srv" unfolding abs using conn by simp
    then show ?thesis by (simp add: relay_step.idle)
  qed
  then show ?thesis using server_ok_update [OF ok w(1) b] unfolding up by blast
qed

lemma server_step_sim:
  assumes "server_step H srv ev srv'" "server_ok srv"
  shows "server_ok srv' \<and> broker_room (broker srv') = broker_room (broker srv) \<and>
    relay_step H (broker_room (broker srv)) (abs_server srv) (abs_server srv')"
  using assms
proof cases
  case (accept rb e)
  show ?thesis using server_accept_sim [OF assms(2) accept(2), of H "broker_room (broker srv)"] by simp
next
  case (read i r s b)
  then show ?thesis using server_read_sim [OF assms(2) read(3,4), of H r] by (auto simp: broker_room_def Let_def)
next
  case (wrote i e)
  show ?thesis using server_write_sim [OF assms(2) wrote(3,4,2), of H "broker_room (broker srv)"] wrote(2) by simp
next
  case (timer status)
  then have "abs_server srv' = abs_server srv" by (simp add: abs_server_def)
  then show ?thesis using timer assms(2) by (simp add: server_ok_def relay_step.idle)
qed

lemma server_run_sim:
  "server_run H srv evs srv' \<Longrightarrow> server_ok srv \<Longrightarrow>
   server_ok srv' \<and> broker_room (broker srv') = broker_room (broker srv) \<and>
   (relay_step H (broker_room (broker srv)))\<^sup>*\<^sup>* (abs_server srv) (abs_server srv')"
proof (induction rule: server_run.induct)
  case (snoc srv evs srv' ev srv'')
  then show ?case using server_step_sim [of H srv' ev srv''] by (auto intro: rtranclp.rtrancl_into_rtrancl)
qed simp

lemma start_server_ok: "server_ok (start_server n pages pageSize pct)"
  "abs_server (start_server n pages pageSize pct) = \<lparr>conns = [], mailboxes = (\<lambda>_. [])\<rparr>"
  "broker_room (broker (start_server n pages pageSize pct)) = unat n"
  by (simp_all add: start_server_def DoAccept_def server_ok_def abs_server_def broker_ok_new)
    (simp_all add: new_broker_def queue_ref_def broker_room_def)

end
