(* ===== verification/RelayProps.thy ===== *)
theory RelayProps
  imports Relay
begin

text \<open>
  What the relay guarantees to its clients: it refines the abstract machine, answers nobody who has not
  solved the challenge, delivers messages in order, and accepts nobody while its memory is over the quota.
\<close>

section \<open>Authentication\<close>

lemma serve_authenticated:
  "serve H push poll c AUTHENTICATED fs b = (ok, st, outs, b') \<Longrightarrow> st = AUTHENTICATED \<and> ok"
proof (induction fs arbitrary: b outs)
  case (Cons f fs)
  then show ?case by (cases "fr_action f = POLL") (auto split: if_splits prod.splits)
qed simp

lemma serve_gate:
  assumes "serve H push poll c UNAUTHENTICATED fs b = (ok, st, outs, b')"
  shows "if fs \<noteq> [] \<and> authentic H c (hd fs) then st = AUTHENTICATED else st = UNAUTHENTICATED \<and> outs = [] \<and> b' = b"
  using assms by (cases fs) (auto dest: serve_authenticated split: if_splits)

lemma first_frame_decode: "prefix (first_frame x) (fst (decode x))"
  by (subst decode.simps) (auto simp: first_frame_def complete_def split: prod.splits option.splits)

text \<open>What a read does to the server, in terms of the frames it completes.\<close>

lemma server_read_effect:
  assumes ok: "server_ok srv" and i: "i < length (sessions srv)" "reading (sessions srv ! i)"
    and rd: "read_completed H ProcessPush ProcessPoll (Some d) (sessions srv ! i) (broker srv) = Some (s', b')"
  obtains fs up outs where "prefix fs (fst (decode (stored (parser (sessions srv ! i)) @ d)))"
    "serve H ProcessPush ProcessPoll (currentChallenge (sessions srv ! i)) (session_state (sessions srv ! i)) fs (broker srv) =
       (up, session_state s', outs, b')"
    "session_output s' = session_output (sessions srv ! i) @ outs" "currentChallenge s' = currentChallenge (sessions srv ! i)"
proof -
  let ?s = "sessions srv ! i" and ?x = "stored (parser (sessions srv ! i)) @ d"
  have s: "session_ok ?s" using ok i by (simp add: server_ok_def list_all_length)
  define fs where "fs = (if is_open ?s then fst (decode ?x) else first_frame ?x)"
  obtain up st outs b1 where sv: "serve H ProcessPush ProcessPoll (currentChallenge ?s) (session_state ?s) fs (broker srv) = (up, st, outs, b1)"
    by (metis prod_cases4)
  have "\<exists>s1 v p. read_completed H ProcessPush ProcessPoll (Some d) ?s (broker srv) = Some (s1, b1) \<and>
      abs_session s1 = served (abs_session ?s) v st p outs"
  proof (cases "is_open ?s")
    case True
    obtain e where "decode ?x = (fs, e)" using True by (cases "decode ?x") (simp add: fs_def)
    then show ?thesis using read_open_sim [OF s i(2) True _ sv] by blast
  next
    case False
    have "first_frame ?x = fs" using False by (simp add: fs_def)
    then show ?thesis using read_late_sim [OF s i(2) False, of H ProcessPush ProcessPoll d] sv by blast
  qed
  then obtain v p where v: "b1 = b'" "abs_session s' = served (abs_session ?s) v st p outs" using rd by auto
  then have "session_state s' = st" "session_output s' = session_output ?s @ outs" "currentChallenge s' = currentChallenge ?s"
    by (simp_all add: abs_session_def served_def)
  moreover have "prefix fs (fst (decode ?x))" using first_frame_decode by (simp add: fs_def)
  ultimately show thesis using that sv v(1) by blast
qed

definition challenge_frame :: "TcpSession \<Rightarrow> bytes" where
  "challenge_frame s = Serialize (CreateAuthChallenge (replicate mailboxIdSize 0) (currentChallenge s))"

definition silent :: "TcpServer \<Rightarrow> bool" where
  "silent srv \<longleftrightarrow>
     list_all (\<lambda>s. session_state s = UNAUTHENTICATED \<longrightarrow> session_output s = [challenge_frame s]) (sessions srv)"

text \<open>What a step may do with the authentication of a session and with the messages stored.\<close>

definition gated :: "(bytes \<Rightarrow> bytes) \<Rightarrow> TcpServer \<Rightarrow> event \<Rightarrow> TcpServer \<Rightarrow> bool" where
  "gated H srv ev srv' \<longleftrightarrow>
     (\<forall>i < length (sessions srv).
        session_state (sessions srv' ! i) \<noteq> session_state (sessions srv ! i) \<longrightarrow>
        (\<exists>d f fs e. ev = Read i (Some d) \<and> decode (stored (parser (sessions srv ! i)) @ d) = (f # fs, e) \<and>
           authentic H (currentChallenge (sessions srv ! i)) f \<and>
           session_state (sessions srv' ! i) = AUTHENTICATED)) \<and>
     (broker srv' \<noteq> broker srv \<longrightarrow>
        (\<exists>i d. ev = Read i (Some d) \<and> session_state (sessions srv' ! i) = AUTHENTICATED))"

lemma read_gated:
  assumes ok: "server_ok srv" and i: "i < length (sessions srv)" "reading (sessions srv ! i)"
    and rd: "read_completed H ProcessPush ProcessPoll (Some d) (sessions srv ! i) (broker srv) = Some (s', b')"
    and srv': "srv' = srv\<lparr>sessions := (sessions srv)[i := s'], broker := b'\<rparr>"
  shows "gated H srv (Read i (Some d)) srv'" "silent srv \<Longrightarrow> silent srv'"
proof -
  let ?s = "sessions srv ! i"
  obtain fs up outs where e: "prefix fs (fst (decode (stored (parser ?s) @ d)))"
    "serve H ProcessPush ProcessPoll (currentChallenge ?s) (session_state ?s) fs (broker srv) =
       (up, session_state s', outs, b')"
    "session_output s' = session_output ?s @ outs" "currentChallenge s' = currentChallenge ?s"
    by (rule server_read_effect [OF ok i rd])
  have s': "sessions srv' ! j = (if j = i then s' else sessions srv ! j)" if "j < length (sessions srv)" for j
    using that i by (simp add: srv' nth_list_update)
  have auth: "session_state ?s = AUTHENTICATED \<Longrightarrow> session_state s' = AUTHENTICATED"
    using e(2) serve_authenticated by fastforce
  have un: "if fs \<noteq> [] \<and> authentic H (currentChallenge ?s) (hd fs) then session_state s' = AUTHENTICATED
      else session_state s' = UNAUTHENTICATED \<and> outs = [] \<and> b' = broker srv" if "session_state ?s = UNAUTHENTICATED"
    using serve_gate [of H ProcessPush ProcessPoll "currentChallenge ?s" fs "broker srv"] e(2) that by simp
  have st: "session_state ?s = AUTHENTICATED \<or> session_state ?s = UNAUTHENTICATED" by (cases "session_state ?s") auto
  have "\<exists>d' f gs e. Read i (Some d) = Read i (Some d') \<and> decode (stored (parser ?s) @ d') = (f # gs, e) \<and>
      authentic H (currentChallenge ?s) f \<and> session_state s' = AUTHENTICATED" if "session_state s' \<noteq> session_state ?s"
  proof -
    have "session_state ?s = UNAUTHENTICATED" using st auth that by auto
    then have f: "fs \<noteq> []" "authentic H (currentChallenge ?s) (hd fs)" "session_state s' = AUTHENTICATED"
      using un that by (auto split: if_splits)
    then obtain gs e' where "decode (stored (parser ?s) @ d) = (hd fs # gs, e')"
      using e(1) by (cases fs; cases "decode (stored (parser ?s) @ d)") (auto simp: prefix_def)
    then show ?thesis using f by blast
  qed
  moreover have "b' \<noteq> broker srv \<longrightarrow> session_state s' = AUTHENTICATED"
    using st auth un by (auto split: if_splits)
  ultimately show "gated H srv (Read i (Some d)) srv'"
    using s' i(1) unfolding gated_def by (auto simp: srv' nth_list_update)
  have "session_state s' = UNAUTHENTICATED \<longrightarrow> session_state ?s = UNAUTHENTICATED \<and> outs = []"
    using st auth un by (auto split: if_splits)
  then show "silent srv'" if "silent srv"
    using that i e(3,4) s' unfolding silent_def by (auto simp: list_all_length srv' challenge_frame_def nth_list_update)
qed

lemma gated_quiet:
  assumes "\<And>i. i < length (sessions srv) \<Longrightarrow> session_state (sessions srv' ! i) = session_state (sessions srv ! i)"
    "broker srv' = broker srv"
  shows "gated H srv ev srv'"
  using assms by (simp add: gated_def)

lemma step_gated:
  assumes "server_step H srv ev srv'" "server_ok srv"
  shows "gated H srv ev srv' \<and> (silent srv \<longrightarrow> silent srv')"
  using assms(1)
proof cases
  case (accept rb e)
  let ?srv = "srv\<lparr>accepting := False\<rparr>"
  consider a where "srv' = ?srv\<lparr>sessions := sessions ?srv, accepting := a\<rparr>"
    | a where "srv' = ?srv\<lparr>sessions := sessions ?srv @ [Start rb new_session], accepting := a\<rparr>"
    using HandleAccept_sessions [of rb e ?srv] accept(2) by blast
  then show ?thesis
  proof cases
    case 2
    then have "gated H srv ev srv'" by (intro gated_quiet) (auto simp: nth_append)
    moreover have "session_output (Start rb new_session) = [challenge_frame (Start rb new_session)]"
      by (simp add: challenge_frame_def Start_session)
    ultimately show ?thesis using 2 by (simp add: silent_def)
  qed (simp_all add: silent_def gated_def)
next
  case (read i r s b)
  show ?thesis
  proof (cases r)
    case None
    then have "s = (sessions srv ! i)\<lparr>reading := False\<rparr>" "b = broker srv"
      using read(5) by (simp_all add: read_completed_def)
    then show ?thesis using read(2-4)
      by (auto intro!: gated_quiet simp: nth_list_update silent_def list_all_length session_output_def challenge_frame_def)
  next
    case (Some d)
    then show ?thesis using read_gated [OF assms(2) read(3,4)] read(1,2,5) by blast
  qed
next
  case (wrote i e)
  have "session_ok (sessions srv ! i)" using assms(2) wrote(3) by (simp add: server_ok_def list_all_length)
  then have "session_output (write_completed e (sessions srv ! i)) = session_output (sessions srv ! i)"
    using session_output_write_completed [OF _ wrote(4)] by (simp add: session_ok_def)
  then show ?thesis using wrote(2,3)
    by (auto intro!: gated_quiet simp: nth_list_update silent_def list_all_length write_completed_fields challenge_frame_def)
next
  case (timer status)
  then show ?thesis by (simp add: silent_def gated_def)
qed

lemma run_silent: "server_run H srv evs srv' \<Longrightarrow> server_ok srv \<Longrightarrow> silent srv \<Longrightarrow> silent srv'"
proof (induction rule: server_run.induct)
  case (snoc srv evs srv' ev srv'')
  then show ?case using server_run_sim [of H srv evs srv'] step_gated [of H srv' ev srv''] by blast
qed simp

lemma silent_start: "silent (start_server n pages pageSize pct)"
  by (simp add: silent_def start_server_def DoAccept_def)

text \<open>A server with one session and a hash that accepts every nonce.\<close>

definition sample_hash :: "bytes \<Rightarrow> bytes" where
  "sample_hash _ = replicate 16 0"

definition sample_random :: "nat \<Rightarrow> bytes" where
  "sample_random k = replicate k 7"

definition sample_server :: TcpServer where
  "sample_server = (start_server 4 1000 4096 50)\<lparr>sessions := [Start sample_random new_session]\<rparr>"

definition sample_response :: frame where
  "sample_response = CreateAuthResponse (replicate mailboxIdSize 0) (replicate 8 1)"

lemma sample_run: "server_run H (start_server 4 1000 4096 50) [Accepted sample_random None] sample_server"
proof -
  let ?srv = "start_server 4 1000 4096 50"
  have "accepting ?srv" by (simp add: start_server_def DoAccept_def)
  from server_step.accept [OF this, of H sample_random None]
  have "server_step H ?srv (Accepted sample_random None) sample_server"
    by (simp add: sample_server_def HandleAccept_def InitializeSession_def start_server_def DoAccept_def new_monitor_def Let_def)
  from server_run.snoc [OF server_run.nil this] show ?thesis by simp
qed

lemma sample_authentic: "authentic sample_hash c sample_response"
proof -
  have "fr_payload sample_response = pad_control (replicate 8 1)" "fr_action sample_response = AUTH_RESPONSE"
    by (simp_all add: sample_response_def CreateAuthResponse_def make_frame_def)
  moreover have "replicate 16 (0 :: byte) = 0 # 0 # replicate 14 0" by (simp add: numeral_eq_Suc)
  then have "prefix ''000'' (EncodeHex (replicate 16 0))" by (simp only: hex_zeros) simp
  ultimately show ?thesis
    by (simp add: authentic_def HashPayload_def sample_hash_def length_pad_control protocol_simps)
qed

lemma sample_step:
  "\<exists>srv'. server_step sample_hash sample_server (Read 0 (Some (Serialize sample_response))) srv' \<and>
     session_state (sessions srv' ! 0) = AUTHENTICATED"
proof -
  let ?s = "Start sample_random new_session" and ?b = "broker sample_server"
  have s: "sessions sample_server = [?s]" by (simp add: sample_server_def)
  have "wf_frame sample_response" unfolding sample_response_def by (rule wf_created) (simp_all add: protocol_simps)
  from decode_Serialize [OF this, of "[]"]
  have dec: "decode (stored (parser ?s) @ Serialize sample_response) = ([sample_response], Pending [])"
    by (simp add: Start_session decode_unfinished)
  have sv: "serve sample_hash ProcessPush ProcessPoll (currentChallenge ?s) (session_state ?s) [sample_response] ?b =
      (True, AUTHENTICATED, [], ?b)"
    by (simp add: Start_session sample_authentic)
  obtain s' where s': "read_completed sample_hash ProcessPush ProcessPoll (Some (Serialize sample_response)) ?s ?b = Some (s', ?b)"
      "abs_session s' = served (abs_session ?s) True AUTHENTICATED [] []"
    using read_open_sim [OF abs_Start(1) Start_session(4,2) dec sv] by auto
  then have "session_state s' = AUTHENTICATED" by (simp add: abs_session_def served_def)
  moreover have "server_step sample_hash sample_server (Read 0 (Some (Serialize sample_response)))
      (sample_server\<lparr>sessions := (sessions sample_server)[0 := s'], broker := ?b\<rparr>)"
    by (rule server_step.read) (use s s'(1) Start_session(4) in simp_all)
  ultimately show ?thesis using s
    by (intro exI [of _ "sample_server\<lparr>sessions := (sessions sample_server)[0 := s'], broker := ?b\<rparr>"]) simp
qed

text \<open>C4: The relay serves only clients that have solved its challenge.  After any history of
  accepts, reads, writes and timer events a session that is not authenticated has been sent nothing but its
  challenge; a session becomes authenticated only by a read that completes, as its first frame, an
  \<^verbatim>\<open>AUTH_RESPONSE\<close> with a nonce whose hash with this session's own challenge begins with three zero digits;
  and the stored messages change only by a read of an authenticated session.\<close>

theorem relay_authenticates:
  assumes "server_run H (start_server n pages pageSize pct) evs srv" "server_step H srv ev srv'"
  shows "silent srv' \<and> gated H srv ev srv'"
proof -
  have "server_ok srv" using server_run_sim [OF assms(1) start_server_ok(1)] by simp
  then show ?thesis
    using step_gated [OF assms(2)] run_silent [OF assms(1) start_server_ok(1) silent_start] by blast
qed

theorem relay_authenticates_witness:
  "\<exists>srv'. server_step sample_hash sample_server (Read 0 (Some (Serialize sample_response))) srv' \<and>
     session_state (sessions srv' ! 0) = AUTHENTICATED \<and> silent srv' \<and>
     gated sample_hash sample_server (Read 0 (Some (Serialize sample_response))) srv'"
  using sample_step relay_authenticates [OF sample_run] by blast

text \<open>C3: The event loop of the relay implements the abstract machine of connections and mailboxes: every
  history of the server is a history of that machine under \<^verbatim>\<open>abs_server\<close>, the invariants of the broker and of
  each session's write queue and parser hold throughout, and whatever bytes a session that is reading receives,
  its read handler returns.\<close>

theorem relay_refines:
  assumes "server_run H (start_server n pages pageSize pct) evs srv"
  shows "server_ok srv \<and> (relay_step H (unat n))\<^sup>*\<^sup>* \<lparr>conns = [], mailboxes = (\<lambda>_. [])\<rparr> (abs_server srv) \<and>
    (\<forall>i r. i < length (sessions srv) \<and> reading (sessions srv ! i) \<longrightarrow> (\<exists>srv'. server_step H srv (Read i r) srv'))"
proof -
  note run = server_run_sim [OF assms start_server_ok(1), unfolded start_server_ok]
  then have "\<exists>srv'. server_step H srv (Read i r) srv'" if "i < length (sessions srv)" "reading (sessions srv ! i)" for i r
    using server_read_sim [OF _ that, of H r] server_step.read [OF that] by blast
  with run show ?thesis by blast
qed

theorem relay_refines_witness:
  "server_run sample_hash (start_server 4 1000 4096 50) [Accepted sample_random None] sample_server \<and>
   (relay_step sample_hash 4)\<^sup>*\<^sup>* \<lparr>conns = [], mailboxes = (\<lambda>_. [])\<rparr> (abs_server sample_server) \<and>
   length (conns (abs_server sample_server)) = 1"
  using sample_run [of sample_hash] relay_refines [OF sample_run, of sample_hash]
  by (simp add: abs_server_def sample_server_def)

section \<open>Delivery\<close>

context frame_handler
begin

lemma serve_pushes:
  "length (waiting m b) + length ps \<le> room b \<Longrightarrow>
   \<exists>b'. serve H push poll c AUTHENTICATED (map (CreatePush m) ps) b = (True, AUTHENTICATED, [], b') \<and>
     waiting m b' = waiting m b @ map (CreatePush m) ps \<and> (\<forall>m'. m' \<noteq> m \<longrightarrow> waiting m' b' = waiting m' b)"
proof (induction ps arbitrary: b)
  case (Cons p ps)
  have f: "fr_action (CreatePush m p) = PUSH" "fr_mailbox (CreatePush m p) = m"
    by (simp_all add: CreatePush_def make_frame_def)
  from Cons.IH [of "push (CreatePush m p) b"] Cons.prems show ?case
    by (auto simp: f push_waiting push_room)
qed simp

lemma serve_polls:
  "\<exists>b'. serve H push poll c AUTHENTICATED (replicate k (CreatePoll m)) b =
     (True, AUTHENTICATED,
      map Serialize (take k (waiting m b)) @ replicate (k - length (waiting m b)) (Serialize (CreatePoll m)), b') \<and>
     waiting m b' = drop k (waiting m b) \<and> (\<forall>m'. m' \<noteq> m \<longrightarrow> waiting m' b' = waiting m' b)"
proof (induction k arbitrary: b)
  case (Suc k)
  have f: "fr_action (CreatePoll m) = POLL" "fr_mailbox (CreatePoll m) = m" "POLL \<noteq> PUSH" "POLL \<noteq> ACK"
    by (simp_all add: CreatePoll_def make_frame_def protocol_simps)
  obtain r b1 where r: "poll m b = (r, b1)" by fastforce
  have w: "waiting m' b1 = (if m' = m then tl (waiting m b) else waiting m' b)" for m'
    using poll_waiting [of m' m b] r by simp
  have a: "answer m r # map Serialize (take k (tl (waiting m b))) @ replicate (k - length (tl (waiting m b))) (Serialize (CreatePoll m)) =
      map Serialize (take (Suc k) (waiting m b)) @ replicate (Suc k - length (waiting m b)) (Serialize (CreatePoll m))"
    using poll_result [of m b] r by (cases "waiting m b") (simp_all add: answer_def)
  show ?case using Suc.IH [of b1] a by (auto simp: f r w drop_Suc)
qed simp

end

lemma decode_frames: "list_all wf_frame fs \<Longrightarrow> decode (concat (map Serialize fs)) = (fs, Pending [])"
  by (induction fs) (simp_all add: decode_Serialize decode_unfinished)

text \<open>An authenticated session between two frames.\<close>

definition ready :: "TcpSession \<Rightarrow> bool" where
  "ready s \<longleftrightarrow> session_ok s \<and> reading s \<and> is_open s \<and> session_state s = AUTHENTICATED \<and> stored (parser s) = []"

lemma reads_ready:
  assumes "ready s" "list_all wf_frame fs" "concat cs = concat (map Serialize fs)"
    "serve H push poll (currentChallenge s) AUTHENTICATED fs b = (True, AUTHENTICATED, outs, b')"
  shows "\<exists>s'. reads H push poll cs s b = Some (s', b') \<and> is_open s' \<and> session_output s' = session_output s @ outs \<and> ready s'"
proof -
  have "parser s = parser_of (stored (parser s))" "stored (parser s) = []"
    using assms(1) unfolding ready_def session_ok_def by blast+
  then have p: "parser s = parser_of []" by (simp only:)
  have q: "is_open s" "write_ok s" "reading s"
      "serve H push poll (currentChallenge s) (session_state s) fs b = (True, AUTHENTICATED, outs, b')"
    using assms(1,4) unfolding ready_def session_ok_def by simp_all
  have "decode ([] @ concat cs) = (fs, Pending [])" using decode_frames [OF assms(2)] assms(3) by simp
  from reads_spec [OF p unfinished_Nil q(1-3) this q(4)] show ?thesis
    by (auto simp: settles_def ready_def session_ok_def)
qed

text \<open>C5: The relay delivers.  Messages that an authenticated client pushes to a mailbox with room for them,
  in whatever pieces the network delivers the bytes, are what an authenticated client that polls this
  mailbox reads: the messages already waiting, then the new ones, in order and unchanged, one
  for each poll, then an empty \<^verbatim>\<open>POLL\<close> frame for each further poll.  Other mailboxes are untouched, and
  the parser of the receiving client recovers exactly these frames from the bytes written.\<close>

theorem relay_delivers:
  assumes "ready s" "ready r" "length m = mailboxIdSize" "list_all (\<lambda>p. length p \<le> unat maxPayloadSize) ps"
    "list_all wf_frame (queue_ref m b)" "length (queue_ref m b) + length ps \<le> unat (maxMessages b)"
    "concat cs = concat (map (\<lambda>p. Serialize (CreatePush m p)) ps)"
    "concat ds = concat (replicate k (Serialize (CreatePoll m)))"
  defines "q \<equiv> queue_ref m b @ map (CreatePush m) ps"
  shows "\<exists>s' b1 r' b2 outs. reads H ProcessPush ProcessPoll cs s b = Some (s', b1) \<and> session_output s' = session_output s \<and>
    reads H ProcessPush ProcessPoll ds r b1 = Some (r', b2) \<and> session_output r' = session_output r @ outs \<and>
    decode (concat outs) = (take k q @ replicate (k - length q) (CreatePoll m), Pending []) \<and>
    queue_ref m b2 = drop k q \<and> (\<forall>m'. m' \<noteq> m \<longrightarrow> queue_ref m' b2 = queue_ref m' b)"
proof -
  have wf: "list_all wf_frame (map (CreatePush m) ps)" using assms(3,4) wf_created(2) by (auto simp: list_all_iff)
  have poll: "wf_frame (CreatePoll m)" using assms(3) by (rule wf_created(1))
  obtain b1 where b1: "serve H ProcessPush ProcessPoll (currentChallenge s) AUTHENTICATED (map (CreatePush m) ps) b =
      (True, AUTHENTICATED, [], b1)" "queue_ref m b1 = q" "\<forall>m'. m' \<noteq> m \<longrightarrow> queue_ref m' b1 = queue_ref m' b"
    using mb.serve_pushes [of m b ps H "currentChallenge s"] assms(6) by (auto simp: broker_room_def q_def)
  obtain s' where s': "reads H ProcessPush ProcessPoll cs s b = Some (s', b1)" "session_output s' = session_output s"
    using reads_ready [OF assms(1) wf _ b1(1), of cs] assms(7) by (auto simp: o_def)
  let ?fs = "take k q @ replicate (k - length q) (CreatePoll m)"
  obtain b2 where b2: "serve H ProcessPush ProcessPoll (currentChallenge r) AUTHENTICATED (replicate k (CreatePoll m)) b1 =
      (True, AUTHENTICATED, map Serialize ?fs, b2)" "queue_ref m b2 = drop k q" "\<forall>m'. m' \<noteq> m \<longrightarrow> queue_ref m' b2 = queue_ref m' b1"
    using mb.serve_polls [of H "currentChallenge r" k m b1] b1(2) by auto
  have "list_all wf_frame (replicate k (CreatePoll m))" using poll by (simp add: list_all_length)
  from reads_ready [OF assms(2) this _ b2(1), of ds] obtain r' where
    r': "reads H ProcessPush ProcessPoll ds r b1 = Some (r', b2)" "session_output r' = session_output r @ map Serialize ?fs"
    using assms(8) by auto
  have "list_all wf_frame q" using wf assms(5) by (simp add: q_def)
  then have "list_all wf_frame ?fs" using poll by (auto simp: list_all_iff dest: in_set_takeD)
  from decode_frames [OF this] show ?thesis using s' r' b1(3) b2(2,3) by metis
qed

definition sample_session :: TcpSession where
  "sample_session = (Start sample_random new_session)\<lparr>session_state := AUTHENTICATED\<rparr>"

lemma sample_ready: "ready sample_session"
  using Start_session [of sample_random]
  by (simp add: ready_def sample_session_def session_ok_def write_ok_def)

theorem relay_delivers_witness:
  "let m = replicate 16 3; x = Serialize (CreatePush m [1]) @ Serialize (CreatePush m [2]);
       y = Serialize (CreatePoll m) @ Serialize (CreatePoll m) @ Serialize (CreatePoll m) in
   \<exists>s' b1 r' b2 outs. reads sample_hash ProcessPush ProcessPoll [take 5 x, drop 5 x] sample_session (new_broker 4) = Some (s', b1) \<and>
     reads sample_hash ProcessPush ProcessPoll [y] sample_session b1 = Some (r', b2) \<and>
     session_output r' = session_output sample_session @ outs \<and>
     decode (concat outs) = ([CreatePush m [1], CreatePush m [2], CreatePoll m], Pending []) \<and> queue_ref m b2 = []"
proof -
  let ?m = "replicate 16 (3 :: byte)"
  let ?x = "Serialize (CreatePush ?m [1]) @ Serialize (CreatePush ?m [2])"
  let ?y = "Serialize (CreatePoll ?m) @ Serialize (CreatePoll ?m) @ Serialize (CreatePoll ?m)"
  have b: "queue_ref ?m (new_broker 4) = []" "maxMessages (new_broker 4) = 4" by (simp_all add: new_broker_def queue_ref_def)
  have cs: "concat [take 5 ?x, drop 5 ?x] = concat (map (\<lambda>p. Serialize (CreatePush ?m p)) [[1], [2]])"
    by (simp del: take_append drop_append)
  have ds: "concat [?y] = concat (replicate 3 (Serialize (CreatePoll ?m)))" by (simp add: numeral_3_eq_3)
  have "length ?m = mailboxIdSize" "list_all (\<lambda>p. length p \<le> unat maxPayloadSize) [[1 :: byte], [2]]"
      "list_all wf_frame (queue_ref ?m (new_broker 4))"
      "length (queue_ref ?m (new_broker 4)) + length [[1 :: byte], [2]] \<le> unat (maxMessages (new_broker 4))"
    by (simp_all add: b protocol_simps)
  note del = relay_delivers [OF sample_ready sample_ready this cs ds, of sample_hash]
  have q: "take 3 (queue_ref ?m (new_broker 4) @ map (CreatePush ?m) [[1], [2]]) @
      replicate (3 - length (queue_ref ?m (new_broker 4) @ map (CreatePush ?m) [[1], [2]])) (CreatePoll ?m) =
      [CreatePush ?m [1], CreatePush ?m [2], CreatePoll ?m]"
      "drop 3 (queue_ref ?m (new_broker 4) @ map (CreatePush ?m) [[1], [2]]) = []"
    unfolding b by simp_all
  show ?thesis using del unfolding Let_def q by (elim exE conjE) (intro exI conjI)
qed

section \<open>The memory quota\<close>

lemma ParseVmRSS_value:
  assumes "str_find ''VmRSS:'' status = Some pos" "drop (pos + 6) status = ws @ show_nat kb @ rest"
    "list_all (\<lambda>c. c = CHR '' '' \<or> c = CHR 0x09) ws" "rest = [] \<or> \<not> is_digit (hd rest)" "kb < 2 ^ 64"
  shows "ParseVmRSS status = Some (word_of_nat kb)"
proof -
  have d: "list_all is_digit (show_nat kb)" "show_nat kb \<noteq> []" by (simp_all add: show_nat_digits)
  then obtain c t where c: "show_nat kb = c # t" "is_digit c" by (cases "show_nat kb") auto
  then have "c \<noteq> CHR '' ''" "c \<noteq> CHR 0x09" by (auto simp: is_digit_def)
  moreover have "\<forall>x\<in>set ws. x = CHR '' '' \<or> x = CHR 0x09" using assms(3) by (simp add: list_all_iff)
  ultimately have num: "dropWhile (\<lambda>c. c = CHR '' '' \<or> c = CHR 0x09) (drop (pos + 6) status) = show_nat kb @ rest"
    unfolding assms(2) using c(1) by (simp add: dropWhile_append2)
  have "takeWhile is_digit (show_nat kb @ rest) = show_nat kb"
    using d(1) assms(4) by (cases rest) (auto simp: list_all_iff takeWhile_append2)
  moreover have "show_nat kb @ rest \<noteq> []" "is_digit (hd (show_nat kb @ rest))" using c by simp_all
  ultimately show ?thesis using assms(1,5) num by (simp add: ParseVmRSS_def Let_def)
qed

lemma CheckMemory_exceeded:
  assumes "ParseVmRSS status = Some (word_of_nat kb)" "length status < statusBufferSize" "kb * 1024 < 2 ^ 64"
  shows "isQuotaExceeded (CheckMemory (Some status) m) \<longleftrightarrow> unat (memoryLimitBytes m) \<le> kb * 1024"
proof -
  have "str_find ''VmRSS:'' [] = None" by simp
  then have "status \<noteq> []" using assms(1) by (auto simp: ParseVmRSS_def)
  moreover have "take (statusBufferSize - 1) status = status" using assms(2) by (simp add: statusBufferSize_def)
  moreover have "word_of_nat kb * bytesInKb = (word_of_nat (kb * 1024) :: 64 word)" by (simp add: bytesInKb_def)
  moreover have "unat (word_of_nat (kb * 1024) :: 64 word) = kb * 1024"
    unfolding unat_of_nat using assms(3) by simp
  ultimately show ?thesis
    using assms(1) by (auto simp: CheckMemory_def ReadStatusFile_def Let_def word_le_nat_alt)
qed

lemma quota_step:
  assumes "server_step H srv ev srv'" "isQuotaExceeded (memoryMonitor srv)" "\<And>st. ev \<noteq> Timer st"
  shows "length (sessions srv') = length (sessions srv) \<and> memoryMonitor srv' = memoryMonitor srv"
  using assms(1)
proof cases
  case (accept rb e)
  then show ?thesis using HandleAccept_sessions [of rb e "srv\<lparr>accepting := False\<rparr>"] assms(2)
    by (auto simp: HandleAccept_def DoAccept_def)
qed (use assms(3) in auto)

lemma quota_run:
  "server_run H srv evs srv' \<Longrightarrow> isQuotaExceeded (memoryMonitor srv) \<Longrightarrow> (\<And>st. Timer st \<notin> set evs) \<Longrightarrow>
   length (sessions srv') = length (sessions srv) \<and> memoryMonitor srv' = memoryMonitor srv"
proof (induction rule: server_run.induct)
  case (snoc srv evs srv' ev srv'')
  then have IH: "length (sessions srv') = length (sessions srv)" "memoryMonitor srv' = memoryMonitor srv" by simp_all
  have "ev \<noteq> Timer st" for st using snoc.prems(2) [of st] by auto
  then show ?case using quota_step [OF snoc.hyps(2)] IH snoc.prems(1) by simp
qed simp

text \<open>C24: While the resident memory is over the quota the relay accepts nobody.  When the status file, as the kernel
  prints it, reports a resident size of \<^verbatim>\<open>kb\<close> kilobytes that reaches the limit in bytes, no session is added
  from this check to the next one, whatever else happens; a size below the limit lifts the
  restriction.\<close>

theorem memory_quota_guard:
  assumes "str_find ''VmRSS:'' status = Some pos" "drop (pos + 6) status = ws @ show_nat kb @ rest"
    "list_all (\<lambda>c. c = CHR '' '' \<or> c = CHR 0x09) ws" "rest = [] \<or> \<not> is_digit (hd rest)"
    "length status < statusBufferSize" "kb * 1024 < 2 ^ 64"
    "server_step H srv (Timer (Some status)) srv1" "server_run H srv1 evs srv2" "\<And>st. Timer st \<notin> set evs"
  shows "(isQuotaExceeded (memoryMonitor srv1) \<longleftrightarrow> unat (memoryLimitBytes (memoryMonitor srv)) \<le> kb * 1024) \<and>
    (unat (memoryLimitBytes (memoryMonitor srv)) \<le> kb * 1024 \<longrightarrow> length (sessions srv2) = length (sessions srv))"
proof -
  have kb: "kb < 2 ^ 64" using assms(6) by simp
  have s1: "srv1 = srv\<lparr>memoryMonitor := CheckMemory (Some status) (memoryMonitor srv)\<rparr>"
    using assms(7) by (rule timer_stepE)
  have "isQuotaExceeded (memoryMonitor srv1) \<longleftrightarrow> unat (memoryLimitBytes (memoryMonitor srv)) \<le> kb * 1024"
    using CheckMemory_exceeded [OF ParseVmRSS_value [OF assms(1-4) kb] assms(5,6)] s1 by simp
  then show ?thesis using quota_run [OF assms(8) _ assms(9)] s1 by auto
qed

theorem memory_quota_guard_witness:
  "let status = ''VmPeak: 9 kB'' @ [CHR 0x0A] @ ''VmRSS:'' @ [CHR 0x09] @ ''  2000 kB'';
       srv1 = sample_server\<lparr>memoryMonitor := CheckMemory (Some status) (memoryMonitor sample_server)\<rparr>;
       srv2 = srv1\<lparr>accepting := True\<rparr> in
   server_run sample_hash srv1 [Accepted sample_random None] srv2 \<and>
   isQuotaExceeded (memoryMonitor srv1) \<and> length (sessions srv2) = length (sessions sample_server)"
proof -
  define status where "status = ''VmPeak: 9 kB'' @ [CHR 0x0A] @ ''VmRSS:'' @ [CHR 0x09] @ ''  2000 kB''"
  define srv1 where "srv1 = sample_server\<lparr>memoryMonitor := CheckMemory (Some status) (memoryMonitor sample_server)\<rparr>"
  have kb: "show_nat 2000 = ''2000''" by code_simp
  have f: "str_find ''VmRSS:'' status = Some 13" "drop (13 + 6) status = [CHR 0x09, CHR '' '', CHR '' ''] @ show_nat 2000 @ '' kB''"
    by (simp_all add: status_def kb)
  have g: "list_all (\<lambda>c. c = CHR '' '' \<or> c = CHR 0x09) [CHR 0x09, CHR '' '', CHR '' '']"
      "'' kB'' = [] \<or> \<not> is_digit (hd '' kB'')" "length status < statusBufferSize" "(2000 :: nat) * 1024 < 2 ^ 64"
    by (simp_all add: is_digit_def status_def statusBufferSize_def)
  have lim: "unat (memoryLimitBytes (memoryMonitor sample_server)) \<le> 2000 * 1024"
    by (simp add: sample_server_def start_server_def DoAccept_def new_monitor_def CalculateMemoryLimit_def percentMax_def Let_def)
  have t: "server_step sample_hash sample_server (Timer (Some status)) srv1"
    unfolding srv1_def by (rule server_step.timer)
  have ex: "isQuotaExceeded (memoryMonitor srv1)"
    using memory_quota_guard [OF f g t server_run.nil] lim by simp
  have "accepting srv1" by (simp add: srv1_def sample_server_def start_server_def DoAccept_def)
  from server_step.accept [OF this, of sample_hash sample_random None] ex
  have "server_step sample_hash srv1 (Accepted sample_random None) (srv1\<lparr>accepting := True\<rparr>)"
    by (simp add: HandleAccept_def DoAccept_def)
  from server_run.snoc [OF server_run.nil this]
  have run: "server_run sample_hash srv1 [Accepted sample_random None] (srv1\<lparr>accepting := True\<rparr>)" by simp
  have "length (sessions (srv1\<lparr>accepting := True\<rparr>)) = length (sessions sample_server)"
    using memory_quota_guard [OF f g t run] lim by simp
  with run ex show ?thesis unfolding Let_def status_def srv1_def by blast
qed

end
