(* ===== verification/Interop.thy ===== *)
theory Interop
  imports AuthTest RelayProps
begin

text \<open>
  The Python clients of the benchmarks against the C++ relay: the frames of \<^verbatim>\<open>auth_test.py\<close> are frames of the
  library, its proof of work is the one the session checks, and the authentication test and the
  relay agree on every byte of their dialogue.
\<close>

section \<open>The same wire format\<close>

lemma same_constants:
  "MAILBOX_SIZE = mailboxIdSize" "MAX_PAYLOAD_SIZE = unat maxPayloadSize" "FRAME_HEADER_SIZE = headerSize"
  "CONTROL_PAYLOAD_SIZE = paddedControlPayloadSize" "CHALLENGE_SIZE = challengSize"
  "ACTION_PUSH = PUSH" "ACTION_POLL = POLL" "ACTION_AUTH_CHALLENGE = AUTH_CHALLENGE" "ACTION_AUTH_RESPONSE = AUTH_RESPONSE"
  "ZERO_MAILBOX = replicate mailboxIdSize 0"
  by (simp_all add: wire_simps protocol_simps challengSize_def)

lemma decode_build_frame:
  assumes "build_frame a m p = Inr x"
  shows "decode (x @ rest) = (case decode rest of (fs, e) \<Rightarrow> ((case rebuild a m p of Some f \<Rightarrow> f # fs | None \<Rightarrow> fs), e))"
  using build_frame_InrD [OF assms] decode_wire [of m p a rest] by (simp add: same_constants)

lemma Serialize_build_frame:
  "wf_frame f \<Longrightarrow> build_frame (fr_action f) (fr_mailbox f) (fr_payload f) = Inr (Serialize f)"
  by (simp add: build_frame_def Serialize_layout wf_frame_def same_constants)

lemma pad_control_payload_C: "pad_control_payload b = Inr p \<Longrightarrow> pad_control b = p"
  using pad_control_payload_InrD [of b p]
  by (auto simp: pad_control_payload_def pad_control_def same_constants split: if_splits)

text \<open>The target of the solver is the test of the session.\<close>

lemma prefix_target:
  assumes "2 \<le> length d"
  shows "prefix ''000'' (EncodeHex d) \<longleftrightarrow> d ! 0 = 0 \<and> unat (d ! 1) < 16"
proof -
  obtain a b bs where "d = a # b # bs" using assms by (metis Suc_le_length_iff numeral_2_eq_2)
  then show ?thesis using hex_zeros [of a b bs] by (simp only: nth_Cons_0 nth_Cons_Suc One_nat_def)
qed

lemma authentic_target:
  assumes "length nonce = 8" "2 \<le> length (H (c @ nonce))"
  shows "authentic H c (CreateAuthResponse m nonce) \<longleftrightarrow> meets_target H c nonce"
proof -
  have "take 8 (pad_control nonce) = nonce" "8 \<le> length (pad_control nonce)"
    using assms(1) by (simp_all add: pad_control_def length_pad_control protocol_simps)
  then show ?thesis using prefix_target [OF assms(2)]
    by (simp add: authentic_def CreateAuthResponse_def make_frame_def HashPayload_def meets_target_def Let_def)
qed

section \<open>The dialogue\<close>

lemma session_opens:
  assumes "decode (concat cs) = (f # fs, Pending [])" "authentic H (rb challengSize) f"
    "serve H push poll (rb challengSize) AUTHENTICATED fs b = (True, AUTHENTICATED, outs, b')"
  shows "\<exists>s'. reads H push poll cs (Start rb new_session) b = Some (s', b') \<and> session_state s' = AUTHENTICATED \<and>
    is_open s' \<and> session_output s' = Serialize (CreateAuthChallenge (replicate mailboxIdSize 0) (rb challengSize)) # outs"
proof -
  have sv: "serve H push poll (currentChallenge (Start rb new_session)) (session_state (Start rb new_session)) (f # fs) b =
      (True, AUTHENTICATED, outs, b')" using assms(2,3) by (simp add: Start_session)
  have "decode ([] @ concat cs) = (f # fs, Pending [])" using assms(1) by simp
  from reads_spec [OF Start_session(1) unfinished_Nil Start_session(2-4) this sv]
  show ?thesis by (auto simp: Start_session)
qed

lemma session_rejects:
  assumes "decode (concat cs) = (f # fs, e)" "\<not> authentic H (rb challengSize) f"
  shows "\<exists>s'. reads H push poll cs (Start rb new_session) b = Some (s', b) \<and> session_state s' = UNAUTHENTICATED \<and>
    \<not> is_open s' \<and> session_output s' = [Serialize (CreateAuthChallenge (replicate mailboxIdSize 0) (rb challengSize))]"
proof -
  have sv: "serve H push poll (currentChallenge (Start rb new_session)) (session_state (Start rb new_session)) (f # fs) b =
      (False, UNAUTHENTICATED, [], b)" using assms(2) by (simp add: Start_session)
  have "decode ([] @ concat cs) = (f # fs, e)" using assms(1) by simp
  from reads_spec [OF Start_session(1) unfinished_Nil Start_session(2-4) this sv]
  show ?thesis by (auto simp: Start_session)
qed

text \<open>C6: The authentication test and the relay understand each other.  Let the proxy accept and then pass on
  what the relay writes: its challenge and an empty answer for the mailbox the test draws.  Then the
  valid-PoW test passes, and what it has sent after the proxy's part is, in whatever pieces it arrives, exactly what makes
  a session of the relay that drew this challenge write these two frames, authenticated and still open.\<close>

theorem bt01_passes_against_relay:
  fixes w :: "'z net_scheme" and rb :: "nat \<Rightarrow> bytes"
  defines "c \<equiv> rb challengSize" and "m \<equiv> map (entropy w (n_entropy w)) [0..<MAILBOX_SIZE]"
  defines "relay_out \<equiv> [Serialize (CreateAuthChallenge (replicate mailboxIdSize 0) c), Serialize (CreatePoll m)]"
  assumes client: "dials w = Inr k # ds" "0 \<le> a_timeout a" "0 < a_connect_retries a" "list_all (\<lambda>r. r = None) (sk_tx k)"
      "good_address atyp addr" "length pt = 2" "connect_bytes a request"
    and rx: "avail (sk_rx k) = good_proxy_reply atyp addr pt @ concat relay_out"
    and relay: "length c = challengSize" "queue_ref m b = []"
    and hash: "\<And>x. length (H x) = 16" "solve_pow H c = Inr nonce"
  shows "\<exists>w' sent. test_valid_pow H a w = (Ok valid_pow_text, w') \<and>
    closed_after (length (socks w)) ([5, 1, 0] @ request @ sent) w' \<and>
    (\<forall>cs. concat cs = sent \<longrightarrow>
       (\<exists>s' b'. reads H ProcessPush ProcessPoll cs (Start rb new_session) b = Some (s', b') \<and>
          session_state s' = AUTHENTICATED \<and> is_open s' \<and> session_output s' = relay_out))"
proof -
  let ?z = "replicate mailboxIdSize (0 :: byte)"
  let ?fr = "CreateAuthResponse ?z nonce" and ?fc = "CreateAuthChallenge ?z c" and ?fp = "CreatePoll m"
  have n: "length nonce = 8" "meets_target H c nonce"
    using solve_pow_valid [OF _ hash(2)] relay(1) by (simp_all add: same_constants)
  have wf: "wf_frame ?fr" "wf_frame ?fc" "wf_frame ?fp"
    using relay(1) n(1) by (auto intro!: wf_created simp: m_def same_constants protocol_simps challengSize_def)
  have fields: "fr_payload ?fc = pad_control c" "fr_payload ?fr = nonce @ replicate (CONTROL_PAYLOAD_SIZE - 8) 0"
      "fr_payload ?fp = replicate CONTROL_PAYLOAD_SIZE 0" "length (pad_control c) = CONTROL_PAYLOAD_SIZE"
      "take CHALLENGE_SIZE (pad_control c) = c"
      "fr_action ?fc = ACTION_AUTH_CHALLENGE" "fr_action ?fr = ACTION_AUTH_RESPONSE" "fr_action ?fp = ACTION_POLL"
      "fr_mailbox ?fc = ZERO_MAILBOX" "fr_mailbox ?fr = ZERO_MAILBOX" "fr_mailbox ?fp = m"
    using relay(1) n(1)
    by (simp_all add: CreateAuthChallenge_def CreateAuthResponse_def CreatePoll_def make_frame_def same_constants
        length_pad_control protocol_simps challengSize_def) (simp_all add: pad_control_def protocol_simps)
  note bld = wf [THEN Serialize_build_frame, unfolded fields]
  let ?sent = "Serialize ?fr @ Serialize ?fp"
  have "avail (sk_rx k) = good_proxy_reply atyp addr pt @ Serialize ?fc @ Serialize ?fp @ []"
    using rx by (simp add: relay_out_def)
  moreover have "solve_pow H (take CHALLENGE_SIZE (pad_control c)) = Inr nonce" using hash(2) fields(5) by simp
  ultimately have run: "\<exists>w'. test_valid_pow H a w = (Ok valid_pow_text, w') \<and>
      closed_after (length (socks w)) ([5, 1, 0] @ request @ ?sent) w'"
    using test_valid_pow_run [OF client(1-4) _ client(5-7) bld(2) fields(4) _ bld(1)] bld(3) unfolding m_def by blast
  have au: "authentic H c ?fr" using authentic_target [OF n(1)] n(2) hash(1) by simp
  obtain b' where sv: "serve H ProcessPush ProcessPoll c AUTHENTICATED (replicate 1 ?fp) b =
      (True, AUTHENTICATED, [Serialize ?fp], b')"
    using mb.serve_polls [of H c 1 m b] relay(2) by auto
  have "\<exists>s'. reads H ProcessPush ProcessPoll cs (Start rb new_session) b = Some (s', b') \<and>
      session_state s' = AUTHENTICATED \<and> is_open s' \<and> session_output s' = relay_out" if "concat cs = ?sent" for cs
  proof -
    have "decode (concat cs) = (?fr # [?fp], Pending [])"
      unfolding that using decode_frames [of "[?fr, ?fp]"] wf by simp
    from session_opens [OF this] au sv show ?thesis by (simp add: relay_out_def c_def)
  qed
  with run show ?thesis by blast
qed

theorem bt01_passes_against_relay_witness:
  "let rb = (\<lambda>n. replicate n 0);
       out = [Serialize (CreateAuthChallenge (replicate 16 0) (replicate 32 0)), Serialize (CreatePoll (replicate 16 7))];
       w = demo_world [Inr (demo_peer (map (\<lambda>b. Data b []) (good_proxy_reply 1 [0, 0, 0, 0] [0, 0] @ concat out)))] in
   \<exists>w' sent. test_valid_pow demo_hash demo_args w = (Ok valid_pow_text, w') \<and>
     closed_after 0 ([5, 1, 0] @ demo_request @ sent) w' \<and>
     (\<exists>s' b'. reads demo_hash ProcessPush ProcessPoll [sent] (Start rb new_session) (new_broker 4) = Some (s', b') \<and>
        session_state s' = AUTHENTICATED \<and> session_output s' = out)"
proof -
  define rb :: "nat \<Rightarrow> bytes" where "rb = (\<lambda>n. replicate n 0)"
  define out where "out = [Serialize (CreateAuthChallenge (replicate 16 0) (replicate 32 0)), Serialize (CreatePoll (replicate 16 7))]"
  define k where "k = demo_peer (map (\<lambda>b. Data b []) (good_proxy_reply 1 [0, 0, 0, 0] [0, 0] @ concat out))"
  define w where "w = demo_world [Inr k]"
  have m: "map (entropy w (n_entropy w)) [0..<MAILBOX_SIZE] = replicate 16 7"
    by (simp add: w_def demo_world_def wire_simps map_replicate_const)
  have c: "rb challengSize = replicate 32 0" by (simp add: rb_def challengSize_def)
  have o: "[Serialize (CreateAuthChallenge (replicate mailboxIdSize 0) (rb challengSize)),
      Serialize (CreatePoll (map (entropy w (n_entropy w)) [0..<MAILBOX_SIZE]))] = out"
    unfolding m c out_def by (simp add: protocol_simps)
  have "dials w = Inr k # []" "socks w = []" "0 \<le> a_timeout demo_args" "0 < a_connect_retries demo_args"
      "list_all (\<lambda>r. r = None) (sk_tx k)" "good_address 1 [0, 0, 0, 0]" "length [0 :: byte, 0] = 2"
      "avail (sk_rx k) = good_proxy_reply 1 [0, 0, 0, 0] [0, 0] @ concat out"
    by (simp_all add: w_def k_def demo_world_def demo_peer_def demo_args_def good_address_def del: map_append)
  note f = this
  have r: "length (rb challengSize) = challengSize" "queue_ref (map (entropy w (n_entropy w)) [0..<MAILBOX_SIZE]) (new_broker 4) = []"
    by (simp_all add: rb_def new_broker_def queue_ref_def)
  have h: "length (demo_hash x) = 16" for x by (simp add: demo_hash_def)
  have "solve_pow demo_hash (rb challengSize) = Inr (pack_le 8 3)" unfolding c by (rule demo_solve)
  from bt01_passes_against_relay [where rb = rb and H = demo_hash, OF f(1) f(3-7) demo_connect_bytes _ r h this, unfolded o, OF f(8)]
  obtain w' sent where e: "test_valid_pow demo_hash demo_args w = (Ok valid_pow_text, w')"
      "closed_after 0 ([5, 1, 0] @ demo_request @ sent) w'"
      "\<And>cs. concat cs = sent \<Longrightarrow> \<exists>s' b'. reads demo_hash ProcessPush ProcessPoll cs (Start rb new_session) (new_broker 4) = Some (s', b') \<and>
        session_state s' = AUTHENTICATED \<and> is_open s' \<and> session_output s' = out"
    unfolding f(2) list.size(3) by blast
  have "concat [sent] = sent" by simp
  with e have "\<exists>w' sent. test_valid_pow demo_hash demo_args w = (Ok valid_pow_text, w') \<and>
     closed_after 0 ([5, 1, 0] @ demo_request @ sent) w' \<and>
     (\<exists>s' b'. reads demo_hash ProcessPush ProcessPoll [sent] (Start rb new_session) (new_broker 4) = Some (s', b') \<and>
        session_state s' = AUTHENTICATED \<and> session_output s' = out)" by blast
  then show ?thesis unfolding Let_def rb_def w_def k_def out_def .
qed

text \<open>What the three negative tests send first: a padded nonce that misses the target, a padded POLL, a PUSH.\<close>

definition bad_opening :: "(bytes \<Rightarrow> bytes) \<Rightarrow> bytes \<Rightarrow> bytes \<Rightarrow> bool" where
  "bad_opening H c x \<longleftrightarrow>
     (\<exists>nonce p. find_invalid_nonce H c = Inr nonce \<and> pad_control_payload nonce = Inr p \<and>
        build_frame ACTION_AUTH_RESPONSE ZERO_MAILBOX p = Inr x) \<or>
     (\<exists>m p. pad_control_payload [] = Inr p \<and> build_frame ACTION_POLL m p = Inr x) \<or>
     (\<exists>m. build_frame ACTION_PUSH m preauth_push_payload = Inr x)"

lemma bad_opening_frame:
  assumes "bad_opening H c x" "length c = challengSize" "\<And>y. length (H y) = 16"
  obtains f where "\<And>rest. decode (x @ rest) = (case decode rest of (fs, e) \<Rightarrow> (f # fs, e))" "\<not> authentic H c f"
proof -
  have act: "POLL \<noteq> AUTH_RESPONSE" "PUSH \<noteq> AUTH_RESPONSE" by (simp_all add: protocol_simps)
  consider nonce p where "find_invalid_nonce H c = Inr nonce" "pad_control_payload nonce = Inr p"
      "build_frame ACTION_AUTH_RESPONSE ZERO_MAILBOX p = Inr x"
    | m p where "build_frame ACTION_POLL m p = Inr x" | m where "build_frame ACTION_PUSH m preauth_push_payload = Inr x"
    using assms(1) unfolding bad_opening_def by blast
  then show thesis
  proof cases
    case 1
    have p: "pad_control nonce = p" "pad_control p = p"
      using pad_control_payload_C [OF 1(2)] pad_control_twice by auto
    have n: "length nonce = 8" "\<not> meets_target H c nonce"
      using find_invalid_nonce_invalid [OF _ 1(1)] assms(2) by (simp_all add: same_constants)
    then have "\<not> authentic H c (CreateAuthResponse ZERO_MAILBOX nonce)" using authentic_target assms(3) by simp
    moreover have "rebuild ACTION_AUTH_RESPONSE ZERO_MAILBOX p = Some (CreateAuthResponse ZERO_MAILBOX nonce)"
      by (simp add: rebuild_def CreateAuthResponse_def p same_constants protocol_simps)
    ultimately show thesis using that decode_build_frame [OF 1(3)] by simp
  next
    case 2
    have "\<not> authentic H c (CreatePoll m)" using act by (simp add: authentic_def CreatePoll_def make_frame_def)
    moreover have "rebuild ACTION_POLL m p = Some (CreatePoll m)" by (simp add: rebuild_def same_constants protocol_simps)
    ultimately show thesis using that decode_build_frame [OF 2] by simp
  next
    case 3
    have "\<not> authentic H c (CreatePush m preauth_push_payload)"
      using act by (simp add: authentic_def CreatePush_def make_frame_def)
    moreover have "rebuild ACTION_PUSH m preauth_push_payload = Some (CreatePush m preauth_push_payload)"
      by (simp add: rebuild_def same_constants)
    ultimately show thesis using that decode_build_frame [OF 3] by simp
  qed
qed

text \<open>C17: The relay rejects what the negative authentication tests open with.  After the nonce that \<^verbatim>\<open>auth_test.py\<close>
  searches for its invalid proof of work, after its POLL or its PUSH before authentication, and
  whatever it sends next and however the bytes are cut, the session is closed, not authenticated, has written nothing but
  its challenge, and no message has been stored or taken.\<close>

theorem bt01_rejected_by_relay:
  assumes "bad_opening H (rb challengSize) x" "length (rb challengSize) = challengSize" "\<And>y. length (H y) = 16"
    "concat cs = x @ rest"
  shows "\<exists>s'. reads H ProcessPush ProcessPoll cs (Start rb new_session) b = Some (s', b) \<and>
    session_state s' = UNAUTHENTICATED \<and> \<not> is_open s' \<and>
    session_output s' = [Serialize (CreateAuthChallenge (replicate mailboxIdSize 0) (rb challengSize))]"
proof -
  obtain f where f: "\<And>r. decode (x @ r) = (case decode r of (fs, e) \<Rightarrow> (f # fs, e))" "\<not> authentic H (rb challengSize) f"
    using bad_opening_frame [OF assms(1-3)] by blast
  obtain fs e where "decode (concat cs) = (f # fs, e)" using f(1) [of rest] assms(4) by (auto split: prod.splits)
  then show ?thesis using f(2) by (rule session_rejects [where rb = rb])
qed

theorem bt01_rejected_by_relay_witness:
  "\<exists>x s'. build_frame ACTION_POLL (replicate 16 9) (replicate 477 0) = Inr x \<and>
     reads sample_hash ProcessPush ProcessPoll [take 7 x, drop 7 x] (Start sample_random new_session) (new_broker 4) =
       Some (s', new_broker 4) \<and> \<not> is_open s'"
proof -
  obtain x where x: "build_frame ACTION_POLL (replicate 16 9) (replicate 477 0) = Inr x"
    by (simp add: build_frame_def wire_simps)
  have "bad_opening sample_hash (sample_random challengSize) x" unfolding bad_opening_def using x
    by (intro disjI2 disjI1 exI conjI) (simp_all add: pad_control_payload_def wire_simps)
  moreover have "length (sample_random challengSize) = challengSize" "\<And>y. length (sample_hash y) = 16"
    by (simp_all add: sample_random_def sample_hash_def)
  moreover have "concat [take 7 x, drop 7 x] = x @ []" by simp
  ultimately show ?thesis using bt01_rejected_by_relay [where rb = sample_random] x by blast
qed

end
