(* ===== verification/Cipher.thy ===== *)
theory Cipher
  imports CppStrings Protocol
begin

text \<open>
  Payload encryption and key derivation (\<^verbatim>\<open>libs/crypto\<close>) and the contents of payloads
  (\<^verbatim>\<open>libs/domain/client/src/payload_formatter.cpp\<close>).  The primitives of libsodium are the fields of a record that every
  definition takes as an argument; \<^verbatim>\<open>sodium_ok\<close> names what the code relies on.
\<close>

section \<open>The primitives\<close>

text \<open>\<^verbatim>\<open>generichash n x\<close> is the digest of \<^verbatim>\<open>n\<close> bytes, \<^verbatim>\<open>scalarmult_base\<close> gives the public key of a secret one.\<close>

record sodium =
  generichash :: "nat \<Rightarrow> bytes \<Rightarrow> bytes"
  scalarmult_base :: "bytes \<Rightarrow> bytes"
  scalarmult :: "bytes \<Rightarrow> bytes \<Rightarrow> bytes option"
  pk_to_curve25519 :: "bytes \<Rightarrow> bytes option"
  sk_to_curve25519 :: "bytes \<Rightarrow> bytes option"
  aead_encrypt :: "bytes \<Rightarrow> bytes \<Rightarrow> bytes \<Rightarrow> bytes option"
  aead_decrypt :: "bytes \<Rightarrow> bytes \<Rightarrow> bytes \<Rightarrow> bytes option"
  sign_detached :: "bytes \<Rightarrow> bytes \<Rightarrow> bytes"
  verify_detached :: "bytes \<Rightarrow> bytes \<Rightarrow> bytes \<Rightarrow> bool"

text \<open>The randomness of one process: the answers to its requests for random bytes and for a key pair, in order.\<close>

record rng =
  randombytes :: "nat \<Rightarrow> nat \<Rightarrow> bytes"
  kx_keypair :: "nat \<Rightarrow> (bytes \<times> bytes) option"

section \<open>Constants\<close>

named_theorems crypto_simps \<open>unfolding rules for the constants of the crypto library\<close>

definition publicKeySize :: nat where [crypto_simps]: "publicKeySize = 32"
definition symmetricKeySize :: nat where [crypto_simps]: "symmetricKeySize = 32"
definition extendedHashSize :: nat where [crypto_simps]: "extendedHashSize = mailboxIdSize + symmetricKeySize"
definition keySize :: nat where [crypto_simps]: "keySize = 32"
definition nonceSize :: nat where [crypto_simps]: "nonceSize = 24"
definition macSize :: nat where [crypto_simps]: "macSize = 16"
definition cryptoOverhead :: nat where [crypto_simps]: "cryptoOverhead = nonceSize + macSize"
definition totalFixedOverhead :: nat where [crypto_simps]: "totalFixedOverhead = headerSize + cryptoOverhead"
definition paddingMarker :: byte where [crypto_simps]: "paddingMarker = 0x80"
definition cryptoSignBytes :: nat where [crypto_simps]: "cryptoSignBytes = 64"

section \<open>Padded encryption\<close>

definition padded_size :: "nat \<Rightarrow> nat" where
  "padded_size plaintextSize =
     (let minPaddedSize = plaintextSize + 1;
          totalFrameSize = totalFixedOverhead + minPaddedSize;
          cellsNeeded = (totalFrameSize + torCellPayloadSize - 1) div torCellPayloadSize;
          targetFrameSize = cellsNeeded * torCellPayloadSize in
      targetFrameSize - totalFixedOverhead)"

definition pad :: "bytes \<Rightarrow> bytes" where
  "pad plaintext =
     (let p = plaintext @ [paddingMarker] in p @ replicate (padded_size (length plaintext) - length p) 0)"

text \<open>\<^verbatim>\<open>nonce\<close> is what \<^verbatim>\<open>randombytes_buf\<close> writes to the front of the buffer.\<close>

definition EncryptWithPadding :: "sodium \<Rightarrow> bytes \<Rightarrow> bytes \<Rightarrow> bytes \<Rightarrow> bytes option" where
  "EncryptWithPadding lib nonce key plaintext =
     (if length key \<noteq> keySize then None
      else map_option (\<lambda>c. nonce @ c) (aead_encrypt lib key nonce (pad plaintext)))"

definition unpad :: "bytes \<Rightarrow> bytes option" where
  "unpad decrypted =
     (case dropWhile (\<lambda>b. b = 0) (rev decrypted) of
        [] \<Rightarrow> None
      | b # rest \<Rightarrow> if b \<noteq> paddingMarker then None else Some (rev rest))"

definition DecryptAndUnpad :: "sodium \<Rightarrow> bytes \<Rightarrow> bytes \<Rightarrow> bytes option" where
  "DecryptAndUnpad lib key ciphertext =
     (if length key \<noteq> keySize \<or> length ciphertext < nonceSize + macSize then None
      else
        (case aead_decrypt lib key (take nonceSize ciphertext) (drop nonceSize ciphertext) of
           None \<Rightarrow> None
         | Some decrypted \<Rightarrow> unpad decrypted))"

section \<open>Payload formats\<close>

datatype PayloadOpcode = TEXT_MESSAGE | PFS_ROTATE_REQUEST | PFS_ROTATE_ACK

primrec opcode_byte :: "PayloadOpcode \<Rightarrow> byte" where
  "opcode_byte TEXT_MESSAGE = 1"
| "opcode_byte PFS_ROTATE_REQUEST = 2"
| "opcode_byte PFS_ROTATE_ACK = 3"

record PfsRotateData =
  pr_ephemeralPublicKey :: bytes
  pr_signature :: bytes

definition BuildTextMessage :: "bytes \<Rightarrow> bytes" where
  "BuildTextMessage textData = opcode_byte TEXT_MESSAGE # textData"

definition BuildPfsRotateRequest :: "bytes \<Rightarrow> bytes \<Rightarrow> bytes" where
  "BuildPfsRotateRequest ephemeralKey signature = opcode_byte PFS_ROTATE_REQUEST # ephemeralKey @ signature"

definition BuildPfsRotateAck :: "bytes \<Rightarrow> bytes \<Rightarrow> bytes" where
  "BuildPfsRotateAck ephemeralKey signature = opcode_byte PFS_ROTATE_ACK # ephemeralKey @ signature"

definition ExtractOpcode :: "bytes \<Rightarrow> PayloadOpcode option" where
  "ExtractOpcode payload =
     (case payload of
        [] \<Rightarrow> None
      | rawOpcode # _ \<Rightarrow>
          if rawOpcode = opcode_byte TEXT_MESSAGE then Some TEXT_MESSAGE
          else if rawOpcode = opcode_byte PFS_ROTATE_REQUEST then Some PFS_ROTATE_REQUEST
          else if rawOpcode = opcode_byte PFS_ROTATE_ACK then Some PFS_ROTATE_ACK
          else None)"

definition ParseTextMessage :: "bytes \<Rightarrow> bytes option" where
  "ParseTextMessage payload =
     (if ExtractOpcode payload \<noteq> Some TEXT_MESSAGE then None else Some (drop 1 payload))"

text \<open>The two rotation messages are parsed by the same statements after the test of their opcode.\<close>

definition parse_rotate :: "PayloadOpcode \<Rightarrow> bytes \<Rightarrow> PfsRotateData option" where
  "parse_rotate opcode payload =
     (if ExtractOpcode payload \<noteq> Some opcode then None
      else if length payload \<noteq> 1 + publicKeySize + cryptoSignBytes then None
      else Some \<lparr>pr_ephemeralPublicKey = take publicKeySize (drop 1 payload),
                 pr_signature = take cryptoSignBytes (drop (1 + publicKeySize) payload)\<rparr>)"

definition ParsePfsRotateRequest :: "bytes \<Rightarrow> PfsRotateData option" where
  "ParsePfsRotateRequest = parse_rotate PFS_ROTATE_REQUEST"

definition ParsePfsRotateAck :: "bytes \<Rightarrow> PfsRotateData option" where
  "ParsePfsRotateAck = parse_rotate PFS_ROTATE_ACK"

section \<open>Mailboxes of a pair\<close>

record DerivedMailboxes =
  dm_txId :: bytes
  dm_txKey :: bytes
  dm_rxId :: bytes
  dm_rxKey :: bytes

text \<open>The extended hash of a secret and two public keys, and its two parts; the statements occur in
  \<^verbatim>\<open>DerivePairwiseMailboxes\<close> and in both handlers of a key rotation.\<close>

definition extended_hash :: "sodium \<Rightarrow> bytes \<Rightarrow> bytes \<Rightarrow> bytes \<Rightarrow> bytes" where
  "extended_hash lib sharedSecret pk1 pk2 = generichash lib extendedHashSize (sharedSecret @ pk1 @ pk2)"

definition derive_mailboxes :: "sodium \<Rightarrow> bytes \<Rightarrow> bytes \<Rightarrow> bytes \<Rightarrow> DerivedMailboxes" where
  "derive_mailboxes lib sharedSecret ourPk theirPk =
     (let tx = extended_hash lib sharedSecret ourPk theirPk; rx = extended_hash lib sharedSecret theirPk ourPk in
      \<lparr>dm_txId = take mailboxIdSize tx, dm_txKey = take symmetricKeySize (drop mailboxIdSize tx),
       dm_rxId = take mailboxIdSize rx, dm_rxKey = take symmetricKeySize (drop mailboxIdSize rx)\<rparr>)"

record IdentityKey =
  id_publicKey :: bytes
  id_secretKey :: bytes

definition DerivePairwiseMailboxes :: "sodium \<Rightarrow> IdentityKey \<Rightarrow> bytes \<Rightarrow> DerivedMailboxes option" where
  "DerivePairwiseMailboxes lib ourIdentity theirEd25519PublicKey =
     (case (pk_to_curve25519 lib (id_publicKey ourIdentity), sk_to_curve25519 lib (id_secretKey ourIdentity)) of
        (Some ourPk, Some ourSk) \<Rightarrow>
          (case pk_to_curve25519 lib theirEd25519PublicKey of
             None \<Rightarrow> None
           | Some theirPk \<Rightarrow>
               map_option (\<lambda>secret. derive_mailboxes lib secret ourPk theirPk) (scalarmult lib ourSk theirPk))
      | _ \<Rightarrow> None)"

section \<open>What the code relies on\<close>

definition sodium_ok :: "sodium \<Rightarrow> bool" where
  "sodium_ok lib \<longleftrightarrow>
     (\<forall>n x. length (generichash lib n x) = n) \<and>
     (\<forall>a. length a = 32 \<longrightarrow> length (scalarmult_base lib a) = publicKeySize) \<and>
     (\<forall>a b. length a = 32 \<and> length b = 32 \<longrightarrow>
        (\<exists>s. scalarmult lib a (scalarmult_base lib b) = Some s \<and> scalarmult lib b (scalarmult_base lib a) = Some s)) \<and>
     (\<forall>k n p. length k = keySize \<and> length n = nonceSize \<longrightarrow>
        (\<exists>c. aead_encrypt lib k n p = Some c \<and> length c = length p + macSize \<and> aead_decrypt lib k n c = Some p))"

definition rng_ok :: "sodium \<Rightarrow> rng \<Rightarrow> bool" where
  "rng_ok lib r \<longleftrightarrow> (\<forall>i n. length (randombytes r i n) = n) \<and>
     (\<forall>i. \<exists>sk. length sk = 32 \<and> kx_keypair r i = Some (scalarmult_base lib sk, sk))"

definition identity_ok :: "sodium \<Rightarrow> IdentityKey \<Rightarrow> bool" where
  "identity_ok lib k \<longleftrightarrow>
     (\<forall>m. length (sign_detached lib (id_secretKey k) m) = cryptoSignBytes \<and>
        verify_detached lib (sign_detached lib (id_secretKey k) m) m (id_publicKey k)) \<and>
     (\<exists>a. length a = 32 \<and> sk_to_curve25519 lib (id_secretKey k) = Some a \<and>
        pk_to_curve25519 lib (id_publicKey k) = Some (scalarmult_base lib a))"

lemma sodium_dh:
  "sodium_ok lib \<Longrightarrow> length a = 32 \<Longrightarrow> length b = 32 \<Longrightarrow>
   \<exists>s. scalarmult lib a (scalarmult_base lib b) = Some s \<and> scalarmult lib b (scalarmult_base lib a) = Some s"
  by (simp add: sodium_ok_def)

lemma sodium_aead:
  "sodium_ok lib \<Longrightarrow> length k = keySize \<Longrightarrow> length n = nonceSize \<Longrightarrow>
   \<exists>c. aead_encrypt lib k n p = Some c \<and> length c = length p + macSize \<and> aead_decrypt lib k n c = Some p"
  by (simp add: sodium_ok_def)

lemma identity_curve:
  "identity_ok lib k \<Longrightarrow> \<exists>a. length a = 32 \<and> sk_to_curve25519 lib (id_secretKey k) = Some a \<and>
     pk_to_curve25519 lib (id_publicKey k) = Some (scalarmult_base lib a)"
  by (simp add: identity_ok_def)

lemma identity_signs:
  "identity_ok lib k \<Longrightarrow> length (sign_detached lib (id_secretKey k) m) = cryptoSignBytes"
  "identity_ok lib k \<Longrightarrow> verify_detached lib (sign_detached lib (id_secretKey k) m) m (id_publicKey k)"
  by (simp_all add: identity_ok_def)

section \<open>Encryption\<close>

lemma padded_size_cells:
  "totalFixedOverhead + padded_size n = torCellPayloadSize * ((totalFixedOverhead + n + torCellPayloadSize) div torCellPayloadSize)"
  "n < padded_size n"
proof -
  define q where "q = (n + 559) div 498"
  have "498 * q + (n + 559) mod 498 = n + 559" unfolding q_def by simp
  moreover have "(n + 559) mod 498 < 498" by simp
  ultimately have q: "62 + n \<le> 498 * q" by linarith
  have p: "padded_size n = 498 * q - 61"
    by (simp add: padded_size_def q_def crypto_simps protocol_simps Let_def mult.commute add.commute)
  show "totalFixedOverhead + padded_size n = torCellPayloadSize * ((totalFixedOverhead + n + torCellPayloadSize) div torCellPayloadSize)"
    using q by (simp add: p crypto_simps protocol_simps q_def add.commute)
  show "n < padded_size n" using q p by linarith
qed

lemma length_pad: "length (pad p) = padded_size (length p)"
  using padded_size_cells(2) [of "length p"] by (simp add: pad_def Let_def)

lemma dropWhile_zeros: "x \<noteq> 0 \<Longrightarrow> dropWhile (\<lambda>b. b = 0) (replicate k 0 @ x # r) = x # r"
  by (induction k) simp_all

lemma unpad_pad: "unpad (pad p) = Some p"
  by (simp add: unpad_def pad_def Let_def dropWhile_zeros paddingMarker_def)

lemma unpad_Some: "unpad d = Some p \<Longrightarrow> \<exists>k. d = p @ [paddingMarker] @ replicate k 0"
proof -
  assume "unpad d = Some p"
  then have d: "dropWhile (\<lambda>b. b = 0) (rev d) = paddingMarker # rev p"
    by (auto simp: unpad_def split: list.splits if_splits)
  let ?z = "takeWhile (\<lambda>b. b = 0) (rev d)"
  have "?z = replicate (length ?z) 0"
    by (rule replicate_eqI) (auto dest: set_takeWhileD)
  then have "rev d = replicate (length ?z) 0 @ paddingMarker # rev p"
    using d takeWhile_dropWhile_id [of "\<lambda>b. b = 0" "rev d"] by metis
  then have "d = rev (replicate (length ?z) 0 @ paddingMarker # rev p)" by (metis rev_rev_ident)
  then show ?thesis by auto
qed

lemma encrypt_decrypt:
  assumes "sodium_ok lib" "length key = keySize" "length nonce = nonceSize"
  shows "\<exists>c. EncryptWithPadding lib nonce key p = Some c \<and> DecryptAndUnpad lib key c = Some p \<and>
    length c = cryptoOverhead + padded_size (length p)"
proof -
  obtain c where "aead_encrypt lib key nonce (pad p) = Some c" "length c = length (pad p) + macSize"
      "aead_decrypt lib key nonce c = Some (pad p)"
    using sodium_aead [OF assms] by blast
  then show ?thesis using assms(2,3)
    by (simp add: EncryptWithPadding_def DecryptAndUnpad_def unpad_pad length_pad cryptoOverhead_def)
qed

lemma length_Serialize:
  "length (fr_mailbox f) = mailboxIdSize \<Longrightarrow> fr_length f = word_of_nat (length (fr_payload f)) \<Longrightarrow>
   length (fr_payload f) < 2 ^ 32 \<Longrightarrow> length (Serialize f) = headerSize + length (fr_payload f)"
  by (auto simp: Serialize_def length_bytes_def protocol_simps word_less_nat_alt unat_of_nat)

section \<open>Formats\<close>

lemma opcode_bytes [simp]: "opcode_byte a = opcode_byte b \<longleftrightarrow> a = b"
  by (cases a; cases b) simp_all

lemma ExtractOpcode_byte [simp]: "ExtractOpcode (opcode_byte c # p) = Some c"
  by (cases c) (simp_all add: ExtractOpcode_def)

lemma parse_built:
  "ParseTextMessage (BuildTextMessage t) = Some t"
  "length k = publicKeySize \<Longrightarrow> length s = cryptoSignBytes \<Longrightarrow>
   ParsePfsRotateRequest (BuildPfsRotateRequest k s) = Some \<lparr>pr_ephemeralPublicKey = k, pr_signature = s\<rparr>"
  "length k = publicKeySize \<Longrightarrow> length s = cryptoSignBytes \<Longrightarrow>
   ParsePfsRotateAck (BuildPfsRotateAck k s) = Some \<lparr>pr_ephemeralPublicKey = k, pr_signature = s\<rparr>"
  unfolding ParseTextMessage_def ParsePfsRotateRequest_def ParsePfsRotateAck_def parse_rotate_def
    BuildTextMessage_def BuildPfsRotateRequest_def BuildPfsRotateAck_def
  by (simp_all del: opcode_byte.simps)

section \<open>Both ends derive the same mailboxes\<close>

text \<open>What one end sends to, the other receives from.\<close>

definition mirrored :: "DerivedMailboxes \<Rightarrow> DerivedMailboxes \<Rightarrow> bool" where
  "mirrored a b \<longleftrightarrow> dm_txId a = dm_rxId b \<and> dm_txKey a = dm_rxKey b \<and> dm_rxId a = dm_txId b \<and> dm_rxKey a = dm_txKey b"

lemma mirrored_derive: "mirrored (derive_mailboxes lib s a b) (derive_mailboxes lib s b a)"
  by (simp add: mirrored_def derive_mailboxes_def Let_def)

lemma length_derive:
  assumes "sodium_ok lib"
  shows "length (dm_txId (derive_mailboxes lib s a b)) = mailboxIdSize" "length (dm_txKey (derive_mailboxes lib s a b)) = keySize"
    "length (dm_rxId (derive_mailboxes lib s a b)) = mailboxIdSize" "length (dm_rxKey (derive_mailboxes lib s a b)) = keySize"
proof -
  have "length (extended_hash lib s x y) = extendedHashSize" for x y using assms by (simp add: sodium_ok_def extended_hash_def)
  then show "length (dm_txId (derive_mailboxes lib s a b)) = mailboxIdSize" "length (dm_txKey (derive_mailboxes lib s a b)) = keySize"
      "length (dm_rxId (derive_mailboxes lib s a b)) = mailboxIdSize" "length (dm_rxKey (derive_mailboxes lib s a b)) = keySize"
    by (simp_all add: derive_mailboxes_def Let_def crypto_simps protocol_simps)
qed

lemma pairwise_mirrored:
  assumes "sodium_ok lib" "identity_ok lib a" "identity_ok lib b"
  obtains da db where "DerivePairwiseMailboxes lib a (id_publicKey b) = Some da"
    "DerivePairwiseMailboxes lib b (id_publicKey a) = Some db" "mirrored da db"
    "length (dm_txId da) = mailboxIdSize" "length (dm_txKey da) = keySize"
    "length (dm_rxId da) = mailboxIdSize" "length (dm_rxKey da) = keySize"
proof -
  obtain x where x: "length x = 32" "sk_to_curve25519 lib (id_secretKey a) = Some x"
      "pk_to_curve25519 lib (id_publicKey a) = Some (scalarmult_base lib x)" using identity_curve [OF assms(2)] by blast
  obtain y where y: "length y = 32" "sk_to_curve25519 lib (id_secretKey b) = Some y"
      "pk_to_curve25519 lib (id_publicKey b) = Some (scalarmult_base lib y)" using identity_curve [OF assms(3)] by blast
  obtain s where "scalarmult lib x (scalarmult_base lib y) = Some s" "scalarmult lib y (scalarmult_base lib x) = Some s"
    using sodium_dh [OF assms(1) x(1) y(1)] by blast
  then show thesis using x y mirrored_derive length_derive [OF assms(1)]
    by (intro that) (simp_all add: DerivePairwiseMailboxes_def)
qed

section \<open>Encrypted payloads fill cells\<close>

text \<open>C28: what \<^verbatim>\<open>EncryptWithPadding\<close> makes of a plaintext is opened again by \<^verbatim>\<open>DecryptAndUnpad\<close> under the same key,
  whatever bytes the plaintext ends with, and the frame that carries it fills a whole number of cells and no more cells than
  header, nonce, code and padding marker require.\<close>

theorem padded_encryption_roundtrip:
  assumes "sodium_ok lib" "length key = keySize" "length nonce = nonceSize"
  shows "\<exists>c. EncryptWithPadding lib nonce key p = Some c \<and> DecryptAndUnpad lib key c = Some p \<and>
    torCellPayloadSize dvd headerSize + length c \<and>
    totalFixedOverhead + length p + 1 \<le> headerSize + length c \<and>
    headerSize + length c < totalFixedOverhead + length p + 1 + torCellPayloadSize"
proof -
  obtain c where c: "EncryptWithPadding lib nonce key p = Some c" "DecryptAndUnpad lib key c = Some p"
      "length c = cryptoOverhead + padded_size (length p)" using encrypt_decrypt [OF assms, of p] by blast
  then have l: "headerSize + length c = totalFixedOverhead + padded_size (length p)" by (simp add: totalFixedOverhead_def)
  then have "headerSize + length c \<le> totalFixedOverhead + length p + torCellPayloadSize" "torCellPayloadSize dvd headerSize + length c"
    using padded_size_cells(1) [of "length p"] by simp_all
  moreover have "totalFixedOverhead + length p + 1 \<le> headerSize + length c" using l padded_size_cells(2) [of "length p"] by simp
  ultimately show ?thesis using c(1,2) by auto
qed

text \<open>Primitives with the assumed behaviour: the exclusive or as exchange, no secrecy.\<close>

definition sample_sodium :: sodium where
  "sample_sodium =
     \<lparr>generichash = (\<lambda>n x. take n (x @ replicate n 0)), scalarmult_base = (\<lambda>a. a),
      scalarmult = (\<lambda>a b. Some (map2 (\<lambda>x y. x XOR y) a b)),
      pk_to_curve25519 = Some, sk_to_curve25519 = Some,
      aead_encrypt = (\<lambda>k n p. Some (p @ replicate 16 0)), aead_decrypt = (\<lambda>k n c. Some (take (length c - 16) c)),
      sign_detached = (\<lambda>sk m. take 64 (sk @ m @ replicate 64 0)),
      verify_detached = (\<lambda>sig m pk. sig = take 64 (pk @ m @ replicate 64 0))\<rparr>"

lemma map2_commute: "(\<And>x y. f x y = f y x) \<Longrightarrow> map2 f a b = map2 f b a"
  by (induction a b rule: list_induct2') auto

lemma sample_sodium_ok: "sodium_ok sample_sodium"
  using map2_commute [of "(XOR) :: byte \<Rightarrow> byte \<Rightarrow> byte"]
  by (auto simp: sodium_ok_def sample_sodium_def crypto_simps xor.commute)

theorem padded_encryption_roundtrip_witness:
  "\<exists>c. EncryptWithPadding sample_sodium (replicate 24 7) (replicate 32 9) [1, 2, 0] = Some c \<and>
     DecryptAndUnpad sample_sodium (replicate 32 9) c = Some [1, 2, 0] \<and> headerSize + length c = 498"
proof -
  have "length (replicate 32 (9 :: byte)) = keySize" "length (replicate 24 (7 :: byte)) = nonceSize" by (simp_all add: crypto_simps)
  from padded_encryption_roundtrip [OF sample_sodium_ok this, of "[1, 2, 0]"] obtain c where
    "EncryptWithPadding sample_sodium (replicate 24 7) (replicate 32 9) [1, 2, 0] = Some c"
    "DecryptAndUnpad sample_sodium (replicate 32 9) c = Some [1, 2, 0]"
    "498 dvd headerSize + length c" "0 < headerSize + length c" "headerSize + length c < 2 * 498"
    by (auto simp: crypto_simps protocol_simps)
  moreover from this(3-5) have "headerSize + length c = 498" by (elim dvdE) auto
  ultimately show ?thesis by blast
qed

end
