(* ===== verification/Bip39.thy ===== *)
theory Bip39
  imports Bip39Words Cipher
begin

unbundle bit_operations_syntax

text \<open>
  Public keys as mnemonics, \<^verbatim>\<open>crypto/bip39.cpp\<close>: 24 words that carry the 256 bits of the key and the first 8 bits of its
  hash.  Decoding accepts exactly the mnemonics that encoding makes.  The hash of libsodium is an argument.
\<close>

definition bipBitsAmount :: nat where "bipBitsAmount = 264"
definition wordsInMnemonic :: nat where "wordsInMnemonic = 24"

section \<open>Encoding\<close>

text \<open>One turn of the loop over the bits.\<close>

definition encode_bit :: "bytes \<Rightarrow> nat \<Rightarrow> string \<times> nat \<Rightarrow> string \<times> nat" where
  "encode_bit buffer i st =
     (case st of (result, wordIndex) \<Rightarrow>
      let byteIndex = i div 8;
          bitOffset = 7 - i mod 8;
          b = drop_bit bitOffset (buffer ! byteIndex) AND 1;
          w = push_bit 1 wordIndex OR unat b in
      if (i + 1) mod 11 = 0 then (result @ (if 10 < i then ''-'' else []) @ wordlist ! w, 0) else (result, w))"

definition Encode :: "(bytes \<Rightarrow> bytes) \<Rightarrow> bytes \<Rightarrow> string" where
  "Encode sha256 pubKey =
     (let buffer = pubKey @ [sha256 pubKey ! 0] in fst (fold (encode_bit buffer) [0..<bipBitsAmount] ([], 0)))"

section \<open>Decoding\<close>

text \<open>The words between the separators; there must be as many as a mnemonic has.\<close>

function split_words :: "nat \<Rightarrow> string \<Rightarrow> string list option" where
  "split_words ind s =
     (if CHR ''-'' \<in> set s then
        if wordsInMnemonic - 1 \<le> ind then None
        else map_option ((#) (takeWhile (\<lambda>c. c \<noteq> CHR ''-'') s)) (split_words (ind + 1) (tl (dropWhile (\<lambda>c. c \<noteq> CHR ''-'') s)))
      else if ind \<noteq> wordsInMnemonic - 1 then None else Some [s])"
  by pat_completeness auto
termination
  by (relation "measure (\<lambda>(ind, s). wordsInMnemonic - ind)") auto

declare split_words.simps [simp del]

definition lower_bound :: "string list \<Rightarrow> string \<Rightarrow> nat" where
  "lower_bound ws w = length (takeWhile (\<lambda>x. string_less x w) ws)"

definition word_index :: "string \<Rightarrow> nat option" where
  "word_index w =
     (let it = lower_bound wordlist w in if it = length wordlist \<or> wordlist ! it \<noteq> w then None else Some it)"

fun word_indices :: "string list \<Rightarrow> nat list option" where
  "word_indices [] = Some []"
| "word_indices (w # ws) =
     (case word_index w of None \<Rightarrow> None | Some i \<Rightarrow> map_option ((#) i) (word_indices ws))"

definition decode_bit :: "nat list \<Rightarrow> nat \<Rightarrow> bytes \<Rightarrow> bytes" where
  "decode_bit indices i entropy =
     (let wordIndex = i div 11;
          bitInWord = 10 - i mod 11;
          b = drop_bit bitInWord (indices ! wordIndex) AND 1;
          byteIndex = i div 8;
          bitInByte = 7 - i mod 8 in
      entropy[byteIndex := entropy ! byteIndex OR push_bit bitInByte (word_of_nat b)])"

definition Decode :: "(bytes \<Rightarrow> bytes) \<Rightarrow> string \<Rightarrow> bytes option" where
  "Decode sha256 mnemonic =
     (case split_words 0 mnemonic of
        None \<Rightarrow> None
      | Some words \<Rightarrow>
          (case word_indices words of
             None \<Rightarrow> None
           | Some indices \<Rightarrow>
               let entropy = fold (decode_bit indices) [0..<bipBitsAmount] (replicate (publicKeySize + 1) 0);
                   pubKey = take publicKeySize entropy in
               if sha256 pubKey ! 0 \<noteq> entropy ! publicKeySize then None else Some pubKey))"

section \<open>The bits\<close>

text \<open>Bit \<^verbatim>\<open>i\<close> of the buffer and the word that starts at bit \<^verbatim>\<open>11 * j\<close>.\<close>

definition nth_bit :: "bytes \<Rightarrow> nat \<Rightarrow> bool" where
  "nth_bit buffer i = bit (buffer ! (i div 8)) (7 - i mod 8)"

definition eleven :: "(nat \<Rightarrow> bool) \<Rightarrow> nat \<Rightarrow> nat" where
  "eleven b j = horner_sum of_bool 2 (map (\<lambda>k. b (11 * j + (10 - k))) [0..<11])"

lemma bit_eleven: "bit (eleven b j) n \<longleftrightarrow> n < 11 \<and> b (11 * j + (10 - n))"
  unfolding eleven_def bit_horner_sum_bit_iff by (auto simp del: upt_Suc upt_rec_numeral)

lemma eleven_bound: "eleven b j < 2048"
proof -
  have "take_bit 11 (eleven b j) = eleven b j" by (rule bit_eqI) (auto simp: bit_take_bit_iff bit_eleven)
  then show ?thesis using take_bit_nat_less_exp [of 11 "eleven b j"] by simp
qed

lemma eleven_unique: "w < 2048 \<Longrightarrow> (\<And>n. n < 11 \<Longrightarrow> bit w n = b (11 * j + (10 - n))) \<Longrightarrow> eleven b j = w"
proof -
  assume w: "w < 2048" "\<And>n. n < 11 \<Longrightarrow> bit w n = b (11 * j + (10 - n))"
  have "take_bit 11 w = w" using w(1) by (simp add: take_bit_nat_eq_self)
  then have "bit w n \<longleftrightarrow> n < 11 \<and> bit w n" for n by (metis bit_take_bit_iff)
  then have "bit (eleven b j) n = bit w n" for n using w(2) [of n] by (auto simp only: bit_eleven)
  then show "eleven b j = w" by (intro bit_eqI)
qed

lemma encode_bit_simp:
  "encode_bit buffer i (r, w) =
     (let w' = 2 * w + of_bool (nth_bit buffer i) in
      if (i + 1) mod 11 = 0 then (r @ (if 10 < i then ''-'' else []) @ wordlist ! w', 0) else (r, w'))"
proof -
  have "drop_bit n (x :: byte) AND 1 = of_bool (bit x n)" for n x by (simp add: and_one_eq mod2_eq_if bit_iff_odd_drop_bit)
  moreover have "push_bit 1 w OR of_bool q = 2 * w + (of_bool q :: nat)" for q
    by (cases q) (simp_all add: or_Suc_0_eq mult.commute)
  moreover have "unat (of_bool q :: byte) = of_bool q" for q by (cases q) simp_all
  ultimately show ?thesis by (simp only: encode_bit_def nth_bit_def Let_def prod.case)
qed

definition gather :: "(nat \<Rightarrow> bool) \<Rightarrow> nat \<Rightarrow> nat \<Rightarrow> nat" where
  "gather b j k = fold (\<lambda>i w. 2 * w + of_bool (b (11 * j + i))) [0..<k] 0"

lemma gather_eleven: "gather b j 11 = eleven b j"
proof -
  have e: "[0..<11] = [0, 1, 2, 3, 4, 5, 6, 7, 8, 9, 10 :: nat]" by code_simp
  show ?thesis unfolding gather_def eleven_def e by simp
qed

lemma encode_gathers:
  "k \<le> 10 \<Longrightarrow> fold (encode_bit buffer) [11 * j..<11 * j + k] (r, 0) = (r, gather (nth_bit buffer) j k)"
proof (induction k)
  case (Suc k)
  have "(11 * j + k + 1) mod 11 = (k + 1) mod 11" by (metis add.assoc mod_mult_self4 mult.commute)
  then have "(11 * j + k + 1) mod 11 \<noteq> 0" using Suc.prems by simp
  then show ?case using Suc by (simp add: encode_bit_simp Let_def gather_def)
qed (simp add: gather_def)

lemma encode_word:
  "fold (encode_bit buffer) [11 * j..<11 * j + 11] (r, 0) =
     (r @ (if 0 < j then ''-'' else []) @ wordlist ! eleven (nth_bit buffer) j, 0)"
proof -
  have u: "[11 * j..<11 * j + 11] = [11 * j..<11 * j + 10] @ [11 * j + 10]" using upt_Suc_append [of "11 * j" "11 * j + 10"] by (simp add: add.commute)
  have g: "2 * gather (nth_bit buffer) j 10 + of_bool (nth_bit buffer (11 * j + 10)) = eleven (nth_bit buffer) j"
    unfolding gather_eleven [symmetric] by (simp add: gather_def numeral_eq_Suc)
  have m: "(11 * j + 10 + 1) mod 11 = 0" "(10 < 11 * j + 10) = (0 < j)" by simp_all
  show ?thesis unfolding u fold_append o_apply encode_gathers [OF order_refl] by (simp only: fold_simps encode_bit_simp Let_def g m refl if_True)
qed

section \<open>The words\<close>

fun dash_join :: "string list \<Rightarrow> string" where
  "dash_join [] = []"
| "dash_join [w] = w"
| "dash_join (w # v # ws) = w @ ''-'' @ dash_join (v # ws)"

lemma dash_join_snoc: "dash_join (ws @ [w]) = dash_join ws @ (if ws = [] then [] else ''-'') @ w"
  by (induction ws rule: dash_join.induct) auto

lemma encode_words:
  "fold (encode_bit buffer) [0..<11 * n] ([], 0) = (dash_join (map (\<lambda>j. wordlist ! eleven (nth_bit buffer) j) [0..<n]), 0)"
proof (induction n)
  case (Suc n)
  have "[0..<11 * Suc n] = [0..<11 * n] @ [11 * n..<11 * n + 11]" using upt_add_eq_append [of 0 "11 * n" 11] by (simp add: add.commute)
  then show ?case using Suc by (simp add: encode_word dash_join_snoc)
qed simp

lemma Encode_words:
  "Encode sha256 pk = dash_join (map (\<lambda>j. wordlist ! eleven (nth_bit (pk @ [sha256 pk ! 0])) j) [0..<24])"
  using encode_words [of "pk @ [sha256 pk ! 0]" 24] by (simp add: Encode_def bipBitsAmount_def)

lemma dash_join_Cons: "ws \<noteq> [] \<Longrightarrow> dash_join (w # ws) = w @ CHR ''-'' # dash_join ws"
  by (cases ws) simp_all

lemma split_dash_join:
  "ws \<noteq> [] \<Longrightarrow> k + length ws = wordsInMnemonic \<Longrightarrow> \<forall>w \<in> set ws. CHR ''-'' \<notin> set w \<Longrightarrow> split_words k (dash_join ws) = Some ws"
proof (induction ws arbitrary: k)
  case (Cons w ws)
  have w: "CHR ''-'' \<notin> set w" "takeWhile (\<lambda>c. c \<noteq> CHR ''-'') (w @ CHR ''-'' # v) = w"
      "dropWhile (\<lambda>c. c \<noteq> CHR ''-'') (w @ CHR ''-'' # v) = CHR ''-'' # v" for v
    using Cons.prems(3) by (auto simp: takeWhile_tail dropWhile_append3 intro: takeWhile_append2)
  show ?case
  proof (cases "ws = []")
    case True
    then show ?thesis using Cons.prems(2) w(1) by (subst split_words.simps) auto
  next
    case False
    then have "0 < length ws" by simp
    then have "\<not> wordsInMnemonic - 1 \<le> k" using Cons.prems(2) by (simp del: length_greater_0_conv)
    then show ?thesis using False Cons.IH [of "k + 1"] Cons.prems(2,3) w by (subst split_words.simps) (simp add: dash_join_Cons)
  qed
qed simp

lemma split_words_join:
  "split_words k s = Some ws \<Longrightarrow> ws \<noteq> [] \<and> s = dash_join ws \<and> k + length ws = wordsInMnemonic"
proof (induction k s arbitrary: ws rule: split_words.induct)
  case (1 k s)
  show ?case
  proof (cases "CHR ''-'' \<in> set s")
    case True
    obtain vs where vs: "split_words (k + 1) (tl (dropWhile (\<lambda>c. c \<noteq> CHR ''-'') s)) = Some vs"
        "ws = takeWhile (\<lambda>c. c \<noteq> CHR ''-'') s # vs" "\<not> wordsInMnemonic - 1 \<le> k"
      using "1.prems" True by (auto simp: split_words.simps [of k s] split: if_splits)
    have "dropWhile (\<lambda>c. c \<noteq> CHR ''-'') s \<noteq> []" using True by auto
    then obtain v where v: "dropWhile (\<lambda>c. c \<noteq> CHR ''-'') s = CHR ''-'' # v"
      using hd_dropWhile [of "\<lambda>c. c \<noteq> CHR ''-''" s] by (cases "dropWhile (\<lambda>c. c \<noteq> CHR ''-'') s") auto
    have "s = takeWhile (\<lambda>c. c \<noteq> CHR ''-'') s @ CHR ''-'' # v"
      using takeWhile_dropWhile_id [of "\<lambda>c. c \<noteq> CHR ''-''" s] unfolding v by (rule sym)
    then show ?thesis using "1.IH" [OF True vs(3) vs(1)] vs(2) dash_join_Cons [of vs] v by simp
  next
    case False
    then show ?thesis using "1.prems" by (auto simp: split_words.simps [of k s] wordsInMnemonic_def split: if_splits)
  qed
qed

lemma word_index_nth: "i < 2048 \<Longrightarrow> word_index (wordlist ! i) = Some i"
proof -
  assume i: "i < 2048"
  have "takeWhile (\<lambda>x. string_less x (wordlist ! i)) wordlist = take i wordlist"
    using i wordlist_sorted string_less_irrefl by (intro takeWhile_eq_take_P_nth) (auto simp: length_wordlist)
  then show "word_index (wordlist ! i) = Some i" using i by (simp add: word_index_def lower_bound_def length_wordlist)
qed

lemma word_index_Some: "word_index w = Some i \<Longrightarrow> i < 2048 \<and> wordlist ! i = w"
proof -
  assume "word_index w = Some i"
  moreover have "lower_bound wordlist w \<le> length wordlist" unfolding lower_bound_def by (rule length_takeWhile_le)
  ultimately show "i < 2048 \<and> wordlist ! i = w"
    by (auto simp: word_index_def Let_def length_wordlist split: if_splits)
qed

lemma word_indices_nth: "list_all (\<lambda>i. i < 2048) is \<Longrightarrow> word_indices (map ((!) wordlist) is) = Some is"
  by (induction "is") (simp_all add: word_index_nth)

lemma word_indices_Some:
  "word_indices ws = Some is \<Longrightarrow> list_all (\<lambda>i. i < 2048) is \<and> ws = map ((!) wordlist) is"
  by (induction ws arbitrary: "is") (auto dest: word_index_Some split: option.splits)

section \<open>The round trip\<close>

lemma byte_position: "r < 8 \<Longrightarrow> 8 * k + r = (i :: nat) \<longleftrightarrow> k = i div 8 \<and> r = i mod 8"
  by (auto simp: mult_div_mod_eq)

lemma word_position: "r < 11 \<Longrightarrow> 11 * k + r = (i :: nat) \<longleftrightarrow> k = i div 11 \<and> r = i mod 11"
  by (auto simp: mult_div_mod_eq)

lemma decode_bits:
  fixes "is" :: "nat list"
  assumes "length buf = 33" "N \<le> 264"
  defines "e \<equiv> fold (decode_bit is) [0..<N] buf"
  shows "length e = 33 \<and> (\<forall>k < 33. \<forall>n < 8. bit (e ! k) n \<longleftrightarrow>
    bit (buf ! k) n \<or> 8 * k + (7 - n) < N \<and> bit (is ! ((8 * k + (7 - n)) div 11)) (10 - (8 * k + (7 - n)) mod 11))"
  using assms(2) unfolding e_def
proof (induction N)
  case (Suc N)
  let ?e = "fold (decode_bit is) [0..<N] buf" and ?q = "bit (is ! (N div 11)) (10 - N mod 11)"
  have b: "drop_bit m (x :: nat) AND 1 = of_bool (bit x m)" for m x by (simp add: and_one_eq mod2_eq_if bit_iff_odd_drop_bit)
  have l: "length ?e = 33" "N div 8 < 33" using Suc by simp_all
  have d: "decode_bit is N x = x[N div 8 := x ! (N div 8) OR push_bit (7 - N mod 8) (of_bool ?q)]" for x
    unfolding decode_bit_def Let_def b of_nat_of_bool ..
  have s: "fold (decode_bit is) [0..<Suc N] buf = ?e[N div 8 := ?e ! (N div 8) OR push_bit (7 - N mod 8) (of_bool ?q)]"
    unfolding upt_Suc_append [OF le0] fold_append o_apply fold_simps d ..
  have p: "bit (push_bit (7 - N mod 8) (of_bool ?q) :: byte) n \<longleftrightarrow> ?q \<and> n = 7 - N mod 8" if "n < 8" for n
    using that by (auto simp: bit_push_bit_iff bit_of_bool_iff)
  have "8 * k + (7 - n) = N \<longleftrightarrow> k = N div 8 \<and> n = 7 - N mod 8" if "n < 8" for k n
    using that byte_position [of "7 - n" k N] mod_less_divisor [of 8 N] by auto
  then show ?case using Suc l unfolding s by (auto simp: nth_list_update bit_or_iff p less_Suc_eq)
qed (use assms(1) in simp)

lemma decoded_bit:
  assumes "i < 264"
  shows "nth_bit (fold (decode_bit is) [0..<264] (replicate 33 0)) i = bit (is ! (i div 11)) (10 - i mod 11)"
proof -
  have "i mod 8 < 8" by simp
  then have "7 - (7 - i mod 8) = i mod 8" by linarith
  then have "8 * (i div 8) + (7 - (7 - i mod 8)) = i" "7 - i mod 8 < 8" "i div 8 < 33" using assms by simp_all
  then show ?thesis using decode_bits [of "replicate 33 0" 264 "is"] assms by (simp add: nth_bit_def)
qed

lemma bytes_eqI:
  assumes "length xs = 33" "length ys = 33" "\<And>i. i < 264 \<Longrightarrow> nth_bit xs i = nth_bit ys i"
  shows "xs = ys"
proof (rule nth_equalityI)
  fix k assume "k < length xs"
  then have k: "k < 33" using assms(1) by simp
  show "xs ! k = ys ! k"
  proof (rule bit_word_eqI)
    fix n assume "n < LENGTH(8)"
    then have n: "n < 8" by simp
    then have "8 * k + (7 - n) < 264" "(8 * k + (7 - n)) div 8 = k" "(8 * k + (7 - n)) mod 8 = 7 - n" "7 - (7 - n) = n"
      using k byte_position [of "7 - n" k "8 * k + (7 - n)"] by simp_all
    then show "bit (xs ! k) n = bit (ys ! k) n" using assms(3) [of "8 * k + (7 - n)"] by (simp add: nth_bit_def)
  qed
qed (use assms in simp)

lemma decode_encoded:
  assumes "length buf = 33"
  shows "fold (decode_bit (map (eleven (nth_bit buf)) [0..<24])) [0..<264] (replicate 33 0) = buf"
proof (rule bytes_eqI)
  show "length (fold (decode_bit (map (eleven (nth_bit buf)) [0..<24])) [0..<264] (replicate 33 0)) = 33"
    using decode_bits [of "replicate 33 0" 264] by simp
  fix i :: nat assume i: "i < 264"
  have "i mod 11 < 11" by simp
  then have "10 - (10 - i mod 11) = i mod 11" by linarith
  then have "i div 11 < 24" "10 - i mod 11 < 11" "11 * (i div 11) + (10 - (10 - i mod 11)) = i" using i by simp_all
  then show "nth_bit (fold (decode_bit (map (eleven (nth_bit buf)) [0..<24])) [0..<264] (replicate 33 0)) i = nth_bit buf i"
    unfolding decoded_bit [OF i] by (simp add: bit_eleven del: upt_Suc upt_rec_numeral)
qed (rule assms)

lemma encode_decoded:
  assumes "length is = 24" "list_all (\<lambda>i. i < 2048) is"
  shows "map (eleven (nth_bit (fold (decode_bit is) [0..<264] (replicate 33 0)))) [0..<24] = is"
proof (rule nth_equalityI)
  fix j assume "j < length (map (eleven (nth_bit (fold (decode_bit is) [0..<264] (replicate 33 0)))) [0..<24])"
  then have j: "j < 24" by simp
  have "eleven (nth_bit (fold (decode_bit is) [0..<264] (replicate 33 0))) j = is ! j"
  proof (rule eleven_unique)
    show "is ! j < 2048" using assms j by (simp add: list_all_length)
    fix n :: nat assume n: "n < 11"
    have "(11 * j + (10 - n)) div 11 = j" "(11 * j + (10 - n)) mod 11 = 10 - n" using word_position [of "10 - n" j "11 * j + (10 - n)"] by simp_all
    then have i: "11 * j + (10 - n) < 264" "(11 * j + (10 - n)) div 11 = j" "10 - (11 * j + (10 - n)) mod 11 = n" using j n by simp_all
    show "bit (is ! j) n = nth_bit (fold (decode_bit is) [0..<264] (replicate 33 0)) (11 * j + (10 - n))"
      unfolding decoded_bit [OF i(1)] i(2,3) ..
  qed
  then show "map (eleven (nth_bit (fold (decode_bit is) [0..<264] (replicate 33 0)))) [0..<24] ! j = is ! j"
    using j by (simp del: upt_Suc upt_rec_numeral)
qed (simp add: assms(1))

lemma Encode_indices:
  "Encode sha256 pk = dash_join (map ((!) wordlist) (map (eleven (nth_bit (pk @ [sha256 pk ! 0]))) [0..<24]))"
  by (simp only: Encode_words map_map o_def)

lemma mnemonic_sound:
  assumes "Decode sha256 m = Some pk"
  shows "length pk = publicKeySize \<and> m = Encode sha256 pk"
proof -
  obtain ws "is" where d: "split_words 0 m = Some ws" "word_indices ws = Some is"
      and e: "pk = take 32 (fold (decode_bit is) [0..<264] (replicate 33 0))" "sha256 pk ! 0 = fold (decode_bit is) [0..<264] (replicate 33 0) ! 32"
    using assms by (auto simp: Decode_def Let_def bipBitsAmount_def publicKeySize_def split: option.splits if_splits)
  let ?e = "fold (decode_bit is) [0..<264] (replicate 33 0)"
  have "length ?e = 33" using decode_bits [of "replicate 33 0" 264 "is"] by simp
  then have l: "length pk = 32" "pk @ [sha256 pk ! 0] = ?e" unfolding e(2) using e(1) by (simp_all add: take_Suc_conv_app_nth [symmetric])
  have w: "ws \<noteq> []" "m = dash_join ws" "length ws = 24" "list_all (\<lambda>i. i < 2048) is" "ws = map ((!) wordlist) is"
    using split_words_join [OF d(1)] word_indices_Some [OF d(2)] by (simp_all add: wordsInMnemonic_def)
  have "length is = 24" using w(3,5) by simp
  then have "m = Encode sha256 pk" unfolding Encode_indices l(2) encode_decoded [OF \<open>length is = 24\<close> w(4)] using w by simp
  then show "length pk = publicKeySize \<and> m = Encode sha256 pk" using l by (simp add: publicKeySize_def)
qed

lemma mnemonic_decodes:
  assumes "length pk = publicKeySize"
  shows "Decode sha256 (Encode sha256 pk) = Some pk"
proof -
  let ?b = "pk @ [sha256 pk ! 0]" and ?is = "map (eleven (nth_bit (pk @ [sha256 pk ! 0]))) [0..<24]"
  have l: "length ?b = 33" "length pk = 32" using assms by (simp_all add: publicKeySize_def)
  have i: "list_all (\<lambda>i. i < 2048) ?is" by (simp only: list_all_iff set_map) (auto simp: eleven_bound)
  have "\<forall>w \<in> set (map ((!) wordlist) ?is). CHR ''-'' \<notin> set w"
    using i wordlist_plain by (simp only: list_all_iff set_map) (auto simp: length_wordlist)
  then have "split_words 0 (Encode sha256 pk) = Some (map ((!) wordlist) ?is)"
    unfolding Encode_indices by (intro split_dash_join [THEN trans [rotated]]) (auto simp: wordsInMnemonic_def)
  then show ?thesis
    using word_indices_nth [OF i] decode_encoded [OF l(1)] l(2)
    by (simp add: Decode_def Let_def bipBitsAmount_def publicKeySize_def nth_append)
qed

text \<open>C25: decoding accepts exactly the mnemonics that encoding makes: a text of 24 words of the list is read as a public key if and only
  if it is the mnemonic of that key.  So the key one user shows is the key another one adds, and a text with a misspelt,
  missing or additional word, or with words that do not fit the checksum, is refused.\<close>

theorem mnemonic_roundtrip:
  "Decode sha256 m = Some pk \<longleftrightarrow> length pk = publicKeySize \<and> m = Encode sha256 pk"
  using mnemonic_sound mnemonic_decodes by metis

end
