(* ===== verification/Cache.thy ===== *)
theory Cache
  imports CppStrings PyStr
begin

text \<open>
  The conversation history of the client (\<^verbatim>\<open>libs/domain/client/src/conversation_cache.cpp\<close>): one file for each
  contact with one JSON object on each line.  The simdjson parser is the argument \<^verbatim>\<open>iterate\<close>: for a line that is an
  object, the answers of \<^verbatim>\<open>find_field\<close> to the fields in the order in which the code asks for them.
\<close>

section \<open>Entries\<close>

datatype MessageDirection = INBOUND | OUTBOUND
datatype MessageStatus = PENDING_ACK | DELIVERED | FAILED

record CacheEntry =
  ce_id :: string
  ce_timestamp :: "64 word"
  ce_direction :: MessageDirection
  ce_alias :: string
  ce_status :: MessageStatus
  ce_payload :: bytes

definition DirToString :: "MessageDirection \<Rightarrow> string" where
  "DirToString dir = (if dir = INBOUND then ''inbound'' else ''outbound'')"

definition StringToDir :: "string \<Rightarrow> MessageDirection" where
  "StringToDir str = (if str = ''inbound'' then INBOUND else OUTBOUND)"

primrec StatusToString :: "MessageStatus \<Rightarrow> string" where
  "StatusToString PENDING_ACK = ''pending_ack''"
| "StatusToString DELIVERED = ''delivered''"
| "StatusToString FAILED = ''failed''"

definition StringToStatus :: "string \<Rightarrow> MessageStatus" where
  "StringToStatus str =
     (if str = ''pending_ack'' then PENDING_ACK else if str = ''delivered'' then DELIVERED else FAILED)"

section \<open>The files\<close>

text \<open>\<^verbatim>\<open>refuses\<close> lists the paths that cannot be opened for writing, \<^verbatim>\<open>rename_fails\<close> says that a rename is refused.\<close>

record cache =
  cacheDir :: string
  files :: "string \<rightharpoonup> string"
  refuses :: "string list"
  rename_fails :: bool

definition GetFilePathForAlias :: "cache \<Rightarrow> string \<Rightarrow> string" where
  "GetFilePathForAlias d alias = cacheDir d @ ''/history_'' @ alias @ ''.jsonl''"

abbreviation quote :: string where "quote \<equiv> [CHR 0x22]"
abbreviation newline :: string where "newline \<equiv> [CHR 0x0A]"

definition entry_line :: "CacheEntry \<Rightarrow> string" where
  "entry_line e =
     ''{'' @ quote @ ''id'' @ quote @ '':'' @ quote @ EscapeJsonString (ce_id e) @ quote @ '','' @
     quote @ ''timestamp'' @ quote @ '':'' @ show_nat (unat (ce_timestamp e)) @ '','' @
     quote @ ''direction'' @ quote @ '':'' @ quote @ DirToString (ce_direction e) @ quote @ '','' @
     quote @ ''alias'' @ quote @ '':'' @ quote @ EscapeJsonString (ce_alias e) @ quote @ '','' @
     quote @ ''status'' @ quote @ '':'' @ quote @ StatusToString (ce_status e) @ quote @ '','' @
     quote @ ''payload'' @ quote @ '':'' @ quote @ EncodeHex (ce_payload e) @ quote @ ''}''"

definition AppendMessage :: "CacheEntry \<Rightarrow> cache \<Rightarrow> cache" where
  "AppendMessage e d =
     (let path = GetFilePathForAlias d (ce_alias e); old = (case files d path of Some t \<Rightarrow> t | None \<Rightarrow> []) in
      if path \<in> set (refuses d) then d
      else d\<lparr>files := (files d)(path \<mapsto> old @ entry_line e @ newline)\<rparr>)"

section \<open>Reading\<close>

datatype json_value = JString string | JUint nat | JOther

type_synonym json_object = "string \<Rightarrow> json_value option"

definition get_string :: "json_value option \<Rightarrow> string option" where
  "get_string v = (case v of Some (JString s) \<Rightarrow> Some s | _ \<Rightarrow> None)"

definition get_uint64 :: "json_value option \<Rightarrow> 64 word option" where
  "get_uint64 v = (case v of Some (JUint n) \<Rightarrow> if n < 2 ^ 64 then Some (word_of_nat n) else None | _ \<Rightarrow> None)"

definition ParseCacheEntry :: "(string \<Rightarrow> json_object option) \<Rightarrow> string \<Rightarrow> CacheEntry option" where
  "ParseCacheEntry iterate line =
     (case iterate line of
        None \<Rightarrow> None
      | Some obj \<Rightarrow>
          Some
            \<lparr>ce_id = (case get_string (obj ''id'') of Some s \<Rightarrow> s | None \<Rightarrow> []),
             ce_timestamp = (case get_uint64 (obj ''timestamp'') of Some n \<Rightarrow> n | None \<Rightarrow> 0),
             ce_direction = (case get_string (obj ''direction'') of Some s \<Rightarrow> StringToDir s | None \<Rightarrow> OUTBOUND),
             ce_alias = (case get_string (obj ''alias'') of Some s \<Rightarrow> s | None \<Rightarrow> []),
             ce_status = (case get_string (obj ''status'') of Some s \<Rightarrow> StringToStatus s | None \<Rightarrow> FAILED),
             ce_payload =
               (case get_string (obj ''payload'') of
                  None \<Rightarrow> []
                | Some s \<Rightarrow>
                    (case DecodeHexToArray s (replicate (length s div 2) 0) of
                       (ok, out) \<Rightarrow> if ok then out else []))\<rparr>)"

text \<open>\<^verbatim>\<open>while (std::getline(in, line))\<close>: the lines of a file; a last line may lack its end.\<close>

fun getlines :: "string \<Rightarrow> string \<Rightarrow> string list" where
  "getlines acc [] = (if acc = [] then [] else [rev acc])"
| "getlines acc (c # s) = (if c = CHR 0x0A then rev acc # getlines [] s else getlines (c # acc) s)"

definition LoadHistory :: "(string \<Rightarrow> json_object option) \<Rightarrow> string \<Rightarrow> cache \<Rightarrow> CacheEntry list" where
  "LoadHistory iterate alias d =
     (case files d (GetFilePathForAlias d alias) of
        None \<Rightarrow> []
      | Some content \<Rightarrow>
          List.map_filter (\<lambda>line. if line = [] then None else ParseCacheEntry iterate line) (getlines [] content))"

fun set_first_status :: "string \<Rightarrow> MessageStatus \<Rightarrow> CacheEntry list \<Rightarrow> CacheEntry list" where
  "set_first_status messageId st [] = []"
| "set_first_status messageId st (e # es) =
     (if ce_id e = messageId then e\<lparr>ce_status := st\<rparr> # es else e # set_first_status messageId st es)"

text \<open>The new text goes to a temporary file that then replaces the old one.\<close>

definition UpdateMessageStatus ::
  "(string \<Rightarrow> json_object option) \<Rightarrow> string \<Rightarrow> string \<Rightarrow> MessageStatus \<Rightarrow> cache \<Rightarrow> cache" where
  "UpdateMessageStatus iterate alias messageId newStatus d =
     (let history = LoadHistory iterate alias d in
      if list_all (\<lambda>e. ce_id e \<noteq> messageId) history then d
      else
        let path = GetFilePathForAlias d alias; tempPath = path @ ''.tmp'';
            content = concat (map (\<lambda>e. entry_line e @ newline) (set_first_status messageId newStatus history)) in
        if tempPath \<in> set (refuses d) then d
        else if rename_fails d then d\<lparr>files := (files d)(tempPath \<mapsto> content)\<rparr>
        else d\<lparr>files := (files d)(tempPath := None, path \<mapsto> content)\<rparr>)"

definition DeleteHistory :: "string \<Rightarrow> cache \<Rightarrow> bool \<times> cache" where
  "DeleteHistory alias d =
     (let path = GetFilePathForAlias d alias in (files d path \<noteq> None, d\<lparr>files := (files d)(path := None)\<rparr>))"

section \<open>What is written is read back\<close>

text \<open>Text that is an object of JSON strings when it is quoted: no control characters except the ones that
  \<^verbatim>\<open>EscapeJsonString\<close> escapes.\<close>

definition plain :: "string \<Rightarrow> bool" where
  "plain s \<longleftrightarrow> list_all (\<lambda>c. 32 \<le> (of_char c :: nat) \<and> (of_char c :: nat) < 127 \<or>
     c \<in> {CHR 0x08, CHR 0x0C, CHR 0x0A, CHR 0x0D, CHR 0x09}) s"

definition entry_object :: "CacheEntry \<Rightarrow> json_object" where
  "entry_object e =
     [''id'' \<mapsto> JString (ce_id e), ''timestamp'' \<mapsto> JUint (unat (ce_timestamp e)),
      ''direction'' \<mapsto> JString (DirToString (ce_direction e)), ''alias'' \<mapsto> JString (ce_alias e),
      ''status'' \<mapsto> JString (StatusToString (ce_status e)), ''payload'' \<mapsto> JString (EncodeHex (ce_payload e))]"

text \<open>The parser reads a line of this form.\<close>

definition reads_json :: "(string \<Rightarrow> json_object option) \<Rightarrow> bool" where
  "reads_json iterate \<longleftrightarrow>
     (\<forall>e. plain (ce_id e) \<and> plain (ce_alias e) \<longrightarrow> iterate (entry_line e) = Some (entry_object e))"

lemma StringToDir_DirToString [simp]: "StringToDir (DirToString d) = d"
  by (cases d) (simp_all add: StringToDir_def DirToString_def)

lemma StringToStatus_StatusToString [simp]: "StringToStatus (StatusToString st) = st"
  by (cases st) (simp_all add: StringToStatus_def)

lemma ParseCacheEntry_line:
  assumes "reads_json iterate" "plain (ce_id e)" "plain (ce_alias e)"
  shows "ParseCacheEntry iterate (entry_line e) = Some e"
proof -
  have "iterate (entry_line e) = Some (entry_object e)" using assms unfolding reads_json_def by blast
  moreover have "unat (ce_timestamp e) < 2 ^ 64" using unsigned_less [of "ce_timestamp e", where 'a = nat] by simp
  ultimately show ?thesis
    by (simp add: ParseCacheEntry_def entry_object_def get_string_def get_uint64_def DecodeHex_EncodeHex)
qed

lemma escaped_one_line: "CHR 0x0A \<notin> set (EscapeJsonString t)"
  by (auto simp: EscapeJsonString_def escape_char_def split: if_splits)

lemma hex_chars: "c \<in> set (EncodeHex bs) \<Longrightarrow> HexCharToInt c \<noteq> -1"
proof (induction bs)
  case (Cons b bs)
  have "HexCharToInt (HexIntToChar v) \<noteq> -1" if "0 \<le> v" "v < 16" for v using hex_digit [OF that] that by simp
  then show ?case using nibble_bounds [of b] Cons by auto
qed simp

lemma hex_one_line: "CHR 0x0A \<notin> set (EncodeHex bs)" "CHR 0x22 \<notin> set (EncodeHex bs)" "CHR 0x5C \<notin> set (EncodeHex bs)"
  using hex_chars [of _ bs] by (force simp: HexCharToInt_def)+

lemma digits_one_line: "CHR 0x0A \<notin> set (show_nat n)"
  using show_nat_digits [of n] by (auto simp: list_all_iff is_digit_def)

lemma entry_one_line: "CHR 0x0A \<notin> set (entry_line e)" "entry_line e \<noteq> []"
proof -
  have "CHR 0x0A \<notin> set (DirToString (ce_direction e))" "CHR 0x0A \<notin> set (StatusToString (ce_status e))"
    by (simp add: DirToString_def) (cases "ce_status e"; simp)
  then show "CHR 0x0A \<notin> set (entry_line e)" "entry_line e \<noteq> []"
    using escaped_one_line hex_one_line digits_one_line by (simp_all add: entry_line_def)
qed

lemma getlines_line: "CHR 0x0A \<notin> set l \<Longrightarrow> getlines acc (l @ newline @ s) = (rev acc @ l) # getlines [] s"
  by (induction l arbitrary: acc) auto

lemma getlines_entries: "getlines [] (concat (map (\<lambda>e. entry_line e @ newline) es)) = map entry_line es"
  by (induction es) (simp_all add: getlines_line [OF entry_one_line(1), of "[]", simplified])

definition history_text :: "CacheEntry list \<Rightarrow> string" where
  "history_text es = concat (map (\<lambda>e. entry_line e @ newline) es)"

text \<open>The file of a contact holds the entries, which belong to this contact.\<close>

definition holds :: "cache \<Rightarrow> string \<Rightarrow> CacheEntry list \<Rightarrow> bool" where
  "holds d alias es \<longleftrightarrow> plain alias \<and> list_all (\<lambda>e. plain (ce_id e) \<and> ce_alias e = alias) es \<and>
     (files d (GetFilePathForAlias d alias) = Some (history_text es) \<or>
      files d (GetFilePathForAlias d alias) = None \<and> es = [])"

lemma LoadHistory_holds:
  assumes "reads_json iterate" "holds d alias es"
  shows "LoadHistory iterate alias d = es"
proof -
  have "list_all (\<lambda>e. ParseCacheEntry iterate (entry_line e) = Some e) es"
    using assms ParseCacheEntry_line [OF assms(1)] by (auto simp: holds_def list_all_iff)
  then have "List.map_filter (\<lambda>line. if line = [] then None else ParseCacheEntry iterate line) (map entry_line es) = es"
    by (induction es) (simp_all add: List.map_filter_simps entry_one_line)
  then show ?thesis using assms(2)
    by (auto simp: LoadHistory_def holds_def history_text_def getlines_entries List.map_filter_simps)
qed

lemma set_first_status_keeps:
  "list_all (\<lambda>e. P (ce_id e) (ce_alias e)) es \<Longrightarrow> list_all (\<lambda>e. P (ce_id e) (ce_alias e)) (set_first_status m st es)"
  by (induction es) auto

lemma set_first_status_absent: "list_all (\<lambda>e. ce_id e \<noteq> m) es \<Longrightarrow> set_first_status m st es = es"
  by (induction es) simp_all

lemma AppendMessage_holds:
  assumes "holds d (ce_alias e) es" "plain (ce_id e)" "refuses d = []"
  shows "holds (AppendMessage e d) (ce_alias e) (es @ [e])"
  using assms by (auto simp: holds_def AppendMessage_def history_text_def GetFilePathForAlias_def Let_def)

lemma UpdateMessageStatus_holds:
  assumes "reads_json iterate" "holds d alias es" "refuses d = []" "\<not> rename_fails d"
  shows "holds (UpdateMessageStatus iterate alias m st d) alias (set_first_status m st es)"
proof (cases "list_all (\<lambda>e. ce_id e \<noteq> m) es")
  case True
  then show ?thesis using assms LoadHistory_holds [OF assms(1,2)]
    by (simp add: UpdateMessageStatus_def set_first_status_absent)
next
  case False
  have "list_all (\<lambda>e. plain (ce_id e) \<and> ce_alias e = alias) (set_first_status m st es)"
    using set_first_status_keeps [of "\<lambda>i a. plain i \<and> a = alias" es m st] assms(2) by (simp add: holds_def)
  then show ?thesis using False assms LoadHistory_holds [OF assms(1,2)]
    by (simp add: UpdateMessageStatus_def holds_def history_text_def GetFilePathForAlias_def Let_def)
qed

text \<open>C27: The history of a contact survives its file.  A history read after an entry was appended and
  the status of a message changed is the old one with the entry at its end and the status of the first
  entry with this id changed, nothing else; the histories of the other contacts are as before.\<close>

theorem history_roundtrip:
  assumes "reads_json iterate" "holds d (ce_alias e) es" "holds d other os" "other \<noteq> ce_alias e" "plain (ce_id e)"
    "refuses d = []" "\<not> rename_fails d"
  shows "let d' = UpdateMessageStatus iterate (ce_alias e) m st (AppendMessage e d) in
    LoadHistory iterate (ce_alias e) d' = set_first_status m st (es @ [e]) \<and> LoadHistory iterate other d' = os"
proof -
  let ?d1 = "AppendMessage e d" and ?d2 = "UpdateMessageStatus iterate (ce_alias e) m st (AppendMessage e d)"
  have c: "cacheDir ?d1 = cacheDir d" "refuses ?d1 = refuses d" "rename_fails ?d1 = rename_fails d" "cacheDir ?d2 = cacheDir d"
    by (simp_all add: AppendMessage_def UpdateMessageStatus_def Let_def)
  have "''/history_'' @ other @ ''.jsonl'' \<noteq> ''/history_'' @ a @ ''.jsonl.tmp''" for a
  proof
    assume "''/history_'' @ other @ ''.jsonl'' = ''/history_'' @ a @ ''.jsonl.tmp''"
    from arg_cong [OF this, of last] show False by simp
  qed
  then have "files ?d2 (GetFilePathForAlias d other) = files d (GetFilePathForAlias d other)"
    using assms(4) by (simp add: AppendMessage_def UpdateMessageStatus_def GetFilePathForAlias_def Let_def)
  then have "holds ?d2 other os" using assms(3) c(4) by (simp add: holds_def GetFilePathForAlias_def)
  moreover have "holds ?d2 (ce_alias e) (set_first_status m st (es @ [e]))"
    using UpdateMessageStatus_holds [OF assms(1) AppendMessage_holds [OF assms(2,5,6)]] c assms(6,7) by simp
  ultimately show ?thesis using LoadHistory_holds [OF assms(1)] by (simp add: Let_def)
qed

text \<open>A parser for lines of this form.\<close>

definition unescape :: "char \<Rightarrow> char" where
  "unescape c =
     (if c = CHR ''b'' then CHR 0x08 else if c = CHR ''f'' then CHR 0x0C else if c = CHR ''n'' then CHR 0x0A
      else if c = CHR ''r'' then CHR 0x0D else if c = CHR ''t'' then CHR 0x09 else c)"

fun scan_string :: "string \<Rightarrow> (string \<times> string) option" where
  "scan_string [] = None"
| "scan_string [c] = (if c = CHR 0x22 then Some ([], []) else None)"
| "scan_string (c # d # s) =
     (if c = CHR 0x22 then Some ([], d # s)
      else if c = CHR 0x5C then map_option (\<lambda>(t, r). (unescape d # t, r)) (scan_string s)
      else map_option (\<lambda>(t, r). (c # t, r)) (scan_string (d # s)))"

definition expect :: "string \<Rightarrow> string \<Rightarrow> string option" where
  "expect p s = (if prefix p s then Some (drop (length p) s) else None)"

definition scan_field :: "string \<Rightarrow> string \<Rightarrow> (string \<times> string) option" where
  "scan_field p s = (case expect p s of None \<Rightarrow> None | Some r \<Rightarrow> scan_string r)"

definition sample_iterate :: "string \<Rightarrow> json_object option" where
  "sample_iterate line =
     (case scan_field (''{'' @ quote @ ''id'' @ quote @ '':'' @ quote) line of None \<Rightarrow> None | Some (i, s1) \<Rightarrow>
      case expect ('','' @ quote @ ''timestamp'' @ quote @ '':'') s1 of None \<Rightarrow> None | Some s2 \<Rightarrow>
      case scan_field ('','' @ quote @ ''direction'' @ quote @ '':'' @ quote) (dropWhile is_digit s2) of None \<Rightarrow> None | Some (dir, s3) \<Rightarrow>
      case scan_field ('','' @ quote @ ''alias'' @ quote @ '':'' @ quote) s3 of None \<Rightarrow> None | Some (a, s4) \<Rightarrow>
      case scan_field ('','' @ quote @ ''status'' @ quote @ '':'' @ quote) s4 of None \<Rightarrow> None | Some (st, s5) \<Rightarrow>
      case scan_field ('','' @ quote @ ''payload'' @ quote @ '':'' @ quote) s5 of None \<Rightarrow> None | Some (pl, s6) \<Rightarrow>
        Some [''id'' \<mapsto> JString i, ''timestamp'' \<mapsto> JUint (read_digits (takeWhile is_digit s2)), ''direction'' \<mapsto> JString dir,
          ''alias'' \<mapsto> JString a, ''status'' \<mapsto> JString st, ''payload'' \<mapsto> JString pl])"

lemma expect_append [simp]: "expect p (p @ s) = Some s"
  by (simp add: expect_def)

lemma scan_char:
  "c \<noteq> CHR 0x22 \<Longrightarrow> c \<noteq> CHR 0x5C \<Longrightarrow> s \<noteq> [] \<Longrightarrow> scan_string (c # s) = map_option (\<lambda>(t, r). (c # t, r)) (scan_string s)"
  by (cases s) simp_all

lemma scan_quote: "scan_string (CHR 0x22 # s) = Some ([], s)"
  by (cases s) simp_all

lemma scan_escaped: "scan_string (EscapeJsonString t @ CHR 0x22 # r) = Some (t, r)"
proof (induction t)
  case Nil
  then show ?case by (simp add: EscapeJsonString_def scan_quote)
next
  case (Cons c t)
  have e: "EscapeJsonString (c # t) = escape_char c @ EscapeJsonString t" by (simp add: EscapeJsonString_def)
  show ?case
  proof (cases "c \<in> {CHR 0x22, CHR 0x5C, CHR 0x08, CHR 0x0C, CHR 0x0A, CHR 0x0D, CHR 0x09}")
    case True
    then show ?thesis unfolding e using Cons by (auto simp: escape_char_def unescape_def)
  next
    case False
    then have "escape_char c = [c]" by (simp add: escape_char_def)
    then show ?thesis unfolding e using Cons False by (simp add: scan_char)
  qed
qed

lemma scan_raw:
  "CHR 0x22 \<notin> set t \<Longrightarrow> CHR 0x5C \<notin> set t \<Longrightarrow> scan_string (t @ CHR 0x22 # r) = Some (t, r)"
proof (induction t)
  case (Cons c t)
  then have "scan_string (t @ CHR 0x22 # r) = Some (t, r)" by simp
  then show ?case using Cons.prems scan_char [of c "t @ CHR 0x22 # r"] by auto
qed (simp add: scan_quote)

lemma span_digits:
  assumes "\<not> is_digit c"
  shows "takeWhile is_digit (show_nat n @ c # r) = show_nat n" "dropWhile is_digit (show_nat n @ c # r) = c # r"
  using show_nat_digits [of n] assms by (auto simp: list_all_iff takeWhile_append2 dropWhile_append2)

lemma scan_field_at: "scan_string r = Some x \<Longrightarrow> scan_field p (p @ r) = Some x"
  by (simp add: scan_field_def)

lemma sample_reads_json: "reads_json sample_iterate"
  unfolding reads_json_def
proof (intro allI impI)
  fix e :: CacheEntry
  let ?q = "CHR 0x22"
  have d: "scan_string (DirToString (ce_direction e) @ ?q # r) = Some (DirToString (ce_direction e), r)" for r
    by (rule scan_raw) (simp_all add: DirToString_def)
  have st: "scan_string (StatusToString (ce_status e) @ ?q # r) = Some (StatusToString (ce_status e), r)" for r
    by (rule scan_raw) (cases "ce_status e"; simp)+
  have pl: "scan_string (EncodeHex (ce_payload e) @ ?q # r) = Some (EncodeHex (ce_payload e), r)" for r
    by (rule scan_raw) (simp_all add: hex_one_line)
  define s6 where "s6 = EncodeHex (ce_payload e) @ ?q # ''}''"
  define s5 where "s5 = ('','' @ quote @ ''payload'' @ quote @ '':'' @ quote) @ s6"
  define s4 where "s4 = ('','' @ quote @ ''status'' @ quote @ '':'' @ quote) @ StatusToString (ce_status e) @ ?q # s5"
  define s3 where "s3 = ('','' @ quote @ ''alias'' @ quote @ '':'' @ quote) @ EscapeJsonString (ce_alias e) @ ?q # s4"
  define s2 where "s2 = ('','' @ quote @ ''direction'' @ quote @ '':'' @ quote) @ DirToString (ce_direction e) @ ?q # s3"
  define s1 where "s1 = ('','' @ quote @ ''timestamp'' @ quote @ '':'') @ show_nat (unat (ce_timestamp e)) @ s2"
  have l: "entry_line e = (''{'' @ quote @ ''id'' @ quote @ '':'' @ quote) @ EscapeJsonString (ce_id e) @ ?q # s1"
    by (simp add: entry_line_def s1_def s2_def s3_def s4_def s5_def s6_def)
  have s2: "\<exists>r. s2 = CHR '','' # r" by (simp add: s2_def)
  then have ts: "takeWhile is_digit (show_nat n @ s2) = show_nat n" "dropWhile is_digit (show_nat n @ s2) = s2" for n
    using span_digits [of "CHR '',''"] by (auto simp: is_digit_def)
  have f: "scan_field (''{'' @ quote @ ''id'' @ quote @ '':'' @ quote) (entry_line e) = Some (ce_id e, s1)"
      "expect ('','' @ quote @ ''timestamp'' @ quote @ '':'') s1 = Some (show_nat (unat (ce_timestamp e)) @ s2)"
      "scan_field ('','' @ quote @ ''direction'' @ quote @ '':'' @ quote) s2 = Some (DirToString (ce_direction e), s3)"
      "scan_field ('','' @ quote @ ''alias'' @ quote @ '':'' @ quote) s3 = Some (ce_alias e, s4)"
      "scan_field ('','' @ quote @ ''status'' @ quote @ '':'' @ quote) s4 = Some (StatusToString (ce_status e), s5)"
      "scan_field ('','' @ quote @ ''payload'' @ quote @ '':'' @ quote) s5 = Some (EncodeHex (ce_payload e), ''}'')"
    unfolding l s1_def
    by (rule scan_field_at scan_escaped expect_append)+
      (unfold s2_def s3_def s4_def s5_def s6_def, (rule scan_field_at scan_escaped d st pl)+)
  show "sample_iterate (entry_line e) = Some (entry_object e)"
    unfolding sample_iterate_def f option.case prod.case ts by (simp add: entry_object_def)
qed

theorem history_roundtrip_witness:
  "let a = \<lparr>ce_id = ''00ff'', ce_timestamp = 7, ce_direction = OUTBOUND, ce_alias = ''bob'', ce_status = PENDING_ACK, ce_payload = [104, 105]\<rparr>;
       d = \<lparr>cacheDir = ''c'', files = Map.empty, refuses = [], rename_fails = False\<rparr>;
       d' = UpdateMessageStatus sample_iterate ''bob'' ''00ff'' DELIVERED (AppendMessage a d) in
   LoadHistory sample_iterate ''bob'' d' = [a\<lparr>ce_status := DELIVERED\<rparr>] \<and> LoadHistory sample_iterate ''eve'' d' = []"
proof -
  define a where "a = \<lparr>ce_id = ''00ff'', ce_timestamp = 7, ce_direction = OUTBOUND, ce_alias = ''bob'', ce_status = PENDING_ACK, ce_payload = [104, 105]\<rparr>"
  define d where "d = \<lparr>cacheDir = ''c'', files = Map.empty, refuses = [], rename_fails = False\<rparr>"
  have a: "ce_alias a = ''bob''" "ce_id a = ''00ff''" by (simp_all add: a_def)
  have "holds d (ce_alias a) []" "holds d ''eve'' []" "''eve'' \<noteq> ce_alias a" "plain (ce_id a)" "refuses d = []" "\<not> rename_fails d"
    by (simp_all add: a d_def holds_def plain_def)
  from history_roundtrip [OF sample_reads_json this, of "''00ff''" DELIVERED]
  show ?thesis by (simp add: a Let_def a_def [symmetric] d_def [symmetric])
qed

end
