(* ===== verification/Messenger.thy ===== *)
theory Messenger
  imports Cipher Cache
begin

text \<open>
  The messaging core of the client: contacts and the address book (\<^verbatim>\<open>libs/domain/client/src/address_book.cpp\<close>), the text of
  the contacts file (\<^verbatim>\<open>contact_storage.cpp\<close>) and the handlers of the command loop that send, receive, acknowledge and rotate
  keys (\<^verbatim>\<open>libs/cli/src/repl.cpp\<close>).  The handlers are functions on the state of the client; the arguments \<^verbatim>\<open>lib\<close>
  and \<^verbatim>\<open>iterate\<close> are libsodium and the JSON parser.  Console output is left out, and each handler runs as a whole.
\<close>

section \<open>Contacts\<close>

datatype PfsState = IDLE | ROTATION_REQUESTED | ROTATION_RESPONDING

record Contact =
  c_alias :: string
  c_publicKey :: bytes
  c_note :: "string option"
  c_rxMailboxId :: bytes
  c_txMailboxId :: bytes
  c_rxKey :: bytes
  c_txKey :: bytes
  c_initialPfsComplete :: bool
  c_messageCounter :: "32 word"
  c_pfsState :: PfsState
  c_pendingEphemeralKey :: "(bytes \<times> bytes) option"
  c_oldRxMailboxId :: "bytes option"
  c_oldRxKey :: "bytes option"

text \<open>The contacts are a hash table: \<^verbatim>\<open>traversal\<close> gives the order in which the entries of a table with these keys
  are visited.\<close>

record Repl =
  contacts :: "(string \<times> Contact) list"
  traversal :: "string list \<Rightarrow> string list"
  contacts_file :: string
  contacts_locked :: bool
  identity :: IdentityKey
  history :: cache
  outbox :: "frame list"
  contactAliases :: "string list"
  currentPollIndex :: nat
  connected :: bool
  pfsMessageInterval :: "32 word"
  time :: "64 word"
  random :: rng
  n_random :: nat
  n_keypair :: nat

section \<open>The contacts file\<close>

definition contact_text :: "Contact \<Rightarrow> string" where
  "contact_text c =
     ''    {'' @ newline @
     ''      '' @ quote @ ''alias'' @ quote @ '': '' @ quote @ EscapeJsonString (c_alias c) @ quote @ '','' @ newline @
     ''      '' @ quote @ ''publicKey'' @ quote @ '': '' @ quote @ EncodeHex (c_publicKey c) @ quote @
     (case c_note c of
        None \<Rightarrow> []
      | Some note \<Rightarrow> '','' @ newline @ ''      '' @ quote @ ''note'' @ quote @ '': '' @ quote @ EscapeJsonString note @ quote) @
     '','' @ newline @ ''      '' @ quote @ ''rxMailboxId'' @ quote @ '': '' @ quote @ EncodeHex (c_rxMailboxId c) @ quote @ '','' @ newline @
     ''      '' @ quote @ ''txMailboxId'' @ quote @ '': '' @ quote @ EncodeHex (c_txMailboxId c) @ quote @ '','' @ newline @
     ''      '' @ quote @ ''rxKey'' @ quote @ '': '' @ quote @ EncodeHex (c_rxKey c) @ quote @ '','' @ newline @
     ''      '' @ quote @ ''txKey'' @ quote @ '': '' @ quote @ EncodeHex (c_txKey c) @ quote @ '','' @ newline @
     ''      '' @ quote @ ''initialPfsComplete'' @ quote @ '': '' @ (if c_initialPfsComplete c then ''true'' else ''false'') @ newline @
     ''    }''"

fun contacts_lines :: "Contact list \<Rightarrow> string" where
  "contacts_lines [] = []"
| "contacts_lines [c] = contact_text c @ newline"
| "contacts_lines (c # cs) = contact_text c @ '','' @ newline @ contacts_lines cs"

definition SyncContactsToDisk :: "Contact list \<Rightarrow> string" where
  "SyncContactsToDisk activeContacts =
     ''{'' @ newline @ ''  '' @ quote @ ''contacts'' @ quote @ '': ['' @ newline @
     contacts_lines activeContacts @ ''  ]'' @ newline @ ''}'' @ newline"

definition GetContact :: "string \<Rightarrow> Repl \<Rightarrow> Contact option" where
  "GetContact alias s = map_of (contacts s) alias"

definition GetAllAliases :: "Repl \<Rightarrow> string list" where
  "GetAllAliases s = traversal s (map fst (contacts s))"

definition entries :: "Repl \<Rightarrow> (string \<times> Contact) list" where
  "entries s = map (\<lambda>alias. (alias, the (GetContact alias s))) (GetAllAliases s)"

definition SaveToDisk :: "Repl \<Rightarrow> Repl" where
  "SaveToDisk s =
     (if contacts_locked s then s else s\<lparr>contacts_file := SyncContactsToDisk (map snd (entries s))\<rparr>)"

section \<open>The address book\<close>

fun find_rx :: "bytes \<Rightarrow> (string \<times> Contact) list \<Rightarrow> string" where
  "find_rx rxId [] = []"
| "find_rx rxId ((alias, c) # cs) =
     (if c_rxMailboxId c = rxId then alias
      else if c_oldRxMailboxId c = Some rxId then alias
      else find_rx rxId cs)"

definition GetAliasByRxMailboxId :: "bytes \<Rightarrow> Repl \<Rightarrow> string" where
  "GetAliasByRxMailboxId rxId s = find_rx rxId (entries s)"

text \<open>Writing through the pointer to a contact.\<close>

definition set_contact :: "string \<Rightarrow> Contact \<Rightarrow> Repl \<Rightarrow> Repl" where
  "set_contact alias c s = s\<lparr>contacts := map (\<lambda>(a, x). if a = alias then (a, c) else (a, x)) (contacts s)\<rparr>"

definition insert_or_assign :: "string \<Rightarrow> Contact \<Rightarrow> Repl \<Rightarrow> Repl" where
  "insert_or_assign alias c s =
     (if GetContact alias s = None then s\<lparr>contacts := contacts s @ [(alias, c)]\<rparr> else set_contact alias c s)"

definition AddContact :: "sodium \<Rightarrow> string \<Rightarrow> bytes \<Rightarrow> string option \<Rightarrow> Repl \<Rightarrow> bool \<times> Repl" where
  "AddContact lib alias publicKey note s =
     (case DerivePairwiseMailboxes lib (identity s) publicKey of
        None \<Rightarrow> (False, s)
      | Some d \<Rightarrow>
          (True, SaveToDisk (insert_or_assign alias
             \<lparr>c_alias = alias, c_publicKey = publicKey, c_note = note, c_rxMailboxId = dm_rxId d,
              c_txMailboxId = dm_txId d, c_rxKey = dm_rxKey d, c_txKey = dm_txKey d, c_initialPfsComplete = False,
              c_messageCounter = 0, c_pfsState = IDLE, c_pendingEphemeralKey = None, c_oldRxMailboxId = None,
              c_oldRxKey = None\<rparr> s)))"

section \<open>Sending\<close>

definition push_outbox :: "frame \<Rightarrow> Repl \<Rightarrow> Repl" where
  "push_outbox f s = s\<lparr>outbox := outbox s @ [f]\<rparr>"

text \<open>\<^verbatim>\<open>EncryptWithPadding\<close> with the next random nonce, and \<^verbatim>\<open>EphemeralKey::Generate\<close>.\<close>

definition encrypt :: "sodium \<Rightarrow> bytes \<Rightarrow> bytes \<Rightarrow> Repl \<Rightarrow> bytes option \<times> Repl" where
  "encrypt lib key plaintext s =
     (if length key \<noteq> keySize then (None, s)
      else (EncryptWithPadding lib (randombytes (random s) (n_random s) nonceSize) key plaintext,
            s\<lparr>n_random := Suc (n_random s)\<rparr>))"

definition generate_ephemeral :: "Repl \<Rightarrow> (bytes \<times> bytes) option \<times> Repl" where
  "generate_ephemeral s = (kx_keypair (random s) (n_keypair s), s\<lparr>n_keypair := Suc (n_keypair s)\<rparr>)"

definition sign :: "sodium \<Rightarrow> bytes \<Rightarrow> Repl \<Rightarrow> bytes" where
  "sign lib message s = sign_detached lib (id_secretKey (identity s)) message"

definition InitiatePfsRotation :: "sodium \<Rightarrow> string \<Rightarrow> Contact \<Rightarrow> Repl \<Rightarrow> bool \<times> Repl" where
  "InitiatePfsRotation lib alias c s =
     (if c_pfsState c \<noteq> IDLE then (False, s)
      else
        (case generate_ephemeral s of
           (None, s1) \<Rightarrow> (False, s1)
         | (Some (pk, sk), s1) \<Rightarrow>
             (case encrypt lib (c_txKey c) (BuildPfsRotateRequest pk (sign lib pk s1)) s1 of
                (None, s2) \<Rightarrow> (False, s2)
              | (Some ciphertext, s2) \<Rightarrow>
                  (True, set_contact alias
                     (c\<lparr>c_pfsState := ROTATION_REQUESTED, c_pendingEphemeralKey := Some (pk, sk), c_messageCounter := 0\<rparr>)
                     (push_outbox (CreatePush (c_txMailboxId c) ciphertext) s2)))))"

definition IsInitialPfsInitiator :: "Contact \<Rightarrow> Repl \<Rightarrow> bool" where
  "IsInitialPfsInitiator c s = ord_class.lexordp (id_publicKey (identity s)) (c_publicKey c)"

definition MaybeStartInitialPfs :: "sodium \<Rightarrow> string \<Rightarrow> Contact \<Rightarrow> Repl \<Rightarrow> Repl" where
  "MaybeStartInitialPfs lib alias c s =
     (if \<not> connected s \<or> c_initialPfsComplete c \<or> c_pfsState c \<noteq> IDLE \<or> \<not> IsInitialPfsInitiator c s then s
      else snd (InitiatePfsRotation lib alias c s))"

definition StartPendingInitialPfs :: "sodium \<Rightarrow> Repl \<Rightarrow> Repl" where
  "StartPendingInitialPfs lib s =
     fold (\<lambda>alias s. case GetContact alias s of None \<Rightarrow> s | Some c \<Rightarrow> MaybeStartInitialPfs lib alias c s)
       (contactAliases s) s"

text \<open>\<^verbatim>\<open>HandleConnect\<close> after \<^verbatim>\<open>Connect\<close> has succeeded.\<close>

definition on_connected :: "sodium \<Rightarrow> Repl \<Rightarrow> Repl" where
  "on_connected lib s = StartPendingInitialPfs lib (s\<lparr>connected := True, contactAliases := GetAllAliases s\<rparr>)"

text \<open>\<^verbatim>\<open>HandleAddContact\<close> with the key of the mnemonic.\<close>

definition HandleAddContact :: "sodium \<Rightarrow> string \<Rightarrow> bytes option \<Rightarrow> Repl \<Rightarrow> Repl" where
  "HandleAddContact lib alias pubKeyOpt s =
     (case pubKeyOpt of
        None \<Rightarrow> s
      | Some pubKey \<Rightarrow>
          (case AddContact lib alias pubKey None s of
             (False, s1) \<Rightarrow> s1
           | (True, s1) \<Rightarrow>
               let s2 = (if alias \<in> set (contactAliases s1) then s1
                         else s1\<lparr>contactAliases := contactAliases s1 @ [alias]\<rparr>) in
               (case GetContact alias s2 of None \<Rightarrow> s2 | Some c \<Rightarrow> MaybeStartInitialPfs lib alias c s2)))"

abbreviation message_id :: "sodium \<Rightarrow> bytes \<Rightarrow> string" where
  "message_id lib payload \<equiv> HashPayload (generichash lib 16) payload"

definition append_history :: "CacheEntry \<Rightarrow> Repl \<Rightarrow> Repl" where
  "append_history e s = s\<lparr>history := AppendMessage e (history s)\<rparr>"

definition periodic_rotation :: "sodium \<Rightarrow> string \<Rightarrow> Contact \<Rightarrow> Repl \<Rightarrow> Repl" where
  "periodic_rotation lib alias c s =
     (if 0 < pfsMessageInterval s \<and> pfsMessageInterval s \<le> c_messageCounter c \<and> c_pfsState c = IDLE
      then snd (InitiatePfsRotation lib alias c s) else s)"

definition HandleSend :: "sodium \<Rightarrow> string \<Rightarrow> bytes \<Rightarrow> Repl \<Rightarrow> Repl" where
  "HandleSend lib alias rawPayload s =
     (case GetContact alias s of
        None \<Rightarrow> s
      | Some c \<Rightarrow>
          if \<not> c_initialPfsComplete c then MaybeStartInitialPfs lib alias c s
          else
            let s1 = append_history
                  \<lparr>ce_id = message_id lib rawPayload, ce_timestamp = time s, ce_direction = OUTBOUND, ce_alias = alias,
                   ce_status = PENDING_ACK, ce_payload = rawPayload\<rparr> s;
                s2 = periodic_rotation lib alias c s1;
                c2 = the (GetContact alias s2);
                c3 = c2\<lparr>c_messageCounter := c_messageCounter c2 + 1\<rparr>;
                s3 = set_contact alias c3 s2 in
            (case encrypt lib (c_txKey c3) (BuildTextMessage rawPayload) s3 of
               (None, s4) \<Rightarrow> s4
             | (Some ciphertext, s4) \<Rightarrow> push_outbox (CreatePush (c_txMailboxId c3) ciphertext) s4))"

text \<open>The frame of one tick: what waits in the outbox, else a poll of the mailboxes in turn.\<close>

definition active_mailboxes :: "Repl \<Rightarrow> bytes list" where
  "active_mailboxes s =
     concat (map (\<lambda>alias.
       case GetContact alias s of
         None \<Rightarrow> []
       | Some c \<Rightarrow> c_rxMailboxId c # (case c_oldRxMailboxId c of Some old \<Rightarrow> [old] | None \<Rightarrow> [])) (contactAliases s))"

definition GetNextFrameForCBR :: "Repl \<Rightarrow> frame \<times> Repl" where
  "GetNextFrameForCBR s =
     (case outbox s of
        f # rest \<Rightarrow> (f, s\<lparr>outbox := rest\<rparr>)
      | [] \<Rightarrow>
          let boxes = active_mailboxes s in
          if boxes = [] then (CreatePoll (replicate mailboxIdSize 0), s)
          else
            let k = (currentPollIndex s + 1) mod length boxes in
            (CreatePoll (boxes ! k), s\<lparr>currentPollIndex := k\<rparr>))"

section \<open>Receiving\<close>

definition HandleTextMessage :: "sodium \<Rightarrow> string \<Rightarrow> Contact \<Rightarrow> bytes \<Rightarrow> bytes \<Rightarrow> Repl \<Rightarrow> Repl" where
  "HandleTextMessage lib alias c plaintext msgData s =
     (let msgId = message_id lib msgData;
          s1 = append_history
            \<lparr>ce_id = msgId, ce_timestamp = time s, ce_direction = INBOUND, ce_alias = alias,
             ce_status = DELIVERED, ce_payload = plaintext\<rparr> s in
      case encrypt lib (c_txKey c) (map of_char msgId) s1 of
        (None, s2) \<Rightarrow> s2
      | (Some ackCiphertext, s2) \<Rightarrow> push_outbox (CreateAck (c_txMailboxId c) ackCiphertext) s2)"

text \<open>The new mailboxes and keys, as both handlers of a rotation store them.\<close>

definition adopt :: "DerivedMailboxes \<Rightarrow> Contact \<Rightarrow> Contact" where
  "adopt d c =
     c\<lparr>c_txMailboxId := dm_txId d, c_rxMailboxId := dm_rxId d, c_txKey := dm_txKey d, c_rxKey := dm_rxKey d,
       c_messageCounter := 0\<rparr>"

definition HandlePfsRotateRequest :: "sodium \<Rightarrow> string \<Rightarrow> Contact \<Rightarrow> bytes \<Rightarrow> Repl \<Rightarrow> Repl" where
  "HandlePfsRotateRequest lib alias c plaintext s =
     (case ParsePfsRotateRequest plaintext of
        None \<Rightarrow> s
      | Some req \<Rightarrow>
          let theirPk = pr_ephemeralPublicKey req; initialRotation = \<not> c_initialPfsComplete c in
          if \<not> verify_detached lib (pr_signature req) theirPk (c_publicKey c) then s
          else if initialRotation \<and> IsInitialPfsInitiator c s then MaybeStartInitialPfs lib alias c s
          else
            (case generate_ephemeral s of
               (None, s1) \<Rightarrow> s1
             | (Some (myPk, mySk), s1) \<Rightarrow>
                 (case encrypt lib (c_txKey c) (BuildPfsRotateAck myPk (sign lib (theirPk @ myPk) s1)) s1 of
                    (None, s2) \<Rightarrow> s2
                  | (Some ciphertext, s2) \<Rightarrow>
                      let s3 = push_outbox (CreatePush (c_txMailboxId c) ciphertext) s2;
                          c1 = (if initialRotation then c
                                else c\<lparr>c_oldRxMailboxId := Some (c_rxMailboxId c), c_oldRxKey := Some (c_rxKey c)\<rparr>) in
                      (case scalarmult lib mySk theirPk of
                         None \<Rightarrow> set_contact alias c1 s3
                       | Some secret \<Rightarrow>
                           let c2 = adopt (derive_mailboxes lib secret myPk theirPk) c1;
                               c3 = (if initialRotation then c2\<lparr>c_initialPfsComplete := True, c_pfsState := IDLE\<rparr>
                                     else c2) in
                           SaveToDisk (set_contact alias c3 s3)))))"

definition HandlePfsRotateAck :: "sodium \<Rightarrow> string \<Rightarrow> Contact \<Rightarrow> bytes \<Rightarrow> Repl \<Rightarrow> Repl" where
  "HandlePfsRotateAck lib alias c plaintext s =
     (case c_pendingEphemeralKey c of
        None \<Rightarrow> s
      | Some (myPk, mySk) \<Rightarrow>
          if c_pfsState c \<noteq> ROTATION_REQUESTED then s
          else
            (case ParsePfsRotateAck plaintext of
               None \<Rightarrow> s
             | Some ack \<Rightarrow>
                 let theirPk = pr_ephemeralPublicKey ack in
                 if \<not> verify_detached lib (pr_signature ack) (myPk @ theirPk) (c_publicKey c) then s
                 else
                   (case scalarmult lib mySk theirPk of
                      None \<Rightarrow> s
                    | Some secret \<Rightarrow>
                        SaveToDisk (set_contact alias
                          ((adopt (derive_mailboxes lib secret myPk theirPk) c)
                             \<lparr>c_pfsState := IDLE, c_pendingEphemeralKey := None, c_initialPfsComplete := True\<rparr>) s))))"

definition keyToUse :: "Contact \<Rightarrow> bool \<Rightarrow> bytes" where
  "keyToUse c usedOldKey =
     (case c_oldRxKey c of Some old \<Rightarrow> if usedOldKey then old else c_rxKey c | None \<Rightarrow> c_rxKey c)"

definition ProcessPushFrame :: "sodium \<Rightarrow> string \<Rightarrow> Contact \<Rightarrow> bool \<Rightarrow> bytes \<Rightarrow> Repl \<Rightarrow> Repl" where
  "ProcessPushFrame lib alias c usedOldKey payload s =
     (case DecryptAndUnpad lib (keyToUse c usedOldKey) payload of
        None \<Rightarrow> s
      | Some plaintext \<Rightarrow>
          let confirmed = (\<not> usedOldKey \<and> c_oldRxMailboxId c \<noteq> None);
              c1 = (if confirmed then c\<lparr>c_oldRxMailboxId := None, c_oldRxKey := None\<rparr> else c);
              s1 = (if confirmed then SaveToDisk (set_contact alias c1 s) else s) in
          (case ExtractOpcode plaintext of
             None \<Rightarrow> s1
           | Some TEXT_MESSAGE \<Rightarrow>
               if \<not> c_initialPfsComplete c1 then s1
               else (case ParseTextMessage plaintext of
                       None \<Rightarrow> s1
                     | Some msgData \<Rightarrow> HandleTextMessage lib alias c1 plaintext msgData s1)
           | Some PFS_ROTATE_REQUEST \<Rightarrow> HandlePfsRotateRequest lib alias c1 plaintext s1
           | Some PFS_ROTATE_ACK \<Rightarrow> HandlePfsRotateAck lib alias c1 plaintext s1))"

definition ProcessAckFrame ::
  "sodium \<Rightarrow> (string \<Rightarrow> json_object option) \<Rightarrow> string \<Rightarrow> Contact \<Rightarrow> bool \<Rightarrow> bytes \<Rightarrow> Repl \<Rightarrow> Repl" where
  "ProcessAckFrame lib iterate alias c usedOldKey payload s =
     (case DecryptAndUnpad lib (keyToUse c usedOldKey) payload of
        None \<Rightarrow> s
      | Some plaintext \<Rightarrow>
          s\<lparr>history := UpdateMessageStatus iterate alias (map (\<lambda>b. char_of (unat b)) plaintext) DELIVERED (history s)\<rparr>)"

definition OnFrameReceived :: "sodium \<Rightarrow> (string \<Rightarrow> json_object option) \<Rightarrow> frame \<Rightarrow> Repl \<Rightarrow> Repl" where
  "OnFrameReceived lib iterate f s =
     (let alias = GetAliasByRxMailboxId (fr_mailbox f) s in
      if fr_action f = POLL then s
      else if alias = [] then s
      else
        (case GetContact alias s of
           None \<Rightarrow> s
         | Some c \<Rightarrow>
             let usedOldKey = (c_oldRxMailboxId c = Some (fr_mailbox f)) in
             if fr_action f = PUSH then ProcessPushFrame lib alias c usedOldKey (fr_payload f) s
             else if fr_action f = ACK then ProcessAckFrame lib iterate alias c usedOldKey (fr_payload f) s
             else s))"

end
