(* ===== verification/MessengerLogic.thy ===== *)
theory MessengerLogic
  imports Messenger
begin

text \<open>
  Lemmas on the handlers of the client: what they keep of the state, which contact a frame is given to, and what the two
  messages of a key rotation do at their receivers.  The properties of the client rest on them.
\<close>

section \<open>The address book\<close>

lemma set_contact_fields [simp]:
  "outbox (set_contact a c s) = outbox s" "identity (set_contact a c s) = identity s"
  "random (set_contact a c s) = random s" "n_random (set_contact a c s) = n_random s"
  "n_keypair (set_contact a c s) = n_keypair s" "connected (set_contact a c s) = connected s"
  "history (set_contact a c s) = history s" "traversal (set_contact a c s) = traversal s"
  "contactAliases (set_contact a c s) = contactAliases s" "time (set_contact a c s) = time s"
  "contacts_file (set_contact a c s) = contacts_file s" "contacts_locked (set_contact a c s) = contacts_locked s"
  "pfsMessageInterval (set_contact a c s) = pfsMessageInterval s"
  "map fst (contacts (set_contact a c s)) = map fst (contacts s)"
  by (auto simp: set_contact_def)

lemma SaveToDisk_fields [simp]:
  "outbox (SaveToDisk s) = outbox s" "identity (SaveToDisk s) = identity s" "random (SaveToDisk s) = random s"
  "n_random (SaveToDisk s) = n_random s" "n_keypair (SaveToDisk s) = n_keypair s" "connected (SaveToDisk s) = connected s"
  "history (SaveToDisk s) = history s" "contacts (SaveToDisk s) = contacts s" "traversal (SaveToDisk s) = traversal s"
  "contactAliases (SaveToDisk s) = contactAliases s" "time (SaveToDisk s) = time s"
  "contacts_locked (SaveToDisk s) = contacts_locked s" "pfsMessageInterval (SaveToDisk s) = pfsMessageInterval s"
  by (simp_all add: SaveToDisk_def)

lemma push_outbox_fields [simp]:
  "outbox (push_outbox f s) = outbox s @ [f]" "identity (push_outbox f s) = identity s"
  "random (push_outbox f s) = random s" "n_random (push_outbox f s) = n_random s"
  "n_keypair (push_outbox f s) = n_keypair s" "connected (push_outbox f s) = connected s"
  "history (push_outbox f s) = history s" "contacts (push_outbox f s) = contacts s"
  "traversal (push_outbox f s) = traversal s" "contactAliases (push_outbox f s) = contactAliases s"
  "time (push_outbox f s) = time s" "contacts_locked (push_outbox f s) = contacts_locked s"
  "contacts_file (push_outbox f s) = contacts_file s" "pfsMessageInterval (push_outbox f s) = pfsMessageInterval s"
  by (simp_all add: push_outbox_def)

lemma GetContact_cong: "contacts s = contacts t \<Longrightarrow> GetContact a s = GetContact a t"
  by (simp add: GetContact_def)

lemma GetContact_same [simp]:
  "GetContact a (push_outbox f s) = GetContact a s" "GetContact a (SaveToDisk s) = GetContact a s"
  "GetContact a (s\<lparr>n_random := i\<rparr>) = GetContact a s" "GetContact a (s\<lparr>n_keypair := i\<rparr>) = GetContact a s"
  "GetContact a (s\<lparr>history := h\<rparr>) = GetContact a s"
  by (simp_all add: GetContact_def)

lemma GetContact_set [simp]:
  "GetContact a (set_contact b c s) = (if a = b \<and> GetContact b s \<noteq> None then Some c else GetContact a s)"
proof -
  have "map_of (map (\<lambda>(x, y). if x = b then (x, c) else (x, y)) l) a =
      (if a = b \<and> map_of l b \<noteq> None then Some c else map_of l a)" for l
    by (induction l) auto
  then show ?thesis by (simp add: GetContact_def set_contact_def)
qed

definition listens :: "bytes \<Rightarrow> Contact \<Rightarrow> bool" where
  "listens x c \<longleftrightarrow> c_rxMailboxId c = x \<or> c_oldRxMailboxId c = Some x"

lemma find_rx_cong:
  "(\<And>a. a \<in> set as \<Longrightarrow> listens x (f a) = listens x (g a)) \<Longrightarrow>
   find_rx x (map (\<lambda>a. (a, f a)) as) = find_rx x (map (\<lambda>a. (a, g a)) as)"
  by (induction as) (auto simp: listens_def)

lemma GetAlias_cong:
  assumes "map fst (contacts s) = map fst (contacts t)" "traversal s = traversal t"
    and "\<And>a. listens x (the (GetContact a s)) = listens x (the (GetContact a t))"
  shows "GetAliasByRxMailboxId x s = GetAliasByRxMailboxId x t"
  unfolding GetAliasByRxMailboxId_def entries_def GetAllAliases_def assms(1,2)
  by (rule find_rx_cong) (rule assms(3))

lemma GetAlias_same [simp]:
  "GetAliasByRxMailboxId x (push_outbox f s) = GetAliasByRxMailboxId x s"
  "GetAliasByRxMailboxId x (SaveToDisk s) = GetAliasByRxMailboxId x s"
  "GetAliasByRxMailboxId x (s\<lparr>n_random := i\<rparr>) = GetAliasByRxMailboxId x s"
  "GetAliasByRxMailboxId x (s\<lparr>n_keypair := i\<rparr>) = GetAliasByRxMailboxId x s"
  "GetAliasByRxMailboxId x (s\<lparr>history := h\<rparr>) = GetAliasByRxMailboxId x s"
  by (rule GetAlias_cong; simp)+

lemma GetAlias_set:
  "GetContact b s = Some c \<Longrightarrow> listens x c' = listens x c \<Longrightarrow>
   GetAliasByRxMailboxId x (set_contact b c' s) = GetAliasByRxMailboxId x s"
  by (rule GetAlias_cong) auto

section \<open>Sealing and opening\<close>

lemma encrypt_ok:
  assumes "sodium_ok lib" "rng_ok lib (random s)" "length key = keySize"
  obtains ct where "encrypt lib key p s = (Some ct, s\<lparr>n_random := Suc (n_random s)\<rparr>)"
    "DecryptAndUnpad lib key ct = Some p" "length ct = cryptoOverhead + padded_size (length p)"
proof -
  have "length (randombytes (random s) (n_random s) nonceSize) = nonceSize" using assms(2) by (simp add: rng_ok_def)
  then show thesis using encrypt_decrypt [OF assms(1,3), where p = p] assms(3) that by (auto simp: encrypt_def)
qed

lemma generate_ok:
  assumes "sodium_ok lib" "rng_ok lib (random s)"
  obtains sk where "length sk = 32" "length (scalarmult_base lib sk) = publicKeySize"
    "kx_keypair (random s) (n_keypair s) = Some (scalarmult_base lib sk, sk)"
proof -
  obtain sk where "length sk = 32" "kx_keypair (random s) (n_keypair s) = Some (scalarmult_base lib sk, sk)"
    using assms(2) unfolding rng_ok_def by (elim conjE allE [where x = "n_keypair s"] exE)
  then show thesis using that assms(1) by (simp add: sodium_ok_def)
qed

text \<open>A frame that opens under the key of its mailbox.\<close>

definition opens :: "sodium \<Rightarrow> string \<Rightarrow> Contact \<Rightarrow> frame \<Rightarrow> bytes \<Rightarrow> Repl \<Rightarrow> bool" where
  "opens lib alias c f p s \<longleftrightarrow>
     alias \<noteq> [] \<and> GetAliasByRxMailboxId (fr_mailbox f) s = alias \<and> GetContact alias s = Some c \<and>
     DecryptAndUnpad lib (keyToUse c (c_oldRxMailboxId c = Some (fr_mailbox f))) (fr_payload f) = Some p \<and>
     (c_oldRxMailboxId c = None \<or> c_oldRxMailboxId c = Some (fr_mailbox f))"

lemma receive_push:
  assumes "opens lib alias c f p s" "fr_action f = PUSH"
  shows "OnFrameReceived lib iterate f s =
    (case ExtractOpcode p of
       None \<Rightarrow> s
     | Some TEXT_MESSAGE \<Rightarrow>
         if \<not> c_initialPfsComplete c then s else HandleTextMessage lib alias c p (drop 1 p) s
     | Some PFS_ROTATE_REQUEST \<Rightarrow> HandlePfsRotateRequest lib alias c p s
     | Some PFS_ROTATE_ACK \<Rightarrow> HandlePfsRotateAck lib alias c p s)"
proof -
  have "\<not> (c_oldRxMailboxId c \<noteq> Some (fr_mailbox f) \<and> c_oldRxMailboxId c \<noteq> None)" using assms(1) by (auto simp: opens_def)
  then show ?thesis using assms
    by (auto simp: OnFrameReceived_def opens_def ProcessPushFrame_def ParseTextMessage_def protocol_simps Let_def
        split: option.splits PayloadOpcode.splits)
qed

lemma receive_ack:
  "opens lib alias c f p s \<Longrightarrow> fr_action f = ACK \<Longrightarrow>
   OnFrameReceived lib iterate f s =
     s\<lparr>history := UpdateMessageStatus iterate alias (map (\<lambda>b. char_of (unat b)) p) DELIVERED (history s)\<rparr>"
  by (simp add: OnFrameReceived_def opens_def ProcessAckFrame_def protocol_simps Let_def)

lemma created_fields [simp]:
  "fr_action (CreatePush m p) = PUSH" "fr_mailbox (CreatePush m p) = m" "fr_payload (CreatePush m p) = p"
  "fr_action (CreateAck m p) = ACK" "fr_mailbox (CreateAck m p) = m" "fr_payload (CreateAck m p) = p"
  "fr_action (CreatePoll m) = POLL" "fr_mailbox (CreatePoll m) = m"
  by (simp_all add: CreatePush_def CreateAck_def CreatePoll_def make_frame_def)

section \<open>The two messages of a rotation\<close>

text \<open>A frame for the other end of \<^verbatim>\<open>c\<close>, the state after a message of a rotation has been queued, and the contact in
  the three stages.\<close>

definition carries :: "sodium \<Rightarrow> Contact \<Rightarrow> bytes \<Rightarrow> frame \<Rightarrow> bool" where
  "carries lib c p f \<longleftrightarrow>
     fr_action f = PUSH \<and> fr_mailbox f = c_txMailboxId c \<and> DecryptAndUnpad lib (c_txKey c) (fr_payload f) = Some p"

definition sent :: "frame \<Rightarrow> Repl \<Rightarrow> Repl" where
  "sent f s = push_outbox f (s\<lparr>n_keypair := Suc (n_keypair s), n_random := Suc (n_random s)\<rparr>)"

definition requested :: "sodium \<Rightarrow> bytes \<Rightarrow> Contact \<Rightarrow> Contact" where
  "requested lib sk c =
     c\<lparr>c_pfsState := ROTATION_REQUESTED, c_pendingEphemeralKey := Some (scalarmult_base lib sk, sk), c_messageCounter := 0\<rparr>"

definition answered :: "DerivedMailboxes \<Rightarrow> Contact \<Rightarrow> Contact" where
  "answered d c =
     (if c_initialPfsComplete c
      then adopt d (c\<lparr>c_oldRxMailboxId := Some (c_rxMailboxId c), c_oldRxKey := Some (c_rxKey c)\<rparr>)
      else (adopt d c)\<lparr>c_initialPfsComplete := True, c_pfsState := IDLE\<rparr>)"

definition finished :: "DerivedMailboxes \<Rightarrow> Contact \<Rightarrow> Contact" where
  "finished d c = (adopt d c)\<lparr>c_pfsState := IDLE, c_pendingEphemeralKey := None, c_initialPfsComplete := True\<rparr>"

lemma requested_fields [simp]:
  "c_rxMailboxId (requested lib sk c) = c_rxMailboxId c" "c_txMailboxId (requested lib sk c) = c_txMailboxId c"
  "c_rxKey (requested lib sk c) = c_rxKey c" "c_txKey (requested lib sk c) = c_txKey c"
  "c_initialPfsComplete (requested lib sk c) = c_initialPfsComplete c" "c_publicKey (requested lib sk c) = c_publicKey c"
  "c_pendingEphemeralKey (requested lib sk c) = Some (scalarmult_base lib sk, sk)"
  "c_pfsState (requested lib sk c) = ROTATION_REQUESTED"
  "c_oldRxMailboxId (requested lib sk c) = c_oldRxMailboxId c" "c_oldRxKey (requested lib sk c) = c_oldRxKey c"
  by (simp_all add: requested_def)

lemma answered_fields [simp]:
  "c_rxMailboxId (answered d c) = dm_rxId d" "c_txMailboxId (answered d c) = dm_txId d"
  "c_rxKey (answered d c) = dm_rxKey d" "c_txKey (answered d c) = dm_txKey d" "c_initialPfsComplete (answered d c)"
  "c_publicKey (answered d c) = c_publicKey c" "c_pendingEphemeralKey (answered d c) = c_pendingEphemeralKey c"
  "c_pfsState (answered d c) = (if c_initialPfsComplete c then c_pfsState c else IDLE)"
  "c_oldRxMailboxId (answered d c) = (if c_initialPfsComplete c then Some (c_rxMailboxId c) else c_oldRxMailboxId c)"
  "c_oldRxKey (answered d c) = (if c_initialPfsComplete c then Some (c_rxKey c) else c_oldRxKey c)"
  by (simp_all add: answered_def adopt_def)

lemma finished_fields [simp]:
  "c_rxMailboxId (finished d c) = dm_rxId d" "c_txMailboxId (finished d c) = dm_txId d"
  "c_rxKey (finished d c) = dm_rxKey d" "c_txKey (finished d c) = dm_txKey d" "c_initialPfsComplete (finished d c)"
  "c_publicKey (finished d c) = c_publicKey c" "c_pendingEphemeralKey (finished d c) = None"
  "c_pfsState (finished d c) = IDLE" "c_oldRxMailboxId (finished d c) = c_oldRxMailboxId c"
  "c_oldRxKey (finished d c) = c_oldRxKey c"
  by (simp_all add: finished_def adopt_def)

lemma sent_fields [simp]:
  "outbox (sent f s) = outbox s @ [f]" "identity (sent f s) = identity s" "random (sent f s) = random s"
  "GetContact a (sent f s) = GetContact a s" "GetAliasByRxMailboxId x (sent f s) = GetAliasByRxMailboxId x s"
  "n_keypair (sent f s) = Suc (n_keypair s)"
  by (simp_all add: sent_def)

lemma sign_cong: "identity s = identity t \<Longrightarrow> sign lib m s = sign lib m t"
  by (simp add: sign_def)

lemma initiate_sends:
  assumes "sodium_ok lib" "rng_ok lib (random s)" "length (c_txKey c) = keySize" "c_pfsState c = IDLE"
  obtains sk f where "length sk = 32" "kx_keypair (random s) (n_keypair s) = Some (scalarmult_base lib sk, sk)"
    "carries lib c (BuildPfsRotateRequest (scalarmult_base lib sk) (sign lib (scalarmult_base lib sk) s)) f"
    "InitiatePfsRotation lib alias c s = (True, set_contact alias (requested lib sk c) (sent f s))"
proof -
  obtain sk where sk: "length sk = 32" "length (scalarmult_base lib sk) = publicKeySize"
      "kx_keypair (random s) (n_keypair s) = Some (scalarmult_base lib sk, sk)" using generate_ok [OF assms(1,2)] .
  let ?pk = "scalarmult_base lib sk" and ?t = "s\<lparr>n_keypair := Suc (n_keypair s)\<rparr>"
  have r: "rng_ok lib (random ?t)" using assms(2) by simp
  obtain ct where ct: "encrypt lib (c_txKey c) (BuildPfsRotateRequest ?pk (sign lib ?pk s)) ?t =
        (Some ct, ?t\<lparr>n_random := Suc (n_random ?t)\<rparr>)"
      "DecryptAndUnpad lib (c_txKey c) ct = Some (BuildPfsRotateRequest ?pk (sign lib ?pk s))"
    by (rule encrypt_ok [OF assms(1) r assms(3)])
  have "sign lib ?pk ?t = sign lib ?pk s" by (simp add: sign_def)
  then show thesis using sk ct assms(4)
    by (intro that [of sk "CreatePush (c_txMailboxId c) ct"])
       (simp_all add: InitiatePfsRotation_def generate_ephemeral_def carries_def requested_def sent_def)
qed

lemma request_answered:
  assumes "sodium_ok lib" "rng_ok lib (random s)" "length (c_txKey c) = keySize"
    and p: "p = BuildPfsRotateRequest (scalarmult_base lib th) sig" "length th = 32" "length sig = cryptoSignBytes"
    and "verify_detached lib sig (scalarmult_base lib th) (c_publicKey c)"
    and "c_initialPfsComplete c \<or> \<not> IsInitialPfsInitiator c s"
  obtains sk f secret where "length (scalarmult_base lib sk) = publicKeySize"
    "kx_keypair (random s) (n_keypair s) = Some (scalarmult_base lib sk, sk)"
    "carries lib c (BuildPfsRotateAck (scalarmult_base lib sk)
       (sign lib (scalarmult_base lib th @ scalarmult_base lib sk) s)) f"
    "scalarmult lib th (scalarmult_base lib sk) = Some secret"
    "HandlePfsRotateRequest lib alias c p s =
       SaveToDisk (set_contact alias
         (answered (derive_mailboxes lib secret (scalarmult_base lib sk) (scalarmult_base lib th)) c) (sent f s))"
proof -
  let ?tpk = "scalarmult_base lib th"
  obtain sk where sk: "length sk = 32" "length (scalarmult_base lib sk) = publicKeySize"
      "kx_keypair (random s) (n_keypair s) = Some (scalarmult_base lib sk, sk)" using generate_ok [OF assms(1,2)] .
  let ?pk = "scalarmult_base lib sk" and ?t = "s\<lparr>n_keypair := Suc (n_keypair s)\<rparr>"
  have r: "rng_ok lib (random ?t)" using assms(2) by simp
  obtain ct where ct: "encrypt lib (c_txKey c) (BuildPfsRotateAck ?pk (sign lib (?tpk @ ?pk) s)) ?t =
        (Some ct, ?t\<lparr>n_random := Suc (n_random ?t)\<rparr>)"
      "DecryptAndUnpad lib (c_txKey c) ct = Some (BuildPfsRotateAck ?pk (sign lib (?tpk @ ?pk) s))"
    by (rule encrypt_ok [OF assms(1) r assms(3)])
  have sg: "sign lib (?tpk @ ?pk) ?t = sign lib (?tpk @ ?pk) s" by (simp add: sign_def)
  obtain secret where se: "scalarmult lib sk ?tpk = Some secret" "scalarmult lib th ?pk = Some secret"
    using sodium_dh [OF assms(1) sk(1) p(2)] by blast
  have "length ?tpk = publicKeySize" using assms(1) p(2) by (simp add: sodium_ok_def)
  then have "ParsePfsRotateRequest p = Some \<lparr>pr_ephemeralPublicKey = ?tpk, pr_signature = sig\<rparr>"
    using p parse_built(2) by simp
  then show thesis using sk ct sg se assms(7,8)
    by (intro that [of sk "CreatePush (c_txMailboxId c) ct" secret])
       (auto simp: HandlePfsRotateRequest_def generate_ephemeral_def answered_def carries_def sent_def Let_def)
qed

lemma answer_adopted:
  assumes "c_pfsState c = ROTATION_REQUESTED" "c_pendingEphemeralKey c = Some (pk, sk)"
    and "p = BuildPfsRotateAck tpk sig" "length tpk = publicKeySize" "length sig = cryptoSignBytes"
    and "verify_detached lib sig (pk @ tpk) (c_publicKey c)" "scalarmult lib sk tpk = Some secret"
  shows "HandlePfsRotateAck lib alias c p s =
    SaveToDisk (set_contact alias (finished (derive_mailboxes lib secret pk tpk) c) s)"
  using assms parse_built(3) by (simp add: HandlePfsRotateAck_def finished_def)

lemma request_received:
  assumes "opens lib a cB f (BuildPfsRotateRequest k sig) sB" "fr_action f = PUSH"
  shows "OnFrameReceived lib iterate f sB = HandlePfsRotateRequest lib a cB (BuildPfsRotateRequest k sig) sB"
  using receive_push [OF assms] unfolding BuildPfsRotateRequest_def by (simp del: opcode_byte.simps)

lemma answer_received:
  assumes "opens lib a cB f (BuildPfsRotateAck k sig) sB" "fr_action f = PUSH"
  shows "OnFrameReceived lib iterate f sB = HandlePfsRotateAck lib a cB (BuildPfsRotateAck k sig) sB"
  using receive_push [OF assms] unfolding BuildPfsRotateAck_def by (simp del: opcode_byte.simps)

section \<open>Two clients\<close>

text \<open>A client whose keys repeat the byte \<^verbatim>\<open>x\<close> and that knows one contact, whose key repeats \<^verbatim>\<open>y\<close>.\<close>

definition sample_rng :: "byte \<Rightarrow> rng" where
  "sample_rng x =
     \<lparr>randombytes = (\<lambda>i n. replicate n (word_of_nat i)),
      kx_keypair = (\<lambda>i. Some (replicate 32 (16 * x + word_of_nat i), replicate 32 (16 * x + word_of_nat i)))\<rparr>"

definition sample_contact :: "byte \<Rightarrow> byte \<Rightarrow> string \<Rightarrow> bool \<Rightarrow> Contact" where
  "sample_contact x y alias ready =
     (let d = derive_mailboxes sample_sodium (replicate 32 (x XOR y)) (replicate 32 x) (replicate 32 y) in
      \<lparr>c_alias = alias, c_publicKey = replicate 32 y, c_note = None, c_rxMailboxId = dm_rxId d, c_txMailboxId = dm_txId d,
       c_rxKey = dm_rxKey d, c_txKey = dm_txKey d, c_initialPfsComplete = ready, c_messageCounter = 0, c_pfsState = IDLE,
       c_pendingEphemeralKey = None, c_oldRxMailboxId = None, c_oldRxKey = None\<rparr>)"

definition sample_client :: "byte \<Rightarrow> byte \<Rightarrow> string \<Rightarrow> bool \<Rightarrow> Repl" where
  "sample_client x y alias ready =
     \<lparr>contacts = [(alias, sample_contact x y alias ready)], traversal = (\<lambda>as. as),
      contacts_file = SyncContactsToDisk [sample_contact x y alias ready], contacts_locked = False,
      identity = \<lparr>id_publicKey = replicate 32 x, id_secretKey = replicate 32 x\<rparr>,
      history = \<lparr>cacheDir = ''h'', files = Map.empty, refuses = [], rename_fails = False\<rparr>, outbox = [],
      contactAliases = [alias], currentPollIndex = 0, connected = True, pfsMessageInterval = 0, time = 5,
      random = sample_rng x, n_random = 0, n_keypair = 0\<rparr>"

lemma sample_rng_ok: "rng_ok sample_sodium (sample_rng x)"
  by (auto simp: rng_ok_def sample_rng_def sample_sodium_def)

lemma sample_identity_ok: "identity_ok sample_sodium \<lparr>id_publicKey = replicate 32 x, id_secretKey = replicate 32 x\<rparr>"
  by (auto simp: identity_ok_def sample_sodium_def crypto_simps)

lemma sample_fields [simp]:
  "random (sample_client x y a q) = sample_rng x" "n_keypair (sample_client x y a q) = 0" "outbox (sample_client x y a q) = []"
  "identity (sample_client x y a q) = \<lparr>id_publicKey = replicate 32 x, id_secretKey = replicate 32 x\<rparr>"
  "GetContact a (sample_client x y a q) = Some (sample_contact x y a q)"
  "c_publicKey (sample_contact x y a q) = replicate 32 y" "c_initialPfsComplete (sample_contact x y a q) = q"
  "c_pfsState (sample_contact x y a q) = IDLE" "c_oldRxMailboxId (sample_contact x y a q) = None"
  "length (c_txKey (sample_contact x y a q)) = keySize" "length (c_rxKey (sample_contact x y a q)) = keySize"
  "length (c_txMailboxId (sample_contact x y a q)) = mailboxIdSize" "length (c_rxMailboxId (sample_contact x y a q)) = mailboxIdSize"
  using length_derive [OF sample_sodium_ok]
  by (simp_all add: sample_client_def sample_contact_def GetContact_def Let_def)

lemma sample_listens: "GetAliasByRxMailboxId (c_rxMailboxId (sample_contact x y a q)) (sample_client x y a q) = a"
proof -
  have "contacts (sample_client x y a q) = [(a, sample_contact x y a q)]" "traversal (sample_client x y a q) = (\<lambda>as. as)"
    by (simp_all add: sample_client_def)
  then show ?thesis by (simp add: GetAliasByRxMailboxId_def entries_def GetAllAliases_def)
qed

lemma sample_keys:
  "kx_keypair (sample_rng x) i = Some (scalarmult_base sample_sodium sk, sk) \<longleftrightarrow> sk = replicate 32 (16 * x + word_of_nat i)"
  by (auto simp: sample_rng_def sample_sodium_def)

end
