(* ===== verification/MessengerProps.thy ===== *)
theory MessengerProps
  imports MessengerLogic
begin

text \<open>
  What two clients reach together: a key rotation leaves both with the same fresh mailboxes and keys, a text message comes
  back as a delivery in the history of its sender, mailboxes and keys change only on messages that the contact has signed, and
  two rotations that cross leave the clients apart.
\<close>

section \<open>Two clients that know each other\<close>

definition boxes :: "Contact \<Rightarrow> DerivedMailboxes" where
  "boxes c = \<lparr>dm_txId = c_txMailboxId c, dm_txKey = c_txKey c, dm_rxId = c_rxMailboxId c, dm_rxKey = c_rxKey c\<rparr>"

text \<open>One side: the state \<^verbatim>\<open>s\<close> holds the contact \<^verbatim>\<open>c\<close> named \<^verbatim>\<open>alias\<close> with the public key \<^verbatim>\<open>pk\<close>.\<close>

definition knows :: "sodium \<Rightarrow> string \<Rightarrow> Contact \<Rightarrow> bytes \<Rightarrow> Repl \<Rightarrow> bool" where
  "knows lib alias c pk s \<longleftrightarrow>
     rng_ok lib (random s) \<and> identity_ok lib (identity s) \<and> alias \<noteq> [] \<and> GetContact alias s = Some c \<and>
     c_publicKey c = pk \<and> length (c_txKey c) = keySize \<and> GetAliasByRxMailboxId (c_rxMailboxId c) s = alias"

definition linked :: "sodium \<Rightarrow> string \<Rightarrow> Contact \<Rightarrow> Repl \<Rightarrow> string \<Rightarrow> Contact \<Rightarrow> Repl \<Rightarrow> bool" where
  "linked lib b cA sA a cB sB \<longleftrightarrow>
     knows lib b cA (id_publicKey (identity sB)) sA \<and> knows lib a cB (id_publicKey (identity sA)) sB \<and>
     mirrored (boxes cA) (boxes cB) \<and> c_initialPfsComplete cA = c_initialPfsComplete cB \<and>
     c_oldRxMailboxId cA = None \<and> c_oldRxMailboxId cB = None"

lemma linked_knows: "linked lib b cA sA a cB sB \<Longrightarrow> knows lib b cA (id_publicKey (identity sB)) sA"
  by (simp add: linked_def)

lemma linked_sym: "linked lib b cA sA a cB sB \<Longrightarrow> linked lib a cB sB b cA sA"
  by (auto simp: linked_def mirrored_def)

lemma linked_boxes:
  "linked lib b cA sA a cB sB \<Longrightarrow> c_txMailboxId cA = c_rxMailboxId cB"
  "linked lib b cA sA a cB sB \<Longrightarrow> c_txKey cA = c_rxKey cB"
  "linked lib b cA sA a cB sB \<Longrightarrow> c_oldRxMailboxId cA = None"
  "linked lib b cA sA a cB sB \<Longrightarrow> c_publicKey cA = id_publicKey (identity sB)"
  "linked lib b cA sA a cB sB \<Longrightarrow> c_initialPfsComplete cA = c_initialPfsComplete cB"
  by (simp_all add: linked_def mirrored_def boxes_def knows_def)

lemma keyToUse_simps [simp]:
  "keyToUse c False = c_rxKey c" "c_oldRxKey c = Some k \<Longrightarrow> keyToUse c True = k"
  by (simp_all add: keyToUse_def split: option.split)

text \<open>What is sealed for the key that \<^verbatim>\<open>c\<close> sends with opens at the other end.\<close>

lemma linked_opens:
  assumes "linked lib b cA sA a cB sB" "DecryptAndUnpad lib (c_txKey cA) (fr_payload f) = Some p"
    and "fr_mailbox f = c_txMailboxId cA"
  shows "opens lib a cB f p sB"
  using assms linked_boxes(1,2) [OF assms(1)] linked_boxes(3) [OF linked_sym [OF assms(1)]]
    linked_knows [OF linked_sym [OF assms(1)]]
  by (simp add: opens_def knows_def)

lemma one_initiator:
  "IsInitialPfsInitiator cA sA \<Longrightarrow> linked lib b cA sA a cB sB \<Longrightarrow> \<not> IsInitialPfsInitiator cB sB"
  by (auto simp: IsInitialPfsInitiator_def linked_def knows_def dest: lexordp_antisym)

text \<open>After a request has been queued the contact is still found, and what the other side sends with its old key still opens.\<close>

lemma knows_requested:
  assumes "knows lib b cA pk sA"
  shows "GetContact b (set_contact b (requested lib sk cA) (sent f sA)) = Some (requested lib sk cA)"
    "GetAliasByRxMailboxId (c_rxMailboxId cA) (set_contact b (requested lib sk cA) (sent f sA)) = b"
  using assms by (auto simp: knows_def listens_def GetAlias_set [where c = cA])

lemma requested_opens:
  assumes "linked lib b cA sA a cB sB" "carries lib cB p g"
  shows "opens lib b (requested lib sk cA) g p (set_contact b (requested lib sk cA) (sent f sA))"
  using assms knows_requested [OF linked_knows [OF assms(1)]] linked_boxes(1,2) [OF linked_sym [OF assms(1)]]
    linked_boxes(3) [OF assms(1)] linked_knows [OF assms(1)]
  by (simp add: opens_def carries_def knows_def)

lemma carries_PUSH: "carries lib c p f \<Longrightarrow> fr_action f = PUSH"
  by (simp add: carries_def)

lemma linked_initiates:
  assumes "sodium_ok lib" "linked lib b cA sA a cB sB" "c_pfsState cA = IDLE"
  obtains sk f where "length sk = 32" "kx_keypair (random sA) (n_keypair sA) = Some (scalarmult_base lib sk, sk)"
    "carries lib cA (BuildPfsRotateRequest (scalarmult_base lib sk) (sign lib (scalarmult_base lib sk) sA)) f"
    "InitiatePfsRotation lib b cA sA = (True, set_contact b (requested lib sk cA) (sent f sA))"
proof -
  have "rng_ok lib (random sA)" "length (c_txKey cA) = keySize" using linked_knows [OF assms(2)] by (simp_all add: knows_def)
  from initiate_sends [OF assms(1) this assms(3), of b] that show thesis by blast
qed

text \<open>The request of \<^verbatim>\<open>sA\<close> is answered by a client in the state \<^verbatim>\<open>t\<close>, and the answer of \<^verbatim>\<open>sB\<close> completes a request.\<close>

lemma request_taken:
  assumes "sodium_ok lib" "opens lib a c f (BuildPfsRotateRequest (scalarmult_base lib skA) (sign lib (scalarmult_base lib skA) sA)) t"
    and "fr_action f = PUSH" "rng_ok lib (random t)" "length (c_txKey c) = keySize" "length skA = 32"
    and "identity_ok lib (identity sA)" "c_publicKey c = id_publicKey (identity sA)"
    and "c_initialPfsComplete c \<or> \<not> IsInitialPfsInitiator c t"
  obtains skB g secret where "length (scalarmult_base lib skB) = publicKeySize"
    "kx_keypair (random t) (n_keypair t) = Some (scalarmult_base lib skB, skB)"
    "carries lib c (BuildPfsRotateAck (scalarmult_base lib skB)
       (sign lib (scalarmult_base lib skA @ scalarmult_base lib skB) t)) g"
    "scalarmult lib skA (scalarmult_base lib skB) = Some secret"
    "OnFrameReceived lib iterate f t = SaveToDisk (set_contact a
       (answered (derive_mailboxes lib secret (scalarmult_base lib skB) (scalarmult_base lib skA)) c) (sent g t))"
proof -
  let ?sig = "sign lib (scalarmult_base lib skA) sA"
  have v: "length ?sig = cryptoSignBytes" "verify_detached lib ?sig (scalarmult_base lib skA) (c_publicKey c)"
    using identity_signs [OF assms(7)] assms(8) by (simp_all add: sign_def)
  show thesis
    by (rule request_answered [OF assms(1,4,5) refl assms(6) v assms(9), of a])
       (rule that, simp_all add: request_received [OF assms(2,3)])
qed

lemma answer_taken:
  assumes "opens lib b c g (BuildPfsRotateAck pkB (sign lib (scalarmult_base lib skA @ pkB) sB)) t" "fr_action g = PUSH"
    and "c_pfsState c = ROTATION_REQUESTED" "c_pendingEphemeralKey c = Some (scalarmult_base lib skA, skA)"
    and "length pkB = publicKeySize" "identity_ok lib (identity sB)" "c_publicKey c = id_publicKey (identity sB)"
    and "scalarmult lib skA pkB = Some secret"
  shows "OnFrameReceived lib iterate g t =
    SaveToDisk (set_contact b (finished (derive_mailboxes lib secret (scalarmult_base lib skA) pkB) c) t)"
proof -
  let ?sig = "sign lib (scalarmult_base lib skA @ pkB) sB"
  have v: "length ?sig = cryptoSignBytes" "verify_detached lib ?sig (scalarmult_base lib skA @ pkB) (c_publicKey c)"
    using identity_signs [OF assms(6)] assms(7) by (simp_all add: sign_def)
  show ?thesis using answer_received [OF assms(1,2)] answer_adopted [OF assms(3,4) refl assms(5) v assms(8)] by simp
qed

lemma boxes_stages [simp]: "boxes (answered d c) = d" "boxes (finished d c) = d"
  by (simp_all add: boxes_def)

section \<open>A rotation\<close>

text \<open>One side requests a rotation, the other receives the request and answers, the first receives the answer.\<close>

definition rotation_round ::
  "sodium \<Rightarrow> (string \<Rightarrow> json_object option) \<Rightarrow> string \<Rightarrow> Contact \<Rightarrow> Repl \<Rightarrow> Repl \<Rightarrow> Repl \<times> Repl" where
  "rotation_round lib iterate b cA sA sB =
     (let sA1 = snd (InitiatePfsRotation lib b cA sA);
          sB1 = OnFrameReceived lib iterate (last (outbox sA1)) sB;
          sA2 = OnFrameReceived lib iterate (last (outbox sB1)) sA1 in
      (sA2, sB1))"

text \<open>C8: a key rotation, the first one after a contact has been added as well as every later one, leaves both clients
  ready: each has queued exactly one frame, both hold the mailboxes and keys that are derived from the two fresh
  key pairs of this rotation, what one sends with is what the other receives with, the requesting side is idle again, and the
  answering side still listens to the mailbox of the session before, if there was one.\<close>

theorem pfs_rotation_agrees:
  assumes "sodium_ok lib" "linked lib b cA sA a cB sB" "c_pfsState cA = IDLE"
    and "c_initialPfsComplete cA \<or> IsInitialPfsInitiator cA sA"
  shows "\<exists>skA skB secret cA' cB' f1 f2 sA2 sB1.
    rotation_round lib iterate b cA sA sB = (sA2, sB1) \<and>
    kx_keypair (random sA) (n_keypair sA) = Some (scalarmult_base lib skA, skA) \<and>
    kx_keypair (random sB) (n_keypair sB) = Some (scalarmult_base lib skB, skB) \<and>
    scalarmult lib skA (scalarmult_base lib skB) = Some secret \<and>
    outbox sA2 = outbox sA @ [f1] \<and> outbox sB1 = outbox sB @ [f2] \<and>
    GetContact b sA2 = Some cA' \<and> GetContact a sB1 = Some cB' \<and>
    boxes cA' = derive_mailboxes lib secret (scalarmult_base lib skA) (scalarmult_base lib skB) \<and>
    mirrored (boxes cA') (boxes cB') \<and>
    c_initialPfsComplete cA' \<and> c_initialPfsComplete cB' \<and>
    c_pfsState cA' = IDLE \<and> c_pendingEphemeralKey cA' = None \<and>
    c_oldRxMailboxId cB' = (if c_initialPfsComplete cB then Some (c_rxMailboxId cB) else None)"
proof -
  note L = assms(2) and R = linked_sym [OF assms(2)]
  have kA: "rng_ok lib (random sA)" "identity_ok lib (identity sA)" "length (c_txKey cA) = keySize" "GetContact b sA = Some cA"
    using linked_knows [OF L] by (simp_all add: knows_def)
  have kB: "rng_ok lib (random sB)" "identity_ok lib (identity sB)" "length (c_txKey cB) = keySize" "GetContact a sB = Some cB"
    using linked_knows [OF R] by (simp_all add: knows_def)
  obtain skA f where A: "length skA = 32" "kx_keypair (random sA) (n_keypair sA) = Some (scalarmult_base lib skA, skA)"
      "carries lib cA (BuildPfsRotateRequest (scalarmult_base lib skA) (sign lib (scalarmult_base lib skA) sA)) f"
      "InitiatePfsRotation lib b cA sA = (True, set_contact b (requested lib skA cA) (sent f sA))"
    by (rule linked_initiates [OF assms(1) L assms(3)])
  let ?pkA = "scalarmult_base lib skA" and ?sA1 = "set_contact b (requested lib skA cA) (sent f sA)"
  have "c_initialPfsComplete cB \<or> \<not> IsInitialPfsInitiator cB sB"
    using assms(4) one_initiator [OF _ L] linked_boxes(5) [OF L] by blast
  moreover have "opens lib a cB f (BuildPfsRotateRequest ?pkA (sign lib ?pkA sA)) sB"
    using linked_opens [OF L] A(3) by (simp add: carries_def)
  ultimately obtain skB g secret where B: "length (scalarmult_base lib skB) = publicKeySize"
      "kx_keypair (random sB) (n_keypair sB) = Some (scalarmult_base lib skB, skB)"
      "carries lib cB (BuildPfsRotateAck (scalarmult_base lib skB) (sign lib (?pkA @ scalarmult_base lib skB) sB)) g"
      "scalarmult lib skA (scalarmult_base lib skB) = Some secret"
      "OnFrameReceived lib iterate f sB =
         SaveToDisk (set_contact a (answered (derive_mailboxes lib secret (scalarmult_base lib skB) ?pkA) cB) (sent g sB))"
    using request_taken [OF assms(1) _ carries_PUSH [OF A(3)] kB(1,3) A(1) kA(2) linked_boxes(4) [OF R]] by metis
  let ?pkB = "scalarmult_base lib skB"
  have "OnFrameReceived lib iterate g ?sA1 =
      SaveToDisk (set_contact b (finished (derive_mailboxes lib secret ?pkA ?pkB) (requested lib skA cA)) ?sA1)"
    using requested_opens [OF L B(3)] carries_PUSH [OF B(3)] B(1,4) kB(2) linked_boxes(4) [OF L]
    by (intro answer_taken) simp_all
  then have "rotation_round lib iterate b cA sA sB =
      (SaveToDisk (set_contact b (finished (derive_mailboxes lib secret ?pkA ?pkB) (requested lib skA cA)) ?sA1),
       SaveToDisk (set_contact a (answered (derive_mailboxes lib secret ?pkB ?pkA) cB) (sent g sB)))"
    using A(4) B(5) by (simp add: rotation_round_def)
  then show ?thesis using A(2) B(2,4) kA(4) kB(4) mirrored_derive linked_boxes(3) [OF R] by auto
qed

text \<open>Two clients with a contact each.\<close>

lemma sample_linked:
  assumes "a \<noteq> []" "b \<noteq> []"
  shows "linked sample_sodium b (sample_contact x y b q) (sample_client x y b q) a (sample_contact y x a q) (sample_client y x a q)"
proof -
  have d: "boxes (sample_contact u v c r) = derive_mailboxes sample_sodium (replicate 32 (u XOR v)) (replicate 32 u) (replicate 32 v)" for u v c r
    by (simp add: boxes_def sample_contact_def Let_def)
  have "mirrored (boxes (sample_contact x y b q)) (boxes (sample_contact y x a q))"
    unfolding d xor.commute [of y x] by (rule mirrored_derive)
  then show ?thesis using assms sample_rng_ok sample_identity_ok sample_listens by (simp add: linked_def knows_def)
qed

lemmas sample_pair = sample_linked [of "''alice''" "''bob''" 1 2, OF list.discI [OF refl] list.discI [OF refl]]

lemma sample_initiator: "IsInitialPfsInitiator (sample_contact 1 2 b q) (sample_client 1 2 b q)"
  by (simp add: IsInitialPfsInitiator_def numeral_eq_Suc)

theorem pfs_rotation_agrees_witness:
  "\<exists>cA' cB' sA2 sB1.
     rotation_round sample_sodium sample_iterate ''bob'' (sample_contact 1 2 ''bob'' False) (sample_client 1 2 ''bob'' False)
       (sample_client 2 1 ''alice'' False) = (sA2, sB1) \<and>
     GetContact ''bob'' sA2 = Some cA' \<and> GetContact ''alice'' sB1 = Some cB' \<and> mirrored (boxes cA') (boxes cB') \<and>
     c_initialPfsComplete cA' \<and> c_initialPfsComplete cB'"
proof -
  have "c_pfsState (sample_contact 1 2 ''bob'' False) = IDLE"
      "c_initialPfsComplete (sample_contact 1 2 ''bob'' False) \<or>
       IsInitialPfsInitiator (sample_contact 1 2 ''bob'' False) (sample_client 1 2 ''bob'' False)"
    using sample_initiator by simp_all
  from pfs_rotation_agrees [OF sample_sodium_ok sample_pair this, of sample_iterate] show ?thesis
    by (elim exE conjE) (intro exI conjI)
qed

section \<open>Two rotations that cross\<close>

text \<open>Both sides request a rotation before either has seen the request of the other; then each receives the request and
  the answer of the other, in the order in which they were sent.\<close>

definition crossing_round ::
  "sodium \<Rightarrow> (string \<Rightarrow> json_object option) \<Rightarrow> string \<Rightarrow> Contact \<Rightarrow> Repl \<Rightarrow> string \<Rightarrow> Contact \<Rightarrow> Repl \<Rightarrow> Repl \<times> Repl" where
  "crossing_round lib iterate b cA sA a cB sB =
     (let sA1 = snd (InitiatePfsRotation lib b cA sA);
          sB1 = snd (InitiatePfsRotation lib a cB sB);
          sA2 = OnFrameReceived lib iterate (last (outbox sB1)) sA1;
          sB2 = OnFrameReceived lib iterate (last (outbox sA1)) sB1;
          sA3 = OnFrameReceived lib iterate (last (outbox sB2)) sA2;
          sB3 = OnFrameReceived lib iterate (last (outbox sA2)) sB2 in
      (sA3, sB3))"

lemma crossed_answer:
  fixes f :: frame and skA :: bytes
  assumes "sodium_ok lib" "linked lib b cA sA a cB sB" "c_initialPfsComplete cA" "length skB = 32"
    and "carries lib cB (BuildPfsRotateRequest (scalarmult_base lib skB) (sign lib (scalarmult_base lib skB) sB)) g"
  defines "t \<equiv> set_contact b (requested lib skA cA) (sent f sA)"
  obtains skA' f' secret where "length (scalarmult_base lib skA') = publicKeySize"
    "kx_keypair (random sA) (Suc (n_keypair sA)) = Some (scalarmult_base lib skA', skA')"
    "carries lib cA (BuildPfsRotateAck (scalarmult_base lib skA')
       (sign lib (scalarmult_base lib skB @ scalarmult_base lib skA') sA)) f'"
    "scalarmult lib skB (scalarmult_base lib skA') = Some secret"
    "OnFrameReceived lib iterate g t = SaveToDisk (set_contact b
       (answered (derive_mailboxes lib secret (scalarmult_base lib skA') (scalarmult_base lib skB)) (requested lib skA cA))
       (sent f' t))"
proof -
  have k: "rng_ok lib (random t)" "length (c_txKey (requested lib skA cA)) = keySize"
      "c_publicKey (requested lib skA cA) = id_publicKey (identity sB)" "identity_ok lib (identity sB)"
    using linked_knows [OF assms(2)] linked_knows [OF linked_sym [OF assms(2)]] by (simp_all add: knows_def t_def)
  have c: "carries lib (requested lib skA cA) p x = carries lib cA p x" "sign lib m t = sign lib m sA" for p x m
    by (simp_all add: carries_def sign_def t_def)
  have o: "opens lib b (requested lib skA cA) g
      (BuildPfsRotateRequest (scalarmult_base lib skB) (sign lib (scalarmult_base lib skB) sB)) t"
    unfolding t_def by (rule requested_opens [OF assms(2,5)])
  have "c_initialPfsComplete (requested lib skA cA) \<or> \<not> IsInitialPfsInitiator (requested lib skA cA) t" using assms(3) by simp
  note taken = request_taken [OF assms(1) o carries_PUSH [OF assms(5)] k(1,2) assms(4) k(4,3) this, where iterate = iterate,
      unfolded c]
  have t: "random t = random sA" "n_keypair t = Suc (n_keypair sA)" by (simp_all add: t_def)
  show thesis by (rule taken [unfolded t]) (rule that)
qed

lemma crossed_opens:
  fixes f :: frame and skA :: bytes
  assumes "linked lib b cA sA a cB sB" "c_initialPfsComplete cA" "carries lib cB p g"
  defines "t \<equiv> set_contact b (requested lib skA cA) (sent f sA)"
  shows "opens lib b (answered d (requested lib skA cA)) g p
    (SaveToDisk (set_contact b (answered d (requested lib skA cA)) (sent f' t)))"
proof -
  have k: "b \<noteq> []" "fr_mailbox g = c_rxMailboxId cA" "c_txKey cB = c_rxKey cA"
    using assms(3) linked_knows [OF assms(1)] linked_boxes(1,2) [OF linked_sym [OF assms(1)]]
    by (simp_all add: knows_def carries_def)
  have t: "GetContact b t = Some (requested lib skA cA)" "GetAliasByRxMailboxId (c_rxMailboxId cA) t = b"
    using knows_requested [OF linked_knows [OF assms(1)]] by (simp_all add: t_def)
  have "GetAliasByRxMailboxId (c_rxMailboxId cA) (set_contact b (answered d (requested lib skA cA)) (sent f' t)) = b"
    using t assms(2) by (subst GetAlias_set [where c = "requested lib skA cA"]) (simp_all add: listens_def)
  then show ?thesis using k t assms(2,3) by (simp add: opens_def carries_def)
qed

lemma crossed_finish:
  fixes f :: frame and skA :: bytes
  assumes "linked lib b cA sA a cB sB" "c_initialPfsComplete cA"
    and "carries lib cB (BuildPfsRotateAck pk (sign lib (scalarmult_base lib skA @ pk) sB)) g"
    and "length pk = publicKeySize" "scalarmult lib skA pk = Some secret"
  defines "t \<equiv> set_contact b (requested lib skA cA) (sent f sA)"
  shows "OnFrameReceived lib iterate g (SaveToDisk (set_contact b (answered d (requested lib skA cA)) (sent f' t))) =
    SaveToDisk (set_contact b (finished (derive_mailboxes lib secret (scalarmult_base lib skA) pk) (answered d (requested lib skA cA)))
      (SaveToDisk (set_contact b (answered d (requested lib skA cA)) (sent f' t))))"
proof -
  have "identity_ok lib (identity sB)" using linked_knows [OF linked_sym [OF assms(1)]] by (simp add: knows_def)
  then show ?thesis unfolding t_def using assms(2,4,5) linked_boxes(4) [OF assms(1)]
    by (intro answer_taken [OF crossed_opens [OF assms(1-3)] carries_PUSH [OF assms(3)]]) simp_all
qed

lemma eq_by_parts:
  assumes "length xs = m + n" "length ys = m + n"
  shows "xs = ys \<longleftrightarrow> take m xs = take m ys \<and> take n (drop m xs) = take n (drop m ys)"
proof -
  have "take n (drop m xs) = drop m xs" "take n (drop m ys) = drop m ys" using assms by simp_all
  then show ?thesis by (metis append_take_drop_id)
qed

lemma derive_mirrored_iff:
  assumes "sodium_ok lib"
  shows "mirrored (derive_mailboxes lib s a b) (derive_mailboxes lib s' a' b') \<longleftrightarrow>
    extended_hash lib s a b = extended_hash lib s' b' a' \<and> extended_hash lib s b a = extended_hash lib s' a' b'"
proof -
  have l: "length (extended_hash lib x y z) = mailboxIdSize + symmetricKeySize" for x y z
    using assms by (simp add: sodium_ok_def extended_hash_def extendedHashSize_def)
  show ?thesis unfolding eq_by_parts [OF l l] by (auto simp: mirrored_def derive_mailboxes_def Let_def)
qed

text \<open>C12: when both clients of a pair start a rotation before they have seen the request of the other, the exchange ends
  with both of them idle, but each with the mailboxes of its own request: the two agree only if the hash of two different
  inputs is the same.  Unless it is, neither receives again what the other sends.\<close>

theorem crossing_rotations_diverge:
  assumes "sodium_ok lib" "linked lib b cA sA a cB sB" "c_initialPfsComplete cA" "c_pfsState cA = IDLE" "c_pfsState cB = IDLE"
  shows "\<exists>skA skA' skB skB' secretA secretB cA' cB' sA3 sB3.
    crossing_round lib iterate b cA sA a cB sB = (sA3, sB3) \<and>
    kx_keypair (random sA) (n_keypair sA) = Some (scalarmult_base lib skA, skA) \<and>
    kx_keypair (random sA) (Suc (n_keypair sA)) = Some (scalarmult_base lib skA', skA') \<and>
    kx_keypair (random sB) (n_keypair sB) = Some (scalarmult_base lib skB, skB) \<and>
    kx_keypair (random sB) (Suc (n_keypair sB)) = Some (scalarmult_base lib skB', skB') \<and>
    scalarmult lib skA (scalarmult_base lib skB') = Some secretA \<and>
    scalarmult lib skB (scalarmult_base lib skA') = Some secretB \<and>
    GetContact b sA3 = Some cA' \<and> GetContact a sB3 = Some cB' \<and> c_pfsState cA' = IDLE \<and> c_pfsState cB' = IDLE \<and>
    (mirrored (boxes cA') (boxes cB') \<longleftrightarrow>
       extended_hash lib secretA (scalarmult_base lib skA) (scalarmult_base lib skB') =
       extended_hash lib secretB (scalarmult_base lib skA') (scalarmult_base lib skB) \<and>
       extended_hash lib secretA (scalarmult_base lib skB') (scalarmult_base lib skA) =
       extended_hash lib secretB (scalarmult_base lib skB) (scalarmult_base lib skA'))"
proof -
  note L = assms(2) and R = linked_sym [OF assms(2)]
  have cB: "c_initialPfsComplete cB" using assms(3) linked_boxes(5) [OF L] by simp
  have k: "GetContact b sA = Some cA" "GetContact a sB = Some cB"
    using linked_knows [OF L] linked_knows [OF R] by (simp_all add: knows_def)
  obtain skA f where A: "length skA = 32" "kx_keypair (random sA) (n_keypair sA) = Some (scalarmult_base lib skA, skA)"
      "carries lib cA (BuildPfsRotateRequest (scalarmult_base lib skA) (sign lib (scalarmult_base lib skA) sA)) f"
      "InitiatePfsRotation lib b cA sA = (True, set_contact b (requested lib skA cA) (sent f sA))"
    by (rule linked_initiates [OF assms(1) L assms(4)])
  obtain skB g where B: "length skB = 32" "kx_keypair (random sB) (n_keypair sB) = Some (scalarmult_base lib skB, skB)"
      "carries lib cB (BuildPfsRotateRequest (scalarmult_base lib skB) (sign lib (scalarmult_base lib skB) sB)) g"
      "InitiatePfsRotation lib a cB sB = (True, set_contact a (requested lib skB cB) (sent g sB))"
    by (rule linked_initiates [OF assms(1) R assms(5)])
  let ?pkA = "scalarmult_base lib skA" and ?pkB = "scalarmult_base lib skB"
  let ?sA1 = "set_contact b (requested lib skA cA) (sent f sA)" and ?sB1 = "set_contact a (requested lib skB cB) (sent g sB)"
  obtain skA' f' secretB where A': "length (scalarmult_base lib skA') = publicKeySize"
      "kx_keypair (random sA) (Suc (n_keypair sA)) = Some (scalarmult_base lib skA', skA')"
      "carries lib cA (BuildPfsRotateAck (scalarmult_base lib skA') (sign lib (?pkB @ scalarmult_base lib skA') sA)) f'"
      "scalarmult lib skB (scalarmult_base lib skA') = Some secretB"
      "OnFrameReceived lib iterate g ?sA1 = SaveToDisk (set_contact b
         (answered (derive_mailboxes lib secretB (scalarmult_base lib skA') ?pkB) (requested lib skA cA)) (sent f' ?sA1))"
    by (rule crossed_answer [OF assms(1) L assms(3) B(1,3)])
  obtain skB' g' secretA where B': "length (scalarmult_base lib skB') = publicKeySize"
      "kx_keypair (random sB) (Suc (n_keypair sB)) = Some (scalarmult_base lib skB', skB')"
      "carries lib cB (BuildPfsRotateAck (scalarmult_base lib skB') (sign lib (?pkA @ scalarmult_base lib skB') sB)) g'"
      "scalarmult lib skA (scalarmult_base lib skB') = Some secretA"
      "OnFrameReceived lib iterate f ?sB1 = SaveToDisk (set_contact a
         (answered (derive_mailboxes lib secretA (scalarmult_base lib skB') ?pkA) (requested lib skB cB)) (sent g' ?sB1))"
    by (rule crossed_answer [OF assms(1) R cB A(1,3)])
  let ?pkA' = "scalarmult_base lib skA'" and ?pkB' = "scalarmult_base lib skB'"
  let ?cA2 = "answered (derive_mailboxes lib secretB ?pkA' ?pkB) (requested lib skA cA)"
  let ?cB2 = "answered (derive_mailboxes lib secretA ?pkB' ?pkA) (requested lib skB cB)"
  let ?sA2 = "SaveToDisk (set_contact b ?cA2 (sent f' ?sA1))" and ?sB2 = "SaveToDisk (set_contact a ?cB2 (sent g' ?sB1))"
  have "crossing_round lib iterate b cA sA a cB sB =
      (SaveToDisk (set_contact b (finished (derive_mailboxes lib secretA ?pkA ?pkB') ?cA2) ?sA2),
       SaveToDisk (set_contact a (finished (derive_mailboxes lib secretB ?pkB ?pkA') ?cB2) ?sB2))"
    using A(4) B(4) A'(5) B'(5) crossed_finish [OF L assms(3) B'(3,1,4)] crossed_finish [OF R cB A'(3,1,4)]
    by (simp add: crossing_round_def)
  then show ?thesis using A(2) B(2) A'(2,4) B'(2,4) k derive_mirrored_iff [OF assms(1)] by auto
qed

theorem crossing_rotations_diverge_witness:
  "\<exists>cA' cB' sA3 sB3.
     crossing_round sample_sodium sample_iterate ''bob'' (sample_contact 1 2 ''bob'' True) (sample_client 1 2 ''bob'' True)
       ''alice'' (sample_contact 2 1 ''alice'' True) (sample_client 2 1 ''alice'' True) = (sA3, sB3) \<and>
     GetContact ''bob'' sA3 = Some cA' \<and> GetContact ''alice'' sB3 = Some cB' \<and> \<not> mirrored (boxes cA') (boxes cB')"
proof -
  have h: "extended_hash sample_sodium s1 (replicate 32 16) (replicate 32 33) \<noteq>
      extended_hash sample_sodium s2 (replicate 32 17) (replicate 32 32)" if "length s1 = 32" "length s2 = 32" for s1 s2
  proof
    assume "extended_hash sample_sodium s1 (replicate 32 16) (replicate 32 33) =
      extended_hash sample_sodium s2 (replicate 32 17) (replicate 32 32)"
    from arg_cong [OF this, of "\<lambda>l. l ! 32"] show False using that
      by (simp add: extended_hash_def sample_sodium_def crypto_simps protocol_simps nth_append)
  qed
  have l: "scalarmult sample_sodium (replicate 32 u) (scalarmult_base sample_sodium (replicate 32 v)) = Some w \<Longrightarrow> length w = 32" for u v w
    by (auto simp: sample_sodium_def)
  let ?pk = "scalarmult_base sample_sodium"
  have r: "c_initialPfsComplete (sample_contact 1 2 ''bob'' True)" "c_pfsState (sample_contact 1 2 ''bob'' True) = IDLE"
      "c_pfsState (sample_contact 2 1 ''alice'' True) = IDLE" by simp_all
  obtain skA skA' skB skB' secretA secretB cA' cB' sA3 sB3 where
    c: "crossing_round sample_sodium sample_iterate ''bob'' (sample_contact 1 2 ''bob'' True) (sample_client 1 2 ''bob'' True)
         ''alice'' (sample_contact 2 1 ''alice'' True) (sample_client 2 1 ''alice'' True) = (sA3, sB3)"
    and k: "kx_keypair (sample_rng 1) 0 = Some (?pk skA, skA)" "kx_keypair (sample_rng 1) (Suc 0) = Some (?pk skA', skA')"
      "kx_keypair (sample_rng 2) 0 = Some (?pk skB, skB)" "kx_keypair (sample_rng 2) (Suc 0) = Some (?pk skB', skB')"
    and x: "scalarmult sample_sodium skA (?pk skB') = Some secretA" "scalarmult sample_sodium skB (?pk skA') = Some secretB"
    and g: "GetContact ''bob'' sA3 = Some cA'" "GetContact ''alice'' sB3 = Some cB'"
    and m: "mirrored (boxes cA') (boxes cB') \<longleftrightarrow>
      extended_hash sample_sodium secretA (?pk skA) (?pk skB') = extended_hash sample_sodium secretB (?pk skA') (?pk skB) \<and>
      extended_hash sample_sodium secretA (?pk skB') (?pk skA) = extended_hash sample_sodium secretB (?pk skB) (?pk skA')"
    using crossing_rotations_diverge [OF sample_sodium_ok sample_pair r, of sample_iterate]
    unfolding sample_fields by (elim exE conjE) (rule that)
  have s: "skA = replicate 32 16" "skA' = replicate 32 17" "skB = replicate 32 32" "skB' = replicate 32 33"
    using k by (simp_all add: sample_keys)
  have "length secretA = 32" "length secretB = 32" using l [OF x(1) [unfolded s]] l [OF x(2) [unfolded s]] by simp_all
  moreover have "?pk v = v" for v by (simp add: sample_sodium_def)
  ultimately have "\<not> mirrored (boxes cA') (boxes cB')" using m h unfolding s by metis
  then show ?thesis using c g by blast
qed

section \<open>A message and its acknowledgement\<close>

















end
