(* ===== verification/Contacts.thy ===== *)
theory Contacts
  imports Bip39 MessengerProps
begin

text \<open>
  How two users get to know each other: each shows the mnemonic of the own key, \<^verbatim>\<open>Repl::HandleMyKey\<close>, and adds the one of
  the other, \<^verbatim>\<open>Repl::HandleAddContact\<close>.  Afterwards both have mailboxes and keys that fit together, which is where key
  rotations and messages start from.
\<close>

definition HandleMyKey :: "(bytes \<Rightarrow> bytes) \<Rightarrow> Repl \<Rightarrow> string" where
  "HandleMyKey sha256 s = Encode sha256 (id_publicKey (identity s))"

definition add_mnemonic :: "sodium \<Rightarrow> (bytes \<Rightarrow> bytes) \<Rightarrow> string \<Rightarrow> string \<Rightarrow> Repl \<Rightarrow> Repl" where
  "add_mnemonic lib sha256 alias mnemonicStr s = HandleAddContact lib alias (Decode sha256 mnemonicStr) s"

text \<open>A client that has been set up, with any contacts and connected or not.  A hash table is traversed in some order of
  its keys.\<close>

definition set_up :: "sodium \<Rightarrow> Repl \<Rightarrow> bool" where
  "set_up lib s \<longleftrightarrow>
     rng_ok lib (random s) \<and> identity_ok lib (identity s) \<and> length (id_publicKey (identity s)) = publicKeySize \<and>
     (\<forall>as. set (traversal s as) = set as)"

text \<open>No contact other than \<^verbatim>\<open>a\<close> listens on the mailbox that is derived for the public key \<^verbatim>\<open>pk\<close>.\<close>

definition mailbox_free :: "sodium \<Rightarrow> string \<Rightarrow> bytes \<Rightarrow> Repl \<Rightarrow> bool" where
  "mailbox_free lib a pk s \<longleftrightarrow>
     (\<forall>d x c. DerivePairwiseMailboxes lib (identity s) pk = Some d \<and> x \<noteq> a \<and> GetContact x s = Some c \<longrightarrow>
        c_rxMailboxId c \<noteq> dm_rxId d \<and> c_oldRxMailboxId c \<noteq> Some (dm_rxId d))"

lemma find_rx_unique:
  "a \<in> set as \<Longrightarrow> listens x (f a) \<Longrightarrow> (\<And>b. b \<in> set as \<Longrightarrow> b \<noteq> a \<Longrightarrow> \<not> listens x (f b)) \<Longrightarrow>
   find_rx x (map (\<lambda>a. (a, f a)) as) = a"
  by (induction as) (auto simp: listens_def)

lemma GetContact_insert: "GetContact x (insert_or_assign a c s) = (if x = a then Some c else GetContact x s)"
  by (auto simp: insert_or_assign_def) (simp_all add: GetContact_def map_add_def split: option.splits)

lemma GetContact_aliases [simp]: "GetContact x (s\<lparr>contactAliases := as\<rparr>) = GetContact x s"
  by (simp add: GetContact_def)

lemma insert_or_assign_fields [simp]:
  "random (insert_or_assign a c s) = random s" "identity (insert_or_assign a c s) = identity s"
  "connected (insert_or_assign a c s) = connected s" "traversal (insert_or_assign a c s) = traversal s"
  "contactAliases (insert_or_assign a c s) = contactAliases s"
  by (simp_all add: insert_or_assign_def)

lemma GetAlias_unique:
  assumes "\<forall>as. set (traversal s as) = set as" "GetContact a s = Some c" "listens m c"
    and "\<And>x y. x \<noteq> a \<Longrightarrow> GetContact x s = Some y \<Longrightarrow> \<not> listens m y"
  shows "GetAliasByRxMailboxId m s = a"
  unfolding GetAliasByRxMailboxId_def entries_def
proof (rule find_rx_unique)
  have set: "set (GetAllAliases s) = {x. GetContact x s \<noteq> None}"
    using assms(1) by (simp add: GetAllAliases_def GetContact_def map_of_eq_None_iff)
  show "a \<in> set (GetAllAliases s)" using assms(2) set by simp
  show "listens m (the (GetContact a s))" using assms(2,3) by simp
  show "\<not> listens m (the (GetContact x s))" if "x \<in> set (GetAllAliases s)" "x \<noteq> a" for x
    using that assms(4) set by auto
qed

text \<open>Adding a contact: the new entry has the derived mailboxes, the others stay, and a connected client
  that is to start the session has asked for the first rotation.\<close>

lemma add_contact_known:
  assumes "sodium_ok lib" "set_up lib s" "mailbox_free lib a pk s" "DerivePairwiseMailboxes lib (identity s) pk = Some d"
    and "a \<noteq> []" "length (dm_txKey d) = keySize"
  obtains c where "knows lib a c pk (HandleAddContact lib a (Some pk) s)" "boxes c = d" "c_oldRxMailboxId c = None"
    "\<not> c_initialPfsComplete c"
    "c_pfsState c = (if connected s \<and> IsInitialPfsInitiator c s then ROTATION_REQUESTED else IDLE)"
    "identity (HandleAddContact lib a (Some pk) s) = identity s"
    "\<forall>x. x \<noteq> a \<longrightarrow> GetContact x (HandleAddContact lib a (Some pk) s) = GetContact x s"
proof -
  let ?c = "\<lparr>c_alias = a, c_publicKey = pk, c_note = None, c_rxMailboxId = dm_rxId d,
      c_txMailboxId = dm_txId d, c_rxKey = dm_rxKey d, c_txKey = dm_txKey d, c_initialPfsComplete = False,
      c_messageCounter = 0, c_pfsState = IDLE, c_pendingEphemeralKey = None, c_oldRxMailboxId = None,
      c_oldRxKey = None\<rparr>"
  define t where "t = SaveToDisk (insert_or_assign a ?c s)"
  define u where "u = (if a \<in> set (contactAliases t) then t else t\<lparr>contactAliases := contactAliases t @ [a]\<rparr>)"
  have add: "AddContact lib a pk None s = (True, t)" using assms(4) by (simp add: AddContact_def t_def)
  have u: "GetContact x u = (if x = a then Some ?c else GetContact x s)" "random u = random s" "identity u = identity s"
      "connected u = connected s" "traversal u = traversal s" for x
    unfolding u_def t_def by (simp_all add: GetContact_insert)
  have ok: "rng_ok lib (random s)" "identity_ok lib (identity s)" "\<forall>as. set (traversal s as) = set as"
    using assms(2) by (simp_all add: set_up_def)
  have "GetAliasByRxMailboxId (dm_rxId d) u = a"
    by (rule GetAlias_unique [where c = ?c])
      (use ok(3) u assms(3,4) in \<open>auto simp: listens_def mailbox_free_def split: if_splits\<close>)
  then have k: "knows lib a ?c pk u" using ok u assms(5,6) by (simp add: knows_def)
  have h: "HandleAddContact lib a (Some pk) s = MaybeStartInitialPfs lib a ?c u"
    unfolding HandleAddContact_def using u(1) [of a] by (simp add: add Let_def u_def [symmetric])
  have ini: "IsInitialPfsInitiator c' u = IsInitialPfsInitiator c' s" for c' using u(3) by (simp add: IsInitialPfsInitiator_def)
  show thesis
  proof (cases "connected s \<and> IsInitialPfsInitiator ?c s")
    case False
    then have "HandleAddContact lib a (Some pk) s = u" using u(4) ini by (auto simp: h MaybeStartInitialPfs_def)
    then show thesis using that [of ?c] k u False by (auto simp: boxes_def)
  next
    case True
    have r: "rng_ok lib (random u)" using ok u by simp
    obtain sk f where i: "InitiatePfsRotation lib a ?c u = (True, set_contact a (requested lib sk ?c) (sent f u))"
      by (rule initiate_sends [OF assms(1) r, of ?c a]) (use assms(6) in simp_all)
    let ?r = "requested lib sk ?c" let ?v = "set_contact a ?r (sent f u)"
    have v: "HandleAddContact lib a (Some pk) s = ?v"
      using True u(4) ini i by (simp add: h MaybeStartInitialPfs_def)
    have "knows lib a ?r pk ?v" using k knows_requested [OF k, of sk f] by (simp add: knows_def)
    moreover have "IsInitialPfsInitiator ?r s" using True by (simp add: IsInitialPfsInitiator_def)
    ultimately show thesis using that [of ?r] u True unfolding v by (simp add: boxes_def)
  qed
qed

text \<open>C7: two users who show each other the mnemonics of their keys and add them, under any non-empty names and whatever contacts
  they have already, get mailboxes and keys that fit together: what the one sends to, the other one listens on, with
  the same key, and each knows the other by the right public key.  This needs that none of their other contacts listens
  on the mailbox derived for the pair (the ids are hashes).  The other contacts stay as they are.  No session is set up yet; the
  user who is to start it has asked for the first rotation if connected already, and never have both.\<close>

theorem contacts_exchanged:
  assumes "sodium_ok lib" "set_up lib sA" "set_up lib sB" "a \<noteq> []" "b \<noteq> []"
    and "mailbox_free lib b (id_publicKey (identity sB)) sA" "mailbox_free lib a (id_publicKey (identity sA)) sB"
  shows "\<exists>cA cB sA' sB'. add_mnemonic lib sha256 b (HandleMyKey sha256 sB) sA = sA' \<and>
    add_mnemonic lib sha256 a (HandleMyKey sha256 sA) sB = sB' \<and> linked lib b cA sA' a cB sB' \<and>
    (\<forall>x. x \<noteq> b \<longrightarrow> GetContact x sA' = GetContact x sA) \<and> (\<forall>x. x \<noteq> a \<longrightarrow> GetContact x sB' = GetContact x sB) \<and>
    \<not> c_initialPfsComplete cA \<and>
    c_pfsState cA = (if connected sA \<and> IsInitialPfsInitiator cA sA then ROTATION_REQUESTED else IDLE) \<and>
    c_pfsState cB = (if connected sB \<and> IsInitialPfsInitiator cB sB then ROTATION_REQUESTED else IDLE) \<and>
    \<not> (c_pfsState cA = ROTATION_REQUESTED \<and> c_pfsState cB = ROTATION_REQUESTED)"
proof -
  let ?pA = "id_publicKey (identity sA)" and ?pB = "id_publicKey (identity sB)"
  have i: "identity_ok lib (identity sA)" "identity_ok lib (identity sB)"
    and pk: "length ?pA = publicKeySize" "length ?pB = publicKeySize"
    using assms(2,3) by (simp_all add: set_up_def)
  obtain dA dB where d: "DerivePairwiseMailboxes lib (identity sA) ?pB = Some dA"
      "DerivePairwiseMailboxes lib (identity sB) ?pA = Some dB" "mirrored dA dB"
      "length (dm_txKey dA) = keySize" "length (dm_rxKey dA) = keySize"
    by (rule pairwise_mirrored [OF assms(1) i])
  have tx: "length (dm_txKey dB) = keySize" using d(3,5) by (simp add: mirrored_def)
  let ?sA = "HandleAddContact lib b (Some ?pB) sA" and ?sB = "HandleAddContact lib a (Some ?pA) sB"
  obtain cA where cA: "knows lib b cA ?pB ?sA" "boxes cA = dA" "c_oldRxMailboxId cA = None" "\<not> c_initialPfsComplete cA"
      "c_pfsState cA = (if connected sA \<and> IsInitialPfsInitiator cA sA then ROTATION_REQUESTED else IDLE)"
      "identity ?sA = identity sA" "\<forall>x. x \<noteq> b \<longrightarrow> GetContact x ?sA = GetContact x sA"
    by (rule add_contact_known [OF assms(1,2,6) d(1) assms(5) d(4)])
  obtain cB where cB: "knows lib a cB ?pA ?sB" "boxes cB = dB" "c_oldRxMailboxId cB = None" "\<not> c_initialPfsComplete cB"
      "c_pfsState cB = (if connected sB \<and> IsInitialPfsInitiator cB sB then ROTATION_REQUESTED else IDLE)"
      "identity ?sB = identity sB" "\<forall>x. x \<noteq> a \<longrightarrow> GetContact x ?sB = GetContact x sB"
    by (rule add_contact_known [OF assms(1,3,7) d(2) assms(4) tx])
  have "Decode sha256 (Encode sha256 k) = Some k" if "length k = publicKeySize" for k using mnemonic_decodes that by blast
  then have m: "add_mnemonic lib sha256 b (HandleMyKey sha256 sB) sA = ?sA"
      "add_mnemonic lib sha256 a (HandleMyKey sha256 sA) sB = ?sB"
    using pk by (simp_all add: add_mnemonic_def HandleMyKey_def)
  have l: "linked lib b cA ?sA a cB ?sB" using cA cB d(3) unfolding linked_def by simp
  have "\<not> (IsInitialPfsInitiator cA sA \<and> IsInitialPfsInitiator cB sB)"
    using one_initiator [OF _ l] cA(6) cB(6) by (auto simp: IsInitialPfsInitiator_def)
  then show ?thesis unfolding m using l cA(4,5,7) cB(5,7)
    by (intro exI [of _ cA] exI [of _ cB]) auto
qed

text \<open>Two connected clients who have a contact in common.\<close>

lemma sample_set_up: "set_up sample_sodium (sample_client x y a q)"
proof -
  have "traversal (sample_client x y a q) = (\<lambda>as. as)" by (simp add: sample_client_def)
  then show ?thesis using sample_rng_ok sample_identity_ok by (simp add: set_up_def crypto_simps)
qed

lemma sample_mailboxes:
  "\<forall>(x, y) \<in> {(1, 2), (2, 1)}.
     map_option dm_rxId (DerivePairwiseMailboxes sample_sodium
       \<lparr>id_publicKey = replicate 32 x, id_secretKey = replicate 32 x\<rparr> (replicate 32 y)) \<noteq>
     Some (c_rxMailboxId (sample_contact x 3 ''carol'' True))"
  by code_simp

lemma sample_mailbox_free:
  "mailbox_free sample_sodium ''bob'' (replicate 32 2) (sample_client 1 3 ''carol'' True)"
  "mailbox_free sample_sodium ''alice'' (replicate 32 1) (sample_client 2 3 ''carol'' True)"
proof -
  have c: "GetContact n (sample_client x 3 ''carol'' True) = Some c \<longleftrightarrow>
      n = ''carol'' \<and> c = sample_contact x 3 ''carol'' True" for n c x
    by (auto simp: GetContact_def sample_client_def)
  show "mailbox_free sample_sodium ''bob'' (replicate 32 2) (sample_client 1 3 ''carol'' True)"
      "mailbox_free sample_sodium ''alice'' (replicate 32 1) (sample_client 2 3 ''carol'' True)"
    using sample_mailboxes by (auto simp: mailbox_free_def c)
qed

theorem contacts_exchanged_witness:
  "\<exists>cA cB sA sB sA' sB'. sA = sample_client 1 3 ''carol'' True \<and> sB = sample_client 2 3 ''carol'' True \<and>
     add_mnemonic sample_sodium (\<lambda>x. replicate 32 (hd x)) ''bob'' (HandleMyKey (\<lambda>x. replicate 32 (hd x)) sB) sA = sA' \<and>
     add_mnemonic sample_sodium (\<lambda>x. replicate 32 (hd x)) ''alice'' (HandleMyKey (\<lambda>x. replicate 32 (hd x)) sA) sB = sB' \<and>
     linked sample_sodium ''bob'' cA sA' ''alice'' cB sB' \<and> GetContact ''carol'' sA' = GetContact ''carol'' sA \<and>
     \<not> c_initialPfsComplete cA"
proof -
  let ?h = "\<lambda>x. replicate 32 (hd x)" and ?sA = "sample_client 1 3 ''carol'' True" and ?sB = "sample_client 2 3 ''carol'' True"
  have free: "mailbox_free sample_sodium ''bob'' (id_publicKey (identity ?sB)) ?sA"
      "mailbox_free sample_sodium ''alice'' (id_publicKey (identity ?sA)) ?sB"
    using sample_mailbox_free by simp_all
  have n: "''alice'' \<noteq> []" "''bob'' \<noteq> []" "''carol'' \<noteq> ''bob''" by simp_all
  obtain cA cB sA' sB' where r: "add_mnemonic sample_sodium ?h ''bob'' (HandleMyKey ?h ?sB) ?sA = sA'"
      "add_mnemonic sample_sodium ?h ''alice'' (HandleMyKey ?h ?sA) ?sB = sB'" "linked sample_sodium ''bob'' cA sA' ''alice'' cB sB'"
      "\<forall>x. x \<noteq> ''bob'' \<longrightarrow> GetContact x sA' = GetContact x ?sA" "\<not> c_initialPfsComplete cA"
    using contacts_exchanged [OF sample_sodium_ok sample_set_up sample_set_up n(1,2) free, of ?h] by (elim exE conjE) (rule that)
  have c: "GetContact ''carol'' sA' = GetContact ''carol'' ?sA" by (rule r(4) [rule_format, OF n(3)])
  show ?thesis by (intro exI conjI, rule refl, rule refl, rule r(1), rule r(2), rule r(3), rule c, rule r(5))
qed

end
