(* ===== verification/ClientNet.thy ===== *)
theory ClientNet
  imports RelayProps
begin

text \<open>
  The connection of the client (\<^verbatim>\<open>libs/network/src/tcp_client.cpp\<close>): the negotiation with the local Tor proxy, the proof of
  work, and the handlers of the asynchronous engine.  As for a session of the relay, a completion handler is a
  function applied when its operation completes; the frame provider and the frame receiver that the engine is started
  with are functions on the state \<^verbatim>\<open>a\<close> of the application.
\<close>

section \<open>The Tor handshake\<close>

named_theorems socks_simps \<open>unfolding rules for the constants of the network library\<close>

definition socks5Version :: byte where [socks_simps]: "socks5Version = 5"
definition socks5AuthMethodsCount :: byte where [socks_simps]: "socks5AuthMethodsCount = 1"
definition socks5AuthNone :: byte where [socks_simps]: "socks5AuthNone = 0"
definition maxDomainLength :: nat where [socks_simps]: "maxDomainLength = 255"
definition reqBufferMaxSize :: nat where [socks_simps]: "reqBufferMaxSize = 262"
definition socks5CmdConnect :: byte where [socks_simps]: "socks5CmdConnect = 1"
definition socks5Reserved :: byte where [socks_simps]: "socks5Reserved = 0"
definition socks5AtypDomain :: byte where [socks_simps]: "socks5AtypDomain = 3"
definition domainOffset :: nat where [socks_simps]: "domainOffset = 5"
definition portByteSize :: nat where [socks_simps]: "portByteSize = 2"
definition respHeaderSize :: nat where [socks_simps]: "respHeaderSize = 4"
definition socks5RepSuccess :: byte where [socks_simps]: "socks5RepSuccess = 0"
definition socks5AtypIpv4 :: byte where [socks_simps]: "socks5AtypIpv4 = 1"
definition socks5AtypIpv6 :: byte where [socks_simps]: "socks5AtypIpv6 = 4"
definition ipv4AddrPortSize :: nat where [socks_simps]: "ipv4AddrPortSize = 6"
definition ipv6AddrPortSize :: nat where [socks_simps]: "ipv6AddrPortSize = 18"
definition dropBufferSize :: nat where [socks_simps]: "dropBufferSize = 256"

text \<open>The socket during the handshake: what will arrive before the peer closes, what has been written, and the number of
  writes the system still accepts.\<close>

record proxy_socket =
  arriving :: bytes
  written_out :: bytes
  writes_left :: nat

definition sock_write :: "bytes \<Rightarrow> proxy_socket \<Rightarrow> bool \<times> proxy_socket" where
  "sock_write d k =
     (if writes_left k = 0 then (False, k)
      else (True, k\<lparr>written_out := written_out k @ d, writes_left := writes_left k - 1\<rparr>))"

text \<open>\<^verbatim>\<open>boost::asio::read\<close> fills the buffer or fails.\<close>

definition sock_read :: "nat \<Rightarrow> proxy_socket \<Rightarrow> bytes option \<times> proxy_socket" where
  "sock_read n k =
     (if n \<le> length (arriving k) then (Some (take n (arriving k)), k\<lparr>arriving := drop n (arriving k)\<rparr>)
      else (None, k\<lparr>arriving := []\<rparr>))"

text \<open>\<^verbatim>\<open>connectReq\<close>: the buffer is zero-initialized, its first bytes are written.\<close>

definition connect_req :: "bytes \<Rightarrow> 16 word \<Rightarrow> bytes" where
  "connect_req onionAddress destPort =
     [socks5Version, socks5CmdConnect, socks5Reserved, socks5AtypDomain, word_of_nat (length onionAddress)] @
     onionAddress @ [ucast (drop_bit 8 destPort AND 0xFF), ucast (destPort AND 0xFF)]"

definition remaining_bytes :: "byte \<Rightarrow> proxy_socket \<Rightarrow> nat option \<times> proxy_socket" where
  "remaining_bytes atyp k =
     (if atyp = socks5AtypIpv4 then (Some ipv4AddrPortSize, k)
      else if atyp = socks5AtypDomain then
        (case sock_read 1 k of
           (None, k') \<Rightarrow> (None, k')
         | (Some domainLen, k') \<Rightarrow> (Some (unat (domainLen ! 0) + portByteSize), k'))
      else if atyp = socks5AtypIpv6 then (Some ipv6AddrPortSize, k)
      else (None, k))"

text \<open>The result \<^verbatim>\<open>None\<close> is a write behind the end of \<^verbatim>\<open>dropBuffer\<close>.\<close>

definition drop_reply :: "nat \<Rightarrow> proxy_socket \<Rightarrow> (bool \<times> proxy_socket) option" where
  "drop_reply remainingBytes k =
     (if dropBufferSize < min remainingBytes (length (arriving k)) then None
      else case sock_read remainingBytes k of (r, k') \<Rightarrow> Some (r \<noteq> None, k'))"

definition PerformTorHandshake :: "bytes \<Rightarrow> 16 word \<Rightarrow> proxy_socket \<Rightarrow> (bool \<times> proxy_socket) option" where
  "PerformTorHandshake onionAddress destPort k0 =
     (case sock_write [socks5Version, socks5AuthMethodsCount, socks5AuthNone] k0 of
        (False, k1) \<Rightarrow> Some (False, k1)
      | (True, k1) \<Rightarrow>
     (case sock_read 2 k1 of
        (None, k2) \<Rightarrow> Some (False, k2)
      | (Some greetingResponse, k2) \<Rightarrow>
          if greetingResponse ! 0 \<noteq> socks5Version \<or> greetingResponse ! 1 \<noteq> socks5AuthNone then Some (False, k2)
          else if maxDomainLength < length onionAddress then Some (False, k2)
          else
     (case sock_write (connect_req onionAddress destPort) k2 of
        (False, k3) \<Rightarrow> Some (False, k3)
      | (True, k3) \<Rightarrow>
     (case sock_read respHeaderSize k3 of
        (None, k4) \<Rightarrow> Some (False, k4)
      | (Some connectRespHeader, k4) \<Rightarrow>
          if connectRespHeader ! 0 \<noteq> socks5Version then Some (False, k4)
          else if connectRespHeader ! 1 \<noteq> socks5RepSuccess then Some (False, k4)
          else
     (case remaining_bytes (connectRespHeader ! 3) k4 of
        (None, k5) \<Rightarrow> Some (False, k5)
      | (Some n, k5) \<Rightarrow> drop_reply n k5)))))"

text \<open>\<^verbatim>\<open>Connect\<close>: resolving the proxy throws on failure, which nothing above catches.\<close>

datatype dial = Unresolved | Refused | Dialled proxy_socket
datatype connect_result = Throws | Returns bool | Overruns

definition Connect :: "bytes \<Rightarrow> 16 word \<Rightarrow> dial \<Rightarrow> connect_result" where
  "Connect onionAddress destPort d =
     (case d of
        Unresolved \<Rightarrow> Throws
      | Refused \<Rightarrow> Returns False
      | Dialled k \<Rightarrow>
          (case PerformTorHandshake onionAddress destPort k of None \<Rightarrow> Overruns | Some (ok, _) \<Rightarrow> Returns ok))"

section \<open>The proof of work\<close>

text \<open>The counter is a 64-bit integer that is copied in the byte order of the machine, little-endian.\<close>

definition nonce_bytes :: "64 word \<Rightarrow> bytes" where
  "nonce_bytes nonce = pack_le 8 (unat nonce)"

definition solves :: "(bytes \<Rightarrow> bytes) \<Rightarrow> bytes \<Rightarrow> 64 word \<Rightarrow> bool" where
  "solves H c nonce \<longleftrightarrow> prefix ''000'' (HashPayload H (c @ nonce_bytes nonce))"

partial_function (option) solve_nonce :: "(bytes \<Rightarrow> bytes) \<Rightarrow> bytes \<Rightarrow> 64 word \<Rightarrow> 64 word option" where
  "solve_nonce H c nonce = (if solves H c (nonce + 1) then Some (nonce + 1) else solve_nonce H c (nonce + 1))"

declare solve_nonce.simps [code]

section \<open>The engine\<close>

record TcpClient =
  cl_open :: bool
  cl_async_writes :: "bytes list"
  cl_reading :: bool
  cl_parser :: FrameParser
  cl_writeQueue :: "bytes list"
  cl_writeInProgress :: bool
  isAuthenticated :: bool
  timer_set :: bool

definition Disconnect :: "TcpClient \<Rightarrow> TcpClient" where
  "Disconnect k = k\<lparr>timer_set := False, cl_open := False\<rparr>"

definition cl_DoWrite :: "TcpClient \<Rightarrow> TcpClient" where
  "cl_DoWrite k =
     (if cl_writeInProgress k \<or> cl_writeQueue k = [] then k
      else k\<lparr>cl_writeInProgress := True, cl_async_writes := cl_async_writes k @ [hd (cl_writeQueue k)]\<rparr>)"

definition cl_write_completed :: "bool \<Rightarrow> TcpClient \<Rightarrow> TcpClient" where
  "cl_write_completed ec k =
     (let t = k\<lparr>cl_writeInProgress := False, cl_writeQueue := tl (cl_writeQueue k)\<rparr> in
      if ec then t else cl_DoWrite t)"

text \<open>\<^verbatim>\<open>None\<close> when the search does not end.\<close>

definition HandleAuthChallenge :: "(bytes \<Rightarrow> bytes) \<Rightarrow> bytes \<Rightarrow> TcpClient \<Rightarrow> TcpClient option" where
  "HandleAuthChallenge H challenge k =
     (if length challenge < challengSize then Some (Disconnect k)
      else
        (case solve_nonce H (take challengSize challenge) 0 of
           None \<Rightarrow> None
         | Some nonce \<Rightarrow>
             let respFrame = CreateAuthResponse (replicate mailboxIdSize 0) (nonce_bytes nonce);
                 t = k\<lparr>cl_writeQueue := cl_writeQueue k @ [Serialize respFrame]\<rparr> in
             Some (if cl_writeInProgress t then t else cl_DoWrite t)))"

definition cl_DoRead :: "TcpClient \<Rightarrow> TcpClient" where
  "cl_DoRead k = k\<lparr>cl_reading := True\<rparr>"

definition DoCbrTick :: "('a \<Rightarrow> frame \<times> 'a) \<Rightarrow> TcpClient \<Rightarrow> 'a \<Rightarrow> TcpClient \<times> 'a" where
  "DoCbrTick frameProvider k a =
     (let t = k\<lparr>timer_set := True\<rparr> in
      if \<not> isAuthenticated t then (t, a)
      else
        (case frameProvider a of
           (f, a') \<Rightarrow> (cl_DoWrite (t\<lparr>cl_writeQueue := cl_writeQueue t @ [Serialize f]\<rparr>), a')))"

definition StartAsyncEngine :: "TcpClient \<Rightarrow> TcpClient" where
  "StartAsyncEngine k = (cl_DoRead k)\<lparr>timer_set := True\<rparr>"

lemma HandleAuthChallenge_parser: "HandleAuthChallenge H c k = Some k' \<Longrightarrow> cl_parser k' = cl_parser k"
  by (auto simp: HandleAuthChallenge_def Disconnect_def cl_DoWrite_def Let_def split: if_splits option.splits)

function take_frames ::
  "(bytes \<Rightarrow> bytes) \<Rightarrow> (frame \<Rightarrow> 'a \<Rightarrow> 'a) \<Rightarrow> TcpClient \<Rightarrow> 'a \<Rightarrow> (TcpClient \<times> 'a) option" where
  "take_frames H frameReceiver k a =
     (case TryExtractFrame (cl_parser k) of
        (None, p) \<Rightarrow> Some (k\<lparr>cl_parser := p\<rparr>, a)
      | (Some f, p) \<Rightarrow>
          let t = k\<lparr>cl_parser := p\<rparr> in
          if fr_action f = AUTH_CHALLENGE then
            (case HandleAuthChallenge H (fr_payload f) t of
               None \<Rightarrow> None
             | Some u \<Rightarrow> take_frames H frameReceiver (u\<lparr>isAuthenticated := True\<rparr>) a)
          else if isAuthenticated t then take_frames H frameReceiver t (frameReceiver f a)
          else take_frames H frameReceiver t a)"
  by auto
termination
  by (relation "measure (\<lambda>(H, r, k, a). if currentState (cl_parser k) = FRAME_READY then 1 else 0)")
    (auto dest!: TryExtractFrame_Some [OF sym] HandleAuthChallenge_parser)

declare take_frames.simps [simp del]

function cl_read_loop ::
  "(bytes \<Rightarrow> bytes) \<Rightarrow> (frame \<Rightarrow> 'a \<Rightarrow> 'a) \<Rightarrow> TcpClient \<Rightarrow> 'a \<Rightarrow> bytes \<Rightarrow> (bool \<times> TcpClient \<times> 'a) option" where
  "cl_read_loop H frameReceiver k a dataSpan =
     (if dataSpan = [] then Some (True, k, a)
      else
        (case FeedBytes (cl_parser k) dataSpan of
           None \<Rightarrow> None
         | Some (consumed, p) \<Rightarrow>
             let t = k\<lparr>cl_parser := p\<rparr>; rest = drop consumed dataSpan in
             if HasError (cl_parser t) then Some (False, Disconnect t, a)
             else
               (case take_frames H frameReceiver t a of
                  None \<Rightarrow> None
                | Some (u, a') \<Rightarrow>
                    if consumed = 0 then Some (False, Disconnect u, a')
                    else cl_read_loop H frameReceiver u a' rest)))"
  by auto
termination
  by (relation "measure (\<lambda>(H, r, k, a, d). length d)") auto

declare cl_read_loop.simps [simp del]

datatype read_result = Bytes bytes | Aborted | ReadError

definition cl_read_completed ::
  "(bytes \<Rightarrow> bytes) \<Rightarrow> (frame \<Rightarrow> 'a \<Rightarrow> 'a) \<Rightarrow> read_result \<Rightarrow> TcpClient \<Rightarrow> 'a \<Rightarrow> (TcpClient \<times> 'a) option" where
  "cl_read_completed H frameReceiver result k a =
     (let t = k\<lparr>cl_reading := False\<rparr> in
      case result of
        Aborted \<Rightarrow> Some (t, a)
      | ReadError \<Rightarrow> Some (Disconnect t, a)
      | Bytes d \<Rightarrow>
          map_option (\<lambda>(go_on, u, a'). (if go_on then cl_DoRead u else u, a')) (cl_read_loop H frameReceiver t a d))"

section \<open>The search ends\<close>

lemma solve_nonce_found:
  assumes "solves H c h"
  shows "\<exists>n. solve_nonce H c k = Some n \<and> solves H c n"
proof (induction "unat (h - (k + 1))" arbitrary: k rule: less_induct)
  case less
  show ?case
  proof (cases "solves H c (k + 1)")
    case True
    then show ?thesis by (simp add: solve_nonce.simps [of H c k])
  next
    case False
    then have "h - (k + 1) \<noteq> 0" using assms by (auto simp: eq_diff_eq)
    then have "unat (h - (k + 1) - 1) < unat (h - (k + 1))" by (rule measure_unat)
    moreover have "h - (k + 1) - 1 = h - (k + 1 + 1)" by simp
    ultimately show ?thesis using less [of "k + 1"] False by (simp add: solve_nonce.simps [of H c k])
  qed
qed

lemma solve_nonce_least:
  assumes "solve_nonce H c k = Some n"
  shows "solves H c n \<and> (\<forall>m. k < m \<and> m < n \<longrightarrow> \<not> solves H c m)"
proof (rule solve_nonce.raw_induct [where P = "\<lambda>H c k n. solves H c n \<and> (\<forall>m. k < m \<and> m < n \<longrightarrow> \<not> solves H c m)", OF _ assms])
  fix g H c k n
  assume IH: "\<And>H c k n. g H c k = Some n \<Longrightarrow> solves H c n \<and> (\<forall>m. k < m \<and> m < n \<longrightarrow> \<not> solves H c m)"
    and step: "(if solves H c (k + 1) then Some (k + 1) else g H c (k + 1)) = Some n"
  show "solves H c n \<and> (\<forall>m. k < m \<and> m < n \<longrightarrow> \<not> solves H c m)"
  proof (cases "solves H c (k + 1)")
    case True
    then have "n = k + 1" using step by simp
    then show ?thesis using True by (auto dest: inc_le)
  next
    case False
    then have n: "solves H c n" "\<forall>m. k + 1 < m \<and> m < n \<longrightarrow> \<not> solves H c m" using step IH by simp_all
    have "\<not> solves H c m" if "k < m" "m < n" for m
      using n(2) False inc_le [OF that(1)] that(2) by (cases "m = k + 1") auto
    then show ?thesis using n(1) by blast
  qed
qed

section \<open>What the client does with a stream\<close>

definition auth_response :: "64 word \<Rightarrow> frame" where
  "auth_response n = CreateAuthResponse (replicate mailboxIdSize 0) (nonce_bytes n)"

fun client_serve ::
  "(bytes \<Rightarrow> bytes) \<Rightarrow> (frame \<Rightarrow> 'a \<Rightarrow> 'a) \<Rightarrow> bool \<Rightarrow> frame list \<Rightarrow> 'a \<Rightarrow> (bool \<times> bytes list \<times> 'a) option" where
  "client_serve H rcv au [] a = Some (au, [], a)"
| "client_serve H rcv au (f # fs) a =
     (if fr_action f = AUTH_CHALLENGE then
        (case solve_nonce H (take challengSize (fr_payload f)) 0 of
           None \<Rightarrow> None
         | Some n \<Rightarrow>
             (case client_serve H rcv True fs a of
                None \<Rightarrow> None
              | Some (au', outs, a') \<Rightarrow> Some (au', Serialize (auth_response n) # outs, a')))
      else client_serve H rcv au fs (if au then rcv f a else a))"

definition client_output :: "TcpClient \<Rightarrow> bytes list" where
  "client_output k = cl_async_writes k @ (if cl_writeInProgress k then tl (cl_writeQueue k) else cl_writeQueue k)"

definition cl_write_ok :: "TcpClient \<Rightarrow> bool" where
  "cl_write_ok k \<longleftrightarrow> (if cl_writeInProgress k then cl_writeQueue k \<noteq> [] else cl_writeQueue k = [])"

definition cl_follows :: "TcpClient \<Rightarrow> bytes list \<Rightarrow> bool \<Rightarrow> TcpClient \<Rightarrow> bool" where
  "cl_follows k outs au k' \<longleftrightarrow> isAuthenticated k' = au \<and> client_output k' = client_output k @ outs \<and> cl_write_ok k' \<and>
     cl_reading k' = cl_reading k"

lemma client_fields [simp]:
  "client_output (k\<lparr>cl_reading := q\<rparr>) = client_output k" "client_output (k\<lparr>cl_parser := p\<rparr>) = client_output k"
  "client_output (k\<lparr>isAuthenticated := q\<rparr>) = client_output k" "client_output (k\<lparr>timer_set := q\<rparr>) = client_output k"
  "cl_write_ok (k\<lparr>cl_reading := q\<rparr>) = cl_write_ok k" "cl_write_ok (k\<lparr>cl_parser := p\<rparr>) = cl_write_ok k"
  "cl_write_ok (k\<lparr>isAuthenticated := q\<rparr>) = cl_write_ok k" "cl_write_ok (k\<lparr>timer_set := q\<rparr>) = cl_write_ok k"
  by (simp_all add: client_output_def cl_write_ok_def)

lemma cl_follows_trans: "cl_follows k o1 au1 t \<Longrightarrow> cl_follows t o2 au2 u \<Longrightarrow> cl_follows k (o1 @ o2) au2 u"
  by (simp add: cl_follows_def)

lemma cl_follows_parser: "cl_follows (k\<lparr>cl_parser := p\<rparr>) outs au k' = cl_follows k outs au k'"
  by (simp add: cl_follows_def client_output_def)

lemma queue_write:
  fixes d :: bytes
  assumes "cl_write_ok k"
  defines "t \<equiv> cl_DoWrite (k\<lparr>cl_writeQueue := cl_writeQueue k @ [d]\<rparr>)"
  shows "client_output t = client_output k @ [d]" "cl_write_ok t" "cl_parser t = cl_parser k" "cl_open t = cl_open k"
    "cl_reading t = cl_reading k" "isAuthenticated t = isAuthenticated k"
  using assms by (auto simp: t_def client_output_def cl_write_ok_def cl_DoWrite_def)

lemma challenge_length:
  "frame_at x = Some f \<Longrightarrow> fr_action f = AUTH_CHALLENGE \<Longrightarrow> challengSize \<le> length (fr_payload f)"
  by (auto simp: frame_at_def rebuild_def CreatePush_def CreatePoll_def CreateAck_def CreateAuthChallenge_def
      CreateAuthResponse_def make_frame_def length_pad_control protocol_simps challengSize_def split: if_splits)

lemma take_frames_None: "TryExtractFrame (cl_parser k) = (None, p) \<Longrightarrow> take_frames H rcv k a = Some (k\<lparr>cl_parser := p\<rparr>, a)"
  by (subst take_frames.simps) simp

text \<open>One frame of the stream.\<close>

lemma frame_taken:
  assumes t: "TryExtractFrame (cl_parser k) = (frame_at x, fresh_parser)" "cl_write_ok k"
    and sv: "client_serve H rcv (isAuthenticated k) (case frame_at x of Some f \<Rightarrow> f # fs | None \<Rightarrow> fs) a = Some (au, outs, a')"
  obtains u a1 o1 o2 where "take_frames H rcv k a = Some (u, a1)" "cl_parser u = fresh_parser" "cl_open u = cl_open k"
    "outs = o1 @ o2" "cl_follows k o1 (isAuthenticated u) u" "client_serve H rcv (isAuthenticated u) fs a1 = Some (au, o2, a')"
proof (cases "frame_at x")
  case None
  then show thesis using take_frames_None [of k fresh_parser H rcv a] t sv
    by (intro that [of "k\<lparr>cl_parser := fresh_parser\<rparr>" a "[]" outs]) (auto simp: cl_follows_def client_output_def cl_write_ok_def)
next
  case (Some f)
  have stop: "cl_parser v = fresh_parser \<Longrightarrow> take_frames H rcv v b = Some (v, b)" for v b
    using take_frames_None [of v fresh_parser H rcv b] by (cases v) simp
  let ?t = "k\<lparr>cl_parser := fresh_parser\<rparr>"
  have w: "cl_write_ok ?t" "client_output ?t = client_output k" using t(2) by (simp_all add: cl_write_ok_def client_output_def)
  show thesis
  proof (cases "fr_action f = AUTH_CHALLENGE")
    case True
    obtain n o2 where n: "solve_nonce H (take challengSize (fr_payload f)) 0 = Some n" "outs = [Serialize (auth_response n)] @ o2"
        "client_serve H rcv True fs a = Some (au, o2, a')"
      using sv True Some by (auto split: option.splits)
    let ?u = "cl_DoWrite (?t\<lparr>cl_writeQueue := cl_writeQueue ?t @ [Serialize (auth_response n)]\<rparr>)"
    have "HandleAuthChallenge H (fr_payload f) ?t = Some ?u"
      using n(1) challenge_length [OF Some True]
      by (simp add: HandleAuthChallenge_def Let_def auth_response_def) (simp add: cl_DoWrite_def)
    then have "take_frames H rcv k a = Some (?u\<lparr>isAuthenticated := True\<rparr>, a)"
      using True Some t(1) queue_write(3) [OF w(1)] by (subst take_frames.simps) (simp add: Let_def stop)
    then show thesis using n(2,3) queue_write [OF w(1), of "Serialize (auth_response n)"] w(2)
      by (intro that [of "?u\<lparr>isAuthenticated := True\<rparr>" a]) (auto simp: cl_follows_def client_output_def cl_write_ok_def)
  next
    case False
    have "take_frames H rcv k a = Some (?t, if isAuthenticated k then rcv f a else a)"
      using False Some t(1) by (subst take_frames.simps) (simp add: Let_def stop)
    then show thesis using False Some sv w
      by (intro that [of ?t "if isAuthenticated k then rcv f a else a" "[]" outs]) (auto simp: cl_follows_def)
  qed
qed

lemma cl_read_loop_step:
  assumes "data \<noteq> []" "FeedBytes (cl_parser k) data = Some (n, p)" "\<not> HasError p" "0 < n"
    and "take_frames H rcv (k\<lparr>cl_parser := p\<rparr>) a = Some (u, a1)"
  shows "cl_read_loop H rcv k a data = cl_read_loop H rcv u a1 (drop n data)"
  using assms by (subst cl_read_loop.simps) (simp add: Let_def)

definition cl_settles :: "TcpClient \<Rightarrow> ending \<Rightarrow> TcpClient \<Rightarrow> bool" where
  "cl_settles k e k' \<longleftrightarrow>
     (case e of Pending r \<Rightarrow> cl_parser k' = parser_of r \<and> cl_open k' = cl_open k | Malformed \<Rightarrow> \<not> cl_open k')"

lemma cl_read_loop_spec:
  assumes "cl_parser k = parser_of c" "unfinished c" "cl_write_ok k" "decode (c @ data) = (fs, e)"
    and "client_serve H rcv (isAuthenticated k) fs a = Some (au, outs, a')"
  shows "\<exists>k'. cl_read_loop H rcv k a data = Some (e \<noteq> Malformed, k', a') \<and> cl_follows k outs au k' \<and> cl_settles k e k'"
  using assms
proof (induction "length data" arbitrary: k a c data fs outs rule: less_induct)
  case less
  note cut = unfinished_cut [OF less.prems(2)]
  show ?case
  proof (cases "data = []")
    case True
    then show ?thesis using less.prems decode_unfinished [of c]
      by (auto simp: cl_read_loop.simps cl_follows_def cl_settles_def)
  next
    case False
    let ?x = "c @ data" and ?t = "k\<lparr>cl_parser := parser_of (frame_cut (c @ data))\<rparr>"
    have feed: "FeedBytes (cl_parser k) data = Some (length (frame_cut ?x) - length c, parser_of (frame_cut ?x))"
      using FeedBytes_spec [OF cut] less.prems(1) by simp
    consider "malformed ?x" | "complete ?x" "\<not> malformed ?x" | "unfinished ?x"
      by (auto simp: unfinished_def)
    then show ?thesis
    proof cases
      case 1
      then have "HasError (parser_of (frame_cut ?x))"
        using TryExtractFrame_incomplete(2) [of ?x] by (auto simp: complete_def)
      moreover have "fs = []" "e = Malformed" using 1 less.prems(4) by (simp_all add: decode.simps [of ?x])
      ultimately show ?thesis using False feed less.prems
        by (subst cl_read_loop.simps)
           (simp add: Let_def Disconnect_def cl_follows_def cl_settles_def client_output_def cl_write_ok_def)
    next
      case 3
      then have "\<not> HasError (parser_of (frame_cut ?x))"
          "TryExtractFrame (cl_parser ?t) = (None, parser_of (frame_cut ?x))"
        using TryExtractFrame_incomplete [of ?x] by (auto simp: unfinished_def)
      moreover have "fs = []" "e = Pending ?x" using decode_unfinished [OF 3] less.prems(4) by simp_all
      ultimately show ?thesis using False feed less.prems cut_unfinished [OF 3] unfinished_cut [OF 3]
        by (subst cl_read_loop.simps)
           (simp add: take_frames_None Let_def cl_read_loop.simps [where dataSpan = "[]"] cl_follows_def cl_settles_def
             client_output_def cl_write_ok_def)
    next
      case 2
      let ?n = "length (frame_cut ?x) - length c" and ?r = "drop (frame_size ?x) ?x"
      obtain fs' where fs: "decode ?r = (fs', e)" "fs = (case frame_at ?x of Some f \<Rightarrow> f # fs' | None \<Rightarrow> fs')"
        using 2 less.prems(4) by (auto simp: decode.simps [of ?x] split: prod.splits)
      have n: "0 < ?n" "drop ?n data = ?r" using cut_complete [OF less.prems(2) 2(1)] by simp_all
      have lt: "length (drop ?n data) < length data" unfolding length_drop using n(1) False by (intro diff_less) auto
      have t: "TryExtractFrame (cl_parser ?t) = (frame_at ?x, fresh_parser)" "cl_write_ok ?t"
          "client_serve H rcv (isAuthenticated ?t) (case frame_at ?x of Some f \<Rightarrow> f # fs' | None \<Rightarrow> fs') a = Some (au, outs, a')"
        using TryExtractFrame_complete [OF 2(1)] less.prems(3,5) fs(2) by (simp_all add: cl_write_ok_def)
      obtain u a1 o1 o2 where u: "take_frames H rcv ?t a = Some (u, a1)" "cl_parser u = fresh_parser" "cl_open u = cl_open ?t"
          "outs = o1 @ o2" "cl_follows ?t o1 (isAuthenticated u) u" "client_serve H rcv (isAuthenticated u) fs' a1 = Some (au, o2, a')"
        by (rule frame_taken [OF t])
      have "cl_write_ok u" "cl_parser u = parser_of []" using u(2,5) by (simp_all add: cl_follows_def)
      moreover have "decode ([] @ drop ?n data) = (fs', e)" using fs(1) n(2) by simp
      ultimately obtain k' where k': "cl_read_loop H rcv u a1 (drop ?n data) = Some (e \<noteq> Malformed, k', a')" "cl_follows u o2 au k'" "cl_settles u e k'"
        using less.hyps [OF lt _ unfinished_Nil _ _ u(6)] by blast
      then show ?thesis
        using cl_read_loop_step [OF False feed HasError_complete [OF 2(1)] n(1) u(1)] cl_follows_trans [OF u(5) k'(2)] u(3,4)
        by (auto simp: cl_follows_parser cl_settles_def split: ending.splits)
    qed
  qed
qed

text \<open>The chunks arrive one after the other, as long as the client reads.\<close>

fun client_reads ::
  "(bytes \<Rightarrow> bytes) \<Rightarrow> (frame \<Rightarrow> 'a \<Rightarrow> 'a) \<Rightarrow> bytes list \<Rightarrow> TcpClient \<Rightarrow> 'a \<Rightarrow> (TcpClient \<times> 'a) option" where
  "client_reads H rcv [] k a = Some (k, a)"
| "client_reads H rcv (d # ds) k a =
     (if cl_reading k then
        (case cl_read_completed H rcv (Bytes d) k a of None \<Rightarrow> None | Some (k', a') \<Rightarrow> client_reads H rcv ds k' a')
      else Some (k, a))"

lemma client_serve_append:
  "client_serve H rcv au (fs @ gs) a =
     (case client_serve H rcv au fs a of
        None \<Rightarrow> None
      | Some (au', outs, a') \<Rightarrow>
          (case client_serve H rcv au' gs a' of
             None \<Rightarrow> None
           | Some (au'', outs', a'') \<Rightarrow> Some (au'', outs @ outs', a'')))"
  by (induction H rcv au fs a rule: client_serve.induct) (auto split: option.splits prod.splits)

lemma cl_read_completed_spec:
  assumes "cl_parser k = parser_of c" "unfinished c" "cl_write_ok k" "decode (c @ d) = (fs, e)"
    and "client_serve H rcv (isAuthenticated k) fs a = Some (au, outs, a')"
  obtains k' where "cl_read_completed H rcv (Bytes d) k a = Some (k', a')" "isAuthenticated k' = au"
    "client_output k' = client_output k @ outs" "cl_write_ok k'" "cl_settles k e k'" "cl_reading k' = (e \<noteq> Malformed)"
proof -
  let ?t = "k\<lparr>cl_reading := False\<rparr>"
  have "cl_parser ?t = parser_of c" "cl_write_ok ?t" "client_serve H rcv (isAuthenticated ?t) fs a = Some (au, outs, a')"
    using assms by (simp_all add: cl_write_ok_def)
  from cl_read_loop_spec [OF this(1) assms(2) this(2) assms(4) this(3)]
  obtain u where u: "cl_read_loop H rcv ?t a d = Some (e \<noteq> Malformed, u, a')" "cl_follows ?t outs au u" "cl_settles ?t e u" by blast
  have "cl_read_completed H rcv (Bytes d) k a = Some (if e \<noteq> Malformed then cl_DoRead u else u, a')"
    using u(1) by (simp add: cl_read_completed_def)
  then show thesis using u(2,3)
    by (intro that [of "if e \<noteq> Malformed then cl_DoRead u else u"])
       (auto simp: cl_follows_def cl_settles_def cl_DoRead_def split: ending.splits)
qed

lemma client_reads_spec:
  assumes "cl_parser k = parser_of c" "unfinished c" "cl_write_ok k" "cl_reading k" "cl_open k" "decode (c @ concat ds) = (fs, e)"
    and "client_serve H rcv (isAuthenticated k) fs a = Some (au, outs, a')"
  shows "\<exists>k'. client_reads H rcv ds k a = Some (k', a') \<and> isAuthenticated k' = au \<and> client_output k' = client_output k @ outs \<and>
    cl_write_ok k' \<and> cl_settles k e k' \<and> cl_reading k' = (e \<noteq> Malformed)"
  using assms
proof (induction ds arbitrary: k a c fs outs)
  case Nil
  then show ?case using decode_unfinished [of c] by (auto simp: cl_settles_def)
next
  case (Cons d ds)
  obtain f1 e1 where d1: "decode (c @ d) = (f1, e1)" by fastforce
  have dec: "(case e1 of Malformed \<Rightarrow> (f1, Malformed)
      | Pending r \<Rightarrow> (case decode (r @ concat ds) of (gs, e') \<Rightarrow> (f1 @ gs, e'))) = (fs, e)"
    using decode_append [OF d1, of "concat ds"] Cons.prems(6) by simp
  obtain gs where gs: "fs = f1 @ gs" "e1 = Malformed \<Longrightarrow> gs = [] \<and> e = Malformed"
      "\<And>r. e1 = Pending r \<Longrightarrow> decode (r @ concat ds) = (gs, e)"
    using dec by (auto split: ending.splits prod.splits)
  obtain au1 o1 a1 o2 where s1: "client_serve H rcv (isAuthenticated k) f1 a = Some (au1, o1, a1)"
      "client_serve H rcv au1 gs a1 = Some (au, o2, a')" "outs = o1 @ o2"
    using Cons.prems(7) unfolding gs(1) client_serve_append by (auto split: option.splits prod.splits)
  obtain t where t: "cl_read_completed H rcv (Bytes d) k a = Some (t, a1)" "isAuthenticated t = au1"
      "client_output t = client_output k @ o1" "cl_write_ok t" "cl_settles k e1 t" "cl_reading t = (e1 \<noteq> Malformed)"
    by (rule cl_read_completed_spec [OF Cons.prems(1-3) d1 s1(1)])
  have step: "client_reads H rcv (d # ds) k a = client_reads H rcv ds t a1" using t(1) Cons.prems(4) by simp
  show ?case
  proof (cases e1)
    case Malformed
    then have "client_reads H rcv ds t a1 = Some (t, a1)" using t(6) by (cases ds) simp_all
    then show ?thesis unfolding step using Malformed gs(2) s1(2,3) t by auto
  next
    case (Pending r)
    then have o: "cl_parser t = parser_of r" "cl_open t = cl_open k" "cl_reading t" using t(5,6) by (simp_all add: cl_settles_def)
    have st: "cl_settles t e v = cl_settles k e v" for v using o(2) by (simp add: cl_settles_def split: ending.split)
    show ?thesis unfolding step
      using Cons.IH [OF o(1) decode_pending t(4) o(3) _ gs(3) [OF Pending]] d1 Pending s1(2,3) t(2,3) o(2) Cons.prems(5) st by simp
  qed
qed

section \<open>The stream of the relay\<close>

definition new_client :: TcpClient where
  "new_client =
     \<lparr>cl_open = True, cl_async_writes = [], cl_reading = False, cl_parser = fresh_parser, cl_writeQueue = [],
      cl_writeInProgress = False, isAuthenticated = False, timer_set = False\<rparr>"

text \<open>The client between two frames.\<close>

definition cl_ready :: "TcpClient \<Rightarrow> bool" where
  "cl_ready k \<longleftrightarrow> cl_parser k = parser_of [] \<and> cl_write_ok k \<and> cl_reading k \<and> cl_open k"

lemma new_client_ready: "cl_ready (StartAsyncEngine new_client)" "client_output (StartAsyncEngine new_client) = []"
  "\<not> isAuthenticated (StartAsyncEngine new_client)"
  by (simp_all add: cl_ready_def StartAsyncEngine_def cl_DoRead_def new_client_def cl_write_ok_def client_output_def)

lemma client_reads_ready:
  assumes "cl_ready k" "decode (concat ds) = (fs, Pending [])" "client_serve H rcv (isAuthenticated k) fs a = Some (au, outs, a')"
  shows "\<exists>k'. client_reads H rcv ds k a = Some (k', a') \<and> isAuthenticated k' = au \<and> client_output k' = client_output k @ outs \<and>
    cl_ready k'"
proof -
  have k: "cl_parser k = parser_of []" "cl_write_ok k" "cl_reading k" "cl_open k" using assms(1) unfolding cl_ready_def by blast+
  have "decode ([] @ concat ds) = (fs, Pending [])" using assms(2) by simp
  from client_reads_spec [OF k(1) unfinished_Nil k(2-4) this assms(3)] show ?thesis
    using k(4) by (auto simp: cl_settles_def cl_ready_def)
qed

lemma tick_ready:
  assumes "cl_ready k" "isAuthenticated k" "provider a = (f, a')"
  obtains k' where "DoCbrTick provider k a = (k', a')" "cl_ready k'" "client_output k' = client_output k @ [Serialize f]" "isAuthenticated k'"
proof -
  have "cl_write_ok (k\<lparr>timer_set := True\<rparr>)" using assms(1) by (simp add: cl_ready_def)
  from queue_write [OF this, of "Serialize f"] show thesis using assms
    by (intro that [of "cl_DoWrite (k\<lparr>timer_set := True, cl_writeQueue := cl_writeQueue k @ [Serialize f]\<rparr>)"])
       (auto simp: DoCbrTick_def cl_ready_def Let_def)
qed

text \<open>The frames of a stream as the relay means them: the challenges it wants proofs for, and the frames
  behind the first challenge that are for the receiver.  A nonce is right when the relay accepts the
  frame that carries it.\<close>

definition challenges :: "frame list \<Rightarrow> bytes list" where
  "challenges fs = map (\<lambda>f. take challengSize (fr_payload f)) (filter (\<lambda>f. fr_action f = AUTH_CHALLENGE) fs)"

definition for_receiver :: "frame list \<Rightarrow> frame list" where
  "for_receiver fs =
     filter (\<lambda>f. fr_action f \<noteq> AUTH_CHALLENGE) (dropWhile (\<lambda>f. fr_action f \<noteq> AUTH_CHALLENGE) fs)"

definition first_proof :: "(bytes \<Rightarrow> bytes) \<Rightarrow> bytes \<Rightarrow> 64 word \<Rightarrow> bool" where
  "first_proof H c n \<longleftrightarrow>
     authentic H c (auth_response n) \<and> (\<forall>m. 0 < m \<and> m < n \<longrightarrow> \<not> authentic H c (auth_response m))"

lemma authentic_response: "authentic H c (auth_response n) \<longleftrightarrow> solves H c n"
  by (simp add: authentic_def auth_response_def CreateAuthResponse_def make_frame_def pad_control_def nonce_bytes_def
      solves_def length_pad_control protocol_simps)

lemma client_serve_answers:
  assumes "\<forall>c \<in> set (challenges fs). \<exists>h. authentic H c (auth_response h)"
  shows "\<exists>ns. client_serve H rcv au fs a =
      Some (au \<or> challenges fs \<noteq> [], map (\<lambda>n. Serialize (auth_response n)) ns,
        fold rcv (if au then filter (\<lambda>f. fr_action f \<noteq> AUTH_CHALLENGE) fs else for_receiver fs) a) \<and>
    list_all2 (first_proof H) (challenges fs) ns"
  using assms
proof (induction fs arbitrary: au a)
  case Nil
  then show ?case by (simp add: challenges_def for_receiver_def)
next
  case (Cons f fs)
  have IH: "\<forall>c \<in> set (challenges fs). \<exists>h. authentic H c (auth_response h)"
    using Cons.prems by (auto simp: challenges_def)
  show ?case
  proof (cases "fr_action f = AUTH_CHALLENGE")
    case True
    let ?c = "take challengSize (fr_payload f)"
    have "\<exists>h. authentic H ?c (auth_response h)" using Cons.prems True by (simp add: challenges_def)
    then obtain n where n: "solve_nonce H ?c 0 = Some n"
      using solve_nonce_found unfolding authentic_response by metis
    then have "first_proof H ?c n"
      using solve_nonce_least [OF n] by (simp add: first_proof_def authentic_response)
    then show ?thesis
      using Cons.IH [OF IH, of True a] True n
      by (fastforce simp: challenges_def for_receiver_def intro: exI [of _ "n # ns" for ns])
  next
    case False
    then show ?thesis
      using Cons.IH [OF IH, of au "if au then rcv f a else a"] by (auto simp: challenges_def for_receiver_def)
  qed
qed

text \<open>C18: given that each challenge in the stream has a nonce the relay would accept, the read handler of the
  client ends, and does with the bytes of the relay, in whatever pieces they arrive, what the frames in
  them ask for: each challenge is answered, in order, with a response that passes the check of the relay
  for that challenge (the first such nonce counting from 1), every other frame goes to the receiver once a challenge
  has been answered and is dropped before, in order; an oversized header closes the connection.\<close>

theorem client_stream:
  assumes "decode (concat chunks) = (fs, e)" "\<forall>c \<in> set (challenges fs). \<exists>h. authentic H c (auth_response h)"
  shows "\<exists>k' ns. client_reads H rcv chunks (StartAsyncEngine new_client) a = Some (k', fold rcv (for_receiver fs) a) \<and>
    isAuthenticated k' = (challenges fs \<noteq> []) \<and>
    client_output k' = map (\<lambda>n. Serialize (auth_response n)) ns \<and> list_all2 (first_proof H) (challenges fs) ns \<and>
    cl_open k' = (e \<noteq> Malformed)"
proof -
  obtain ns where ns: "client_serve H rcv False fs a =
      Some (challenges fs \<noteq> [], map (\<lambda>n. Serialize (auth_response n)) ns, fold rcv (for_receiver fs) a)"
      "list_all2 (first_proof H) (challenges fs) ns"
    using client_serve_answers [OF assms(2), of rcv False a] by auto
  have k: "cl_parser (StartAsyncEngine new_client) = parser_of []" "cl_write_ok (StartAsyncEngine new_client)"
      "cl_reading (StartAsyncEngine new_client)" "cl_open (StartAsyncEngine new_client)"
    using new_client_ready(1) unfolding cl_ready_def by blast+
  have "decode ([] @ concat chunks) = (fs, e)" "client_serve H rcv (isAuthenticated (StartAsyncEngine new_client)) fs a =
      Some (challenges fs \<noteq> [], map (\<lambda>n. Serialize (auth_response n)) ns, fold rcv (for_receiver fs) a)"
    using assms(1) ns(1) new_client_ready(3) by simp_all
  from client_reads_spec [OF k(1) unfinished_Nil k(2-4) this] show ?thesis
    using new_client_ready(2) k(4) ns(2) by (cases e) (auto simp: cl_settles_def)
qed

lemma sample_responds: "authentic sample_hash c (auth_response n)"
proof -
  have "prefix ''000'' (EncodeHex (replicate 16 0))" by code_simp
  then show ?thesis by (simp add: authentic_response solves_def HashPayload_def sample_hash_def)
qed

theorem client_stream_witness:
  "\<exists>k' n. let p = CreatePoll (replicate 16 3); c = CreateAuthChallenge (replicate 16 0) (replicate 32 7);
       s = Serialize p @ Serialize c @ Serialize p in
     client_reads sample_hash (\<lambda>f fs. fs @ [f]) [take 5 s, drop 5 s] (StartAsyncEngine new_client) [] = Some (k', [p]) \<and>
     isAuthenticated k' \<and> client_output k' = [Serialize (auth_response n)] \<and> first_proof sample_hash (replicate 32 7) n \<and>
     cl_open k'"
proof -
  let ?p = "CreatePoll (replicate 16 3)" and ?c = "CreateAuthChallenge (replicate 16 0) (replicate 32 7)"
  let ?s = "Serialize ?p @ Serialize ?c @ Serialize ?p"
  have "list_all wf_frame [?p, ?c, ?p]" by (auto intro!: wf_created simp: protocol_simps)
  then have "decode ?s = ([?p, ?c, ?p], Pending [])" using decode_frames by fastforce
  moreover have "concat [take 5 x, drop 5 x] = x" for x :: bytes by simp
  ultimately have d: "decode (concat [take 5 ?s, drop 5 ?s]) = ([?p, ?c, ?p], Pending [])" by (simp only:)
  have f: "challenges [?p, ?c, ?p] = [replicate 32 7]" "for_receiver [?p, ?c, ?p] = [?p]"
    by (simp_all add: challenges_def for_receiver_def CreatePoll_def CreateAuthChallenge_def make_frame_def
        pad_control_def challengSize_def protocol_simps)
  obtain k' ns where "client_reads sample_hash (\<lambda>f fs. fs @ [f]) [take 5 ?s, drop 5 ?s] (StartAsyncEngine new_client) [] = Some (k', [?p])"
      "isAuthenticated k'" "client_output k' = map (\<lambda>n. Serialize (auth_response n)) ns"
      "list_all2 (first_proof sample_hash) [replicate 32 7] ns" "cl_open k'"
    using client_stream [OF d, of sample_hash "\<lambda>f fs. fs @ [f]" "[]"] sample_responds unfolding f by auto
  then show ?thesis unfolding Let_def by (cases ns) auto
qed

section \<open>The handshake with the proxy\<close>

lemma drop_reply_None: "drop_reply n k = None \<longleftrightarrow> 256 < n \<and> 256 < length (arriving k)"
  by (auto simp: drop_reply_def socks_simps split: prod.split)

lemma length_byte: "254 < unat (b :: byte) \<longleftrightarrow> b = 255"
proof -
  have "unat b < 256" using unsigned_less [of b] by simp
  moreover have "b = 255 \<longleftrightarrow> unat b = 255" by (auto simp: word_unat_eq_iff)
  ultimately show ?thesis by linarith
qed

text \<open>How far the handshake comes.\<close>

lemma handshake_stops:
  assumes "writes_left k < 2 \<or> 255 < length onionAddress \<or> length (arriving k) < 6"
  shows "PerformTorHandshake onionAddress destPort k \<noteq> None"
  using assms by (auto simp: PerformTorHandshake_def sock_write_def sock_read_def socks_simps)

lemma handshake_answered:
  fixes destPort :: "16 word"
  assumes "2 \<le> writes_left k" "length onionAddress \<le> 255" "arriving k = v # m # v' # rep # r # atyp # rest"
  defines "k' \<equiv> k\<lparr>written_out := written_out k @ [5, 1, 0] @ connect_req onionAddress destPort,
      writes_left := writes_left k - 2, arriving := rest\<rparr>"
  shows "v \<noteq> 5 \<or> m \<noteq> 0 \<or> v' \<noteq> 5 \<or> rep \<noteq> 0 \<Longrightarrow> \<exists>t. PerformTorHandshake onionAddress destPort k = Some (False, t)"
    "v = 5 \<Longrightarrow> m = 0 \<Longrightarrow> v' = 5 \<Longrightarrow> rep = 0 \<Longrightarrow> PerformTorHandshake onionAddress destPort k =
       (case remaining_bytes atyp k' of (None, t) \<Rightarrow> Some (False, t) | (Some n, t) \<Rightarrow> drop_reply n t)"
proof -
  have w: "writes_left k \<noteq> 0" "writes_left k - 1 \<noteq> 0" "writes_left k - 1 - 1 = writes_left k - 2" using assms(1) by auto
  show "v \<noteq> 5 \<or> m \<noteq> 0 \<or> v' \<noteq> 5 \<or> rep \<noteq> 0 \<Longrightarrow> \<exists>t. PerformTorHandshake onionAddress destPort k = Some (False, t)"
    using w assms(2,3) by (auto simp: PerformTorHandshake_def sock_write_def sock_read_def socks_simps)
  show "v = 5 \<Longrightarrow> m = 0 \<Longrightarrow> v' = 5 \<Longrightarrow> rep = 0 \<Longrightarrow> PerformTorHandshake onionAddress destPort k =
       (case remaining_bytes atyp k' of (None, t) \<Rightarrow> Some (False, t) | (Some n, t) \<Rightarrow> drop_reply n t)"
    using w assms(2,3) by (simp add: PerformTorHandshake_def sock_write_def sock_read_def socks_simps k'_def)
qed

lemma six_elements: "6 \<le> length A \<Longrightarrow> \<exists>a b c d e f rest. A = a # b # c # d # e # f # rest"
  by (auto simp: Suc_le_length_iff eval_nat_numeral)

text \<open>C19: the handshake with the proxy stays within its buffers except in one case: when the proxy reports a bound address
  that is a domain name of 255 bytes, the name and the port have 257 bytes and the last one is written behind the
  256 bytes of the buffer they are read into.\<close>

theorem tor_handshake_overrun:
  "PerformTorHandshake onionAddress destPort k = None \<longleftrightarrow>
     2 \<le> writes_left k \<and> length onionAddress \<le> 255 \<and>
     (\<exists>r rest. arriving k = [5, 0, 5, 0, r, 3, 255] @ rest \<and> 257 \<le> length rest)"
proof (cases "2 \<le> writes_left k \<and> length onionAddress \<le> 255 \<and> 6 \<le> length (arriving k)")
  case False
  then show ?thesis using handshake_stops [of k onionAddress destPort] by auto
next
  case True
  then obtain v m v' rep r atyp rest where A: "arriving k = v # m # v' # rep # r # atyp # rest"
    using six_elements by blast
  note ans = handshake_answered [OF _ _ A, where onionAddress = onionAddress and destPort = destPort]
  show ?thesis
  proof (cases "v = 5 \<and> m = 0 \<and> v' = 5 \<and> rep = 0")
    case False
    then show ?thesis using ans(1) True A by auto
  next
    case ok: True
    show ?thesis using ans(2) True ok A
      by (cases rest) (auto simp: remaining_bytes_def sock_read_def socks_simps drop_reply_None length_byte simp del: not_None_eq)
  qed
qed

text \<open>The request to connect, written out: version, command, reserved byte, address type, the domain name
  behind its length, and the port with the high byte first.\<close>

lemma connect_req_bytes:
  "connect_req onionAddress destPort = [5, 1, 0, 3, word_of_nat (length onionAddress)] @ onionAddress @
     [word_of_nat (unat destPort div 256), word_of_nat (unat destPort mod 256)]"
proof -
  have low: "x AND 255 = take_bit 8 x" for x :: "16 word"
    by (simp add: take_bit_eq_mask mask_eq_exp_minus_1)
  have "ucast (drop_bit 8 destPort AND 0xFF) = (word_of_nat (unat destPort div 256) :: byte)"
    unfolding low by (simp add: word_unat_eq_iff unsigned_ucast_eq unsigned_of_nat unsigned_take_bit_eq
        drop_bit_eq_div take_bit_eq_mod unat_div_distrib unat_mod_distrib)
  moreover have "ucast (destPort AND 0xFF) = (word_of_nat (unat destPort mod 256) :: byte)"
    unfolding low by (simp add: word_unat_eq_iff unsigned_ucast_eq unsigned_of_nat unsigned_take_bit_eq
        take_bit_eq_mod unat_mod_distrib)
  ultimately show ?thesis by (simp add: connect_req_def socks_simps)
qed

text \<open>C20: when the proxy accepts and reports a bound address of any kind, the handshake succeeds and the bytes it has sent are
  the greeting and the request to connect to the onion address; what follows the reply is left for the
  frames.  The one exception is a bound address that is a domain name of 255 bytes: there the handshake
  overruns its buffer.\<close>

theorem tor_handshake_succeeds:
  assumes "2 \<le> writes_left k" "length onionAddress \<le> 255" "arriving k = [5, 0, 5, 0, r, atyp] @ addr @ rest"
    and "atyp = 1 \<and> length addr = 6 \<or> atyp = 4 \<and> length addr = 18 \<or>
      atyp = 3 \<and> addr \<noteq> [] \<and> length addr = unat (hd addr) + 3"
  shows "PerformTorHandshake onionAddress destPort k =
    (if atyp = 3 \<and> hd addr = 255 then None
     else Some (True, k\<lparr>written_out := written_out k @ [5, 1, 0] @
         [5, 1, 0, 3, word_of_nat (length onionAddress)] @ onionAddress @
         [word_of_nat (unat destPort div 256), word_of_nat (unat destPort mod 256)],
       writes_left := writes_left k - 2, arriving := rest\<rparr>))"
proof -
  have l: "unat b + 2 \<le> 256" if "b \<noteq> 255" for b :: byte using length_byte [of b] that by linarith
  have "arriving k = 5 # 0 # 5 # 0 # r # atyp # addr @ rest" using assms(3) by simp
  from handshake_answered(2) [OF assms(1,2) this refl refl refl refl] show ?thesis
    using assms(4) l [of "hd addr"] unfolding connect_req_bytes
    by (cases addr) (auto simp: remaining_bytes_def sock_read_def drop_reply_def socks_simps length_byte)
qed

theorem tor_handshake_succeeds_witness:
  "PerformTorHandshake [97, 46, 111] 80
     \<lparr>arriving = [5, 0, 5, 0, 0, 1] @ [0, 0, 0, 0, 0, 0] @ [7], written_out = [], writes_left = 2\<rparr> =
   Some (True, \<lparr>arriving = [7], written_out = [5, 1, 0, 5, 1, 0, 3, 3, 97, 46, 111, 0, 80], writes_left = 0\<rparr>)"
  using tor_handshake_succeeds [of "\<lparr>arriving = [5, 0, 5, 0, 0, 1] @ [0, 0, 0, 0, 0, 0] @ [7], written_out = [], writes_left = 2\<rparr>"
      "[97, 46, 111]" 0 1 "[0, 0, 0, 0, 0, 0]" "[7]" 80]
  by (simp add: socks_simps)

end
