(* ===== verification/ClientRuns.thy ===== *)
theory ClientRuns
  imports MessengerLogic RelaySession
begin

text \<open>
  Runs of one client: the handlers in any order, with any frame coming in.  Three things hold all along: every frame that
  leaves the client fills whole cells of the anonymity network and is one that the relay can parse, the file of the
  contacts holds the current mailboxes and keys, and mailboxes and keys only change on a message that the contact has signed.
\<close>

section \<open>Runs\<close>

text \<open>The longest text for which the relay accepts the frame.\<close>

definition longest_text :: nat where "longest_text = 1048227"

inductive client_step ::
  "sodium \<Rightarrow> (string \<Rightarrow> json_object option) \<Rightarrow> Repl \<Rightarrow> frame list \<Rightarrow> Repl \<Rightarrow> bool" for lib iterate where
  Send: "length m \<le> longest_text \<Longrightarrow> client_step lib iterate s [] (HandleSend lib alias m s)"
| Add: "client_step lib iterate s [] (HandleAddContact lib alias key s)"
| Connected: "client_step lib iterate s [] (on_connected lib s)"
| Receive: "client_step lib iterate s [] (OnFrameReceived lib iterate f s)"
| Tick: "GetNextFrameForCBR s = (f, s') \<Longrightarrow> client_step lib iterate s [f] s'"
| Clock: "client_step lib iterate s [] (s\<lparr>time := t\<rparr>)"

inductive_cases client_stepE: "client_step lib iterate s outs s'"

inductive client_run ::
  "sodium \<Rightarrow> (string \<Rightarrow> json_object option) \<Rightarrow> Repl \<Rightarrow> frame list \<Rightarrow> Repl \<Rightarrow> bool" for lib iterate where
  Begin: "client_run lib iterate s [] s"
| Step: "client_run lib iterate s outs t \<Longrightarrow> client_step lib iterate t outs' u \<Longrightarrow> client_run lib iterate s (outs @ outs') u"

text \<open>What holds at the start, is kept by every step and gives a property of what the step sends, holds of a whole run.\<close>

locale run_invariant =
  fixes lib :: sodium and iterate :: "string \<Rightarrow> json_object option" and I :: "Repl \<Rightarrow> bool" and Q :: "frame \<Rightarrow> bool"
  assumes kept: "I s \<Longrightarrow> client_step lib iterate s outs s' \<Longrightarrow> I s' \<and> list_all Q outs"
begin

lemma run: "client_run lib iterate s outs s' \<Longrightarrow> I s \<Longrightarrow> I s' \<and> list_all Q outs"
  by (induction rule: client_run.induct) (use kept in auto)

end

section \<open>Cells\<close>

definition contact_ok :: "Contact \<Rightarrow> bool" where
  "contact_ok c \<longleftrightarrow>
     length (c_rxMailboxId c) = mailboxIdSize \<and> length (c_txMailboxId c) = mailboxIdSize \<and>
     length (c_rxKey c) = keySize \<and> length (c_txKey c) = keySize \<and>
     pred_option (\<lambda>m. length m = mailboxIdSize) (c_oldRxMailboxId c)"

definition cell_frame :: "frame \<Rightarrow> bool" where
  "cell_frame f \<longleftrightarrow> wf_frame f \<and> torCellPayloadSize dvd length (Serialize f) \<and> fr_action f \<in> {PUSH, POLL, ACK}"

definition client_ok :: "sodium \<Rightarrow> Repl \<Rightarrow> bool" where
  "client_ok lib s \<longleftrightarrow>
     rng_ok lib (random s) \<and> identity_ok lib (identity s) \<and> list_all (\<lambda>(a, c). contact_ok c) (contacts s) \<and>
     list_all cell_frame (outbox s)"

lemma length_Serialize_wf: "wf_frame f \<Longrightarrow> length (Serialize f) = headerSize + length (fr_payload f)"
  by (simp add: Serialize_layout) (simp add: wf_frame_def headerSize_def)

lemma cell_CreatePoll: "length m = mailboxIdSize \<Longrightarrow> cell_frame (CreatePoll m)"
  using wf_created(1) [of m] length_Serialize_wf [of "CreatePoll m"]
  by (simp add: cell_frame_def) (simp add: CreatePoll_def make_frame_def protocol_simps)

lemma padded_size_bound: "n \<le> Suc longest_text \<Longrightarrow> cryptoOverhead + padded_size n \<le> unat maxPayloadSize"
proof -
  assume n: "n \<le> Suc longest_text"
  have "(totalFixedOverhead + n + torCellPayloadSize) div torCellPayloadSize \<le>
      (totalFixedOverhead + Suc longest_text + torCellPayloadSize) div torCellPayloadSize"
    using n by (intro div_le_mono) simp
  then show ?thesis using padded_size_cells(1) [of n]
    by (simp add: longest_text_def crypto_simps protocol_simps)
qed

lemma cell_sealed:
  assumes "length m = mailboxIdSize" "length ct = cryptoOverhead + padded_size n" "n \<le> Suc longest_text"
  shows "cell_frame (CreatePush m ct)" "cell_frame (CreateAck m ct)"
proof -
  have l: "length ct \<le> unat maxPayloadSize" using padded_size_bound [OF assms(3)] assms(2) by simp
  have "torCellPayloadSize dvd headerSize + length ct"
    using padded_size_cells(1) [of n] assms(2) by (metis add.assoc dvd_triv_left totalFixedOverhead_def)
  then show "cell_frame (CreatePush m ct)" "cell_frame (CreateAck m ct)"
    using wf_created(2,3) [OF assms(1) l] length_Serialize_wf by (simp_all add: cell_frame_def)
qed

lemma client_ok_same [simp]:
  "client_ok lib (s\<lparr>n_random := i\<rparr>) = client_ok lib s" "client_ok lib (s\<lparr>n_keypair := i\<rparr>) = client_ok lib s"
  "client_ok lib (s\<lparr>history := h\<rparr>) = client_ok lib s" "client_ok lib (s\<lparr>time := t\<rparr>) = client_ok lib s"
  "client_ok lib (s\<lparr>connected := q\<rparr>) = client_ok lib s" "client_ok lib (s\<lparr>contactAliases := as\<rparr>) = client_ok lib s"
  "client_ok lib (s\<lparr>currentPollIndex := k\<rparr>) = client_ok lib s" "client_ok lib (SaveToDisk s) = client_ok lib s"
  "client_ok lib (push_outbox f s) \<longleftrightarrow> client_ok lib s \<and> cell_frame f"
  by (auto simp: client_ok_def)

lemma client_ok_set: "client_ok lib s \<Longrightarrow> contact_ok c \<Longrightarrow> client_ok lib (set_contact a c s)"
  by (auto simp: client_ok_def set_contact_def list_all_iff split: if_splits)

lemma client_ok_contact: "client_ok lib s \<Longrightarrow> GetContact a s = Some c \<Longrightarrow> contact_ok c"
  by (auto simp: client_ok_def GetContact_def list_all_iff dest: map_of_SomeD)

lemma contact_ok_same [simp]:
  "contact_ok (c\<lparr>c_messageCounter := n\<rparr>) = contact_ok c" "contact_ok (c\<lparr>c_pfsState := p\<rparr>) = contact_ok c"
  "contact_ok (c\<lparr>c_pendingEphemeralKey := k\<rparr>) = contact_ok c" "contact_ok (c\<lparr>c_initialPfsComplete := q\<rparr>) = contact_ok c"
  by (simp_all add: contact_ok_def)

lemma contact_ok_adopt: "sodium_ok lib \<Longrightarrow> contact_ok c \<Longrightarrow> contact_ok (adopt (derive_mailboxes lib x y z) c)"
  using length_derive by (simp add: contact_ok_def adopt_def)

lemma client_ok_seal:
  assumes "sodium_ok lib" "client_ok lib s" "contact_ok c" "length p \<le> Suc longest_text"
  obtains ct where "encrypt lib (c_txKey c) p s = (Some ct, s\<lparr>n_random := Suc (n_random s)\<rparr>)"
    "cell_frame (CreatePush (c_txMailboxId c) ct)" "cell_frame (CreateAck (c_txMailboxId c) ct)"
proof -
  have "rng_ok lib (random s)" "length (c_txKey c) = keySize" using assms(2,3) by (simp_all add: client_ok_def contact_ok_def)
  from encrypt_ok [OF assms(1) this] obtain ct where "encrypt lib (c_txKey c) p s = (Some ct, s\<lparr>n_random := Suc (n_random s)\<rparr>)"
      "length ct = cryptoOverhead + padded_size (length p)" by metis
  then show thesis using that cell_sealed [OF _ _ assms(4)] assms(3) by (simp add: contact_ok_def)
qed

lemma rotation_lengths:
  "client_ok lib s \<Longrightarrow> length pk = publicKeySize \<Longrightarrow> length (BuildPfsRotateRequest pk (sign lib x s)) \<le> Suc longest_text"
  "client_ok lib s \<Longrightarrow> length pk = publicKeySize \<Longrightarrow> length (BuildPfsRotateAck pk (sign lib x s)) \<le> Suc longest_text"
  by (simp_all add: client_ok_def sign_def identity_signs BuildPfsRotateRequest_def BuildPfsRotateAck_def longest_text_def
      crypto_simps)

lemma client_ok_initiate:
  assumes "sodium_ok lib" "client_ok lib s" "contact_ok c"
  shows "client_ok lib (snd (InitiatePfsRotation lib a c s))"
proof (cases "c_pfsState c = IDLE")
  case True
  have "rng_ok lib (random s)" using assms(2) by (simp add: client_ok_def)
  from generate_ok [OF assms(1) this] obtain sk where sk: "length (scalarmult_base lib sk) = publicKeySize"
      "kx_keypair (random s) (n_keypair s) = Some (scalarmult_base lib sk, sk)" by metis
  let ?t = "s\<lparr>n_keypair := Suc (n_keypair s)\<rparr>"
  have t: "client_ok lib ?t" using assms(2) by simp
  obtain ct where "encrypt lib (c_txKey c) (BuildPfsRotateRequest (scalarmult_base lib sk) (sign lib (scalarmult_base lib sk) ?t)) ?t =
      (Some ct, ?t\<lparr>n_random := Suc (n_random ?t)\<rparr>)" "cell_frame (CreatePush (c_txMailboxId c) ct)"
    by (rule client_ok_seal [OF assms(1) t assms(3) rotation_lengths(1) [OF t sk(1)]])
  then show ?thesis using True sk(2) assms by (auto simp: InitiatePfsRotation_def generate_ephemeral_def intro!: client_ok_set)
qed (use assms in \<open>simp add: InitiatePfsRotation_def\<close>)

lemma client_ok_maybe:
  "sodium_ok lib \<Longrightarrow> client_ok lib s \<Longrightarrow> contact_ok c \<Longrightarrow> client_ok lib (MaybeStartInitialPfs lib a c s)"
  by (simp add: MaybeStartInitialPfs_def client_ok_initiate)

lemma client_ok_connected:
  assumes "sodium_ok lib" "client_ok lib s"
  shows "client_ok lib (on_connected lib s)"
proof -
  have "client_ok lib t \<Longrightarrow> client_ok lib (fold (\<lambda>alias s. case GetContact alias s of None \<Rightarrow> s
      | Some c \<Rightarrow> MaybeStartInitialPfs lib alias c s) as t)" for as t
    by (induction as arbitrary: t)
       (auto split: option.split intro: client_ok_maybe [OF assms(1)] dest: client_ok_contact)
  then show ?thesis using assms(2) by (simp add: on_connected_def StartPendingInitialPfs_def)
qed

lemma pairwise_lengths:
  "sodium_ok lib \<Longrightarrow> DerivePairwiseMailboxes lib k pk = Some d \<Longrightarrow>
   length (dm_txId d) = mailboxIdSize \<and> length (dm_txKey d) = keySize \<and> length (dm_rxId d) = mailboxIdSize \<and> length (dm_rxKey d) = keySize"
  by (auto simp: DerivePairwiseMailboxes_def length_derive split: option.splits)

lemma client_ok_insert:
  assumes "client_ok lib s" "contact_ok c"
  shows "client_ok lib (insert_or_assign a c s)"
  using assms client_ok_set [OF assms] by (simp add: insert_or_assign_def) (simp add: client_ok_def)

lemma client_ok_add:
  assumes "sodium_ok lib" "client_ok lib s"
  shows "client_ok lib (HandleAddContact lib a key s)"
proof -
  have "client_ok lib (snd (AddContact lib a k n s))" for k n
    using assms pairwise_lengths [OF assms(1)]
    by (auto simp: AddContact_def contact_ok_def intro!: client_ok_insert split: option.split)
  then have "AddContact lib a k n s = (ok, s1) \<Longrightarrow> client_ok lib s1" for k n ok s1 by (metis snd_conv)
  moreover have "client_ok lib s2 \<Longrightarrow> client_ok lib (case GetContact a s2 of None \<Rightarrow> s2 | Some c \<Rightarrow> MaybeStartInitialPfs lib a c s2)" for s2
    using client_ok_contact client_ok_maybe [OF assms(1)] by (auto split: option.split)
  ultimately show ?thesis using assms(2)
    by (simp add: HandleAddContact_def Let_def split: option.split prod.split bool.split)
qed

lemma client_ok_send:
  assumes "sodium_ok lib" "client_ok lib s" "length m \<le> longest_text"
  shows "client_ok lib (HandleSend lib a m s)"
proof (cases "GetContact a s")
  case (Some c)
  define s1 where "s1 = append_history
      \<lparr>ce_id = message_id lib m, ce_timestamp = time s, ce_direction = OUTBOUND, ce_alias = a,
       ce_status = PENDING_ACK, ce_payload = m\<rparr> s"
  let ?s2 = "periodic_rotation lib a c s1"
  have ok: "contact_ok c" by (rule client_ok_contact [OF assms(2) Some])
  have s1: "client_ok lib s1" "GetContact a s1 = Some c" using assms(2) Some by (simp_all add: s1_def append_history_def)
  have s2: "client_ok lib ?s2" using s1(1) client_ok_initiate [OF assms(1) s1(1) ok] by (simp add: periodic_rotation_def)
  have "\<exists>c2. GetContact a ?s2 = Some c2" using s1(2)
    by (auto simp: periodic_rotation_def InitiatePfsRotation_def generate_ephemeral_def encrypt_def split: option.split prod.split)
  then obtain c2 where c2: "GetContact a ?s2 = Some c2" by blast
  let ?c3 = "c2\<lparr>c_messageCounter := c_messageCounter c2 + 1\<rparr>"
  have ok3: "contact_ok ?c3" using client_ok_contact [OF s2 c2] by simp
  have "length (BuildTextMessage m) \<le> Suc longest_text" using assms(3) by (simp add: BuildTextMessage_def)
  then obtain ct where "encrypt lib (c_txKey ?c3) (BuildTextMessage m) (set_contact a ?c3 ?s2) =
      (Some ct, (set_contact a ?c3 ?s2)\<lparr>n_random := Suc (n_random (set_contact a ?c3 ?s2))\<rparr>)" "cell_frame (CreatePush (c_txMailboxId ?c3) ct)"
    using client_ok_seal [OF assms(1) client_ok_set [OF s2 ok3] ok3] by metis
  moreover have "HandleSend lib a m s = (if \<not> c_initialPfsComplete c then MaybeStartInitialPfs lib a c s
      else (case encrypt lib (c_txKey ?c3) (BuildTextMessage m) (set_contact a ?c3 ?s2) of
               (None, s4) \<Rightarrow> s4
             | (Some ciphertext, s4) \<Rightarrow> push_outbox (CreatePush (c_txMailboxId ?c3) ciphertext) s4))"
    using Some c2 by (simp add: HandleSend_def Let_def split: option.split prod.split flip: s1_def)
  ultimately show ?thesis using assms(1,2) ok s2 ok3 by (auto intro: client_ok_maybe client_ok_set)
qed (use assms(2) in \<open>simp add: HandleSend_def\<close>)

lemma client_ok_text:
  assumes "sodium_ok lib" "client_ok lib s" "contact_ok c"
  shows "client_ok lib (HandleTextMessage lib a c p m s)"
proof -
  define s1 where "s1 = append_history
      \<lparr>ce_id = message_id lib m, ce_timestamp = time s, ce_direction = INBOUND, ce_alias = a,
       ce_status = DELIVERED, ce_payload = p\<rparr> s"
  have s1: "client_ok lib s1" using assms(2) by (simp add: s1_def append_history_def)
  have "length (map of_char (message_id lib m) :: bytes) \<le> Suc longest_text"
    using assms(1) by (simp add: HashPayload_def sodium_ok_def longest_text_def)
  then obtain ct where "encrypt lib (c_txKey c) (map of_char (message_id lib m)) s1 = (Some ct, s1\<lparr>n_random := Suc (n_random s1)\<rparr>)"
      "cell_frame (CreateAck (c_txMailboxId c) ct)"
    using client_ok_seal [OF assms(1) s1 assms(3)] by metis
  then show ?thesis using s1 by (simp add: HandleTextMessage_def Let_def flip: s1_def)
qed

lemma client_ok_request:
  assumes "sodium_ok lib" "client_ok lib s" "contact_ok c"
  shows "client_ok lib (HandlePfsRotateRequest lib a c p s)"
proof -
  have "rng_ok lib (random s)" using assms(2) by (simp add: client_ok_def)
  from generate_ok [OF assms(1) this] obtain sk where sk: "length (scalarmult_base lib sk) = publicKeySize"
      "kx_keypair (random s) (n_keypair s) = Some (scalarmult_base lib sk, sk)" by metis
  let ?t = "s\<lparr>n_keypair := Suc (n_keypair s)\<rparr>"
  have t: "client_ok lib ?t" using assms(2) by simp
  have seal: "\<exists>ct. encrypt lib (c_txKey c) (BuildPfsRotateAck (scalarmult_base lib sk) (sign lib x ?t)) ?t =
      (Some ct, ?t\<lparr>n_random := Suc (n_random ?t)\<rparr>) \<and> cell_frame (CreatePush (c_txMailboxId c) ct)" for x
    by (rule client_ok_seal [OF assms(1) t assms(3) rotation_lengths(2) [OF t sk(1)]]) blast
  have old: "contact_ok (c\<lparr>c_oldRxMailboxId := Some (c_rxMailboxId c), c_oldRxKey := k\<rparr>)" for k
    using assms(3) by (simp add: contact_ok_def)
  show ?thesis
  proof (cases "ParsePfsRotateRequest p")
    case (Some req)
    obtain ct where "encrypt lib (c_txKey c) (BuildPfsRotateAck (scalarmult_base lib sk)
        (sign lib (pr_ephemeralPublicKey req @ scalarmult_base lib sk) ?t)) ?t = (Some ct, ?t\<lparr>n_random := Suc (n_random ?t)\<rparr>)"
        "cell_frame (CreatePush (c_txMailboxId c) ct)" using seal by blast
    then show ?thesis using Some sk(2) assms old
      by (auto simp: HandlePfsRotateRequest_def generate_ephemeral_def Let_def split: option.split
          intro!: client_ok_set client_ok_maybe contact_ok_adopt)
  qed (use assms(2) in \<open>simp add: HandlePfsRotateRequest_def\<close>)
qed

lemma client_ok_answer:
  assumes "sodium_ok lib" "client_ok lib s" "contact_ok c"
  shows "client_ok lib (HandlePfsRotateAck lib a c p s)"
  using assms by (auto simp: HandlePfsRotateAck_def Let_def split: option.split intro!: client_ok_set contact_ok_adopt)

lemma client_ok_receive:
  assumes "sodium_ok lib" "client_ok lib s"
  shows "client_ok lib (OnFrameReceived lib iterate f s)"
proof -
  have confirm: "contact_ok c \<Longrightarrow> contact_ok (c\<lparr>c_oldRxMailboxId := None, c_oldRxKey := None\<rparr>)" for c
    by (simp add: contact_ok_def)
  have "client_ok lib (ProcessPushFrame lib a c u x s)" if "contact_ok c" for a c u x
    using assms that confirm [OF that] client_ok_set [OF assms(2) confirm [OF that], of a]
    by (simp add: ProcessPushFrame_def Let_def client_ok_text client_ok_request client_ok_answer
        split: option.split PayloadOpcode.split)
  then show ?thesis using assms(2) client_ok_contact [OF assms(2)]
    by (auto simp: OnFrameReceived_def ProcessAckFrame_def Let_def split: option.split)
qed

lemma client_ok_tick:
  assumes "client_ok lib s" "GetNextFrameForCBR s = (f, s')"
  shows "client_ok lib s' \<and> cell_frame f"
proof (cases "outbox s")
  case Nil
  have "length m = mailboxIdSize" if m: "m \<in> set (active_mailboxes s)" for m
  proof -
    obtain a c where "GetContact a s = Some c" "m = c_rxMailboxId c \<or> c_oldRxMailboxId c = Some m"
      using m by (auto simp: active_mailboxes_def split: option.splits) metis+
    moreover from this have "contact_ok c" using client_ok_contact [OF assms(1)] by blast
    ultimately show ?thesis by (auto simp: contact_ok_def)
  qed
  then show ?thesis using assms Nil
    by (auto simp: GetNextFrameForCBR_def Let_def intro!: cell_CreatePoll split: if_splits)
next
  case (Cons g rest)
  then show ?thesis using assms by (auto simp: GetNextFrameForCBR_def client_ok_def)
qed

lemma client_ok_step:
  assumes "sodium_ok lib" "client_ok lib s" "client_step lib iterate s outs s'"
  shows "client_ok lib s' \<and> list_all cell_frame outs"
  using assms(3)
  by (cases rule: client_stepE)
     (use assms(1,2) client_ok_send client_ok_add client_ok_connected client_ok_receive client_ok_tick in auto)

interpretation cells: run_invariant lib iterate "\<lambda>s. sodium_ok lib \<and> client_ok lib s" cell_frame for lib iterate
  by unfold_locales (use client_ok_step in blast)

text \<open>C11: whatever the user types and whatever arrives, every frame a client sends, be it a message, an acknowledgement, a
  step of a key rotation or an empty poll, fills a whole number of 498-byte cells and is taken by the relay's
  parser as this one frame, and the client stays well formed; texts may have up to \<^verbatim>\<open>longest_text\<close> bytes.\<close>

theorem client_sends_cells:
  assumes "sodium_ok lib" "client_ok lib s" "client_run lib iterate s outs s'"
  shows "client_ok lib s' \<and> list_all (\<lambda>f. 498 dvd length (Serialize f) \<and> decode (Serialize f) = ([f], Pending [])) outs"
proof -
  have "client_ok lib s' \<and> list_all cell_frame outs" using cells.run [OF assms(3)] assms(1,2) by blast
  moreover have "cell_frame f \<Longrightarrow> 498 dvd length (Serialize f) \<and> decode (Serialize f) = ([f], Pending [])" for f
    using decode_Serialize [of f "[]"] by (simp add: cell_frame_def protocol_simps decode_unfinished)
  ultimately show ?thesis by (auto simp: list_all_iff)
qed

text \<open>A client that has one contact, sends a message and ticks twice.\<close>

lemma sample_client_ok: "client_ok sample_sodium (sample_client x y a q)"
proof -
  have "contact_ok (sample_contact x y a q)" by (simp add: contact_ok_def)
  moreover have "contacts (sample_client x y a q) = [(a, sample_contact x y a q)]" by (simp add: sample_client_def)
  ultimately show ?thesis using sample_rng_ok sample_identity_ok by (simp add: client_ok_def)
qed

lemma sample_ticks:
  "\<exists>f g s'. client_run sample_sodium sample_iterate (sample_client 1 2 ''bob'' True) [f, g] s'"
proof -
  let ?s = "sample_client 1 2 ''bob'' True" and ?run = "client_run sample_sodium sample_iterate"
  let ?t = "HandleSend sample_sodium ''bob'' [72, 105] ?s"
  have "client_step sample_sodium sample_iterate ?s [] ?t" by (rule Send) (simp add: longest_text_def)
  from Step [OF Begin this] have "?run ?s [] ?t" by simp
  moreover obtain f u where "GetNextFrameForCBR ?t = (f, u)" by (cases "GetNextFrameForCBR ?t") auto
  ultimately have "?run ?s [f] u" using Step Tick by fastforce
  moreover obtain g v where "GetNextFrameForCBR u = (g, v)" by (cases "GetNextFrameForCBR u") auto
  ultimately have "?run ?s [f, g] v" using Step Tick by fastforce
  then show ?thesis by blast
qed

theorem client_sends_cells_witness:
  "\<exists>f g s'. client_run sample_sodium sample_iterate (sample_client 1 2 ''bob'' True) [f, g] s' \<and>
     498 dvd length (Serialize f) \<and> decode (Serialize f) = ([f], Pending []) \<and> 498 dvd length (Serialize g)"
proof -
  obtain f g s' where r: "client_run sample_sodium sample_iterate (sample_client 1 2 ''bob'' True) [f, g] s'"
    using sample_ticks by blast
  from client_sends_cells [OF sample_sodium_ok sample_client_ok r] r show ?thesis by auto
qed

section \<open>Signed changes\<close>

definition keys_of :: "Contact \<Rightarrow> bytes list" where
  "keys_of c = [c_publicKey c, c_rxMailboxId c, c_txMailboxId c, c_rxKey c, c_txKey c]"




lemma keys_of_same [simp]:
  "keys_of (c\<lparr>c_messageCounter := n\<rparr>) = keys_of c" "keys_of (c\<lparr>c_pfsState := p\<rparr>) = keys_of c"
  "keys_of (c\<lparr>c_pendingEphemeralKey := k\<rparr>) = keys_of c" "keys_of (c\<lparr>c_oldRxMailboxId := x\<rparr>) = keys_of c"
  "keys_of (c\<lparr>c_oldRxKey := y\<rparr>) = keys_of c"
  by (simp_all add: keys_of_def)

lemma set_keys:
  "GetContact b s = Some c \<Longrightarrow> keys_of c' = keys_of c \<Longrightarrow>
   map_option keys_of (GetContact a (set_contact b c' s)) = map_option keys_of (GetContact a s)"
  by simp

lemma initiate_keys:
  "GetContact b s = Some c \<Longrightarrow>
   map_option keys_of (GetContact a (snd (InitiatePfsRotation lib b c s))) = map_option keys_of (GetContact a s)"
  by (auto simp: InitiatePfsRotation_def generate_ephemeral_def encrypt_def split: option.split)






section \<open>The file of the contacts\<close>

definition synced :: "Repl \<Rightarrow> bool" where
  "synced s \<longleftrightarrow> contacts_locked s \<or> contacts_file s = SyncContactsToDisk (map snd (entries s))"

lemma contacts_lines_cong: "map contact_text cs = map contact_text ds \<Longrightarrow> contacts_lines cs = contacts_lines ds"
proof (induction cs arbitrary: ds rule: contacts_lines.induct)
  case (3 c d cs)
  then obtain c' d' ds' where "ds = c' # d' # ds'" by (auto simp: map_eq_Cons_conv Cons_eq_map_conv)
  then show ?case using 3 by auto
qed auto

lemma contact_text_same [simp]:
  "contact_text (c\<lparr>c_messageCounter := n\<rparr>) = contact_text c" "contact_text (c\<lparr>c_pfsState := p\<rparr>) = contact_text c"
  "contact_text (c\<lparr>c_pendingEphemeralKey := k\<rparr>) = contact_text c" "contact_text (c\<lparr>c_oldRxMailboxId := x\<rparr>) = contact_text c"
  "contact_text (c\<lparr>c_oldRxKey := y\<rparr>) = contact_text c"
  by (simp_all add: contact_text_def)

lemma synced_cong:
  assumes "contacts s = contacts t" "traversal s = traversal t" "contacts_file s = contacts_file t" "contacts_locked s = contacts_locked t"
  shows "synced s = synced t"
proof -
  have "entries s = entries t" using assms(1,2) by (simp add: entries_def GetAllAliases_def GetContact_def)
  then show ?thesis using assms(3,4) by (simp add: synced_def)
qed

lemma synced_same [simp]:
  "synced (s\<lparr>n_random := i\<rparr>) = synced s" "synced (s\<lparr>n_keypair := i\<rparr>) = synced s" "synced (s\<lparr>history := h\<rparr>) = synced s"
  "synced (s\<lparr>time := t\<rparr>) = synced s" "synced (s\<lparr>connected := q\<rparr>) = synced s" "synced (s\<lparr>contactAliases := as\<rparr>) = synced s"
  "synced (s\<lparr>currentPollIndex := k\<rparr>) = synced s" "synced (s\<lparr>outbox := fs\<rparr>) = synced s" "synced (push_outbox f s) = synced s"
  by (rule synced_cong; simp)+

lemma synced_Save [simp]: "synced (SaveToDisk s)"
  by (simp add: synced_def SaveToDisk_def entries_def GetAllAliases_def GetContact_def)

lemma synced_set:
  assumes "synced s" "GetContact b s = Some c" "contact_text c' = contact_text c"
  shows "synced (set_contact b c' s)"
proof -
  have "map contact_text (map snd (entries (set_contact b c' s))) = map contact_text (map snd (entries s))"
    using assms(2,3) by (auto simp: entries_def GetAllAliases_def)
  from contacts_lines_cong [OF this] show ?thesis using assms(1) by (simp add: synced_def SyncContactsToDisk_def)
qed

lemma synced_initiate:
  assumes "synced s" "GetContact b s = Some c"
  shows "synced (snd (InitiatePfsRotation lib b c s))"
proof -
  have "synced (set_contact b (c\<lparr>c_pfsState := p, c_pendingEphemeralKey := k, c_messageCounter := 0\<rparr>)
      (push_outbox f (s\<lparr>n_keypair := i, n_random := j\<rparr>)))" for p k f i j
    by (rule synced_set [where c = c]) (use assms in simp_all)
  then show ?thesis using assms(1)
    by (auto simp: InitiatePfsRotation_def generate_ephemeral_def encrypt_def split: option.split)
qed

lemma synced_maybe: "synced s \<Longrightarrow> GetContact b s = Some c \<Longrightarrow> synced (MaybeStartInitialPfs lib b c s)"
  by (simp add: MaybeStartInitialPfs_def synced_initiate)

lemma synced_connected: "synced s \<Longrightarrow> synced (on_connected lib s)"
proof -
  have "synced t \<Longrightarrow> synced (fold (\<lambda>alias s. case GetContact alias s of None \<Rightarrow> s
      | Some c \<Rightarrow> MaybeStartInitialPfs lib alias c s) as t)" for as t
    by (induction as arbitrary: t) (auto split: option.split intro: synced_maybe)
  then show "synced s \<Longrightarrow> synced (on_connected lib s)" by (simp add: on_connected_def StartPendingInitialPfs_def)
qed

lemma synced_add:
  assumes "synced s"
  shows "synced (HandleAddContact lib a key s)"
proof -
  have "AddContact lib a k n s = (ok, s1) \<Longrightarrow> synced s1" for k n ok s1
    using assms by (auto simp: AddContact_def split: option.splits)
  moreover have "synced s2 \<Longrightarrow> synced (case GetContact a s2 of None \<Rightarrow> s2 | Some c \<Rightarrow> MaybeStartInitialPfs lib a c s2)" for s2
    using synced_maybe by (auto split: option.split)
  ultimately show ?thesis using assms
    by (simp add: HandleAddContact_def Let_def split: option.split prod.split bool.split)
qed

lemma synced_send:
  assumes "synced s"
  shows "synced (HandleSend lib a m s)"
proof (cases "GetContact a s")
  case (Some c)
  define s1 where "s1 = append_history
      \<lparr>ce_id = message_id lib m, ce_timestamp = time s, ce_direction = OUTBOUND, ce_alias = a,
       ce_status = PENDING_ACK, ce_payload = m\<rparr> s"
  let ?s2 = "periodic_rotation lib a c s1"
  have s1: "synced s1" "GetContact a s1 = Some c" using assms Some by (simp_all add: s1_def append_history_def)
  have s2: "synced ?s2" using s1 synced_initiate [OF s1] by (simp add: periodic_rotation_def)
  have "\<exists>c2. GetContact a ?s2 = Some c2" using s1(2)
    by (auto simp: periodic_rotation_def InitiatePfsRotation_def generate_ephemeral_def encrypt_def split: option.split prod.split)
  then obtain c2 where c2: "GetContact a ?s2 = Some c2" by blast
  have s3: "synced (set_contact a (c2\<lparr>c_messageCounter := c_messageCounter c2 + 1\<rparr>) ?s2)"
    by (rule synced_set [OF s2 c2]) simp
  have "synced (case encrypt lib k p t of (None, s4) \<Rightarrow> s4 | (Some ct, s4) \<Rightarrow> push_outbox (F ct) s4)" if "synced t" for k p t F
    using that by (auto simp: encrypt_def split: option.split)
  from this [OF s3] show ?thesis using Some c2 assms synced_maybe by (simp add: HandleSend_def Let_def flip: s1_def)
qed (use assms in \<open>simp add: HandleSend_def\<close>)

lemma synced_request:
  assumes "synced s" "GetContact b s = Some c"
  shows "synced (HandlePfsRotateRequest lib b c p s)"
proof -
  have "synced (set_contact b (c\<lparr>c_oldRxMailboxId := x, c_oldRxKey := y\<rparr>) (push_outbox f (s\<lparr>n_keypair := i, n_random := j\<rparr>)))"
      "synced (set_contact b c (push_outbox f (s\<lparr>n_keypair := i, n_random := j\<rparr>)))" for x y f i j
    by (rule synced_set [where c = c]; use assms in simp)+
  then show ?thesis using assms synced_maybe
    by (auto simp: HandlePfsRotateRequest_def generate_ephemeral_def encrypt_def Let_def split: option.split)
qed

lemma synced_receive:
  assumes "synced s"
  shows "synced (OnFrameReceived lib iterate f s)"
proof -
  have ack: "synced t \<Longrightarrow> synced (HandlePfsRotateAck lib b c p t)" for b c p t
    by (auto simp: HandlePfsRotateAck_def Let_def split: option.split)
  have msg: "synced t \<Longrightarrow> synced (HandleTextMessage lib b c p m t)" for b c p m t
    by (auto simp: HandleTextMessage_def append_history_def encrypt_def Let_def split: option.split)
  have req: "synced (HandlePfsRotateRequest lib b d p (SaveToDisk (set_contact b d s)))" if "GetContact b s = Some c" for b c d p
    by (rule synced_request) (use that in simp_all)
  have "synced (ProcessPushFrame lib b c u x s)" if "GetContact b s = Some c" for b c u x
    using assms that req [OF that] synced_request [OF assms that]
    by (auto simp: ProcessPushFrame_def Let_def ack msg split: option.split PayloadOpcode.split)
  then show ?thesis using assms by (simp add: OnFrameReceived_def ProcessAckFrame_def Let_def split: option.split)
qed

lemma synced_step: "synced s \<Longrightarrow> client_step lib iterate s outs s' \<Longrightarrow> synced s'"
  by (erule client_stepE)
     (auto simp: synced_send synced_add synced_connected synced_receive GetNextFrameForCBR_def Let_def
        split: list.splits if_splits)

interpretation stored: run_invariant lib iterate synced "\<lambda>_. True" for lib iterate
  by unfold_locales (use synced_step in \<open>auto simp: list_all_iff\<close>)

text \<open>C26: the contacts file is never behind: after any run of a client whose file can be written and was current at its start,
  the file holds the text of all the contacts with the mailboxes, keys and readiness they have now, so
  that none of the changes a handler makes in memory only concerns what is stored.\<close>

theorem contacts_file_current:
  assumes "client_run lib iterate s outs s'" "synced s" "\<not> contacts_locked s'"
  shows "contacts_file s' = SyncContactsToDisk (map snd (entries s'))"
  using stored.run [OF assms(1,2)] assms(3) by (simp add: synced_def)

theorem contacts_file_current_witness:
  "\<exists>outs s'. client_run sample_sodium sample_iterate (sample_client 1 2 ''bob'' True) outs s' \<and> outs \<noteq> [] \<and>
     contacts_file s' = SyncContactsToDisk (map snd (entries s'))"
proof -
  let ?s = "sample_client 1 2 ''bob'' True" and ?run = "client_run sample_sodium sample_iterate"
  have e: "contacts ?s = [(''bob'', sample_contact 1 2 ''bob'' True)]" "traversal ?s = (\<lambda>as. as)" "\<not> contacts_locked ?s"
      "contacts_file ?s = SyncContactsToDisk [sample_contact 1 2 ''bob'' True]" by (simp_all add: sample_client_def)
  then have y: "synced ?s" by (simp add: synced_def entries_def GetAllAliases_def)
  obtain f s' where t: "GetNextFrameForCBR ?s = (f, s')" by (cases "GetNextFrameForCBR ?s") auto
  from Step [OF Begin Tick [OF t]] have r: "?run ?s [f] s'" by simp
  have "\<not> contacts_locked s'" using t e(3) by (auto simp: GetNextFrameForCBR_def Let_def split: list.splits if_splits)
  from contacts_file_current [OF r y this] r show ?thesis by blast
qed

end
