(* ===== verification/Network.thy ===== *)
theory Network
  imports ClientNet ClientRuns
begin

text \<open>
  The clients and the relay together.  Every client has one connection; its ticks, the completions of its writes, the
  reads of the relay and its own reads come in any order, and a read takes any number of the bytes that are under way.
  The whole refines a network of mailboxes, in which frames travel one by one and in order.
\<close>

section \<open>The network\<close>

text \<open>A client, with the number of bytes that the relay has read of it and that it has read of the relay.\<close>

record link =
  tcp :: TcpClient
  repl :: Repl
  relay_got :: nat
  client_got :: nat

record network =
  server :: TcpServer
  links :: "link list"

datatype user_command = SendText string bytes | AddKey string "bytes option" | Clock "64 word"

fun do_command :: "sodium \<Rightarrow> user_command \<Rightarrow> Repl \<Rightarrow> Repl" where
  "do_command lib (SendText alias m) s = HandleSend lib alias m s"
| "do_command lib (AddKey alias key) s = HandleAddContact lib alias key s"
| "do_command lib (Clock t) s = s\<lparr>time := t\<rparr>"

fun command_ok :: "user_command \<Rightarrow> bool" where
  "command_ok (SendText alias m) = (length m \<le> longest_text)"
| "command_ok _ = True"

datatype net_event =
  Join "nat \<Rightarrow> bytes" "accept_error option" Repl
| Typed nat user_command
| Tick nat
| ClientWrote nat
| ClientReads nat nat
| RelayWrote nat
| RelayReads nat nat
| RelayTimer "string option"

definition new_link :: "sodium \<Rightarrow> Repl \<Rightarrow> link" where
  "new_link lib s = \<lparr>tcp = StartAsyncEngine new_client, repl = on_connected lib s, relay_got = 0, client_got = 0\<rparr>"

definition session_of :: "network \<Rightarrow> nat \<Rightarrow> TcpSession" where
  "session_of n i = sessions (server n) ! i"

text \<open>The next bytes on the two directions of a connection.\<close>

definition to_relay :: "link \<Rightarrow> bytes" where
  "to_relay l = drop (relay_got l) (concat (cl_async_writes (tcp l)))"

definition to_client :: "TcpSession \<Rightarrow> link \<Rightarrow> bytes" where
  "to_client r l = drop (client_got l) (concat (async_writes r))"

definition set_link :: "nat \<Rightarrow> link \<Rightarrow> network \<Rightarrow> network" where
  "set_link i l n = n\<lparr>links := (links n)[i := l]\<rparr>"

inductive net_step ::
  "(bytes \<Rightarrow> bytes) \<Rightarrow> sodium \<Rightarrow> (string \<Rightarrow> json_object option) \<Rightarrow> network \<Rightarrow> net_event \<Rightarrow> network \<Rightarrow> bool"
  for H lib iterate where
  join: "length (rb challengSize) = challengSize \<Longrightarrow> client_ok lib s \<Longrightarrow>
    server_step H (server n) (Accepted rb e) srv \<Longrightarrow>
    net_step H lib iterate n (Join rb e s)
      \<lparr>server = srv,
       links = links n @ (if length (sessions (server n)) < length (sessions srv) then [new_link lib s] else [])\<rparr>"
| typed: "i < length (links n) \<Longrightarrow> l = links n ! i \<Longrightarrow> command_ok c \<Longrightarrow>
    net_step H lib iterate n (Typed i c) (set_link i (l\<lparr>repl := do_command lib c (repl l)\<rparr>) n)"
| tick: "i < length (links n) \<Longrightarrow> l = links n ! i \<Longrightarrow> DoCbrTick GetNextFrameForCBR (tcp l) (repl l) = (k, s) \<Longrightarrow>
    net_step H lib iterate n (Tick i) (set_link i (l\<lparr>tcp := k, repl := s\<rparr>) n)"
| client_wrote: "i < length (links n) \<Longrightarrow> l = links n ! i \<Longrightarrow> cl_writeInProgress (tcp l) \<Longrightarrow>
    net_step H lib iterate n (ClientWrote i) (set_link i (l\<lparr>tcp := cl_write_completed False (tcp l)\<rparr>) n)"
| client_reads: "i < length (links n) \<Longrightarrow> l = links n ! i \<Longrightarrow> cl_reading (tcp l) \<Longrightarrow>
    d = take m (to_client (session_of n i) l) \<Longrightarrow> d \<noteq> [] \<Longrightarrow>
    cl_read_completed H (OnFrameReceived lib iterate) (Bytes d) (tcp l) (repl l) = Some (k, s) \<Longrightarrow>
    net_step H lib iterate n (ClientReads i m)
      (set_link i (l\<lparr>tcp := k, repl := s, client_got := client_got l + length d\<rparr>) n)"
| relay_wrote: "i < length (links n) \<Longrightarrow> server_step H (server n) (Wrote i False) srv \<Longrightarrow>
    net_step H lib iterate n (RelayWrote i) (n\<lparr>server := srv\<rparr>)"
| relay_reads: "i < length (links n) \<Longrightarrow> l = links n ! i \<Longrightarrow> d = take m (to_relay l) \<Longrightarrow> d \<noteq> [] \<Longrightarrow>
    server_step H (server n) (Read i (Some d)) srv \<Longrightarrow>
    net_step H lib iterate n (RelayReads i m)
      (set_link i (l\<lparr>relay_got := relay_got l + length d\<rparr>) (n\<lparr>server := srv\<rparr>))"
| relay_timer: "server_step H (server n) (Timer status) srv \<Longrightarrow>
    net_step H lib iterate n (RelayTimer status) (n\<lparr>server := srv\<rparr>)"

inductive net_run ::
  "(bytes \<Rightarrow> bytes) \<Rightarrow> sodium \<Rightarrow> (string \<Rightarrow> json_object option) \<Rightarrow> network \<Rightarrow> net_event list \<Rightarrow> network \<Rightarrow> bool"
  for H lib iterate where
  Start: "net_run H lib iterate n [] n"
| More: "net_run H lib iterate n es n' \<Longrightarrow> net_step H lib iterate n' e n'' \<Longrightarrow> net_run H lib iterate n (es @ [e]) n''"

section \<open>The network of mailboxes\<close>

record mail_link =
  m_repl :: Repl
  joined :: bool
  m_sent :: "frame list"
  ups :: "frame list"
  downs :: "frame list"
  m_received :: "frame list"

record mail =
  m_boxes :: boxes
  m_links :: "mail_link list"

text \<open>What the relay does with frames of a client: it stores a message, and answers a poll with the oldest one.\<close>

fun relay_frames :: "nat \<Rightarrow> frame list \<Rightarrow> boxes \<Rightarrow> frame list \<times> boxes" where
  "relay_frames cap [] q = ([], q)"
| "relay_frames cap (f # fs) q =
     (if fr_action f = POLL then
        (case spec_poll (fr_mailbox f) q of (r, q1) \<Rightarrow>
         case relay_frames cap fs q1 of (gs, q2) \<Rightarrow>
           ((case r of Some g \<Rightarrow> g | None \<Rightarrow> CreatePoll (fr_mailbox f)) # gs, q2))
      else relay_frames cap fs (spec_push cap f q))"

definition set_mail :: "nat \<Rightarrow> mail_link \<Rightarrow> mail \<Rightarrow> mail" where
  "set_mail i l m = m\<lparr>m_links := (m_links m)[i := l]\<rparr>"

inductive mail_step :: "sodium \<Rightarrow> (string \<Rightarrow> json_object option) \<Rightarrow> nat \<Rightarrow> mail \<Rightarrow> mail \<Rightarrow> bool"
  for lib iterate cap where
  idle: "mail_step lib iterate cap m m"
| arrive: "mail_step lib iterate cap m
    (m\<lparr>m_links := m_links m @
      [\<lparr>m_repl = on_connected lib s, joined = False, m_sent = [], ups = [], downs = [], m_received = []\<rparr>]\<rparr>)"
| enter: "i < length (m_links m) \<Longrightarrow> l = m_links m ! i \<Longrightarrow>
    mail_step lib iterate cap m (set_mail i (l\<lparr>m_repl := do_command lib c (m_repl l)\<rparr>) m)"
| authenticate: "i < length (m_links m) \<Longrightarrow> l = m_links m ! i \<Longrightarrow> \<not> joined l \<Longrightarrow>
    mail_step lib iterate cap m (set_mail i (l\<lparr>joined := True\<rparr>) m)"
| send: "i < length (m_links m) \<Longrightarrow> l = m_links m ! i \<Longrightarrow> joined l \<Longrightarrow> GetNextFrameForCBR (m_repl l) = (f, s) \<Longrightarrow>
    mail_step lib iterate cap m (set_mail i (l\<lparr>m_repl := s, m_sent := m_sent l @ [f], ups := ups l @ [f]\<rparr>) m)"
| relay: "i < length (m_links m) \<Longrightarrow> l = m_links m ! i \<Longrightarrow> joined l \<Longrightarrow> ups l = fs @ rest \<Longrightarrow>
    relay_frames cap fs (m_boxes m) = (gs, q) \<Longrightarrow>
    mail_step lib iterate cap m (set_mail i (l\<lparr>ups := rest, downs := downs l @ gs\<rparr>) (m\<lparr>m_boxes := q\<rparr>))"
| receive: "i < length (m_links m) \<Longrightarrow> l = m_links m ! i \<Longrightarrow> joined l \<Longrightarrow> downs l = gs @ rest \<Longrightarrow>
    mail_step lib iterate cap m
      (set_mail i (l\<lparr>m_repl := fold (OnFrameReceived lib iterate) gs (m_repl l), downs := rest,
        m_received := m_received l @ gs\<rparr>) m)"

inductive mail_run :: "sodium \<Rightarrow> (string \<Rightarrow> json_object option) \<Rightarrow> nat \<Rightarrow> mail \<Rightarrow> mail \<Rightarrow> bool"
  for lib iterate cap where
  m_start: "mail_run lib iterate cap m m"
| m_more: "mail_run lib iterate cap m m' \<Longrightarrow> mail_step lib iterate cap m' m'' \<Longrightarrow> mail_run lib iterate cap m m''"

end
