(* ===== verification/NetworkProps.thy ===== *)
theory NetworkProps
  imports Network "HOL-Library.Multiset"
begin

text \<open>
  The clients and the relay refine the network of mailboxes: whatever the order of the handlers and however the bytes are cut,
  the frames that are written, under way, waiting and read are those of a run of the mailboxes.  No frame is lost
  that a mailbox has room for, and none is made up.
\<close>

section \<open>One direction of a connection\<close>

text \<open>Of the bytes \<^verbatim>\<open>out\<close> that are written, the reader has had \<^verbatim>\<open>got\<close>; they hold the frames \<^verbatim>\<open>past\<close> and end with
  the bytes \<^verbatim>\<open>pend\<close> of the next one; the frames \<^verbatim>\<open>left\<close> are to come.\<close>

definition flow :: "bytes \<Rightarrow> bytes \<Rightarrow> nat \<Rightarrow> frame list \<Rightarrow> frame list \<Rightarrow> bool" where
  "flow pend out got past left \<longleftrightarrow>
     got \<le> length out \<and> decode (take got out) = (past, Pending pend) \<and> decode (pend @ drop got out) = (left, Pending [])"

lemma flow_all: "flow pend out got past left \<Longrightarrow> decode out = (past @ left, Pending [])"
  using decode_append [of "take got out" past "Pending pend" "drop got out"] by (simp add: flow_def)

lemma flow_pend: "flow pend out got past left \<Longrightarrow> unfinished pend"
  using decode_pending by (auto simp: flow_def)

lemma flow_start: "list_all wf_frame fs \<Longrightarrow> flow [] (concat (map Serialize fs)) 0 [] fs"
  by (simp add: flow_def decode_frames decode_unfinished)

lemma flow_write:
  assumes "flow pend out got past left" "list_all wf_frame gs"
  shows "flow pend (out @ concat (map Serialize gs)) got past (left @ gs)"
  using assms decode_append [of "pend @ drop got out" left "Pending []" "concat (map Serialize gs)"] decode_frames [OF assms(2)]
  by (simp add: flow_def)

lemma flow_read:
  assumes "flow pend out got past left" "prefix d (drop got out)"
  obtains f1 p f2 where "left = f1 @ f2" "decode (pend @ d) = (f1, Pending p)" "flow p out (got + length d) (past @ f1) f2"
proof -
  obtain rest where rest: "drop got out = d @ rest" using assms(2) by (auto simp: prefix_def)
  have out: "out = take got out @ d @ rest" using rest by (metis append_take_drop_id)
  have "length out = got + length d + length rest" using assms(1) arg_cong [OF rest, of length] by (auto simp: flow_def)
  then have cut: "take (got + length d) out = take got out @ d" "drop (got + length d) out = rest" "got + length d \<le> length out"
    using rest take_add [of got "length d" out] drop_drop [of "length d" got out] by (simp_all add: add.commute)
  obtain f1 e1 where d: "decode (pend @ d) = (f1, e1)" by fastforce
  have l: "decode ((pend @ d) @ rest) = (left, Pending [])" using assms(1) rest by (simp add: flow_def)
  then obtain p where p: "e1 = Pending p" using decode_append [OF d, of rest] by (cases e1) auto
  obtain f2 where f2: "decode (p @ rest) = (f2, Pending [])" "left = f1 @ f2"
    using l decode_append [OF d, of rest] p by (auto split: prod.splits)
  have "decode (take got out @ d) = (past @ f1, Pending p)"
    using decode_append [of "take got out" past "Pending pend" d] assms(1) d p by (simp add: flow_def)
  then show thesis using that [OF f2(2)] d p f2(1) cut by (simp add: flow_def)
qed

section \<open>One connection\<close>

definition mail_frame :: "frame \<Rightarrow> bool" where
  "mail_frame f \<longleftrightarrow> wf_frame f \<and> fr_action f \<in> {PUSH, POLL, ACK}"

definition wire :: "TcpSession \<Rightarrow> link \<Rightarrow> frame list \<Rightarrow> frame list \<Rightarrow> frame list \<Rightarrow> frame list \<Rightarrow> bool" where
  "wire r l ud ul dd dl \<longleftrightarrow>
     flow (stored (parser r)) (concat (client_output (tcp l))) (relay_got l) ud ul \<and>
     flow (stored (cl_parser (tcp l))) (concat (session_output r)) (client_got l) dd dl"

definition challenge_of :: "TcpSession \<Rightarrow> frame" where
  "challenge_of r = CreateAuthChallenge (replicate mailboxIdSize 0) (currentChallenge r)"

text \<open>The connection is fresh, or the client has answered, or the relay has checked the answer.\<close>

definition phase ::
  "(bytes \<Rightarrow> bytes) \<Rightarrow> TcpSession \<Rightarrow> bool \<Rightarrow> frame list \<Rightarrow> frame list \<Rightarrow> frame list \<Rightarrow> frame list \<Rightarrow> bool" where
  "phase H r au ud ul dd dl \<longleftrightarrow>
     (if \<not> au then session_state r = UNAUTHENTICATED \<and> ud = [] \<and> ul = [] \<and> dd = [] \<and> dl = [challenge_of r]
      else if session_state r = UNAUTHENTICATED then
        ud = [] \<and> ul \<noteq> [] \<and> authentic H (currentChallenge r) (hd ul) \<and> list_all mail_frame (tl ul) \<and> dl = [] \<and> dd \<noteq> []
      else ud \<noteq> [] \<and> list_all mail_frame ul \<and> dd \<noteq> [] \<and> list_all mail_frame dl)"

definition link_ok :: "(bytes \<Rightarrow> bytes) \<Rightarrow> sodium \<Rightarrow> TcpSession \<Rightarrow> link \<Rightarrow> bool" where
  "link_ok H lib r l \<longleftrightarrow>
     session_ok r \<and> reading r \<and> is_open r \<and> length (currentChallenge r) = challengSize \<and>
     cl_parser (tcp l) = parser_of (stored (cl_parser (tcp l))) \<and> cl_write_ok (tcp l) \<and> cl_reading (tcp l) \<and> cl_open (tcp l) \<and>
     client_ok lib (repl l) \<and>
     (\<exists>ud ul dd dl. wire r l ud ul dd dl \<and> phase H r (isAuthenticated (tcp l)) ud ul dd dl)"

text \<open>The frames of a connection, without those of the authentication: written by the client, under way to the relay, under way to
  the client, and read by the client.\<close>

definition sent_frames :: "link \<Rightarrow> frame list" where
  "sent_frames l = tl (fst (decode (concat (client_output (tcp l)))))"

definition up_frames :: "TcpSession \<Rightarrow> link \<Rightarrow> frame list" where
  "up_frames r l =
     (let fs = fst (decode (stored (parser r) @ drop (relay_got l) (concat (client_output (tcp l))))) in
      if session_state r = UNAUTHENTICATED then tl fs else fs)"

definition down_frames :: "TcpSession \<Rightarrow> link \<Rightarrow> frame list" where
  "down_frames r l =
     (if isAuthenticated (tcp l)
      then fst (decode (stored (cl_parser (tcp l)) @ drop (client_got l) (concat (session_output r)))) else [])"

definition received_frames :: "TcpSession \<Rightarrow> link \<Rightarrow> frame list" where
  "received_frames r l = tl (fst (decode (take (client_got l) (concat (session_output r)))))"

definition view :: "TcpSession \<Rightarrow> link \<Rightarrow> mail_link" where
  "view r l =
     \<lparr>m_repl = repl l, joined = isAuthenticated (tcp l), m_sent = sent_frames l, ups = up_frames r l,
      downs = down_frames r l, m_received = received_frames r l\<rparr>"

lemma view_wire:
  "wire r l ud ul dd dl \<Longrightarrow> view r l =
     \<lparr>m_repl = repl l, joined = isAuthenticated (tcp l), m_sent = tl (ud @ ul),
      ups = (if session_state r = UNAUTHENTICATED then tl ul else ul), downs = (if isAuthenticated (tcp l) then dl else []),
      m_received = tl dd\<rparr>"
  using flow_all [of "stored (parser r)" "concat (client_output (tcp l))" "relay_got l" ud ul]
  unfolding wire_def view_def sent_frames_def up_frames_def down_frames_def received_frames_def
  by (simp add: flow_def Let_def)

lemma client_output_prefix: "prefix (concat (cl_async_writes k)) (concat (client_output k))"
  by (simp add: client_output_def)

lemma session_output_prefix: "prefix (concat (async_writes r)) (concat (session_output r))"
  by (simp add: session_output_def)

lemma prefix_under_way:
  assumes "prefix a b" "d = take m (drop n a)"
  shows "prefix d (drop n b)"
proof -
  obtain c where "b = a @ c" using assms(1) by (auto simp: prefix_def)
  then show ?thesis using assms(2) by (simp add: take_is_prefix prefix_append)
qed

section \<open>The steps of the client\<close>

lemma mail_frame_wf: "list_all mail_frame fs \<Longrightarrow> list_all wf_frame fs"
  by (simp add: list_all_iff mail_frame_def)

lemma cell_mail: "cell_frame f \<Longrightarrow> mail_frame f"
  by (simp add: cell_frame_def mail_frame_def)

lemma DoCbrTick_spec:
  assumes "cl_write_ok k" "DoCbrTick provider k a = (k', a')"
  shows "cl_write_ok k'" "cl_parser k' = cl_parser k" "cl_open k' = cl_open k" "cl_reading k' = cl_reading k"
    "isAuthenticated k' = isAuthenticated k" "\<not> isAuthenticated k \<Longrightarrow> client_output k' = client_output k \<and> a' = a"
    "isAuthenticated k \<Longrightarrow> \<exists>f. provider a = (f, a') \<and> client_output k' = client_output k @ [Serialize f]"
proof -
  have "cl_write_ok (k\<lparr>timer_set := True\<rparr>)" using assms(1) by simp
  note w = queue_write [OF this]
  show "cl_write_ok k'" "cl_parser k' = cl_parser k" "cl_open k' = cl_open k" "cl_reading k' = cl_reading k"
      "isAuthenticated k' = isAuthenticated k" "\<not> isAuthenticated k \<Longrightarrow> client_output k' = client_output k \<and> a' = a"
      "isAuthenticated k \<Longrightarrow> \<exists>f. provider a = (f, a') \<and> client_output k' = client_output k @ [Serialize f]"
    using assms w by (auto simp: DoCbrTick_def Let_def split: if_splits prod.splits)
qed

lemma client_output_write_completed:
  "cl_write_ok k \<Longrightarrow> cl_writeInProgress k \<Longrightarrow>
   client_output (cl_write_completed False k) = client_output k \<and> cl_write_ok (cl_write_completed False k)"
  by (cases "cl_writeQueue k"; cases "tl (cl_writeQueue k)")
    (auto simp: client_output_def cl_write_ok_def cl_write_completed_def cl_DoWrite_def Let_def)

lemma write_completed_keeps:
  "cl_parser (cl_write_completed False k) = cl_parser k" "cl_open (cl_write_completed False k) = cl_open k"
  "cl_reading (cl_write_completed False k) = cl_reading k" "isAuthenticated (cl_write_completed False k) = isAuthenticated k"
  by (simp_all add: cl_write_completed_def cl_DoWrite_def Let_def)

lemma do_command_ok: "sodium_ok lib \<Longrightarrow> command_ok c \<Longrightarrow> client_ok lib s \<Longrightarrow> client_ok lib (do_command lib c s)"
  by (cases c) (auto intro: client_ok_send client_ok_add)

lemma link_okE:
  assumes "link_ok H lib r l"
  obtains ud ul dd dl where "wire r l ud ul dd dl" "phase H r (isAuthenticated (tcp l)) ud ul dd dl"
  using assms unfolding link_ok_def by blast

lemma link_wires:
  assumes "link_ok H lib r l" "wire r' l' ud ul dd dl" "phase H r' (isAuthenticated (tcp l')) ud ul dd dl" "client_ok lib (repl l')"
    and "session_ok r'" "reading r'" "is_open r'" "currentChallenge r' = currentChallenge r"
    and "cl_parser (tcp l') = parser_of (stored (cl_parser (tcp l')))" "cl_write_ok (tcp l')" "cl_reading (tcp l')" "cl_open (tcp l')"
  shows "link_ok H lib r' l'"
  using assms unfolding link_ok_def by auto

lemma link_typed:
  assumes "sodium_ok lib" "link_ok H lib r l" "command_ok c"
  defines "l' \<equiv> l\<lparr>repl := do_command lib c (repl l)\<rparr>"
  shows "link_ok H lib r l' \<and> view r l' = (view r l)\<lparr>m_repl := do_command lib c (m_repl (view r l))\<rparr>"
  using assms(2) do_command_ok [OF assms(1,3)]
  by (simp add: l'_def link_ok_def wire_def view_def sent_frames_def up_frames_def down_frames_def received_frames_def)

lemma link_client_wrote:
  assumes "link_ok H lib r l" "cl_writeInProgress (tcp l)"
  defines "l' \<equiv> l\<lparr>tcp := cl_write_completed False (tcp l)\<rparr>"
  shows "link_ok H lib r l' \<and> view r l' = view r l"
proof -
  have "client_output (cl_write_completed False (tcp l)) = client_output (tcp l)" "cl_write_ok (cl_write_completed False (tcp l))"
    using client_output_write_completed [OF _ assms(2)] assms(1) by (simp_all add: link_ok_def)
  then show ?thesis using assms(1)
    by (simp add: l'_def link_ok_def wire_def view_def sent_frames_def up_frames_def down_frames_def received_frames_def
        write_completed_keeps)
qed

lemma link_relay_wrote:
  assumes "link_ok H lib r l" "writeInProgress r"
  shows "link_ok H lib (write_completed False r) l \<and> view (write_completed False r) l = view r l"
proof -
  have "write_ok r" using assms(1) by (simp add: link_ok_def session_ok_def)
  then have o: "session_output (write_completed False r) = session_output r" "write_ok (write_completed False r)"
    using session_output_write_completed [OF _ assms(2)] by simp_all
  obtain ud ul dd dl where w: "wire r l ud ul dd dl" "phase H r (isAuthenticated (tcp l)) ud ul dd dl"
    using assms(1) by (rule link_okE)
  have w': "wire (write_completed False r) l ud ul dd dl" "phase H (write_completed False r) (isAuthenticated (tcp l)) ud ul dd dl"
    using w o(1) by (simp_all add: wire_def phase_def challenge_of_def write_completed_fields)
  have "link_ok H lib (write_completed False r) l" by (rule link_wires [OF assms(1) w'])
    (use assms(1) o(2) in \<open>simp_all add: link_ok_def session_ok_def write_completed_fields\<close>)
  then show ?thesis using view_wire [OF w(1)] view_wire [OF w'(1)] by (simp add: write_completed_fields)
qed

lemma link_tick:
  assumes "link_ok H lib r l" "DoCbrTick GetNextFrameForCBR (tcp l) (repl l) = (k, s)"
  defines "l' \<equiv> l\<lparr>tcp := k, repl := s\<rparr>"
  shows "link_ok H lib r l' \<and>
    (if joined (view r l)
     then \<exists>f. GetNextFrameForCBR (m_repl (view r l)) = (f, s) \<and> view r l' =
       (view r l)\<lparr>m_repl := s, m_sent := m_sent (view r l) @ [f], ups := ups (view r l) @ [f]\<rparr>
     else view r l' = view r l)"
proof -
  obtain ud ul dd dl where w: "wire r l ud ul dd dl" "phase H r (isAuthenticated (tcp l)) ud ul dd dl"
    using assms(1) by (rule link_okE)
  have ok: "cl_write_ok (tcp l)" "client_ok lib (repl l)" using assms(1) by (simp_all add: link_ok_def)
  note t = DoCbrTick_spec [OF ok(1) assms(2)]
  show ?thesis
  proof (cases "isAuthenticated (tcp l)")
    case True
    then obtain f where f: "GetNextFrameForCBR (repl l) = (f, s)" "client_output k = client_output (tcp l) @ [Serialize f]"
      using t(7) by blast
    have c: "client_ok lib s" "mail_frame f" using client_ok_tick [OF ok(2) f(1)] cell_mail by blast+
    have w': "wire r l' ud (ul @ [f]) dd dl"
      using w(1) flow_write [of _ _ _ ud ul "[f]"] c(2) t(2) f(2) by (auto simp: wire_def l'_def mail_frame_def)
    have p': "phase H r (isAuthenticated (tcp l')) ud (ul @ [f]) dd dl"
      using w(2) True t(5) c(2) by (auto simp: phase_def l'_def)
    have "link_ok H lib r l'" by (rule link_wires [OF assms(1) w' p'])
      (use assms(1) t c(1) in \<open>simp_all add: link_ok_def l'_def\<close>)
    moreover have "tl (ud @ ul @ [f]) = tl (ud @ ul) @ [f]" "session_state r = UNAUTHENTICATED \<Longrightarrow> tl (ul @ [f]) = tl ul @ [f]"
      using w(2) True by (cases ud; auto simp: phase_def split: if_splits)+
    ultimately show ?thesis using view_wire [OF w(1)] view_wire [OF w'] True f(1) t(5) by (simp add: l'_def)
  next
    case False
    then have "client_output k = client_output (tcp l)" "s = repl l" using t(6) by blast+
    then show ?thesis using assms(1) t False
      by (simp add: l'_def link_ok_def wire_def view_def sent_frames_def up_frames_def down_frames_def received_frames_def)
  qed
qed

lemma client_serve_mail:
  "list_all mail_frame fs \<Longrightarrow> client_serve H rcv True fs a = Some (True, [], fold rcv fs a)"
  by (induction fs arbitrary: a) (auto simp: mail_frame_def protocol_simps)

lemma wf_challenge: "length c = challengSize \<Longrightarrow> wf_frame (CreateAuthChallenge (replicate mailboxIdSize 0) c)"
  by (rule wf_created) (simp_all add: protocol_simps challengSize_def)

lemma wf_response: "wf_frame (auth_response n)"
  unfolding auth_response_def by (rule wf_created) (simp_all add: nonce_bytes_def protocol_simps)

lemma challenge_fields:
  "length c = challengSize \<Longrightarrow> take challengSize (fr_payload (CreateAuthChallenge m c)) = c"
  "fr_action (CreateAuthChallenge m c) = AUTH_CHALLENGE"
  by (simp_all add: CreateAuthChallenge_def make_frame_def pad_control_def)

lemma client_serve_challenge:
  assumes "length c = challengSize" "solves H c h"
  obtains n where "client_serve H rcv False [CreateAuthChallenge (replicate mailboxIdSize 0) c] a =
      Some (True, [Serialize (auth_response n)], a)" "authentic H c (auth_response n)"
proof -
  obtain n where "solve_nonce H c 0 = Some n" "solves H c n" using solve_nonce_found [OF assms(2)] by blast
  then show thesis using that challenge_fields(1) [OF assms(1)] challenge_fields(2) authentic_response by simp
qed

text \<open>Every challenge has an answer.\<close>

definition solvable :: "(bytes \<Rightarrow> bytes) \<Rightarrow> bool" where
  "solvable H \<longleftrightarrow> (\<forall>c. length c = challengSize \<longrightarrow> (\<exists>n. solves H c n))"

text \<open>What the client makes of the frames.\<close>

definition reacts :: "sodium \<Rightarrow> (string \<Rightarrow> json_object option) \<Rightarrow> TcpSession \<Rightarrow> bool \<Rightarrow> frame list \<Rightarrow> Repl \<Rightarrow>
    bool \<Rightarrow> frame list \<Rightarrow> Repl \<Rightarrow> bool" where
  "reacts lib iterate r au fs s au' gs s' \<longleftrightarrow>
     (au' = au \<and> gs = [] \<and> s' = fold (OnFrameReceived lib iterate) fs s \<and> (au \<or> fs = []) \<or>
      \<not> au \<and> au' \<and> length gs = 1 \<and> s' = s \<and> fs = [challenge_of r])"

lemma client_ok_fold: "sodium_ok lib \<Longrightarrow> client_ok lib s \<Longrightarrow> client_ok lib (fold (OnFrameReceived lib iterate) fs s)"
  by (induction fs arbitrary: s) (auto intro: client_ok_receive)

lemma client_phase:
  assumes "sodium_ok lib" "solvable H" "length (currentChallenge r) = challengSize" "client_ok lib s"
    and ph: "phase H r au ud ul dd (f1 @ f2)"
  obtains au' gs s' where "client_serve H (OnFrameReceived lib iterate) au f1 s = Some (au', map Serialize gs, s')"
    "list_all wf_frame gs" "client_ok lib s'" "phase H r au' ud (ul @ gs) (dd @ f1) f2" "reacts lib iterate r au f1 s au' gs s'"
proof (cases "au")
  case True
  then have "list_all mail_frame f1" using ph by (auto simp: phase_def split: if_splits)
  from client_serve_mail [OF this] show thesis using True client_ok_fold [OF assms(1,4)] ph
    by (intro that [of True "[]" "fold (OnFrameReceived lib iterate) f1 s"]) (auto simp: reacts_def phase_def split: if_splits)
next
  case False
  then have c: "f1 = [] \<or> f1 = [challenge_of r] \<and> f2 = []" "session_state r = UNAUTHENTICATED" "ud = []" "ul = []" "dd = []"
    using ph by (auto simp: phase_def append_eq_Cons_conv)
  obtain n where n: "client_serve H (OnFrameReceived lib iterate) False [challenge_of r] s = Some (True, [Serialize (auth_response n)], s)"
      "authentic H (currentChallenge r) (auth_response n)"
    using client_serve_challenge [OF assms(3)] assms(2,3) unfolding challenge_of_def solvable_def by metis
  show thesis
  proof (cases "f1 = []")
    case True
    then show thesis using False ph assms(4) by (intro that [of False "[]" s]) (auto simp: reacts_def)
  next
    case f1: False
    then show thesis using False c n wf_response assms(4)
      by (intro that [of True "[auth_response n]" s]) (auto simp: reacts_def phase_def)
  qed
qed

definition client_view :: "sodium \<Rightarrow> (string \<Rightarrow> json_object option) \<Rightarrow> mail_link \<Rightarrow> mail_link \<Rightarrow> bool" where
  "client_view lib iterate v v' \<longleftrightarrow>
     v' = v \<or> \<not> joined v \<and> v' = v\<lparr>joined := True\<rparr> \<or>
     joined v \<and> (\<exists>gs rest. downs v = gs @ rest \<and>
       v' = v\<lparr>m_repl := fold (OnFrameReceived lib iterate) gs (m_repl v), downs := rest, m_received := m_received v @ gs\<rparr>)"

lemma client_view_step:
  assumes "wire r l ud ul dd (f1 @ f2)" "phase H r (isAuthenticated (tcp l)) ud ul dd (f1 @ f2)"
    and "wire r l' ud (ul @ gs) (dd @ f1) f2" "reacts lib iterate r (isAuthenticated (tcp l)) f1 (repl l) (isAuthenticated (tcp l')) gs (repl l')"
  shows "client_view lib iterate (view r l) (view r l')"
proof (cases "isAuthenticated (tcp l)")
  case True
  then have "dd \<noteq> []" using assms(2) by (auto simp: phase_def split: if_splits)
  then have "view r l' = (view r l)\<lparr>m_repl := fold (OnFrameReceived lib iterate) f1 (m_repl (view r l)), downs := f2,
      m_received := m_received (view r l) @ f1\<rparr>" "downs (view r l) = f1 @ f2" "joined (view r l)"
    using True assms(4) view_wire [OF assms(1)] view_wire [OF assms(3)] by (auto simp: reacts_def)
  then show ?thesis unfolding client_view_def by blast
next
  case False
  then have "view r l' = (view r l)\<lparr>joined := isAuthenticated (tcp l')\<rparr>" "\<not> joined (view r l)"
    using assms(2,4) view_wire [OF assms(1)] view_wire [OF assms(3)] by (auto simp: reacts_def phase_def length_Suc_conv)
  then show ?thesis unfolding client_view_def by (cases "isAuthenticated (tcp l')") auto
qed

lemma link_client_reads:
  assumes ok: "sodium_ok lib" "solvable H" "link_ok H lib r l" and d: "d = take m (to_client r l)"
  obtains k s where "cl_read_completed H (OnFrameReceived lib iterate) (Bytes d) (tcp l) (repl l) = Some (k, s)"
    "link_ok H lib r (l\<lparr>tcp := k, repl := s, client_got := client_got l + length d\<rparr>)"
    "client_view lib iterate (view r l) (view r (l\<lparr>tcp := k, repl := s, client_got := client_got l + length d\<rparr>))"
proof -
  obtain ud ul dd dl where w: "wire r l ud ul dd dl" "phase H r (isAuthenticated (tcp l)) ud ul dd dl"
    using ok(3) by (rule link_okE)
  have k: "cl_parser (tcp l) = parser_of (stored (cl_parser (tcp l)))" "cl_write_ok (tcp l)" "cl_reading (tcp l)" "cl_open (tcp l)"
      "length (currentChallenge r) = challengSize" using ok(3) by (auto simp: link_ok_def)
  have fl: "flow (stored (cl_parser (tcp l))) (concat (session_output r)) (client_got l) dd dl" using w(1) by (simp add: wire_def)
  have "prefix d (drop (client_got l) (concat (session_output r)))"
    using prefix_under_way [OF session_output_prefix] d by (simp add: to_client_def)
  from flow_read [OF fl this] obtain f1 p f2 where f: "dl = f1 @ f2" "decode (stored (cl_parser (tcp l)) @ d) = (f1, Pending p)"
      "flow p (concat (session_output r)) (client_got l + length d) (dd @ f1) f2" by metis
  have p: "phase H r (isAuthenticated (tcp l)) ud ul dd (f1 @ f2)" "client_ok lib (repl l)"
    using w(2) f(1) ok(3) by (simp_all add: link_ok_def)
  obtain au gs s where sv: "client_serve H (OnFrameReceived lib iterate) (isAuthenticated (tcp l)) f1 (repl l) = Some (au, map Serialize gs, s)"
      "list_all wf_frame gs" "client_ok lib s" "phase H r au ud (ul @ gs) (dd @ f1) f2"
      "reacts lib iterate r (isAuthenticated (tcp l)) f1 (repl l) au gs s"
    by (rule client_phase [OF ok(1,2) k(5) p(2,1)])
  obtain k where k': "cl_read_completed H (OnFrameReceived lib iterate) (Bytes d) (tcp l) (repl l) = Some (k, s)" "isAuthenticated k = au"
      "client_output k = client_output (tcp l) @ map Serialize gs" "cl_write_ok k" "cl_settles (tcp l) (Pending p) k" "cl_reading k"
    by (rule cl_read_completed_spec [OF k(1) flow_pend [OF fl] k(2) f(2) sv(1)]) simp
  let ?l = "l\<lparr>tcp := k, repl := s, client_got := client_got l + length d\<rparr>"
  have w': "wire r ?l ud (ul @ gs) (dd @ f1) f2"
    using w(1) flow_write [OF _ sv(2)] f(3) k'(3,5) by (simp add: wire_def cl_settles_def)
  have "link_ok H lib r ?l" by (rule link_wires [OF ok(3) w'])
    (use ok(3) k(4) k' sv in \<open>simp_all add: link_ok_def cl_settles_def\<close>)
  moreover have "client_view lib iterate (view r l) (view r ?l)"
    by (rule client_view_step [OF _ p(1) w']) (use w(1) f(1) sv(5) k'(2) in simp_all)
  ultimately show thesis using that k'(1) by blast
qed

section \<open>The steps of the relay\<close>

definition boxes_ok :: "boxes \<Rightarrow> bool" where
  "boxes_ok q \<longleftrightarrow> (\<forall>m. list_all mail_frame (q m))"

lemma spec_poll_ok:
  assumes "boxes_ok q" "spec_poll mid q = (r, q')"
  shows "boxes_ok q' \<and> pred_option mail_frame r"
proof -
  have "list_all mail_frame (q mid)" using assms(1) by (simp add: boxes_ok_def)
  then show ?thesis using assms by (cases "q mid") (auto simp: boxes_ok_def spec_poll_def)
qed

lemma spec_push_ok: "boxes_ok q \<Longrightarrow> mail_frame f \<Longrightarrow> boxes_ok (spec_push cap f q)"
  by (simp add: boxes_ok_def spec_push_def)

lemma mail_poll: "mail_frame f \<Longrightarrow> mail_frame (CreatePoll (fr_mailbox f))"
  using wf_created(1) [of "fr_mailbox f"] by (simp add: mail_frame_def wf_frame_def)

lemma relay_frames_ok:
  "list_all mail_frame fs \<Longrightarrow> boxes_ok q \<Longrightarrow> relay_frames cap fs q = (gs, q') \<Longrightarrow> list_all mail_frame gs \<and> boxes_ok q'"
proof (induction fs arbitrary: q gs)
  case (Cons f fs)
  show ?case
  proof (cases "fr_action f = POLL")
    case True
    obtain r q1 where r: "spec_poll (fr_mailbox f) q = (r, q1)" by fastforce
    obtain g1 where g1: "relay_frames cap fs q1 = (g1, q')" "gs = (case r of Some g \<Rightarrow> g | None \<Rightarrow> CreatePoll (fr_mailbox f)) # g1"
      using Cons.prems(3) True r by (auto split: prod.splits)
    show ?thesis using Cons.IH [OF _ _ g1(1)] Cons.prems(1) spec_poll_ok [OF Cons.prems(2) r] g1(2) mail_poll [of f]
      by (auto split: option.splits)
  next
    case False
    then show ?thesis using Cons.IH [of "spec_push cap f q" gs] Cons.prems spec_push_ok [OF Cons.prems(2), of f cap] by simp
  qed
qed simp

lemma serve_mail:
  "list_all mail_frame fs \<Longrightarrow> relay_frames cap fs q = (gs, q') \<Longrightarrow>
   serve H (spec_push cap) spec_poll c AUTHENTICATED fs q = (True, AUTHENTICATED, map Serialize gs, q')"
proof (induction fs arbitrary: q gs)
  case (Cons f fs)
  have a: "POLL \<noteq> PUSH" "POLL \<noteq> ACK" by (simp_all add: protocol_simps)
  show ?case using Cons a by (auto simp: answer_def mail_frame_def split: prod.splits)
qed simp

text \<open>What the session makes of the frames.\<close>

lemma relay_phase:
  assumes "phase H r au ud (f1 @ f2) dd dl" "boxes_ok (\<lambda>m. queue_ref m b)"
    and "unat (maxMessages b) = cap"
  obtains st gs b' where "serve H ProcessPush ProcessPoll (currentChallenge r) (session_state r) f1 b = (True, st, map Serialize gs, b')"
    "boxes_ok (\<lambda>m. queue_ref m b')" "unat (maxMessages b') = cap" "list_all mail_frame gs"
    "relay_frames cap (if session_state r = UNAUTHENTICATED then tl f1 else f1) (\<lambda>m. queue_ref m b) = (gs, \<lambda>m. queue_ref m b')"
    "st = (if f1 = [] then session_state r else AUTHENTICATED)" "au \<or> f1 = []"
proof -
  let ?fs = "if session_state r = UNAUTHENTICATED then tl f1 else f1" and ?q = "\<lambda>m. queue_ref m b"
  let ?st = "if f1 = [] then session_state r else AUTHENTICATED"
  have m: "list_all mail_frame ?fs" "au \<or> f1 = []"
    using assms(1) by (cases f1; auto simp: phase_def split: if_splits)+
  obtain ok st outs b' where sv: "serve H ProcessPush ProcessPoll (currentChallenge r) (session_state r) f1 b = (ok, st, outs, b')"
    by (metis prod_cases4)
  obtain gs q where q: "relay_frames cap ?fs ?q = (gs, q)" by fastforce
  have "serve H (spec_push cap) spec_poll (currentChallenge r) (session_state r) f1 ?q = (True, ?st, map Serialize gs, q)"
    using serve_mail [OF m(1) q] q assms(1) by (cases f1; cases "session_state r") (auto simp: phase_def split: if_splits)
  moreover have "serve H (spec_push cap) spec_poll (currentChallenge r) (session_state r) f1 ?q = (ok, st, outs, \<lambda>m. queue_ref m b')"
      "unat (maxMessages b') = cap"
    using mb.serve_boxes [OF _ sv, of cap] assms(3) by (auto simp: broker_room_def)
  ultimately show thesis using that [of st gs b'] sv q m(2) relay_frames_ok [OF m(1) assms(2) q] by auto
qed

lemma link_relay_reads:
  assumes ok: "link_ok H lib r l" "boxes_ok (\<lambda>m. queue_ref m b)" "unat (maxMessages b) = cap" and d: "d = take m (to_relay l)"
  defines "l' \<equiv> l\<lparr>relay_got := relay_got l + length d\<rparr>"
  obtains r' b' fs rest gs where "read_completed H ProcessPush ProcessPoll (Some d) r b = Some (r', b')"
    "link_ok H lib r' l'" "boxes_ok (\<lambda>m. queue_ref m b')" "unat (maxMessages b') = cap"
    "ups (view r l) = fs @ rest" "relay_frames cap fs (\<lambda>m. queue_ref m b) = (gs, \<lambda>m. queue_ref m b')"
    "view r' l' = (view r l)\<lparr>ups := rest, downs := downs (view r l) @ gs\<rparr>" "joined (view r l) \<or> fs = []"
proof -
  obtain ud ul dd dl where w: "wire r l ud ul dd dl" "phase H r (isAuthenticated (tcp l)) ud ul dd dl"
    using ok(1) by (rule link_okE)
  have fl: "flow (stored (parser r)) (concat (client_output (tcp l))) (relay_got l) ud ul" using w(1) by (simp add: wire_def)
  have "prefix d (drop (relay_got l) (concat (client_output (tcp l))))"
    using prefix_under_way [OF client_output_prefix] d by (simp add: to_relay_def)
  from flow_read [OF fl this] obtain f1 p f2 where f: "ul = f1 @ f2" "decode (stored (parser r) @ d) = (f1, Pending p)"
      "flow p (concat (client_output (tcp l))) (relay_got l + length d) (ud @ f1) f2" by metis
  have ph: "phase H r (isAuthenticated (tcp l)) ud (f1 @ f2) dd dl" using w(2) f(1) by simp
  obtain st gs b' where sv: "serve H ProcessPush ProcessPoll (currentChallenge r) (session_state r) f1 b = (True, st, map Serialize gs, b')"
      "boxes_ok (\<lambda>m. queue_ref m b')" "unat (maxMessages b') = cap" "list_all mail_frame gs"
      "relay_frames cap (if session_state r = UNAUTHENTICATED then tl f1 else f1) (\<lambda>m. queue_ref m b) = (gs, \<lambda>m. queue_ref m b')"
      "st = (if f1 = [] then session_state r else AUTHENTICATED)" "isAuthenticated (tcp l) \<or> f1 = []"
    by (rule relay_phase [OF ph ok(2,3)])
  have r: "parser r = parser_of (stored (parser r))" "is_open r" "write_ok r" using ok(1) by (auto simp: link_ok_def session_ok_def)
  obtain r' where r': "read_completed H ProcessPush ProcessPoll (Some d) r b = Some (r', b')" "session_state r' = st"
      "session_output r' = session_output r @ map Serialize gs" "write_ok r'" "currentChallenge r' = currentChallenge r"
      "settles True (Pending p) r'" "reading r' = is_open r'"
    by (rule read_completed_spec [OF r(1) flow_pend [OF fl] r(2,3) f(2) sv(1)])
  have w': "wire r' l' (ud @ f1) f2 dd (dl @ gs)"
    using w(1) flow_write [OF _ mail_frame_wf [OF sv(4)]] f(3) r'(3,6) by (simp add: wire_def settles_def l'_def)
  have p': "phase H r' (isAuthenticated (tcp l)) (ud @ f1) f2 dd (dl @ gs)"
    using ph sv(4-7) r'(2,5) by (cases f1) (auto simp: phase_def challenge_of_def split: if_splits)
  have lk: "link_ok H lib r' l'" by (rule link_wires [OF ok(1) w'])
    (use ok(1) p' r' flow_pend [OF f(3)] in \<open>simp_all add: link_ok_def session_ok_def settles_def l'_def\<close>)
  show thesis
  proof (rule that [OF r'(1) lk sv(2,3) _ sv(5)])
    show "ups (view r l) = (if session_state r = UNAUTHENTICATED then tl f1 else f1) @
        (if session_state r = UNAUTHENTICATED \<and> f1 = [] then tl f2 else f2)"
      using view_wire [OF w(1)] f(1) by (cases f1) auto
    show "view r' l' = (view r l)\<lparr>ups := (if session_state r = UNAUTHENTICATED \<and> f1 = [] then tl f2 else f2),
        downs := downs (view r l) @ gs\<rparr>"
      using view_wire [OF w(1)] view_wire [OF w'] f(1) r'(2) sv(5-7) ph by (auto simp: l'_def phase_def split: if_splits)
    show "joined (view r l) \<or> (if session_state r = UNAUTHENTICATED then tl f1 else f1) = []"
      using view_wire [OF w(1)] sv(7) by auto
  qed
qed

section \<open>The whole network\<close>

definition net_boxes :: "network \<Rightarrow> boxes" where
  "net_boxes n = (\<lambda>m. queue_ref m (broker (server n)))"

definition net_ok :: "(bytes \<Rightarrow> bytes) \<Rightarrow> sodium \<Rightarrow> nat \<Rightarrow> network \<Rightarrow> bool" where
  "net_ok H lib cap n \<longleftrightarrow>
     length (links n) = length (sessions (server n)) \<and>
     (\<forall>i < length (links n). link_ok H lib (session_of n i) (links n ! i)) \<and>
     boxes_ok (net_boxes n) \<and> unat (maxMessages (broker (server n))) = cap"

definition mail_of :: "network \<Rightarrow> mail" where
  "mail_of n = \<lparr>m_boxes = net_boxes n, m_links = map2 view (sessions (server n)) (links n)\<rparr>"

lemma mail_of_fields:
  "m_boxes (mail_of n) = net_boxes n"
  "length (links n) = length (sessions (server n)) \<Longrightarrow> length (m_links (mail_of n)) = length (links n)"
  "length (links n) = length (sessions (server n)) \<Longrightarrow> i < length (links n) \<Longrightarrow>
   m_links (mail_of n) ! i = view (session_of n i) (links n ! i)"
  by (simp_all add: mail_of_def session_of_def)

lemma net_link:
  assumes "net_ok H lib cap n" "i < length (links n)"
  shows "link_ok H lib (session_of n i) (links n ! i)" "i < length (m_links (mail_of n))"
    "view (session_of n i) (links n ! i) = m_links (mail_of n) ! i"
  using assms mail_of_fields(2,3) [of n] by (simp_all add: net_ok_def)

text \<open>One connection changes.\<close>

lemma net_update:
  assumes ok: "net_ok H lib cap n" "i < length (links n)" "link_ok H lib r' l'"
    and n': "sessions (server n') = (sessions (server n))[i := r']" "links n' = (links n)[i := l']"
    and b: "boxes_ok (net_boxes n')" "unat (maxMessages (broker (server n'))) = cap"
  shows "net_ok H lib cap n'" "mail_of n' = set_mail i (view r' l') ((mail_of n)\<lparr>m_boxes := net_boxes n'\<rparr>)"
proof -
  show "net_ok H lib cap n'" using ok n' b by (auto simp: net_ok_def session_of_def nth_list_update)
  show "mail_of n' = set_mail i (view r' l') ((mail_of n)\<lparr>m_boxes := net_boxes n'\<rparr>)"
    unfolding mail_of_def set_mail_def n' by (simp add: zip_update map_update)
qed

text \<open>Only the client changes.\<close>

lemma client_update:
  assumes "net_ok H lib cap n" "i < length (links n)" "link_ok H lib (session_of n i) l'"
  shows "net_ok H lib cap (set_link i l' n)" "mail_of (set_link i l' n) = set_mail i (view (session_of n i) l') (mail_of n)"
proof -
  have b: "boxes_ok (net_boxes n)" "unat (maxMessages (broker (server n))) = cap" using assms(1) by (simp_all add: net_ok_def)
  have s: "sessions (server (set_link i l' n)) = (sessions (server n))[i := session_of n i]" "links (set_link i l' n) = (links n)[i := l']"
      "net_boxes (set_link i l' n) = net_boxes n" "maxMessages (broker (server (set_link i l' n))) = maxMessages (broker (server n))"
    by (simp_all add: set_link_def session_of_def net_boxes_def)
  note u = net_update [OF assms s(1,2)]
  show "net_ok H lib cap (set_link i l' n)" using u(1) b s(3,4) by simp
  have "(mail_of n)\<lparr>m_boxes := net_boxes n\<rparr> = mail_of n" by (simp add: mail_of_def)
  then show "mail_of (set_link i l' n) = set_mail i (view (session_of n i) l') (mail_of n)" using u(2) b s(3,4) by simp
qed

lemma set_mail_same:
  "net_ok H lib cap n \<Longrightarrow> i < length (links n) \<Longrightarrow> set_mail i (view (session_of n i) (links n ! i)) (mail_of n) = mail_of n"
  by (cases "mail_of n") (simp add: set_mail_def mail_of_def session_of_def net_ok_def list_update_same_conv)

lemma new_link_ok:
  assumes "sodium_ok lib" "client_ok lib s" "length (rb challengSize) = challengSize"
  shows "link_ok H lib (Start rb new_session) (new_link lib s)"
    "view (Start rb new_session) (new_link lib s) =
      \<lparr>m_repl = on_connected lib s, joined = False, m_sent = [], ups = [], downs = [], m_received = []\<rparr>"
proof -
  let ?r = "Start rb new_session" and ?l = "new_link lib s"
  have k: "tcp ?l = StartAsyncEngine new_client" "relay_got ?l = 0" "client_got ?l = 0" "repl ?l = on_connected lib s"
    by (simp_all add: new_link_def)
  have c: "cl_parser (StartAsyncEngine new_client) = parser_of []" "client_output (StartAsyncEngine new_client) = []"
    using new_client_ready(1,2) by (simp_all add: cl_ready_def)
  have "flow [] (concat (map Serialize [challenge_of ?r])) 0 [] [challenge_of ?r]"
    by (rule flow_start) (use wf_challenge assms(3) in \<open>simp add: challenge_of_def Start_session\<close>)
  then have w: "wire ?r ?l [] [] [] [challenge_of ?r]"
    using flow_start [of "[]"] by (simp add: wire_def k c Start_session challenge_of_def)
  have p: "phase H ?r (isAuthenticated (tcp ?l)) [] [] [] [challenge_of ?r]"
    using new_client_ready(3) by (simp add: phase_def k Start_session)
  have "session_ok ?r" by (simp add: session_ok_def Start_session unfinished_Nil)
  moreover have "cl_ready (tcp ?l)" using new_client_ready(1) k by simp
  ultimately show "link_ok H lib ?r ?l" unfolding link_ok_def using w p assms client_ok_connected
    by (auto simp: Start_session cl_ready_def k(4))
  show "view ?r ?l = \<lparr>m_repl = on_connected lib s, joined = False, m_sent = [], ups = [], downs = [], m_received = []\<rparr>"
    using view_wire [OF w] new_client_ready(3) by (simp add: k Start_session)
qed

lemma HandleAccept_effect:
  "sessions (HandleAccept rb e srv) = sessions srv \<or> sessions (HandleAccept rb e srv) = sessions srv @ [Start rb new_session]"
  "broker (HandleAccept rb e srv) = broker srv"
  by (auto simp: HandleAccept_def InitializeSession_def DoAccept_def Let_def split: option.splits)

lemma join_sim:
  assumes "sodium_ok lib" "net_ok H lib cap n" "length (rb challengSize) = challengSize" "client_ok lib s"
    and "server_step H (server n) (Accepted rb e) srv"
  defines "n' \<equiv> \<lparr>server = srv, links = links n @
      (if length (sessions (server n)) < length (sessions srv) then [new_link lib s] else [])\<rparr>"
  shows "net_ok H lib cap n' \<and> mail_step lib iterate cap (mail_of n) (mail_of n')"
proof -
  let ?srv = "server n\<lparr>accepting := False\<rparr>"
  have "srv = HandleAccept rb e ?srv" using assms(5) by (rule accept_stepE)
  then consider "sessions srv = sessions (server n)" "broker srv = broker (server n)"
    | "sessions srv = sessions (server n) @ [Start rb new_session]" "broker srv = broker (server n)"
    using HandleAccept_effect [of rb e ?srv] by auto
  then show ?thesis
  proof cases
    case 1
    then have "net_ok H lib cap n'" "mail_of n' = mail_of n"
      using assms(2) by (simp_all add: n'_def net_ok_def mail_of_def net_boxes_def session_of_def)
    then show ?thesis by (simp add: mail_step.idle)
  next
    case 2
    note l = new_link_ok [of lib s rb, OF assms(1,4,3)]
    have "net_ok H lib cap n'" using 2 assms(2) l(1)
      by (auto simp: n'_def net_ok_def net_boxes_def session_of_def nth_append less_Suc_eq)
    moreover have "mail_of n' = mail_of n\<lparr>m_links := m_links (mail_of n) @
        [\<lparr>m_repl = on_connected lib s, joined = False, m_sent = [], ups = [], downs = [], m_received = []\<rparr>]\<rparr>"
      using 2 assms(2) l(2) by (simp add: n'_def mail_of_def net_boxes_def net_ok_def)
    ultimately show ?thesis by (simp add: mail_step.arrive)
  qed
qed

lemma relay_reads_sim:
  assumes ok: "net_ok H lib cap n" and i: "i < length (links n)" and d: "d = take m (to_relay (links n ! i))"
    and st: "server_step H (server n) (Read i (Some d)) srv"
  defines "n' \<equiv> set_link i ((links n ! i)\<lparr>relay_got := relay_got (links n ! i) + length d\<rparr>) (n\<lparr>server := srv\<rparr>)"
  shows "net_ok H lib cap n' \<and> mail_step lib iterate cap (mail_of n) (mail_of n')"
proof -
  let ?l = "links n ! i" and ?r = "session_of n i" and ?b = "broker (server n)"
  let ?l' = "?l\<lparr>relay_got := relay_got ?l + length d\<rparr>"
  have k: "link_ok H lib ?r ?l" "boxes_ok (\<lambda>m. queue_ref m ?b)" "unat (maxMessages ?b) = cap"
    using ok net_link(1) [OF ok i] by (simp_all add: net_ok_def net_boxes_def)
  obtain r' b' fs rest gs where r: "read_completed H ProcessPush ProcessPoll (Some d) ?r ?b = Some (r', b')"
      "link_ok H lib r' ?l'" "boxes_ok (\<lambda>m. queue_ref m b')" "unat (maxMessages b') = cap" "ups (view ?r ?l) = fs @ rest"
      "relay_frames cap fs (\<lambda>m. queue_ref m ?b) = (gs, \<lambda>m. queue_ref m b')"
      "view r' ?l' = (view ?r ?l)\<lparr>ups := rest, downs := downs (view ?r ?l) @ gs\<rparr>" "joined (view ?r ?l) \<or> fs = []"
    by (rule link_relay_reads [OF k d])
  have srv: "srv = server n\<lparr>sessions := (sessions (server n))[i := r'], broker := b'\<rparr>"
    using st r(1) by (auto simp: session_of_def elim: read_stepE)
  have n': "sessions (server n') = (sessions (server n))[i := r']" "links n' = (links n)[i := ?l']" "net_boxes n' = (\<lambda>m. queue_ref m b')"
      "broker (server n') = b'"
    by (simp_all add: n'_def set_link_def srv net_boxes_def)
  have u: "net_ok H lib cap n'" "mail_of n' = set_mail i (view r' ?l') ((mail_of n)\<lparr>m_boxes := net_boxes n'\<rparr>)"
    using net_update [OF ok i r(2) n'(1,2)] r(3,4) n'(3,4) by simp_all
  note v = net_link(2,3) [OF ok i]
  have "mail_step lib iterate cap (mail_of n) (mail_of n')"
  proof (cases "joined (view ?r ?l)")
    case True
    have "relay_frames cap fs (m_boxes (mail_of n)) = (gs, net_boxes n')" using r(6) by (simp add: mail_of_fields(1) n'(3) net_boxes_def [of n])
    from mail_step.relay [OF v True r(5) this] show ?thesis using u(2) r(7) by simp
  next
    case False
    then have "fs = []" using r(8) by simp
    then have "view r' ?l' = view ?r ?l" "net_boxes n' = net_boxes n" using r(5-7) by (simp_all add: n'(3) net_boxes_def [of n])
    then have "mail_of n' = mail_of n" using u(2) set_mail_same [OF ok i] by (simp add: mail_of_def)
    then show ?thesis by (simp add: mail_step.idle)
  qed
  then show ?thesis using u(1) by blast
qed

lemma relay_wrote_sim:
  assumes ok: "net_ok H lib cap n" and i: "i < length (links n)" and st: "server_step H (server n) (Wrote i False) srv"
  shows "net_ok H lib cap (n\<lparr>server := srv\<rparr>) \<and> mail_of (n\<lparr>server := srv\<rparr>) = mail_of n"
proof -
  let ?r = "session_of n i" and ?l = "links n ! i" and ?n = "n\<lparr>server := srv\<rparr>"
  have w: "srv = server n\<lparr>sessions := (sessions (server n))[i := write_completed False ?r]\<rparr>" "writeInProgress ?r"
    using st by (auto simp: session_of_def elim: wrote_stepE)
  note u = link_relay_wrote [OF net_link(1) [OF ok i] w(2)]
  have n': "sessions (server ?n) = (sessions (server n))[i := write_completed False ?r]" "links ?n = (links n)[i := ?l]"
      "net_boxes ?n = net_boxes n" "broker (server ?n) = broker (server n)"
    by (simp_all add: w(1) net_boxes_def)
  have "net_ok H lib cap ?n" "mail_of ?n = set_mail i (view ?r ?l) ((mail_of n)\<lparr>m_boxes := net_boxes n\<rparr>)"
    using net_update [OF ok i conjunct1 [OF u] n'(1,2)] u ok n'(3,4) by (simp_all add: net_ok_def)
  moreover have "(mail_of n)\<lparr>m_boxes := net_boxes n\<rparr> = mail_of n" by (simp add: mail_of_def)
  ultimately show ?thesis using set_mail_same [OF ok i] by simp
qed

lemma client_sim:
  assumes "net_ok H lib cap n" "i < length (links n)" "link_ok H lib (session_of n i) l'"
    and "mail_step lib iterate cap (mail_of n) (set_mail i (view (session_of n i) l') (mail_of n))"
  shows "net_ok H lib cap (set_link i l' n) \<and> mail_step lib iterate cap (mail_of n) (mail_of (set_link i l' n))"
  using client_update [OF assms(1-3)] assms(4) by simp

lemma tick_sim:
  assumes ok: "net_ok H lib cap n" and i: "i < length (links n)" and t: "DoCbrTick GetNextFrameForCBR (tcp (links n ! i)) (repl (links n ! i)) = (k, s)"
  defines "n' \<equiv> set_link i ((links n ! i)\<lparr>tcp := k, repl := s\<rparr>) n"
  shows "net_ok H lib cap n' \<and> mail_step lib iterate cap (mail_of n) (mail_of n')"
proof -
  let ?v = "view (session_of n i) (links n ! i)"
  note u = link_tick [OF net_link(1) [OF ok i] t]
  show ?thesis unfolding n'_def
  proof (rule client_sim [OF ok i])
    show "mail_step lib iterate cap (mail_of n) (set_mail i (view (session_of n i) ((links n ! i)\<lparr>tcp := k, repl := s\<rparr>)) (mail_of n))"
    proof (cases "joined ?v")
      case True
      then show ?thesis using u mail_step.send [OF net_link(2,3) [OF ok i] True] by auto
    next
      case False
      then show ?thesis using u set_mail_same [OF ok i] mail_step.idle by simp
    qed
  qed (use u in blast)
qed

lemma client_reads_sim:
  assumes lib: "sodium_ok lib" "solvable H" and ok: "net_ok H lib cap n" and i: "i < length (links n)"
    and d: "d = take m (to_client (session_of n i) (links n ! i))"
    and t: "cl_read_completed H (OnFrameReceived lib iterate) (Bytes d) (tcp (links n ! i)) (repl (links n ! i)) = Some (k, s)"
  defines "n' \<equiv> set_link i ((links n ! i)\<lparr>tcp := k, repl := s, client_got := client_got (links n ! i) + length d\<rparr>) n"
  shows "net_ok H lib cap n' \<and> mail_step lib iterate cap (mail_of n) (mail_of n')"
proof -
  let ?v = "view (session_of n i) (links n ! i)"
  let ?l = "(links n ! i)\<lparr>tcp := k, repl := s, client_got := client_got (links n ! i) + length d\<rparr>"
  obtain k' s' where "cl_read_completed H (OnFrameReceived lib iterate) (Bytes d) (tcp (links n ! i)) (repl (links n ! i)) = Some (k', s')"
      "link_ok H lib (session_of n i) ((links n ! i)\<lparr>tcp := k', repl := s', client_got := client_got (links n ! i) + length d\<rparr>)"
      "client_view lib iterate ?v (view (session_of n i) ((links n ! i)\<lparr>tcp := k', repl := s', client_got := client_got (links n ! i) + length d\<rparr>))"
    by (rule link_client_reads [OF lib net_link(1) [OF ok i] d])
  then have u: "link_ok H lib (session_of n i) ?l" "client_view lib iterate ?v (view (session_of n i) ?l)" using t by simp_all
  note l = net_link(2,3) [OF ok i]
  show ?thesis unfolding n'_def
  proof (rule client_sim [OF ok i u(1)])
    from u(2) show "mail_step lib iterate cap (mail_of n) (set_mail i (view (session_of n i) ?l) (mail_of n))"
      unfolding client_view_def
    proof (elim disjE conjE exE)
      assume "view (session_of n i) ?l = ?v"
      then show ?thesis using set_mail_same [OF ok i] mail_step.idle by simp
    next
      assume "\<not> joined ?v" "view (session_of n i) ?l = ?v\<lparr>joined := True\<rparr>"
      then show ?thesis using mail_step.authenticate [OF l] by simp
    next
      fix gs rest
      assume "joined ?v" "downs ?v = gs @ rest" "view (session_of n i) ?l =
        ?v\<lparr>m_repl := fold (OnFrameReceived lib iterate) gs (m_repl ?v), downs := rest, m_received := m_received ?v @ gs\<rparr>"
      then show ?thesis using mail_step.receive [OF l] by simp
    qed
  qed
qed

lemma net_step_sim:
  assumes "sodium_ok lib" "solvable H" "net_ok H lib cap n" "net_step H lib iterate n e n'"
  shows "net_ok H lib cap n' \<and> mail_step lib iterate cap (mail_of n) (mail_of n')"
  using assms(4)
proof cases
  case (join rb s e srv)
  show ?thesis unfolding join(2) by (rule join_sim [OF assms(1,3) join(3-5)])
next
  case (relay_reads i l d m srv)
  show ?thesis unfolding relay_reads(2,4) by (rule relay_reads_sim [OF assms(3) relay_reads(3)]) (use relay_reads in simp_all)
next
  case (relay_timer status srv)
  then have "sessions srv = sessions (server n)" "broker srv = broker (server n)" by (auto elim: timer_stepE)
  then have "net_ok H lib cap n'" "mail_of n' = mail_of n" using relay_timer assms(3)
    by (simp_all add: net_ok_def mail_of_def net_boxes_def session_of_def)
  then show ?thesis by (simp add: mail_step.idle)
next
  case (relay_wrote i srv)
  show ?thesis using relay_wrote_sim [OF assms(3) relay_wrote(3,4)] relay_wrote(2) mail_step.idle by simp
next
  case (typed i l c)
  show ?thesis unfolding typed(2)
    by (rule client_sim [OF assms(3) typed(3)])
      (use link_typed [OF assms(1) net_link(1) [OF assms(3) typed(3)] typed(5)] mail_step.enter [OF net_link(2,3) [OF assms(3) typed(3)]]
        typed(4) in simp_all)
next
  case (tick i l k s)
  show ?thesis unfolding tick(2,4) by (rule tick_sim [OF assms(3) tick(3)]) (use tick in simp)
next
  case (client_wrote i l)
  show ?thesis unfolding client_wrote(2)
    by (rule client_sim [OF assms(3) client_wrote(3)])
      (use link_client_wrote [OF net_link(1) [OF assms(3) client_wrote(3)]] set_mail_same [OF assms(3) client_wrote(3)] mail_step.idle
        client_wrote(4,5) in simp_all)
next
  case (client_reads i l d m k s)
  show ?thesis unfolding client_reads(2,4)
    by (rule client_reads_sim [OF assms(1-3) client_reads(3)]) (use client_reads in simp_all)
qed

definition new_network :: "32 word \<Rightarrow> int \<Rightarrow> int \<Rightarrow> byte \<Rightarrow> network" where
  "new_network maxMessagesPerMailbox pages pageSize pct =
     \<lparr>server = start_server maxMessagesPerMailbox pages pageSize pct, links = []\<rparr>"

definition no_mail :: mail where
  "no_mail = \<lparr>m_boxes = (\<lambda>_. []), m_links = []\<rparr>"

lemma new_network_ok: "net_ok H lib (unat cap) (new_network cap pages pageSize pct)" "mail_of (new_network cap pages pageSize pct) = no_mail"
  by (simp_all add: new_network_def net_ok_def start_server_def DoAccept_def net_boxes_def boxes_ok_def new_broker_def queue_ref_def
      mail_of_def no_mail_def)

lemma net_run_sim:
  assumes "net_run H lib iterate n es n'" "sodium_ok lib" "solvable H" "net_ok H lib cap n"
  shows "net_ok H lib cap n' \<and> mail_run lib iterate cap (mail_of n) (mail_of n')"
  using assms
proof induction
  case (More n es n' e n'')
  then show ?case using net_step_sim m_more by blast
qed (simp add: m_start)

text \<open>C1: the clients and the relay together are a network of mailboxes.  Whatever the order in which clients join, users type,
  timers fire, writes complete and bytes are read, and in whatever pieces, the frames that the clients have written, that are under way,
  wait at the relay and have been read are those of a run in which each client hands the relay its frames in order and gets one
  frame for each poll; and no connection is closed.\<close>

theorem network_refines:
  assumes "sodium_ok lib" "solvable H" "net_run H lib iterate (new_network cap pages pageSize pct) es n"
  shows "mail_run lib iterate (unat cap) no_mail (mail_of n) \<and>
    list_all is_open (sessions (server n)) \<and> list_all (\<lambda>l. cl_open (tcp l)) (links n)"
proof -
  have r: "net_ok H lib (unat cap) n" "mail_run lib iterate (unat cap) no_mail (mail_of n)"
    using net_run_sim [OF assms(3,1,2) new_network_ok(1)] by (simp_all add: new_network_ok(2))
  have "\<forall>i < length (links n). is_open (session_of n i) \<and> cl_open (tcp (links n ! i))"
    using net_link(1) [OF r(1)] by (simp add: link_ok_def)
  then show ?thesis using r by (simp add: list_all_length net_ok_def session_of_def)
qed

lemma reads_enabled:
  assumes "sodium_ok lib" "solvable H" and ok: "net_ok H lib cap n" and "i < length (links n)" "0 < m"
  shows "(to_relay (links n ! i) \<noteq> [] \<longrightarrow> (\<exists>n'. net_step H lib iterate n (RelayReads i m) n')) \<and>
    (to_client (session_of n i) (links n ! i) \<noteq> [] \<longrightarrow> (\<exists>n'. net_step H lib iterate n (ClientReads i m) n'))"
proof -
  let ?l = "links n ! i" and ?r = "session_of n i"
  note k = net_link(1) [OF ok assms(4)]
  have b: "boxes_ok (\<lambda>m. queue_ref m (broker (server n)))" "unat (maxMessages (broker (server n))) = cap" "i < length (sessions (server n))"
    using ok assms(4) by (simp_all add: net_ok_def net_boxes_def)
  have "\<exists>n'. net_step H lib iterate n (RelayReads i m) n'" if "to_relay ?l \<noteq> []"
  proof -
    obtain r' b' where r': "read_completed H ProcessPush ProcessPoll (Some (take m (to_relay ?l))) ?r (broker (server n)) = Some (r', b')"
      by (rule link_relay_reads [OF k b(1,2) refl])
    have "reading ?r" using k by (simp add: link_ok_def)
    from server_step.read [OF b(3) this [unfolded session_of_def] r' [unfolded session_of_def]]
    have "\<exists>srv. server_step H (server n) (Read i (Some (take m (to_relay ?l)))) srv" ..
    then show ?thesis using net_step.relay_reads [OF assms(4) refl refl, of m] that assms(5) by (metis less_not_refl take_eq_Nil)
  qed
  moreover have "\<exists>n'. net_step H lib iterate n (ClientReads i m) n'" if "to_client ?r ?l \<noteq> []"
  proof -
    obtain k' s' where k': "cl_read_completed H (OnFrameReceived lib iterate) (Bytes (take m (to_client ?r ?l))) (tcp ?l) (repl ?l) = Some (k', s')"
      by (rule link_client_reads [OF assms(1,2) k refl])
    have r: "cl_reading (tcp ?l)" "take m (to_client ?r ?l) \<noteq> []" using k that assms(5) by (simp_all add: link_ok_def)
    from net_step.client_reads [OF assms(4) refl r(1) refl r(2) k'] show ?thesis ..
  qed
  ultimately show ?thesis by blast
qed

text \<open>C16: nobody waits in vain.  In a network that has come about this way, bytes that are under way can be read: the read handlers of
  the relay and of the client return, also when a frame is the challenge with its proof of work.\<close>

theorem network_reads:
  assumes "sodium_ok lib" "solvable H" "net_run H lib iterate (new_network cap pages pageSize pct) es n" "i < length (links n)" "0 < m"
  shows "(to_relay (links n ! i) \<noteq> [] \<longrightarrow> (\<exists>n'. net_step H lib iterate n (RelayReads i m) n')) \<and>
    (to_client (session_of n i) (links n ! i) \<noteq> [] \<longrightarrow> (\<exists>n'. net_step H lib iterate n (ClientReads i m) n'))"
  using reads_enabled [OF assms(1,2) conjunct1 [OF net_run_sim [OF assms(3,1,2) new_network_ok(1)]] assms(4,5)] .

text \<open>A client that joins and reads its challenge, types a message and ticks.\<close>

lemma sample_solvable: "solvable sample_hash"
proof -
  have "prefix ''000'' (EncodeHex (replicate 16 0))" by code_simp
  then show ?thesis by (simp add: solvable_def solves_def HashPayload_def sample_hash_def)
qed

definition sample_joined :: network where
  "sample_joined =
     \<lparr>server = HandleAccept sample_random None ((start_server 4 1000 4096 50)\<lparr>accepting := False\<rparr>),
      links = [new_link sample_sodium (sample_client 1 2 ''bob'' True)]\<rparr>"

lemma sample_joined_sessions: "sessions (server sample_joined) = [Start sample_random new_session]"
  by (simp add: sample_joined_def HandleAccept_def InitializeSession_def start_server_def DoAccept_def new_monitor_def Let_def)

lemma sample_join:
  "net_run sample_hash sample_sodium sample_iterate (new_network 4 1000 4096 50)
     [Join sample_random None (sample_client 1 2 ''bob'' True)] sample_joined"
  "to_client (session_of sample_joined 0) (links sample_joined ! 0) \<noteq> []"
proof -
  let ?n = "new_network 4 1000 4096 50"
  have a: "accepting (server ?n)" by (simp add: new_network_def start_server_def DoAccept_def)
  have "length (sample_random challengSize) = challengSize" by (simp add: sample_random_def)
  note j = net_step.join [of sample_random, OF this sample_client_ok server_step.accept [OF a],
      of sample_hash sample_iterate None 1 2 "''bob''" True]
  have "server sample_joined = HandleAccept sample_random None ((server ?n)\<lparr>accepting := False\<rparr>)" "sessions (server ?n) = []" "links ?n = []"
    by (simp_all add: sample_joined_def new_network_def start_server_def DoAccept_def)
  then have "net_step sample_hash sample_sodium sample_iterate ?n (Join sample_random None (sample_client 1 2 ''bob'' True)) sample_joined"
    using j sample_joined_sessions by (cases sample_joined) (simp add: sample_joined_def)
  from More [OF Start this] show "net_run sample_hash sample_sodium sample_iterate ?n
      [Join sample_random None (sample_client 1 2 ''bob'' True)] sample_joined" by simp
  have "client_got (links sample_joined ! 0) = 0" by (simp add: sample_joined_def new_link_def)
  moreover have "async_writes (session_of sample_joined 0) \<noteq> [] \<and> hd (async_writes (session_of sample_joined 0)) \<noteq> []"
    unfolding session_of_def sample_joined_sessions
    by (simp add: Start_def DoWrite_def ProcessWriteQueue_def DoRead_def new_session_def Let_def Serialize_def)
  ultimately show "to_client (session_of sample_joined 0) (links sample_joined ! 0) \<noteq> []"
    by (cases "async_writes (session_of sample_joined 0)") (simp_all add: to_client_def)
qed

theorem network_reads_witness:
  "\<exists>n'. net_step sample_hash sample_sodium sample_iterate sample_joined (ClientReads 0 7) n'"
proof -
  have "0 < length (links sample_joined)" by (simp add: sample_joined_def)
  from network_reads [OF sample_sodium_ok sample_solvable sample_join(1) this, of 7] sample_join(2) show ?thesis by simp
qed

lemma sample_message:
  "\<exists>n. net_run sample_hash sample_sodium sample_iterate (new_network 4 1000 4096 50)
     [Join sample_random None (sample_client 1 2 ''bob'' True), ClientReads 0 1000, Typed 0 (SendText ''bob'' [72, 105]), Tick 0] n"
proof -
  let ?run = "net_run sample_hash sample_sodium sample_iterate (new_network 4 1000 4096 50)"
  let ?step = "net_step sample_hash sample_sodium sample_iterate" and ?j = "Join sample_random None (sample_client 1 2 ''bob'' True)"
  have ok: "net_ok sample_hash sample_sodium (unat (4 :: 32 word)) sample_joined"
    using net_run_sim [OF sample_join(1) sample_sodium_ok sample_solvable new_network_ok(1)] by simp
  have "0 < length (links sample_joined)" by (simp add: sample_joined_def)
  then obtain n1 where n1: "?step sample_joined (ClientReads 0 1000) n1"
    using reads_enabled [OF sample_sodium_ok sample_solvable ok] sample_join(2) by fastforce
  then have l: "0 < length (links n1)" by cases (simp add: set_link_def sample_joined_def)
  from net_step.typed [OF l refl, of "SendText ''bob'' [72, 105]"] obtain n2 where
    n2: "?step n1 (Typed 0 (SendText ''bob'' [72, 105])) n2" "0 < length (links n2)" using l
    by (fastforce simp: longest_text_def set_link_def)
  obtain k s where t: "DoCbrTick GetNextFrameForCBR (tcp (links n2 ! 0)) (repl (links n2 ! 0)) = (k, s)" by fastforce
  have "?run [?j, ClientReads 0 1000] n1" using More [OF sample_join(1) n1] by simp
  from More [OF this n2(1)] have "?run [?j, ClientReads 0 1000, Typed 0 (SendText ''bob'' [72, 105])] n2" by simp
  from More [OF this net_step.tick [OF n2(2) refl t]] show ?thesis by auto
qed

theorem network_refines_witness:
  "\<exists>n. net_run sample_hash sample_sodium sample_iterate (new_network 4 1000 4096 50)
     [Join sample_random None (sample_client 1 2 ''bob'' True), ClientReads 0 1000, Typed 0 (SendText ''bob'' [72, 105]), Tick 0] n \<and>
     mail_run sample_sodium sample_iterate 4 no_mail (mail_of n) \<and> list_all is_open (sessions (server n))"
proof -
  obtain n where n: "net_run sample_hash sample_sodium sample_iterate (new_network 4 1000 4096 50)
     [Join sample_random None (sample_client 1 2 ''bob'' True), ClientReads 0 1000, Typed 0 (SendText ''bob'' [72, 105]), Tick 0] n"
    using sample_message by blast
  from network_refines [OF sample_sodium_ok sample_solvable n] n show ?thesis by auto
qed

section \<open>No message is lost\<close>

text \<open>The messages and acknowledgements for a mailbox: all that the clients have sent, and those that have been read, are under way
  or wait.\<close>

definition for_box :: "bytes \<Rightarrow> frame list \<Rightarrow> frame multiset" where
  "for_box m fs = mset (filter (\<lambda>f. fr_mailbox f = m \<and> fr_action f \<noteq> POLL) fs)"

definition sent_to :: "bytes \<Rightarrow> mail \<Rightarrow> frame multiset" where
  "sent_to m M = (\<Sum>l\<leftarrow>m_links M. for_box m (m_sent l))"

definition kept_for :: "bytes \<Rightarrow> mail \<Rightarrow> frame multiset" where
  "kept_for m M = mset (m_boxes M m) + (\<Sum>l\<leftarrow>m_links M. for_box m (ups l @ downs l @ m_received l))"

definition own_box :: "boxes \<Rightarrow> bool" where
  "own_box q \<longleftrightarrow> (\<forall>m. list_all (\<lambda>f. fr_mailbox f = m \<and> fr_action f \<noteq> POLL) (q m))"

lemma for_box_append [simp]: "for_box m (fs @ gs) = for_box m fs + for_box m gs"
  by (simp add: for_box_def)

lemma for_box_Nil [simp]: "for_box m [] = {#}"
  by (simp add: for_box_def)

lemma for_box_Cons: "for_box m (f # fs) = (if fr_mailbox f = m \<and> fr_action f \<noteq> POLL then {#f#} else {#}) + for_box m fs"
  by (simp add: for_box_def)

lemma poll_kept:
  assumes "own_box q" "spec_poll x q = (r, q1)"
  shows "own_box q1" "for_box m [case r of Some g \<Rightarrow> g | None \<Rightarrow> CreatePoll x] + mset (q1 m) = mset (q m)" "length (q1 m) \<le> length (q m)"
proof -
  have o: "list_all (\<lambda>f. fr_mailbox f = x \<and> fr_action f \<noteq> POLL) (q x)" using assms(1) by (simp add: own_box_def)
  show "own_box q1" "for_box m [case r of Some g \<Rightarrow> g | None \<Rightarrow> CreatePoll x] + mset (q1 m) = mset (q m)" "length (q1 m) \<le> length (q m)"
    using assms o by (cases "q x"; auto simp: own_box_def spec_poll_def for_box_Cons)+
qed

lemma push_kept:
  assumes "own_box q" "fr_action f \<noteq> POLL"
  shows "own_box (spec_push cap f q)" "mset (spec_push cap f q m) \<subseteq># mset (q m) + for_box m [f]"
    "length (q m) + size (for_box m [f]) \<le> cap \<Longrightarrow> mset (spec_push cap f q m) = mset (q m) + for_box m [f]"
  using assms by (auto simp: own_box_def spec_push_def for_box_Cons)

lemma relay_frames_kept:
  assumes "relay_frames cap fs q = (gs, q')" "own_box q"
  shows "own_box q' \<and> for_box m gs + mset (q' m) \<subseteq># mset (q m) + for_box m fs \<and>
    (length (q m) + size (for_box m fs) \<le> cap \<longrightarrow> for_box m gs + mset (q' m) = mset (q m) + for_box m fs)"
  using assms
proof (induction fs arbitrary: q gs)
  case (Cons f fs)
  have c: "for_box m (x # xs) = for_box m [x] + for_box m xs" for x xs by (simp add: for_box_Cons)
  show ?case
  proof (cases "fr_action f = POLL")
    case True
    obtain r q1 where r: "spec_poll (fr_mailbox f) q = (r, q1)" by fastforce
    let ?g = "case r of Some g \<Rightarrow> g | None \<Rightarrow> CreatePoll (fr_mailbox f)"
    obtain g1 where g1: "relay_frames cap fs q1 = (g1, q')" "gs = ?g # g1"
      using Cons.prems(1) True r by (auto split: prod.splits)
    note k = poll_kept [OF Cons.prems(2) r]
    have f: "for_box m (f # fs) = for_box m fs" using True by (simp add: for_box_Cons)
    have "mset (q m) + for_box m fs = for_box m [?g] + (mset (q1 m) + for_box m fs)" using k(2) [of m] by (simp add: ac_simps)
    then show ?thesis using Cons.IH [OF g1(1) k(1)] k(3) [of m] unfolding f g1(2) c [of ?g g1] by (auto simp: add.assoc)
  next
    case False
    note k = push_kept [OF Cons.prems(2) False, where cap = cap]
    have IH: "own_box q' \<and> for_box m gs + mset (q' m) \<subseteq># mset (spec_push cap f q m) + for_box m fs \<and>
       (length (spec_push cap f q m) + size (for_box m fs) \<le> cap \<longrightarrow> for_box m gs + mset (q' m) = mset (spec_push cap f q m) + for_box m fs)"
      using Cons.IH [OF _ k(1)] Cons.prems(1) False by simp
    moreover have "mset (spec_push cap f q m) + for_box m fs \<subseteq># mset (q m) + for_box m (f # fs)"
      using k(2) [of m] unfolding c [of f fs] by (simp add: ac_simps subset_mset.add_left_mono)
    moreover have "mset (spec_push cap f q m) = mset (q m) + for_box m [f]" "length (spec_push cap f q m) + size (for_box m fs) \<le> cap"
      if "length (q m) + size (for_box m (f # fs)) \<le> cap"
    proof -
      show e: "mset (spec_push cap f q m) = mset (q m) + for_box m [f]"
        using k(3) [of m] that unfolding c [of f fs] by simp
      show "length (spec_push cap f q m) + size (for_box m fs) \<le> cap"
        using that arg_cong [OF e, of size] unfolding c [of f fs] by simp
    qed
    ultimately show ?thesis unfolding c [of f fs] by (auto simp: add.assoc intro: subset_mset.order_trans)
  qed
qed simp

lemma sum_update:
  fixes g :: "'a \<Rightarrow> 'b :: comm_monoid_add"
  shows "i < length xs \<Longrightarrow> (\<Sum>x\<leftarrow>xs[i := y]. g x) + g (xs ! i) = (\<Sum>x\<leftarrow>xs. g x) + g y"
proof (induction xs arbitrary: i)
  case (Cons x xs)
  then show ?case by (cases i) (simp_all add: ac_simps)
qed simp

definition conserved :: "nat \<Rightarrow> mail \<Rightarrow> bool" where
  "conserved cap M \<longleftrightarrow> own_box (m_boxes M) \<and>
     (\<forall>m. kept_for m M \<subseteq># sent_to m M \<and> (size (sent_to m M) \<le> cap \<longrightarrow> kept_for m M = sent_to m M))"

lemma set_mail_sums:
  assumes "i < length (m_links M)"
  shows "sent_to m (set_mail i l' M) + for_box m (m_sent (m_links M ! i)) = sent_to m M + for_box m (m_sent l')"
    "kept_for m (set_mail i l' (M\<lparr>m_boxes := q\<rparr>)) + mset (m_boxes M m) +
       for_box m (ups (m_links M ! i) @ downs (m_links M ! i) @ m_received (m_links M ! i)) =
     kept_for m M + mset (q m) + for_box m (ups l' @ downs l' @ m_received l')"
proof -
  note u = sum_update [OF assms, of "\<lambda>l. for_box m (m_sent l)" l'] sum_update [OF assms, of "\<lambda>l. for_box m (ups l @ downs l @ m_received l)" l']
  show "sent_to m (set_mail i l' M) + for_box m (m_sent (m_links M ! i)) = sent_to m M + for_box m (m_sent l')"
    using u(1) by (simp add: sent_to_def set_mail_def)
  have "kept_for m (set_mail i l' (M\<lparr>m_boxes := q\<rparr>)) + for_box m (ups (m_links M ! i) @ downs (m_links M ! i) @ m_received (m_links M ! i)) =
      mset (q m) + ((\<Sum>l\<leftarrow>m_links M. for_box m (ups l @ downs l @ m_received l)) + for_box m (ups l' @ downs l' @ m_received l'))"
    unfolding u(2) [symmetric] by (simp add: kept_for_def set_mail_def)
  then show "kept_for m (set_mail i l' (M\<lparr>m_boxes := q\<rparr>)) + mset (m_boxes M m) +
       for_box m (ups (m_links M ! i) @ downs (m_links M ! i) @ m_received (m_links M ! i)) =
     kept_for m M + mset (q m) + for_box m (ups l' @ downs l' @ m_received l')"
    by (simp add: kept_for_def ac_simps)
qed

text \<open>A connection changes without the mailboxes.\<close>

lemma set_mail_kept:
  assumes "i < length (m_links M)"
    and "for_box m (ups l' @ downs l' @ m_received l') = for_box m (ups (m_links M ! i) @ downs (m_links M ! i) @ m_received (m_links M ! i)) + x"
  shows "kept_for m (set_mail i l' M) = kept_for m M + x"
proof -
  have "M\<lparr>m_boxes := m_boxes M\<rparr> = M" by simp
  then show ?thesis using set_mail_sums(2) [OF assms(1), of m l' "m_boxes M"] assms(2) by (simp add: ac_simps)
qed

lemma set_mail_sent:
  assumes "i < length (m_links M)" "for_box m (m_sent l') = for_box m (m_sent (m_links M ! i)) + x"
  shows "sent_to m (set_mail i l' M) = sent_to m M + x"
  using set_mail_sums(1) [OF assms(1), of m l'] assms(2) by (simp add: ac_simps)

lemma set_mail_boxes [simp]: "m_boxes (set_mail i l M) = m_boxes M"
  by (simp add: set_mail_def)

lemma link_kept:
  assumes "i < length (m_links M)"
  shows "mset (m_boxes M m) + for_box m (ups (m_links M ! i) @ downs (m_links M ! i) @ m_received (m_links M ! i)) \<subseteq># kept_for m M"
  using set_mail_sums(2) [OF assms, of m "(m_links M ! i)\<lparr>ups := [], downs := [], m_received := []\<rparr>" "\<lambda>_. []"]
  by (simp add: add.assoc) (metis mset_subset_eq_add_right)

lemma balance: "K' + X = K + Y \<Longrightarrow> Y \<subseteq># X \<Longrightarrow> K' \<subseteq># (K :: 'a multiset)"
proof -
  assume "K' + X = K + Y" "Y \<subseteq># X"
  moreover from this(2) obtain Z where "X = Y + Z" using mset_subset_eq_exists_conv by metis
  ultimately have "K' + Z = K" by simp
  then show "K' \<subseteq># K" by (metis mset_subset_eq_add_left)
qed

lemma conserved_same:
  assumes "conserved cap M" "\<And>m. kept_for m M' = kept_for m M + x m" "\<And>m. sent_to m M' = sent_to m M + x m" "m_boxes M' = m_boxes M"
  shows "conserved cap M'"
  using assms by (auto simp: conserved_def)

lemma conserved_relay:
  assumes ok: "conserved cap M" and i: "i < length (m_links M)" and l: "ups (m_links M ! i) = fs @ rest"
    and r: "relay_frames cap fs (m_boxes M) = (gs, q)"
  defines "M' \<equiv> set_mail i ((m_links M ! i)\<lparr>ups := rest, downs := downs (m_links M ! i) @ gs\<rparr>) (M\<lparr>m_boxes := q\<rparr>)"
  shows "conserved cap M' \<and> sent_to m M' = sent_to m M"
proof -
  have s: "sent_to m M' = sent_to m M" for m
    using set_mail_sent [of i "M\<lparr>m_boxes := q\<rparr>" m _ "{#}"] i by (simp add: M'_def) (simp add: sent_to_def)
  have "own_box (m_boxes M)" using ok by (simp add: conserved_def)
  note k = relay_frames_kept [OF r this]
  have b: "kept_for m M' + (mset (m_boxes M m) + for_box m fs) = kept_for m M + (for_box m gs + mset (q m))" for m
    using set_mail_sums(2) [OF i, of m "(m_links M ! i)\<lparr>ups := rest, downs := downs (m_links M ! i) @ gs\<rparr>" q] l
    by (simp add: M'_def ac_simps)
  have le: "kept_for m M' \<subseteq># kept_for m M" for m using balance [OF b] k by blast
  have eq: "kept_for m M' = kept_for m M" if "size (kept_for m M) \<le> cap" for m
  proof -
    have "mset (m_boxes M m) + for_box m fs \<subseteq># kept_for m M" using link_kept [OF i, of m] l
      by (auto simp: add.assoc [symmetric] intro: subset_mset.order_trans [rotated])
    from size_mset_mono [OF this] have "length (m_boxes M m) + size (for_box m fs) \<le> cap" using that by simp
    then show ?thesis using k b [of m] by simp
  qed
  have "kept_for m M' \<subseteq># sent_to m M' \<and> (size (sent_to m M') \<le> cap \<longrightarrow> kept_for m M' = sent_to m M')" for m
    unfolding s using subset_mset.order_trans [OF le] eq ok by (simp add: conserved_def)
  moreover have "own_box (m_boxes M')" using k by (simp add: M'_def)
  ultimately have "conserved cap M'" unfolding conserved_def by blast
  then show ?thesis using s by blast
qed

lemma mail_step_conserved:
  assumes "mail_step lib iterate cap M M'" "conserved cap M"
  shows "conserved cap M' \<and> size (sent_to m M') \<le> Suc (size (sent_to m M))"
  using assms(1)
proof cases
  case (relay i l fs rest gs q)
  then show ?thesis using conserved_relay [OF assms(2), of i fs rest gs q m] by simp
next
  case (arrive s)
  then have "kept_for m M' = kept_for m M + {#}" "sent_to m M' = sent_to m M + {#}" for m by (simp_all add: kept_for_def sent_to_def)
  then show ?thesis using conserved_same [OF assms(2), of M' "\<lambda>_. {#}"] arrive by simp
next
  case (send i l f s)
  then have e: "kept_for m M' = kept_for m M + for_box m [f]" "sent_to m M' = sent_to m M + for_box m [f]" for m
    using set_mail_kept [of i M m _ "for_box m [f]"] set_mail_sent [of i M m _ "for_box m [f]"] by (simp_all add: ac_simps)
  have "size (for_box m [f]) \<le> 1" by (simp add: for_box_Cons)
  then show ?thesis using conserved_same [OF assms(2) e] send e(2) by simp
next
  case (enter i l c)
  then have "kept_for m M' = kept_for m M + {#}" "sent_to m M' = sent_to m M + {#}" for m
    using set_mail_kept [of i M m _ "{#}"] set_mail_sent [of i M m _ "{#}"] by simp_all
  then show ?thesis using conserved_same [OF assms(2), of M' "\<lambda>_. {#}"] enter by simp
next
  case (authenticate i l)
  then have "kept_for m M' = kept_for m M + {#}" "sent_to m M' = sent_to m M + {#}" for m
    using set_mail_kept [of i M m _ "{#}"] set_mail_sent [of i M m _ "{#}"] by simp_all
  then show ?thesis using conserved_same [OF assms(2), of M' "\<lambda>_. {#}"] authenticate by simp
next
  case (receive i l gs rest)
  then have "kept_for m M' = kept_for m M + {#}" "sent_to m M' = sent_to m M + {#}" for m
    using set_mail_kept [of i M m _ "{#}"] set_mail_sent [of i M m _ "{#}"] by (simp_all add: ac_simps)
  then show ?thesis using conserved_same [OF assms(2), of M' "\<lambda>_. {#}"] receive by simp
qed (use assms(2) in simp)

lemma no_mail_conserved: "conserved cap no_mail" "sent_to m no_mail = {#}"
  by (simp_all add: conserved_def no_mail_def kept_for_def sent_to_def own_box_def)

lemma net_run_conserved:
  assumes "net_run H lib iterate n es n'" "sodium_ok lib" "solvable H" "net_ok H lib cap n" "conserved cap (mail_of n)"
  shows "conserved cap (mail_of n') \<and> size (sent_to m (mail_of n')) \<le> size (sent_to m (mail_of n)) + length es"
  using assms
proof induction
  case (More n es n' e n'')
  have "net_ok H lib cap n'" using net_run_sim [OF More(1)] More.prems by blast
  then have "mail_step lib iterate cap (mail_of n') (mail_of n'')" using net_step_sim More(2) More.prems by blast
  from mail_step_conserved [OF this, of m] More.IH More.prems show ?case by auto
qed simp

text \<open>C2: no message is lost and none is made up.  In a network that has come about from an idle relay, the messages and acknowledgements
  for a mailbox that clients have read, that wait or are under way are among those that the clients have sent, each as often; and
  they are all of them as long as no more have been sent than the mailbox has room for.\<close>

theorem no_message_lost:
  assumes "sodium_ok lib" "solvable H" "net_run H lib iterate (new_network cap pages pageSize pct) es n"
  shows "kept_for m (mail_of n) \<subseteq># sent_to m (mail_of n) \<and>
    (size (sent_to m (mail_of n)) \<le> unat cap \<longrightarrow> kept_for m (mail_of n) = sent_to m (mail_of n))"
  using net_run_conserved [OF assms(3,1,2) new_network_ok(1)] no_mail_conserved(1)
  by (simp add: new_network_ok(2) conserved_def)

theorem no_message_lost_witness:
  "\<exists>n. net_run sample_hash sample_sodium sample_iterate (new_network 4 1000 4096 50)
     [Join sample_random None (sample_client 1 2 ''bob'' True), ClientReads 0 1000, Typed 0 (SendText ''bob'' [72, 105]), Tick 0] n \<and>
     (\<forall>m. kept_for m (mail_of n) = sent_to m (mail_of n))"
proof -
  obtain n where n: "net_run sample_hash sample_sodium sample_iterate (new_network 4 1000 4096 50)
     [Join sample_random None (sample_client 1 2 ''bob'' True), ClientReads 0 1000, Typed 0 (SendText ''bob'' [72, 105]), Tick 0] n"
    using sample_message by blast
  have "size (sent_to m (mail_of n)) \<le> unat (4 :: 32 word)" for m
    using net_run_conserved [OF n sample_sodium_ok sample_solvable new_network_ok(1), of m] no_mail_conserved
    by (simp add: new_network_ok(2))
  with no_message_lost [OF sample_sodium_ok sample_solvable n] n show ?thesis by blast
qed

end
