(* ===== verification/Spec2Isabelle.thy ===== *)
theory Spec2Isabelle
  imports NetProps Patch SdkProps TrafficAnalysis LatencyAnalysis Interop Contacts NetworkProps
begin

text \<open>
  \<^bold>\<open>The development of blank-chat.\<close>  The repository holds a messenger in C++ (\<^verbatim>\<open>src/libs\<close>, \<^verbatim>\<open>src/apps\<close>), Python
  benchmarks that drive it (\<^verbatim>\<open>src/benchmarks\<close>) and Python scripts that build it (\<^verbatim>\<open>src/scripts\<close>).  Clients exchange encrypted
  messages through a relay that is an onion service.  A client authenticates with a proof of work, pushes frames to
  mailboxes and polls its own ones, one frame at each tick of a timer, and every frame fills whole cells of the anonymity network.  The
  relay stores the frames of a mailbox in a bounded queue.  The mailboxes and keys of two contacts are replaced by key
  rotations.

  \<^bold>\<open>Foundations.\<close>  \<^verbatim>\<open>Prelude\<close> has bytes, integer codecs and list facts.  \<^verbatim>\<open>PyIO\<close> is the monad of Python statements, with
  outcomes value, exception and divergence and the program logic for it; \<^verbatim>\<open>PyStr\<close>, \<^verbatim>\<open>PyPath\<close>, \<^verbatim>\<open>PyFloat\<close>, \<^verbatim>\<open>PyJson\<close> and
  \<^verbatim>\<open>ArgParse\<close> model what the sources use of the standard library.  Floating-point numbers are reals that each operation rounds.

  \<^bold>\<open>The wire protocol and the relay.\<close>
  \<^item> \<^verbatim>\<open>Protocol\<close>: frames and the frame parser (\<^verbatim>\<open>libs/protocol\<close>).  The parser is shown to implement \<^verbatim>\<open>decode\<close>, which reads
    the frames of a byte string, for every segmentation.
  \<^item> \<^verbatim>\<open>CppStrings\<close>: hexadecimal text and JSON escapes (\<^verbatim>\<open>libs/core/src/string_utils.cpp\<close>).
  \<^item> \<^verbatim>\<open>Broker\<close>: \<^verbatim>\<open>message_broker.cpp\<close>, and the locale \<^verbatim>\<open>frame_handler\<close>, the contract between sessions and message store, with
    its interpretations on the broker and on plain lists.
  \<^item> \<^verbatim>\<open>RelaySession\<close>: \<^verbatim>\<open>tcp_session.cpp\<close>, with the completion handlers as functions on the session record; a session does with the
    bytes of its client what \<^verbatim>\<open>serve\<close> does with the frames in them.
  \<^item> \<^verbatim>\<open>Relay\<close>, \<^verbatim>\<open>RelayProps\<close>: \<^verbatim>\<open>tcp_server.cpp\<close> and \<^verbatim>\<open>memory_monitor.cpp\<close> as a step relation on the events of the event loop.
    The server refines a machine of connections and mailboxes; it serves nobody who has not solved the challenge, delivers in order,
    and accepts nobody over its memory quota.

  \<^bold>\<open>The client.\<close>
  \<^item> \<^verbatim>\<open>Cipher\<close>: padding and encryption, payload formats and the derivation of mailboxes (\<^verbatim>\<open>libs/crypto\<close>,
    \<^verbatim>\<open>payload_formatter.cpp\<close>).  The functions of libsodium are the record \<^verbatim>\<open>sodium\<close>; \<^verbatim>\<open>sodium_ok\<close>, \<^verbatim>\<open>rng_ok\<close> and \<^verbatim>\<open>identity_ok\<close>
    state what its documentation promises, and \<^verbatim>\<open>sample_sodium\<close> satisfies them.
  \<^item> \<^verbatim>\<open>Bip39Words\<close>, \<^verbatim>\<open>Bip39\<close>: the word list and \<^verbatim>\<open>bip39.cpp\<close>; decoding accepts exactly what encoding makes.
  \<^item> \<^verbatim>\<open>Cache\<close>: \<^verbatim>\<open>conversation_cache.cpp\<close>; the JSON parser is the argument \<^verbatim>\<open>iterate\<close>, \<^verbatim>\<open>reads_json\<close> says that it reads
    the lines the cache writes.
  \<^item> \<^verbatim>\<open>Messenger\<close>: the address book, the text of the contacts file and the handlers of \<^verbatim>\<open>repl.cpp\<close> as functions on the record
    \<^verbatim>\<open>Repl\<close>; \<^verbatim>\<open>traversal\<close> is the unspecified order of the hash table.  \<^verbatim>\<open>MessengerLogic\<close> has the lemmas on handlers,
    \<^verbatim>\<open>MessengerProps\<close> the properties of two clients: rotations agree, messages are acknowledged, crossing rotations diverge.
  \<^item> \<^verbatim>\<open>Contacts\<close>: two users who exchange mnemonics get mailboxes and keys that fit together, whatever contacts they have already.
  \<^item> \<^verbatim>\<open>ClientRuns\<close>: runs of one client with any input, by the locale \<^verbatim>\<open>run_invariant\<close>: whole cells, signed changes of keys, a
    contacts file that is current.  Texts have at most \<^verbatim>\<open>longest_text\<close> bytes, the longest for which the relay takes the frame.
  \<^item> \<^verbatim>\<open>ClientNet\<close>: \<^verbatim>\<open>tcp_client.cpp\<close>, the negotiation with the Tor proxy and the asynchronous engine.  The search for a nonce is a
    partial function; it is shown to end when a 64-bit nonce solves the challenge, and otherwise the handler does not return.  What the client answers is judged by the check of the relay.
  \<^item> \<^verbatim>\<open>Network\<close>, \<^verbatim>\<open>NetworkProps\<close>: any number of clients with the relay.  Joining, typing, ticks, completed writes
    and reads of any number of bytes come in any order; the whole refines a network of mailboxes, nothing is lost that a
    mailbox has room for, and every read handler returns.  The handlers of one client do not overlap.

  \<^bold>\<open>The benchmarks.\<close>
  \<^item> \<^verbatim>\<open>Net\<close>, \<^verbatim>\<open>NetLogic\<close>: sockets, clock and entropy of the Python clients, with a logic for loops that wait for a deadline.
  \<^item> \<^verbatim>\<open>Returns\<close>: statements that always return, one rule for each combinator and primitive.
  \<^item> \<^verbatim>\<open>Frame\<close>, \<^verbatim>\<open>Socks\<close>, \<^verbatim>\<open>Pow\<close>, \<^verbatim>\<open>AuthTest\<close>, \<^verbatim>\<open>LoadGen\<close>, \<^verbatim>\<open>NetProps\<close>: framing, SOCKS5, the proof of work,
    \<^verbatim>\<open>BT-01/auth_test.py\<close> and \<^verbatim>\<open>BT-03/loadgen.py\<close>, with the verdicts they give and the end of their waits.
  \<^item> \<^verbatim>\<open>Interop\<close>: the authentication test against the C++ relay agrees with it on every byte.
  \<^item> \<^verbatim>\<open>TrafficAnalysis\<close>, \<^verbatim>\<open>LatencyAnalysis\<close>: the statistics of \<^verbatim>\<open>BT-04/analyze.py\<close> and the validation and clock correction of
    \<^verbatim>\<open>BT-06/analyze.py\<close>, with rounding errors.
  \<^item> \<^verbatim>\<open>Fragments\<close>, \<^verbatim>\<open>Patch\<close>: the three \<^verbatim>\<open>apply_diagnostics.py\<close> scripts on the text of the sources they patch.

  \<^bold>\<open>The scripts.\<close>  \<^verbatim>\<open>Host\<close> and \<^verbatim>\<open>HostLogic\<close> model the file system, the environment and the programs that scripts start, which
  are an argument.  \<^verbatim>\<open>ScriptUtils\<close>, \<^verbatim>\<open>BuildScripts\<close>, \<^verbatim>\<open>SdkScripts\<close> and \<^verbatim>\<open>SdkProps\<close> are \<^verbatim>\<open>src/scripts\<close>: what each script runs, in
  which order, that a failed command is the last one but for the one query that may fail, and what is published, fetched and installed.

  \<^bold>\<open>Bounds and fuel.\<close>  Fuel bounds two loops of the benchmark clients: the polling loop \<^verbatim>\<open>poll_until\<close> of \<^verbatim>\<open>Net\<close>, which waits
  for a rejection, and the rounds of the load phase in \<^verbatim>\<open>LoadGen\<close>; when it runs out the outcome is \<^verbatim>\<open>Diverge\<close>, never a value.  For the wait it
  is enough that the fuel exceeds the number of clock readings before the deadline, and \<^verbatim>\<open>wait_for_rejection_terminates\<close> shows that
  the loop then ends.  The load phase stops at a confirmed rejection or at the configured number of
  bytes, and every round sends at least one byte: fuel above that number is enough, and \<^verbatim>\<open>load_main_rejection\<close> includes that the
  whole run then ends, given that the sockets have timeouts.
  The search for a nonce in \<^verbatim>\<open>ClientNet\<close> is a partial function without fuel.  Every other loop is structural or has a termination proof by a
  measure.  Payload sizes, quotas, nonces and lengths of the C++ code keep their machine width where it matters.

  \<^bold>\<open>Not modelled.\<close>  Console input and output of the command loop, reading the contacts file and the identity file back (calls of
  the JSON library), configuration files (calls of toml++), the distribution of the tick intervals, memory wiping, logging, the Tor control
  connection, the entry points with their system calls, the orchestrators of the benchmarks with the virtual machines, plots
  and statistics on top of pandas and scipy, shell scripts, and the recipes of the operating system layer.  The command loop and
  the network thread of a client are interleaved handler by handler; that the code shares data between them without a lock is not
  represented.
\<close>

end
